(* ===== verification/CF_Prelude.thy ===== *)
theory CF_Prelude
  imports
    Complex_Main
    "HOL-Library.Monad_Syntax"
    "HOL-Library.Product_Lexorder"
begin

text \<open>
  Shared ground of the development: the meaning given to the Rust that every component
  uses.

  \<^item> A computation that can panic has type \<open>'a option\<close>; \<open>None\<close> is the panic. A Rust
    \<open>Result\<close> is a sum (\<open>Inl\<close> the error), so a function that can do both returns
    \<open>('e + 'a) option\<close>.
  \<^item> Unsigned integers are natural numbers. Every operation that can leave the width of
    its type is one of the checked, saturating or wrapping operations below; the width in
    bits is their first argument. The big integers \<open>U256\<close> and \<open>U512\<close> panic on overflow
    in every build. For the primitive types the model panics too, so a theorem that an
    operation returns \<open>Some\<close> shows that the wrap-around of a release build never occurs.
  \<^item> A \<open>BTreeMap\<close> is an association list kept in strictly increasing key order.
\<close>

named_theorems checked_simps \<open>definitions of the checked integer operations\<close>

section \<open>Panics and results\<close>

definition assert_that :: "bool \<Rightarrow> unit option" where
  "assert_that b = (if b then Some () else None)"

lemma assert_that_Some [simp]: "assert_that b = Some u \<longleftrightarrow> b"
  by (simp add: assert_that_def)

lemma assert_that_True [simp]: "assert_that True = Some ()"
  by (simp add: assert_that_def)

lemma assert_that_False [simp]: "assert_that False = None"
  by (simp add: assert_that_def)

lemma assert_that_None [simp]: "assert_that b = None \<longleftrightarrow> \<not> b"
  by (simp add: assert_that_def)

text \<open>\<open>iter().map(f).collect()\<close> and \<open>iter().fold(a, f)\<close> for a closure that can panic.\<close>

fun mapM :: "('a \<Rightarrow> 'b option) \<Rightarrow> 'a list \<Rightarrow> 'b list option" where
  "mapM f [] = Some []"
| "mapM f (x # xs) = do { y \<leftarrow> f x; ys \<leftarrow> mapM f xs; Some (y # ys) }"

fun foldM :: "('a \<Rightarrow> 's \<Rightarrow> 's option) \<Rightarrow> 'a list \<Rightarrow> 's \<Rightarrow> 's option" where
  "foldM f [] s = Some s"
| "foldM f (x # xs) s = do { s' \<leftarrow> f x s; foldM f xs s' }"

lemma mapM_SomeI:
  assumes "\<And>x. x \<in> set xs \<Longrightarrow> \<exists>y. f x = Some y"
  shows "\<exists>ys. mapM f xs = Some ys"
  using assms by (induction xs) fastforce+

lemma mapM_cong [fundef_cong]:
  "xs = ys \<Longrightarrow> (\<And>x. x \<in> set ys \<Longrightarrow> f x = g x) \<Longrightarrow> mapM f xs = mapM g ys"
  by (induction ys arbitrary: xs) auto

lemma mapM_length: "mapM f xs = Some ys \<Longrightarrow> length ys = length xs"
  by (induction xs arbitrary: ys) (auto split: bind_splits)

lemma foldM_append:
  "foldM f (xs @ ys) s = do { s' \<leftarrow> foldM f xs s; foldM f ys s' }"
  by (induction xs arbitrary: s) (auto split: bind_splits)

lemma foldM_invariant:
  assumes "foldM f xs s = Some s'" and "I s"
    and "\<And>x s s'. x \<in> set xs \<Longrightarrow> I s \<Longrightarrow> f x s = Some s' \<Longrightarrow> I s'"
  shows "I s'"
  using assms
proof (induction xs arbitrary: s)
  case (Cons x xs)
  then obtain t where "f x s = Some t" "foldM f xs t = Some s'" by (auto split: bind_splits)
  with Cons show ?case by (meson list.set_intros)
qed simp

lemma foldM_SomeI:
  assumes "I s"
    and "\<And>x s. x \<in> set xs \<Longrightarrow> I s \<Longrightarrow> \<exists>s'. f x s = Some s' \<and> I s'"
  shows "\<exists>s'. foldM f xs s = Some s' \<and> I s'"
  using assms
proof (induction xs arbitrary: s)
  case Nil
  then show ?case by simp
next
  case (Cons x xs)
  from Cons.prems obtain t where "f x s = Some t" "I t" by (meson list.set_intros(1))
  then show ?case using Cons.IH [of t] Cons.prems(2) by auto
qed

section \<open>Integers of a fixed width\<close>

definition umax :: "nat \<Rightarrow> nat" where
  "umax w = 2 ^ w - 1"

definition uadd :: "nat \<Rightarrow> nat \<Rightarrow> nat \<Rightarrow> nat option" where
  [checked_simps]: "uadd w a b = (if a + b < 2 ^ w then Some (a + b) else None)"

definition usub :: "nat \<Rightarrow> nat \<Rightarrow> nat option" where
  [checked_simps]: "usub a b = (if b \<le> a then Some (a - b) else None)"

definition umul :: "nat \<Rightarrow> nat \<Rightarrow> nat \<Rightarrow> nat option" where
  [checked_simps]: "umul w a b = (if a * b < 2 ^ w then Some (a * b) else None)"

definition udiv :: "nat \<Rightarrow> nat \<Rightarrow> nat option" where
  [checked_simps]: "udiv a b = (if b = 0 then None else Some (a div b))"

text \<open>\<open>try_into().unwrap()\<close> into a type of \<open>w\<close> bits, and \<open>as_u128\<close>, \<open>as_u32\<close>.\<close>

definition uconv :: "nat \<Rightarrow> nat \<Rightarrow> nat option" where
  [checked_simps]: "uconv w a = (if a < 2 ^ w then Some a else None)"

definition usat_add :: "nat \<Rightarrow> nat \<Rightarrow> nat \<Rightarrow> nat" where
  "usat_add w a b = min (a + b) (umax w)"

definition usat_mul :: "nat \<Rightarrow> nat \<Rightarrow> nat \<Rightarrow> nat" where
  "usat_mul w a b = min (a * b) (umax w)"

text \<open>Shifts: bits pushed past the width are lost.\<close>

definition ushl :: "nat \<Rightarrow> nat \<Rightarrow> nat \<Rightarrow> nat" where
  [checked_simps]: "ushl w x k = take_bit w (push_bit k x)"

definition ushr :: "nat \<Rightarrow> nat \<Rightarrow> nat" where
  [checked_simps]: "ushr x k = drop_bit k x"

text \<open>Signed integers: \<open>checked_*\<close> on \<open>w\<close>-bit two's complement.\<close>

definition iconv :: "nat \<Rightarrow> int \<Rightarrow> int option" where
  [checked_simps]: "iconv w i = (if - (2 ^ (w - 1)) \<le> i \<and> i < 2 ^ (w - 1) then Some i else None)"

definition isat :: "nat \<Rightarrow> int \<Rightarrow> int" where
  "isat w i = max (- (2 ^ (w - 1))) (min i (2 ^ (w - 1) - 1))"

text \<open>\<open>u128::checked_add_signed\<close>.\<close>

definition uadd_signed :: "nat \<Rightarrow> nat \<Rightarrow> int \<Rightarrow> nat option" where
  [checked_simps]: "uadd_signed w a d =
    (if 0 \<le> int a + d \<and> int a + d < 2 ^ w then Some (nat (int a + d)) else None)"

text \<open>\<open>x as i32\<close> for an unsigned \<open>x\<close>: the low 32 bits read as two's complement.\<close>

definition as_signed :: "nat \<Rightarrow> nat \<Rightarrow> int" where
  "as_signed w x = (let y = x mod 2 ^ w in if y < 2 ^ (w - 1) then int y else int y - 2 ^ w)"

fun bit_len :: "nat \<Rightarrow> nat" where
  "bit_len n = (if n = 0 then 0 else Suc (bit_len (n div 2)))"

declare bit_len.simps [simp del]

definition leading_zeros :: "nat \<Rightarrow> nat \<Rightarrow> nat" where
  "leading_zeros w x = w - bit_len x"

lemma uadd_Some [simp]: "uadd w a b = Some c \<longleftrightarrow> c = a + b \<and> c < 2 ^ w"
  by (auto simp: uadd_def)

lemma usub_Some [simp]: "usub a b = Some c \<longleftrightarrow> b \<le> a \<and> c = a - b"
  by (auto simp: usub_def)

lemma umul_Some [simp]: "umul w a b = Some c \<longleftrightarrow> c = a * b \<and> c < 2 ^ w"
  by (auto simp: umul_def)

lemma udiv_Some [simp]: "udiv a b = Some c \<longleftrightarrow> b \<noteq> 0 \<and> c = a div b"
  by (auto simp: udiv_def)

lemma uconv_Some [simp]: "uconv w a = Some c \<longleftrightarrow> c = a \<and> a < 2 ^ w"
  by (auto simp: uconv_def)

lemma iconv_Some [simp]:
  "iconv w i = Some j \<longleftrightarrow> j = i \<and> - (2 ^ (w - 1)) \<le> i \<and> i < 2 ^ (w - 1)"
  by (auto simp: iconv_def)

lemma uadd_signed_Some [simp]:
  "uadd_signed w a d = Some c \<longleftrightarrow> int c = int a + d \<and> int a + d < 2 ^ w"
  by (auto simp: uadd_signed_def)

lemma usat_add_less [simp]: "usat_add w a b < 2 ^ w"
  by (simp add: usat_add_def umax_def min_less_iff_disj)

lemma usat_add_ge: "a < 2 ^ w \<Longrightarrow> a \<le> usat_add w a b"
  by (simp add: usat_add_def umax_def)

lemma usat_add_le: "usat_add w a b \<le> a + b"
  by (simp add: usat_add_def)

lemma usat_add_exact: "a + b < 2 ^ w \<Longrightarrow> usat_add w a b = a + b"
  by (simp add: usat_add_def umax_def)

lemma ushl_eq: "ushl w x k = (x * 2 ^ k) mod 2 ^ w"
  by (simp add: ushl_def take_bit_eq_mod push_bit_eq_mult)

lemma ushl_exact: "x * 2 ^ k < 2 ^ w \<Longrightarrow> ushl w x k = x * 2 ^ k"
  by (simp add: ushl_eq)

lemma ushr_eq: "ushr x k = x div 2 ^ k"
  by (simp add: ushr_def drop_bit_eq_div)

text \<open>Division rounded up, and the two ways to compare a rounded quotient.\<close>

definition div_ceil :: "nat \<Rightarrow> nat \<Rightarrow> nat" where
  "div_ceil x c = x div c + (if x mod c = 0 then 0 else 1)"

lemma le_div_iff: "0 < c \<Longrightarrow> r \<le> x div c \<longleftrightarrow> r * c \<le> (x::nat)"
  by (simp add: less_eq_div_iff_mult_less_eq)

lemma div_ceil_le_iff:
  assumes "0 < c"
  shows "div_ceil x c \<le> r \<longleftrightarrow> x \<le> r * c"
proof
  assume "div_ceil x c \<le> r"
  then have "div_ceil x c * c \<le> r * c" by simp
  moreover have "x \<le> div_ceil x c * c"
  proof (cases "x mod c = 0")
    case False
    have "x mod c < c" using assms by simp
    with div_mult_mod_eq [of x c] have "x \<le> x div c * c + c" by linarith
    then show ?thesis using False by (simp add: div_ceil_def add_mult_distrib)
  qed (auto simp: div_ceil_def)
  ultimately show "x \<le> r * c" by linarith
next
  assume le: "x \<le> r * c"
  show "div_ceil x c \<le> r"
  proof (cases "x mod c = 0")
    case True
    then show ?thesis using le assms by (auto simp: div_ceil_def div_le_mono dest: div_le_mono [where k = c])
  next
    case False
    then have "x \<noteq> r * c" by auto
    with le have "x < r * c" by simp
    then have "x div c < r" using assms by (simp add: div_less_iff_less_mult)
    with False show ?thesis by (simp add: div_ceil_def)
  qed
qed

lemma div_ceil_mult_ge: "0 < c \<Longrightarrow> x \<le> div_ceil x c * c"
  using div_ceil_le_iff by blast

lemma less_div_ceil_iff: "0 < c \<Longrightarrow> r < div_ceil x c \<longleftrightarrow> r * c < x"
  using div_ceil_le_iff [of c x r] by linarith

lemma div_le_div_ceil: "x div c \<le> div_ceil x c"
  by (simp add: div_ceil_def)

lemma div_ceil_le_Suc_div: "div_ceil x c \<le> Suc (x div c)"
  by (simp add: div_ceil_def)

lemma div_ceil_mono: "x \<le> y \<Longrightarrow> 0 < c \<Longrightarrow> div_ceil x c \<le> div_ceil y c"
  by (metis div_ceil_le_iff order.refl order.trans)

lemma real_div_ceil_ge: "0 < c \<Longrightarrow> real x / real c \<le> real (div_ceil x c)"
  using div_ceil_mult_ge [of c x]
  by (simp add: pos_divide_le_eq del: of_nat_mult flip: of_nat_mult)

lemma real_div_ceil_less: "0 < c \<Longrightarrow> real (div_ceil x c) < real x / real c + 1"
proof -
  assume c: "0 < c"
  have "div_ceil x c - 1 < div_ceil x c \<or> div_ceil x c = 0" by auto
  then show ?thesis
  proof
    assume "div_ceil x c - 1 < div_ceil x c"
    then have "(div_ceil x c - 1) * c < x" using less_div_ceil_iff [OF c] by blast
    then have "real (div_ceil x c - 1) * real c < real x" by (metis of_nat_less_iff of_nat_mult)
    then have "real (div_ceil x c - 1) < real x / real c" using c by (simp add: pos_less_divide_eq)
    then show ?thesis by linarith
  next
    assume "div_ceil x c = 0"
    then show ?thesis using c by (simp add: add_nonneg_pos)
  qed
qed

lemma real_div_le: "real (x div c) \<le> real x / real c"
  by (rule of_nat_div_le_of_nat)

lemma real_div_greater: "0 < c \<Longrightarrow> real x / real c - 1 < real (x div c)"
proof -
  assume c: "0 < c"
  have "x < Suc (x div c) * c" using c by (simp add: dividend_less_div_times)
  then have "real x < real (Suc (x div c)) * real c" by (metis of_nat_less_iff of_nat_mult)
  then have "real x / real c < real (Suc (x div c))" using c by (simp add: pos_divide_less_eq)
  then show ?thesis by simp
qed

lemma bit_len_0 [simp]: "bit_len 0 = 0"
  by (simp add: bit_len.simps)

lemma bit_len_bounds: "0 < n \<Longrightarrow> 2 ^ (bit_len n - 1) \<le> n \<and> n < 2 ^ bit_len n"
proof (induction n rule: bit_len.induct)
  case (1 n)
  show ?case
  proof (cases "n div 2 = 0")
    case True
    with "1.prems" have "n = 1" by simp
    then show ?thesis by (simp add: bit_len.simps)
  next
    case False
    with "1.IH" "1.prems" have IH: "2 ^ (bit_len (n div 2) - 1) \<le> n div 2" "n div 2 < 2 ^ bit_len (n div 2)"
      by auto
    from False have "0 < bit_len (n div 2)" by (subst bit_len.simps) simp
    then have "2 ^ bit_len (n div 2) = 2 * (2::nat) ^ (bit_len (n div 2) - 1)"
      by (metis Suc_diff_1 power_Suc)
    moreover have "bit_len n = Suc (bit_len (n div 2))"
      using "1.prems" by (subst bit_len.simps) simp
    moreover have "2 * (n div 2) \<le> n" "n < 2 * (n div 2) + 2" by simp_all
    ultimately show ?thesis using IH by (simp del: One_nat_def) linarith
  qed
qed

lemma bit_len_le_iff: "bit_len n \<le> k \<longleftrightarrow> n < 2 ^ k"
proof (cases "n = 0")
  case False
  then have b: "2 ^ (bit_len n - 1) \<le> n" "n < 2 ^ bit_len n" using bit_len_bounds by auto
  show ?thesis
  proof
    assume "bit_len n \<le> k"
    then have "(2::nat) ^ bit_len n \<le> 2 ^ k" by (simp add: power_increasing)
    with b(2) show "n < 2 ^ k" by linarith
  next
    assume "n < 2 ^ k"
    with b(1) have "(2::nat) ^ (bit_len n - 1) < 2 ^ k" by linarith
    then have "bit_len n - 1 < k" by (simp add: power_strict_increasing_iff)
    then show "bit_len n \<le> k" by simp
  qed
qed simp

lemma bit_len_eqI: "2 ^ k \<le> n \<Longrightarrow> n < 2 ^ Suc k \<Longrightarrow> bit_len n = Suc k"
  by (metis bit_len_le_iff le_Suc_eq not_less)

section \<open>BTreeMap\<close>

text \<open>
  The interface the pools rely on. \<open>first\<close> and \<open>last\<close> are \<open>first_entry\<close> and
  \<open>last_entry\<close>; \<open>entries\<close> is the order in which \<open>iter\<close> visits the map.
\<close>

type_synonym ('k, 'v) btree_map = "('k \<times> 'v) list"

definition bt_wf :: "('k::linorder, 'v) btree_map \<Rightarrow> bool" where
  "bt_wf m \<longleftrightarrow> sorted_wrt (<) (map fst m)"

definition bt_get :: "('k::linorder, 'v) btree_map \<Rightarrow> 'k \<Rightarrow> 'v option" where
  "bt_get m k = map_of m k"

fun bt_insert :: "'k::linorder \<Rightarrow> 'v \<Rightarrow> ('k, 'v) btree_map \<Rightarrow> ('k, 'v) btree_map" where
  "bt_insert k v [] = [(k, v)]"
| "bt_insert k v ((k', v') # m) =
     (if k < k' then (k, v) # (k', v') # m
      else if k = k' then (k, v) # m
      else (k', v') # bt_insert k v m)"

definition bt_remove :: "'k::linorder \<Rightarrow> ('k, 'v) btree_map \<Rightarrow> ('k, 'v) btree_map" where
  "bt_remove k m = filter (\<lambda>(k', v). k' \<noteq> k) m"

definition bt_first :: "('k, 'v) btree_map \<Rightarrow> ('k \<times> 'v) option" where
  "bt_first m = (case m of [] \<Rightarrow> None | e # _ \<Rightarrow> Some e)"

definition bt_last :: "('k, 'v) btree_map \<Rightarrow> ('k \<times> 'v) option" where
  "bt_last m = (if m = [] then None else Some (last m))"

text \<open>\<open>range(lo..hi)\<close>.\<close>

definition bt_range :: "'k::linorder \<Rightarrow> 'k \<Rightarrow> ('k, 'v) btree_map \<Rightarrow> ('k, 'v) btree_map" where
  "bt_range lo hi m = filter (\<lambda>(k, v). lo \<le> k \<and> k < hi) m"

lemma bt_wf_Nil [simp]: "bt_wf []"
  by (simp add: bt_wf_def)

lemma bt_wf_Cons: "bt_wf ((k, v) # m) \<longleftrightarrow> bt_wf m \<and> (\<forall>k' \<in> fst ` set m. k < k')"
  by (auto simp: bt_wf_def)

lemma bt_wf_distinct: "bt_wf m \<Longrightarrow> distinct (map fst m)"
  by (simp add: bt_wf_def strict_sorted_iff)

lemma bt_get_Nil [simp]: "bt_get [] k = None"
  by (simp add: bt_get_def)

lemma bt_get_Cons [simp]: "bt_get ((k', v) # m) k = (if k = k' then Some v else bt_get m k)"
  by (simp add: bt_get_def)

lemma bt_get_in_set: "bt_get m k = Some v \<Longrightarrow> (k, v) \<in> set m"
  by (simp add: bt_get_def map_of_SomeD)

lemma bt_get_mem: "bt_wf m \<Longrightarrow> bt_get m k = Some v \<longleftrightarrow> (k, v) \<in> set m"
  by (auto simp: bt_get_def bt_wf_distinct)

lemma bt_get_None_iff: "bt_get m k = None \<longleftrightarrow> k \<notin> fst ` set m"
  by (simp add: bt_get_def map_of_eq_None_iff)

lemma set_bt_insert_subset: "set (bt_insert k v m) \<subseteq> insert (k, v) (set m)"
  by (induction k v m rule: bt_insert.induct) auto

lemma fst_set_bt_insert: "fst ` set (bt_insert k v m) = insert k (fst ` set m)"
  by (induction k v m rule: bt_insert.induct) auto

lemma bt_wf_insert: "bt_wf m \<Longrightarrow> bt_wf (bt_insert k v m)"
  by (induction k v m rule: bt_insert.induct)
     (auto simp: bt_wf_Cons fst_set_bt_insert simp flip: image_iff)

lemma bt_get_insert: "bt_get (bt_insert k v m) k' = (if k' = k then Some v else bt_get m k')"
  by (induction k v m rule: bt_insert.induct) auto

lemma bt_wf_remove: "bt_wf m \<Longrightarrow> bt_wf (bt_remove k m)"
  by (induction m) (auto simp: bt_remove_def bt_wf_Cons)

lemma bt_get_remove: "bt_get (bt_remove k m) k' = (if k' = k then None else bt_get m k')"
  by (induction m) (auto simp: bt_remove_def)

lemma length_bt_remove:
  assumes "k \<in> fst ` set m"
  shows "length (bt_remove k m) < length m"
proof -
  from assms obtain v where "(k, v) \<in> set m" by auto
  then show ?thesis unfolding bt_remove_def by (rule length_filter_less) simp
qed

lemma length_bt_remove_le: "length (bt_remove k m) \<le> length m"
  by (simp add: bt_remove_def)

lemma bt_first_Some: "bt_first m = Some e \<Longrightarrow> e \<in> set m"
  by (auto simp: bt_first_def split: list.splits)

lemma bt_last_Some: "bt_last m = Some e \<Longrightarrow> e \<in> set m"
  by (auto simp: bt_last_def split: if_splits)

lemma bt_first_None [simp]: "bt_first m = None \<longleftrightarrow> m = []"
  by (auto simp: bt_first_def split: list.splits)

lemma bt_last_None [simp]: "bt_last m = None \<longleftrightarrow> m = []"
  by (auto simp: bt_last_def)

lemma bt_first_least: "bt_wf m \<Longrightarrow> bt_first m = Some (k, v) \<Longrightarrow> k' \<in> fst ` set m \<Longrightarrow> k \<le> k'"
  by (cases m) (auto simp: bt_first_def bt_wf_Cons intro: less_imp_le)

lemma bt_last_greatest: "bt_wf m \<Longrightarrow> bt_last m = Some (k, v) \<Longrightarrow> k' \<in> fst ` set m \<Longrightarrow> k' \<le> k"
proof (induction m)
  case (Cons e m)
  show ?case
  proof (cases "m = []")
    case False
    with Cons.prems have l: "bt_last m = Some (k, v)" by (simp add: bt_last_def)
    then have "k \<in> fst ` set m" using bt_last_Some by (metis fst_conv image_eqI)
    with Cons l show ?thesis by (cases e) (auto simp: bt_wf_Cons intro: less_imp_le)
  qed (use Cons.prems in \<open>auto simp: bt_last_def\<close>)
qed simp

lemma bt_wf_range: "bt_wf m \<Longrightarrow> bt_wf (bt_range lo hi m)"
  by (induction m) (auto simp: bt_range_def bt_wf_Cons)

lemma bt_get_range:
  "bt_get (bt_range lo hi m) k = (if lo \<le> k \<and> k < hi then bt_get m k else None)"
  by (induction m) (auto simp: bt_range_def split: if_splits)

text \<open>The sum over all entries of a map.\<close>

definition bt_sum :: "('k \<Rightarrow> 'v \<Rightarrow> 'a::comm_monoid_add) \<Rightarrow> ('k, 'v) btree_map \<Rightarrow> 'a" where
  "bt_sum f m = (\<Sum>(k, v) \<leftarrow> m. f k v)"

lemma bt_sum_Nil [simp]: "bt_sum f [] = 0"
  by (simp add: bt_sum_def)

lemma bt_sum_Cons [simp]: "bt_sum f ((k, v) # m) = f k v + bt_sum f m"
  by (simp add: bt_sum_def)

lemma bt_sum_insert:
  fixes f :: "'k::linorder \<Rightarrow> 'v \<Rightarrow> 'a::ab_group_add"
  assumes "bt_wf m"
  shows "bt_sum f (bt_insert k v m)
    = bt_sum f m - (case bt_get m k of None \<Rightarrow> 0 | Some w \<Rightarrow> f k w) + f k v"
  using assms
proof (induction k v m rule: bt_insert.induct)
  case (2 k v k' v' m)
  have "bt_get m k = None" if "k < k'"
    using that 2(2) by (force simp: bt_wf_Cons bt_get_None_iff)
  then show ?case using 2 by (auto simp: bt_wf_Cons)
qed simp

lemma bt_sum_remove:
  fixes f :: "'k::linorder \<Rightarrow> 'v \<Rightarrow> 'a::ab_group_add"
  assumes "bt_wf m"
  shows "bt_sum f (bt_remove k m) = bt_sum f m - (case bt_get m k of None \<Rightarrow> 0 | Some w \<Rightarrow> f k w)"
  using assms
proof (induction m)
  case (Cons e m)
  obtain k' v' where e: "e = (k', v')" by (cases e)
  have "bt_remove k m = m" if "k' = k"
    using that Cons.prems by (force simp: e bt_wf_Cons bt_remove_def filter_id_conv)
  then show ?case using Cons by (auto simp: e bt_wf_Cons bt_remove_def)
qed (simp add: bt_remove_def)

lemma bt_sum_cong:
  "(\<And>k v. (k, v) \<in> set m \<Longrightarrow> f k v = g k v) \<Longrightarrow> bt_sum f m = bt_sum g m"
  by (induction m) auto

lemma bt_sum_mono:
  fixes f :: "'k \<Rightarrow> 'v \<Rightarrow> 'a::ordered_comm_monoid_add"
  shows "(\<And>k v. (k, v) \<in> set m \<Longrightarrow> f k v \<le> g k v) \<Longrightarrow> bt_sum f m \<le> bt_sum g m"
  by (induction m) (auto intro!: add_mono)

lemma bt_sum_nonneg:
  fixes f :: "'k \<Rightarrow> 'v \<Rightarrow> 'a::ordered_comm_monoid_add"
  shows "(\<And>k v. (k, v) \<in> set m \<Longrightarrow> 0 \<le> f k v) \<Longrightarrow> 0 \<le> bt_sum f m"
  by (induction m) (auto intro!: add_nonneg_nonneg)

lemma bt_sum_member_le:
  fixes f :: "'k \<Rightarrow> 'v \<Rightarrow> real"
  assumes "(k, v) \<in> set m" "\<And>k v. (k, v) \<in> set m \<Longrightarrow> 0 \<le> f k v"
  shows "f k v \<le> bt_sum f m"
  using assms
proof (induction m)
  case (Cons e m)
  obtain k' v' where e: "e = (k', v')" by (cases e)
  have "0 \<le> bt_sum f m" using Cons.prems(2) by (intro bt_sum_nonneg) simp
  moreover have "0 \<le> f k' v'" using Cons.prems(2) by (simp add: e)
  ultimately show ?case using Cons by (auto simp: e add_increasing)
qed simp

lemma bt_sum_add: "bt_sum (\<lambda>k v. f k v + g k v) m = bt_sum f m + bt_sum g m"
  by (induction m) (auto simp: ac_simps)

lemma bt_sum_scale:
  fixes f :: "'k \<Rightarrow> 'v \<Rightarrow> real"
  shows "bt_sum (\<lambda>k v. c * f k v) m = c * bt_sum f m"
  by (induction m) (auto simp: distrib_left)

lemma of_nat_bt_sum: "of_nat (bt_sum f m) = bt_sum (\<lambda>k v. of_nat (f k v)) m"
  by (induction m) auto

lemma bt_sum_le_length:
  fixes f :: "'k \<Rightarrow> 'v \<Rightarrow> nat"
  shows "(\<And>k v. (k, v) \<in> set m \<Longrightarrow> f k v \<le> b) \<Longrightarrow> bt_sum f m \<le> length m * b"
  by (induction m) (auto intro!: add_mono)

lemma set_bt_insert: "bt_wf m \<Longrightarrow> set (bt_insert k v m) = insert (k, v) {e \<in> set m. fst e \<noteq> k}"
  by (induction k v m rule: bt_insert.induct) (force simp: bt_wf_Cons)+

lemma set_bt_remove: "set (bt_remove k m) = {e \<in> set m. fst e \<noteq> k}"
  by (auto simp: bt_remove_def)

text \<open>Storing or removing an entry.\<close>

definition bt_put :: "'k::linorder \<Rightarrow> 'v option \<Rightarrow> ('k, 'v) btree_map \<Rightarrow> ('k, 'v) btree_map" where
  "bt_put k opt m = (case opt of None \<Rightarrow> bt_remove k m | Some v \<Rightarrow> bt_insert k v m)"

lemma bt_wf_put: "bt_wf m \<Longrightarrow> bt_wf (bt_put k opt m)"
  by (cases opt) (simp_all add: bt_put_def bt_wf_insert bt_wf_remove)

lemma bt_get_put: "bt_get (bt_put k opt m) k' = (if k' = k then opt else bt_get m k')"
  by (cases opt) (simp_all add: bt_put_def bt_get_insert bt_get_remove)

lemma bt_sum_put:
  fixes f f' :: "'k::linorder \<Rightarrow> 'v \<Rightarrow> 'a::ab_group_add"
  assumes wf: "bt_wf m" and same: "\<And>k' v. k' \<noteq> k \<Longrightarrow> bt_get m k' = Some v \<Longrightarrow> f' k' v = f k' v"
  shows "bt_sum f' (bt_put k opt m)
    = bt_sum f m - (case bt_get m k of None \<Rightarrow> 0 | Some w \<Rightarrow> f k w) + (case opt of None \<Rightarrow> 0 | Some v \<Rightarrow> f' k v)"
proof -
  have "bt_sum f' (bt_remove k m) = bt_sum f (bt_remove k m)"
    using same wf by (intro bt_sum_cong) (auto simp: set_bt_remove bt_get_mem)
  moreover have "bt_sum f' (bt_put k opt m) = bt_sum f' (bt_remove k m) + (case opt of None \<Rightarrow> 0 | Some v \<Rightarrow> f' k v)"
    by (cases opt) (simp_all add: bt_put_def bt_sum_insert [OF wf] bt_sum_remove [OF wf])
  ultimately show ?thesis by (simp add: bt_sum_remove [OF wf])
qed

locale ordered_map =
  fixes wf :: "'m \<Rightarrow> bool"
    and get :: "'m \<Rightarrow> 'k::linorder \<Rightarrow> 'v option"
    and ins :: "'k \<Rightarrow> 'v \<Rightarrow> 'm \<Rightarrow> 'm"
    and del :: "'k \<Rightarrow> 'm \<Rightarrow> 'm"
    and first :: "'m \<Rightarrow> ('k \<times> 'v) option"
    and lst :: "'m \<Rightarrow> ('k \<times> 'v) option"
    and size_of :: "'m \<Rightarrow> nat"
  assumes wf_ins: "wf m \<Longrightarrow> wf (ins k v m)"
    and wf_del: "wf m \<Longrightarrow> wf (del k m)"
    and get_ins: "get (ins k v m) k' = (if k' = k then Some v else get m k')"
    and get_del: "get (del k m) k' = (if k' = k then None else get m k')"
    and first_get: "wf m \<Longrightarrow> first m = Some (k, v) \<Longrightarrow> get m k = Some v"
    and first_least: "wf m \<Longrightarrow> first m = Some (k, v) \<Longrightarrow> get m k' \<noteq> None \<Longrightarrow> k \<le> k'"
    and first_None: "first m = None \<Longrightarrow> get m k = None"
    and last_get: "wf m \<Longrightarrow> lst m = Some (k, v) \<Longrightarrow> get m k = Some v"
    and last_greatest: "wf m \<Longrightarrow> lst m = Some (k, v) \<Longrightarrow> get m k' \<noteq> None \<Longrightarrow> k' \<le> k"
    and last_None: "lst m = None \<Longrightarrow> get m k = None"
    and size_del: "get m k \<noteq> None \<Longrightarrow> size_of (del k m) < size_of m"
begin

lemma get_ins_same [simp]: "get (ins k v m) k = Some v"
  by (simp add: get_ins)

lemma get_ins_other [simp]: "k' \<noteq> k \<Longrightarrow> get (ins k v m) k' = get m k'"
  by (simp add: get_ins)

lemma get_del_same [simp]: "get (del k m) k = None"
  by (simp add: get_del)

lemma get_del_other [simp]: "k' \<noteq> k \<Longrightarrow> get (del k m) k' = get m k'"
  by (simp add: get_del)

text \<open>Taking the first or the last entry out of a map always makes it smaller.\<close>

lemma size_del_first: "wf m \<Longrightarrow> first m = Some (k, v) \<Longrightarrow> size_of (del k m) < size_of m"
  by (simp add: first_get size_del)

lemma size_del_last: "wf m \<Longrightarrow> lst m = Some (k, v) \<Longrightarrow> size_of (del k m) < size_of m"
  by (simp add: last_get size_del)

text \<open>An invariant of all entries survives both updates.\<close>

lemma all_ins:
  "(\<And>k v. get m k = Some v \<Longrightarrow> P k v) \<Longrightarrow> P k0 v0 \<Longrightarrow> get (ins k0 v0 m) k = Some v \<Longrightarrow> P k v"
  by (auto simp: get_ins split: if_splits)

lemma all_del:
  "(\<And>k v. get m k = Some v \<Longrightarrow> P k v) \<Longrightarrow> get (del k0 m) k = Some v \<Longrightarrow> P k v"
  by (auto simp: get_del split: if_splits)

end

interpretation bt: ordered_map bt_wf bt_get bt_insert bt_remove bt_first bt_last length
proof
  show "bt_wf m \<Longrightarrow> bt_first m = Some (k, v) \<Longrightarrow> bt_get m k = Some v" for m :: "('a, 'b) btree_map" and k v
    by (simp add: bt_first_Some bt_get_mem)
  show "bt_wf m \<Longrightarrow> bt_first m = Some (k, v) \<Longrightarrow> bt_get m k' \<noteq> None \<Longrightarrow> k \<le> k'"
    for m :: "('a, 'b) btree_map" and k v k'
    by (simp only: bt_get_None_iff not_not) (rule bt_first_least)
  show "bt_wf m \<Longrightarrow> bt_last m = Some (k, v) \<Longrightarrow> bt_get m k = Some v" for m :: "('a, 'b) btree_map" and k v
    by (simp add: bt_last_Some bt_get_mem)
  show "bt_wf m \<Longrightarrow> bt_last m = Some (k, v) \<Longrightarrow> bt_get m k' \<noteq> None \<Longrightarrow> k' \<le> k"
    for m :: "('a, 'b) btree_map" and k v k'
    by (simp only: bt_get_None_iff not_not) (rule bt_last_greatest)
  show "bt_get m k \<noteq> None \<Longrightarrow> length (bt_remove k m) < length m" for m :: "('a, 'b) btree_map" and k
    by (simp only: bt_get_None_iff not_not) (rule length_bt_remove)
qed (auto simp: bt_wf_insert bt_wf_remove bt_get_insert bt_get_remove)

text \<open>\<open>Option::filter\<close>.\<close>

definition opt_filter :: "('a \<Rightarrow> bool) \<Rightarrow> 'a option \<Rightarrow> 'a option" where
  "opt_filter P x = (case x of None \<Rightarrow> None | Some a \<Rightarrow> if P a then Some a else None)"

lemma opt_filter_Some [simp]: "opt_filter P x = Some a \<longleftrightarrow> x = Some a \<and> P a"
  by (auto simp: opt_filter_def split: option.splits)

lemma opt_filter_simps [simp]:
  "opt_filter P None = None"
  "opt_filter P (Some a) = (if P a then Some a else None)"
  by (simp_all add: opt_filter_def)

end
