(* ===== verification/Amm_Common.thy ===== *)
theory Amm_Common
  imports CF_Prelude
begin

text \<open>
  Model of \<open>state-chain/amm/src/common.rs\<close>: sides and pairs, the \<open>mul_div\<close> family on
  256-bit integers with a 512-bit intermediate product, the conversions between ticks,
  square-root prices and prices, and the direction-dependent operations of the
  \<open>SwapDirection\<close> trait. The two marker types \<open>BaseToQuote\<close> and \<open>QuoteToBase\<close> of the
  trait are the two constructors of \<open>direction\<close>, and a trait method is a function of the
  direction.

  \<open>U512::integer_sqrt\<close> comes from a library outside the repository. The functions that
  call it take it as the argument \<open>isqrt\<close>; its documented behaviour (the largest
  integer whose square is not above the argument) is \<open>integer_sqrt_spec\<close>.
\<close>

section \<open>Constants and types\<close>

type_synonym amount = nat
type_synonym tick = int
type_synonym sqrt_price = nat
type_synonym price = nat

definition ONE_IN_HUNDREDTH_PIPS :: nat where
  "ONE_IN_HUNDREDTH_PIPS = 1000000"

definition MAX_LP_FEE :: nat where
  "MAX_LP_FEE = ONE_IN_HUNDREDTH_PIPS div 2"

definition SQRT_PRICE_FRACTIONAL_BITS :: nat where
  "SQRT_PRICE_FRACTIONAL_BITS = 96"

definition PRICE_FRACTIONAL_BITS :: nat where
  "PRICE_FRACTIONAL_BITS = 128"

definition MIN_TICK :: tick where
  "MIN_TICK = -887272"

definition MAX_TICK :: tick where
  "MAX_TICK = - MIN_TICK"

text \<open>The two limb arrays, least significant limb first.\<close>

definition MIN_SQRT_PRICE :: sqrt_price where
  "MIN_SQRT_PRICE = 0x1000276a3"

definition MAX_SQRT_PRICE :: sqrt_price where
  "MAX_SQRT_PRICE = 0x5d951d5263988d26 + 0xefd1fc6a50648849 * 2 ^ 64 + 0xfffd8963 * 2 ^ 128"

datatype set_fees_error = SetFeesInvalidFeeAmount

datatype side = Buy | Sell

datatype pairs = Base | Quote

fun to_sold_pair :: "side \<Rightarrow> pairs" where
  "to_sold_pair Buy = Quote"
| "to_sold_pair Sell = Base"

fun not_side :: "side \<Rightarrow> side" where
  "not_side Sell = Buy"
| "not_side Buy = Sell"

fun not_pair :: "pairs \<Rightarrow> pairs" where
  "not_pair Base = Quote"
| "not_pair Quote = Base"

fun sell_order :: "pairs \<Rightarrow> side" where
  "sell_order Base = Sell"
| "sell_order Quote = Buy"

record 'a pool_pairs_map =
  base :: 'a
  quote :: 'a

fun pp_from_array :: "'a \<times> 'a \<Rightarrow> 'a pool_pairs_map" where
  "pp_from_array (b, q) = \<lparr>base = b, quote = q\<rparr>"

definition pp_map :: "('a \<Rightarrow> 'b) \<Rightarrow> 'a pool_pairs_map \<Rightarrow> 'b pool_pairs_map" where
  "pp_map f m = \<lparr>base = f (base m), quote = f (quote m)\<rparr>"

definition pp_try_map :: "('a \<Rightarrow> 'e + 'b) \<Rightarrow> 'a pool_pairs_map \<Rightarrow> 'e + 'b pool_pairs_map" where
  "pp_try_map f m =
     (case f (base m) of Inl e \<Rightarrow> Inl e
      | Inr b \<Rightarrow> (case f (quote m) of Inl e \<Rightarrow> Inl e | Inr q \<Rightarrow> Inr \<lparr>base = b, quote = q\<rparr>))"

definition pp_map_with_pair :: "(pairs \<Rightarrow> 'a \<Rightarrow> 'b) \<Rightarrow> 'a pool_pairs_map \<Rightarrow> 'b pool_pairs_map" where
  "pp_map_with_pair f m = \<lparr>base = f Base (base m), quote = f Quote (quote m)\<rparr>"

text \<open>\<open>map_with_pair\<close> with a closure that can panic.\<close>

definition pp_map_with_pairM ::
    "(pairs \<Rightarrow> 'a \<Rightarrow> 'b option) \<Rightarrow> 'a pool_pairs_map \<Rightarrow> 'b pool_pairs_map option" where
  "pp_map_with_pairM f m =
     do { b \<leftarrow> f Base (base m); q \<leftarrow> f Quote (quote m); Some \<lparr>base = b, quote = q\<rparr> }"

definition pp_zip :: "'a pool_pairs_map \<Rightarrow> 'b pool_pairs_map \<Rightarrow> ('a \<times> 'b) pool_pairs_map" where
  "pp_zip m n = \<lparr>base = (base m, base n), quote = (quote m, quote n)\<rparr>"

definition pp_into_iter :: "'a pool_pairs_map \<Rightarrow> (pairs \<times> 'a) list" where
  "pp_into_iter m = [(Base, base m), (Quote, quote m)]"

fun pp_index :: "'a pool_pairs_map \<Rightarrow> pairs \<Rightarrow> 'a" where
  "pp_index m Base = base m"
| "pp_index m Quote = quote m"

fun pp_set :: "pairs \<Rightarrow> 'a \<Rightarrow> 'a pool_pairs_map \<Rightarrow> 'a pool_pairs_map" where
  "pp_set Base v m = m\<lparr>base := v\<rparr>"
| "pp_set Quote v m = m\<lparr>quote := v\<rparr>"

text \<open>Addition of two maps of \<open>U256\<close> amounts.\<close>

definition pp_add :: "nat pool_pairs_map \<Rightarrow> nat pool_pairs_map \<Rightarrow> nat pool_pairs_map option" where
  "pp_add m n =
     do { b \<leftarrow> uadd 256 (base m) (base n); q \<leftarrow> uadd 256 (quote m) (quote n);
          Some \<lparr>base = b, quote = q\<rparr> }"

abbreviation pp_zero :: "nat pool_pairs_map" where
  "pp_zero \<equiv> \<lparr>base = 0, quote = 0\<rparr>"

section \<open>Multiply and divide with a 512-bit product\<close>

definition mul_div_floor :: "nat \<Rightarrow> nat \<Rightarrow> nat \<Rightarrow> nat option" where
  "mul_div_floor a b c = do { d \<leftarrow> udiv (a * b) c; uconv 256 d }"

definition mul_div :: "nat \<Rightarrow> nat \<Rightarrow> nat \<Rightarrow> (nat \<times> nat) option" where
  "mul_div a b c =
     do { d \<leftarrow> udiv (a * b) c;
          let m = (a * b) mod c;
          fl \<leftarrow> uconv 256 d;
          d' \<leftarrow> (if m > 0 then uadd 512 d 1 else Some d);
          cl \<leftarrow> uconv 256 d';
          Some (fl, cl) }"

definition mul_div_ceil :: "nat \<Rightarrow> nat \<Rightarrow> nat \<Rightarrow> nat option" where
  "mul_div_ceil a b c = map_option snd (mul_div a b c)"

section \<open>Prices\<close>

definition is_sqrt_price_valid :: "sqrt_price \<Rightarrow> bool" where
  "is_sqrt_price_valid p \<longleftrightarrow> MIN_SQRT_PRICE \<le> p \<and> p \<le> MAX_SQRT_PRICE"

definition is_tick_valid :: "tick \<Rightarrow> bool" where
  "is_tick_valid t \<longleftrightarrow> MIN_TICK \<le> t \<and> t \<le> MAX_TICK"

definition integer_sqrt_spec :: "(nat \<Rightarrow> nat) \<Rightarrow> bool" where
  "integer_sqrt_spec isqrt \<longleftrightarrow> (\<forall>n. (isqrt n)\<^sup>2 \<le> n \<and> n < (Suc (isqrt n))\<^sup>2)"

definition bounded_sqrt_price :: "(nat \<Rightarrow> nat) \<Rightarrow> amount \<Rightarrow> amount \<Rightarrow> sqrt_price option" where
  "bounded_sqrt_price isqrt q b =
     do { assert_that (q \<noteq> 0 \<or> b \<noteq> 0);
          (if b = 0 then Some MAX_SQRT_PRICE
           else do {
             d \<leftarrow> udiv (ushl 512 q 256) b;
             unbounded_sqrt_price \<leftarrow>
               uconv 256 (ushr (isqrt d) (128 - SQRT_PRICE_FRACTIONAL_BITS));
             Some (if unbounded_sqrt_price < MIN_SQRT_PRICE then MIN_SQRT_PRICE
                   else if unbounded_sqrt_price > MAX_SQRT_PRICE then MAX_SQRT_PRICE
                   else unbounded_sqrt_price) }) }"

definition output_amount_floor :: "amount \<Rightarrow> price \<Rightarrow> amount option" where
  "output_amount_floor input p = mul_div_floor input p (ushl 256 1 PRICE_FRACTIONAL_BITS)"

definition output_amount_ceil :: "amount \<Rightarrow> price \<Rightarrow> amount option" where
  "output_amount_ceil input p = mul_div_ceil input p (ushl 256 1 PRICE_FRACTIONAL_BITS)"

definition sqrt_price_to_price :: "sqrt_price \<Rightarrow> price option" where
  "sqrt_price_to_price sp =
     do { assert_that (is_sqrt_price_valid sp);
          mul_div_floor sp sp
            (ushl 256 1 (2 * SQRT_PRICE_FRACTIONAL_BITS - PRICE_FRACTIONAL_BITS)) }"

definition price_to_sqrt_price :: "(nat \<Rightarrow> nat) \<Rightarrow> price \<Rightarrow> sqrt_price" where
  "price_to_sqrt_price isqrt p =
     (let r = ushr (isqrt (ushl 512 p PRICE_FRACTIONAL_BITS))
                (PRICE_FRACTIONAL_BITS - SQRT_PRICE_FRACTIONAL_BITS)
      in if r < 2 ^ 256 then r else umax 256)"

section \<open>The price at a tick\<close>

definition handle_tick_bit :: "nat \<Rightarrow> nat \<times> nat \<Rightarrow> nat \<Rightarrow> nat option" where
  "handle_tick_bit abs_tick = (\<lambda>(i, c) r.
     if bit abs_tick i then do { p \<leftarrow> umul 256 r c; Some (ushr p 128) } else Some r)"

definition tick_bit_constants :: "(nat \<times> nat) list" where
  "tick_bit_constants =
    [(1, 0xfff97272373d413259a46990580e213a),
     (2, 0xfff2e50f5f656932ef12357cf3c7fdcc),
     (3, 0xffe5caca7e10e4e61c3624eaa0941cd0),
     (4, 0xffcb9843d60f6159c9db58835c926644),
     (5, 0xff973b41fa98c081472e6896dfb254c0),
     (6, 0xff2ea16466c96a3843ec78b326b52861),
     (7, 0xfe5dee046a99a2a811c461f1969c3053),
     (8, 0xfcbe86c7900a88aedcffc83b479aa3a4),
     (9, 0xf987a7253ac413176f2b074cf7815e54),
     (10, 0xf3392b0822b70005940c7a398e4b70f3),
     (11, 0xe7159475a2c29b7443b29c7fa6e889d9),
     (12, 0xd097f3bdfd2022b8845ad8f792aa5825),
     (13, 0xa9f746462d870fdf8a65dc1f90e061e5),
     (14, 0x70d869a156d2a1b890bb3df62baf32f7),
     (15, 0x31be135f97d08fd981231505542fcfa6),
     (16, 0x9aa508b5b7a84e1c677de54f3e99bc9),
     (17, 0x5d6af8dedb81196699c329225ee604),
     (18, 0x2216e584f5fa1ea926041bedfe98),
     (19, 0x48a170391f7dc42444e8fa2)]"

definition sqrt_price_at_tick :: "tick \<Rightarrow> sqrt_price option" where
  "sqrt_price_at_tick t =
     do { assert_that (is_tick_valid t);
          let abs_tick = nat \<bar>t\<bar>;
          r \<leftarrow> foldM (handle_tick_bit abs_tick) tick_bit_constants
                (if bit abs_tick 0 then 0xfffcb933bd6fad37aa2d162d1a594001 else ushl 256 1 128);
          sqrt_price_q32f128 \<leftarrow> (if t > 0 then udiv (umax 256) r else Some r);
          uadd 256 (ushr sqrt_price_q32f128 32)
            (if sqrt_price_q32f128 mod 2 ^ 32 = 0 then 0 else 1) }"

section \<open>The tick at a price\<close>

text \<open>
  \<open>add_integer_bit\<close> and \<open>add_fractional_bit\<close> are the two macros; the pair they carry is
  the macro's two mutable variables. \<open>x |= 1 << b\<close> on the \<open>i128\<close> logarithm is
  \<open>set_bit\<close>.
\<close>

definition add_integer_bit :: "nat \<times> nat \<Rightarrow> nat \<times> nat \<Rightarrow> nat \<times> nat" where
  "add_integer_bit = (\<lambda>(b, lower_bits_mask) (bits_remaining, most_significant_bit).
     if bits_remaining > lower_bits_mask
     then (ushr bits_remaining b, or most_significant_bit b)
     else (bits_remaining, most_significant_bit))"

definition integer_bits :: "(nat \<times> nat) list" where
  "integer_bits =
    [(128, 0xFFFFFFFFFFFFFFFFFFFFFFFFFFFFFFFF), (64, 0xFFFFFFFFFFFFFFFF), (32, 0xFFFFFFFF),
     (16, 0xFFFF), (8, 0xFF), (4, 0xF), (2, 0x3), (1, 0x1)]"

definition add_fractional_bit :: "nat \<Rightarrow> nat \<times> int \<Rightarrow> (nat \<times> int) option" where
  "add_fractional_bit b = (\<lambda>(mantissa, log_2).
     do { sq \<leftarrow> umul 256 mantissa mantissa;
          let mantissa_sq = ushr sq 127;
          (if bit mantissa_sq 128
           then do { m \<leftarrow> uconv 128 (ushr mantissa_sq 1); Some (m, set_bit b log_2) }
           else do { m \<leftarrow> uconv 128 mantissa_sq; Some (m, log_2) }) })"

definition fractional_bits :: "nat list" where
  "fractional_bits = [63, 62, 61, 60, 59, 58, 57, 56, 55, 54, 53, 52, 51, 50]"

definition log_sqrt10001 :: "int \<Rightarrow> nat" where
  "log_sqrt10001 log_2_q63f64 =
     ((if log_2_q63f64 < 0
       then or (ushl 256 (umax 128) 128) (nat (log_2_q63f64 mod 2 ^ 128))
       else nat (log_2_q63f64 mod 2 ^ 128))
      * 255738958999603826347141) mod 2 ^ 256"

definition tick_at_sqrt_price :: "sqrt_price \<Rightarrow> tick option" where
  "tick_at_sqrt_price sp =
     do { assert_that (is_sqrt_price_valid sp);
          let sqrt_price_q64f128 = ushl 256 sp 32;
          let msb = snd (fold add_integer_bit integer_bits (sqrt_price_q64f128, 0));
          let integer_log_2 = int msb - 128;
          mantissa \<leftarrow> uconv 128
            (if msb \<ge> 128 then ushr sqrt_price_q64f128 (msb - 127)
             else ushl 256 sqrt_price_q64f128 (127 - msb));
          (m', log_2_q63f64) \<leftarrow>
            foldM add_fractional_bit fractional_bits (mantissa, integer_log_2 * 2 ^ 64);
          let log_sqrt10001_q127f128 = log_sqrt10001 log_2_q63f64;
          let tick_low = as_signed 32 (ushr
            ((log_sqrt10001_q127f128 + 2 ^ 256 - 3402992956809132418596140100660247210) mod 2 ^ 256)
            128);
          let tick_high = as_signed 32 (ushr
            ((log_sqrt10001_q127f128 + 291339464771989622907027621153398088495) mod 2 ^ 256)
            128);
          (if tick_low = tick_high then Some tick_low
           else do { sp_high \<leftarrow> sqrt_price_at_tick tick_high;
                     Some (if sp_high \<le> sp then tick_high else tick_low) }) }"

definition price_at_tick :: "tick \<Rightarrow> price option option" where
  "price_at_tick t =
     (if is_tick_valid t
      then do { sp \<leftarrow> sqrt_price_at_tick t; p \<leftarrow> sqrt_price_to_price sp; Some (Some p) }
      else Some None)"

definition tick_at_price :: "(nat \<Rightarrow> nat) \<Rightarrow> price \<Rightarrow> tick option option" where
  "tick_at_price isqrt p =
     (let sp = price_to_sqrt_price isqrt p
      in if is_sqrt_price_valid sp then do { t \<leftarrow> tick_at_sqrt_price sp; Some (Some t) }
         else Some None)"

section \<open>Fixed-point powers and roots\<close>

text \<open>
  The iterator of squares is polled once per bit of the exponent, and only after the bit
  index has been produced: bit \<open>0\<close> uses \<open>x\<close> itself, every further bit squares first.
\<close>

fun fixed_point_power_loop :: "nat \<Rightarrow> nat list \<Rightarrow> nat \<Rightarrow> nat \<Rightarrow> nat option" where
  "fixed_point_power_loop n [] expo tot = Some tot"
| "fixed_point_power_loop n (i # is) expo tot =
     do { expo' \<leftarrow> (if i = 0 then Some expo
                    else do { e \<leftarrow> umul 512 expo expo; Some (ushr e 128) });
          tot' \<leftarrow> (if bit n i then do { t \<leftarrow> umul 512 tot expo'; Some (ushr t 128) }
                     else Some tot);
          fixed_point_power_loop n is expo' tot' }"

definition fixed_point_to_power_as_fixed_point :: "nat \<Rightarrow> nat \<Rightarrow> nat option" where
  "fixed_point_to_power_as_fixed_point x n =
     fixed_point_power_loop n [0..<bit_len n] x (ushl 512 1 128)"

fun nth_root_loop :: "nat \<Rightarrow> nat \<Rightarrow> nat \<Rightarrow> nat \<Rightarrow> nat option" where
  "nth_root_loop 0 x n rt = Some rt"
| "nth_root_loop (Suc k) x n rt =
     do { f \<leftarrow> fixed_point_to_power_as_fixed_point rt n;
          let diff = (if x \<le> f then f - x else x - f);
          (if diff \<le> ushr f 20 then Some rt
           else do { d \<leftarrow> uconv 256 diff;
                     q \<leftarrow> udiv (ushl 256 1 128) n;
                     g \<leftarrow> fixed_point_to_power_as_fixed_point rt (n - 1);
                     delta \<leftarrow> mul_div_floor d q g;
                     rt' \<leftarrow> (if f \<ge> x then usub rt delta else uadd 256 rt delta);
                     nth_root_loop k x n rt' }) }"

definition nth_root_of_integer_as_fixed_point :: "(nat \<Rightarrow> nat) \<Rightarrow> nat \<Rightarrow> nat \<Rightarrow> nat option" where
  "nth_root_of_integer_as_fixed_point isqrt x n =
     do { assert_that (n > 1);
          rt \<leftarrow> uconv 256
            (((\<lambda>acc. isqrt (ushl 512 acc 128)) ^^ (bit_len n - 1)) (ushl 512 x 128));
          nth_root_loop 128 (ushl 512 x 128) n rt }"

section \<open>Swap directions\<close>

datatype direction = BaseToQuote | QuoteToBase

fun input_side :: "direction \<Rightarrow> pairs" where
  "input_side BaseToQuote = Base"
| "input_side QuoteToBase = Quote"

fun worst_sqrt_price :: "direction \<Rightarrow> sqrt_price" where
  "worst_sqrt_price BaseToQuote = MIN_SQRT_PRICE"
| "worst_sqrt_price QuoteToBase = MAX_SQRT_PRICE"

fun sqrt_price_op_more_than :: "direction \<Rightarrow> sqrt_price \<Rightarrow> sqrt_price \<Rightarrow> bool" where
  "sqrt_price_op_more_than BaseToQuote p p' \<longleftrightarrow> p < p'"
| "sqrt_price_op_more_than QuoteToBase p p' \<longleftrightarrow> p > p'"

fun increase_sqrt_price :: "direction \<Rightarrow> sqrt_price \<Rightarrow> tick \<Rightarrow> sqrt_price option" where
  "increase_sqrt_price BaseToQuote sp delta =
     do { t \<leftarrow> tick_at_sqrt_price sp;
          sqrt_price_at_tick (max (isat 32 (t - delta)) MIN_TICK) }"
| "increase_sqrt_price QuoteToBase sp delta =
     do { t \<leftarrow> tick_at_sqrt_price sp;
          sp' \<leftarrow> sqrt_price_at_tick t;
          t' \<leftarrow> (if sp = sp' then Some t else iconv 32 (t + 1));
          sqrt_price_at_tick (min (isat 32 (t' + delta)) MAX_TICK) }"

fun input_to_output_amount_floor :: "direction \<Rightarrow> amount \<Rightarrow> tick \<Rightarrow> amount option option" where
  "input_to_output_amount_floor BaseToQuote a t =
     (if is_tick_valid t
      then do { sp \<leftarrow> sqrt_price_at_tick t; p \<leftarrow> sqrt_price_to_price sp;
                d \<leftarrow> udiv (a * p) (ushl 256 1 PRICE_FRACTIONAL_BITS);
                Some (Some (min d (umax 256))) }
      else Some None)"
| "input_to_output_amount_floor QuoteToBase a t =
     (if is_tick_valid t
      then do { sp \<leftarrow> sqrt_price_at_tick t; p \<leftarrow> sqrt_price_to_price sp;
                d \<leftarrow> udiv (a * ushl 256 1 PRICE_FRACTIONAL_BITS) p;
                Some (Some (min d (umax 256))) }
      else Some None)"

section \<open>Results of the multiplications and divisions\<close>

lemma pp_index_set [simp]: "pp_index (pp_set s v m) s' = (if s = s' then v else pp_index m s')"
  by (cases s; cases s') auto

lemma mul_div_floor_Some [simp]:
  "mul_div_floor a b c = Some r \<longleftrightarrow> c \<noteq> 0 \<and> r = a * b div c \<and> r < 2 ^ 256"
  by (auto simp: mul_div_floor_def udiv_def split: if_splits)

lemma mul_div_ceil_Some [simp]:
  "mul_div_ceil a b c = Some r \<longleftrightarrow> c \<noteq> 0 \<and> r = div_ceil (a * b) c \<and> r < 2 ^ 256"
proof -
  have "d + 1 < 2 ^ 512" if "d < 2 ^ 256" for d :: nat using that by simp
  then show ?thesis
    by (auto simp: mul_div_ceil_def mul_div_def udiv_def uadd_def uconv_def div_ceil_def Let_def split: if_splits)
qed

lemma price_one [simp]: "ushl 256 1 PRICE_FRACTIONAL_BITS = 2 ^ 128" "ushl 256 (Suc 0) PRICE_FRACTIONAL_BITS = 2 ^ 128"
  by (simp_all add: ushl_eq PRICE_FRACTIONAL_BITS_def)

lemma sqrt_price_to_price_Some:
  assumes "is_sqrt_price_valid sp"
  shows "sqrt_price_to_price sp = Some (sp * sp div 2 ^ 64)" "0 < sp * sp div 2 ^ 64" "sp * sp div 2 ^ 64 < 2 ^ 256"
proof -
  have b: "2 ^ 32 \<le> sp" "sp < 2 ^ 160"
    using assms by (simp_all add: is_sqrt_price_valid_def MIN_SQRT_PRICE_def MAX_SQRT_PRICE_def)
  have "2 ^ 32 * 2 ^ 32 \<le> sp * sp" using b(1) by (intro mult_mono) auto
  then show "0 < sp * sp div 2 ^ 64" by (simp add: div_greater_zero_iff)
  have "sp * sp < 2 ^ 160 * 2 ^ 160" using b(2) by (intro mult_strict_mono) auto
  then show less: "sp * sp div 2 ^ 64 < 2 ^ 256" by (intro less_mult_imp_div_less) simp
  have "ushl 256 1 (2 * SQRT_PRICE_FRACTIONAL_BITS - PRICE_FRACTIONAL_BITS) = 2 ^ 64"
    by (simp add: ushl_eq SQRT_PRICE_FRACTIONAL_BITS_def PRICE_FRACTIONAL_BITS_def)
  then show "sqrt_price_to_price sp = Some (sp * sp div 2 ^ 64)"
    using assms less unfolding sqrt_price_to_price_def by (simp add: assert_that_def)
qed

text \<open>
  The equivalences above decompose a checked result. Where such an equation is to be used as
  a rewrite rule they are removed from the simpset.
\<close>

lemmas checked_iffs = uadd_Some usub_Some umul_Some udiv_Some uconv_Some mul_div_floor_Some mul_div_ceil_Some

text \<open>
  The fee of a swap input: what is left of the input without the fee, and that any part of it,
  with its own fee rounded up, fits into the input.
\<close>

lemma fee_split:
  assumes fee: "fee \<le> MAX_LP_FEE" and a: "a < 2 ^ 256"
  obtains amf where "mul_div_floor a (1000000 - fee) 1000000 = Some amf" "amf \<le> a" "amf * 1000000 \<le> a * (1000000 - fee)"
    "\<And>req. req \<le> amf \<Longrightarrow> req + div_ceil (req * fee) (1000000 - fee) \<le> a"
proof -
  define m where "m = 1000000 - fee"
  have f: "fee < 1000000" using fee by (simp add: MAX_LP_FEE_def ONE_IN_HUNDREDTH_PIPS_def)
  have m: "0 < m" "m + fee = 1000000" "m \<le> 1000000" using f by (simp_all add: m_def)
  define amf where "amf = a * m div 1000000"
  have "a * m div 1000000 \<le> a * 1000000 div 1000000" using m by (intro div_le_mono mult_le_mono2)
  then have le: "amf \<le> a" by (simp add: amf_def)
  have mul: "amf * 1000000 \<le> a * m" by (simp add: amf_def)
  have "req + div_ceil (req * fee) m \<le> a" if "req \<le> amf" for req
  proof -
    have "req * 1000000 \<le> a * m" using that mul by simp
    then have "req * m + req * fee \<le> a * m" using m(2) by (metis distrib_left)
    then have "req * fee \<le> (a - req) * m" using that le by (simp add: diff_mult_distrib)
    then have "div_ceil (req * fee) m \<le> a - req" using m(1) by (simp add: div_ceil_le_iff)
    then show ?thesis using that le by simp
  qed
  moreover have "mul_div_floor a m 1000000 = Some amf" using le a by (simp add: amf_def)
  ultimately show thesis using that le mul unfolding m_def by blast
qed

end
