(* ===== verification/Limit_Float.thy ===== *)
theory Limit_Float
  imports Amm_Common
begin

text \<open>
  Model of \<open>FloatBetweenZeroAndOne\<close> in \<open>state-chain/amm/src/limit_orders.rs\<close>: the floating
  point number with a 256-bit normalised mantissa and a 256-bit negative exponent that
  records which fraction of a limit-order pool is left. The lemmas relate it to the real
  number \<open>float_val\<close> it stands for: the order of the type is the order of the values,
  \<open>integer_mul_div\<close> is exact rounding, and \<open>mul_div_ceil\<close> rounds up and loses less than one
  part in \<open>2^255\<close>. They also give the exact condition under which the last increment
  of \<open>mul_div_ceil\<close> leaves the 256 bits of the mantissa.
\<close>

section \<open>The type and its operations\<close>

datatype float01 = Float01 (normalised_mantissa: nat) (negative_exponent: nat)

text \<open>\<open>Ord::cmp\<close>: the exponents in reverse, then the mantissas.\<close>

instantiation float01 :: linorder
begin

definition less_eq_float01 :: "float01 \<Rightarrow> float01 \<Rightarrow> bool" where
  "less_eq_float01 f g \<longleftrightarrow> negative_exponent g < negative_exponent f \<or>
     (negative_exponent f = negative_exponent g \<and> normalised_mantissa f \<le> normalised_mantissa g)"

definition less_float01 :: "float01 \<Rightarrow> float01 \<Rightarrow> bool" where
  "less_float01 f g \<longleftrightarrow> negative_exponent g < negative_exponent f \<or>
     (negative_exponent f = negative_exponent g \<and> normalised_mantissa f < normalised_mantissa g)"

instance
  by standard (auto simp: less_eq_float01_def less_float01_def float01.expand)

end

definition float_max :: float01 where
  "float_max = Float01 (umax 256) 0"

definition right_shift_mod :: "nat \<Rightarrow> nat \<Rightarrow> nat \<times> nat" where
  "right_shift_mod x shift_bits =
     (if shift_bits \<ge> 512 then (0, x)
      else (ushr x shift_bits, and x (ushr (umax 512) (512 - shift_bits))))"

definition assert_valid :: "float01 \<Rightarrow> unit option" where
  "assert_valid f = assert_that (bit (normalised_mantissa f) 255)"

definition float_mul_div_ceil :: "float01 \<Rightarrow> nat \<Rightarrow> nat \<Rightarrow> float01 option" where
  "float_mul_div_ceil f numerator denominator =
     do { assert_that (numerator \<noteq> 0);
          assert_that (numerator \<le> denominator);
          assert_valid f;
          let unnormalised_mantissa = normalised_mantissa f * numerator;
          let normalize_shift = leading_zeros 512 unnormalised_mantissa;
          let mul_normalised_mantissa = ushl 512 unnormalised_mantissa normalize_shift;
          mul_normalise_shift \<leftarrow> usub 256 normalize_shift;
          d0 \<leftarrow> udiv mul_normalised_mantissa denominator;
          let div_remainder = mul_normalised_mantissa mod denominator;
          d1 \<leftarrow> (if div_remainder = 0 then Some d0 else uadd 512 d0 1);
          let div_normalise_shift = leading_zeros 512 d1;
          shift_bits \<leftarrow> usub 256 div_normalise_shift;
          let (d2, shift_remainder) = right_shift_mod d1 shift_bits;
          d3 \<leftarrow> uconv 256 d2;
          mantissa \<leftarrow> (if shift_remainder = 0 then Some d3 else uadd 256 d3 1);
          assert_that (mantissa \<noteq> 0);
          shift \<leftarrow> usub div_normalise_shift mul_normalise_shift;
          Some (case uadd 256 (negative_exponent f) shift of
                  Some expo \<Rightarrow> Float01 mantissa expo
                | None \<Rightarrow> Float01 (ushl 256 1 255) (umax 256)) }"

definition integer_mul_div :: "nat \<Rightarrow> float01 \<Rightarrow> float01 \<Rightarrow> (nat \<times> nat) option" where
  "integer_mul_div x numerator denominator =
     do { assert_that (numerator \<le> denominator);
          assert_valid numerator;
          assert_valid denominator;
          y_shifted_floor \<leftarrow> udiv (x * normalised_mantissa numerator) (normalised_mantissa denominator);
          let div_remainder = (x * normalised_mantissa numerator) mod normalised_mantissa denominator;
          expo \<leftarrow> usub (negative_exponent numerator) (negative_exponent denominator);
          let (y, shift_remainder) = right_shift_mod y_shifted_floor expo;
          y_floor \<leftarrow> uconv 256 y;
          y_ceil \<leftarrow> (if div_remainder = 0 \<and> shift_remainder = 0 then Some y_floor
                     else uadd 256 y_floor 1);
          Some (y_floor, y_ceil) }"

section \<open>Well-formed floats and their values\<close>

definition float_wf :: "float01 \<Rightarrow> bool" where
  "float_wf f \<longleftrightarrow> 2 ^ 255 \<le> normalised_mantissa f \<and> normalised_mantissa f < 2 ^ 256 \<and>
     negative_exponent f < 2 ^ 256"

definition float_val :: "float01 \<Rightarrow> real" where
  "float_val f = real (normalised_mantissa f) / 2 ^ 256 / 2 ^ negative_exponent f"

section \<open>Bit-level lemmas\<close>

lemma leading_zeros_normalise:
  assumes "0 < x" "x < 2 ^ w"
  shows "2 ^ (w - 1) \<le> x * 2 ^ leading_zeros w x" "x * 2 ^ leading_zeros w x < 2 ^ w"
proof -
  define b where "b = bit_len x"
  have b: "2 ^ (b - 1) \<le> x" "x < 2 ^ b" "b \<le> w"
    using bit_len_bounds [OF assms(1)] assms(2) by (simp_all add: b_def bit_len_le_iff)
  have b0: "0 < b" using b(2) assms(1) by (cases b) auto
  have "(2::nat) ^ (w - 1) = 2 ^ (b - 1) * 2 ^ (w - b)" "(2::nat) ^ w = 2 ^ b * 2 ^ (w - b)"
    using b(3) b0 by (simp_all flip: power_add)
  with b(1,2) show "2 ^ (w - 1) \<le> x * 2 ^ leading_zeros w x" "x * 2 ^ leading_zeros w x < 2 ^ w"
    by (simp_all add: leading_zeros_def b_def)
qed

lemma leading_zeros_le:
  assumes "2 ^ k \<le> x"
  shows "leading_zeros w x \<le> w - Suc k"
proof -
  have "\<not> bit_len x \<le> k" using assms by (simp add: bit_len_le_iff)
  then show ?thesis by (simp add: leading_zeros_def)
qed

lemma ushl_leading_zeros:
  "0 < x \<Longrightarrow> x < 2 ^ w \<Longrightarrow> ushl w x (leading_zeros w x) = x * 2 ^ leading_zeros w x"
  by (simp add: ushl_exact leading_zeros_normalise)

lemma right_shift_mod_eq:
  assumes "x < 2 ^ 512"
  shows "right_shift_mod x s = (x div 2 ^ s, x mod 2 ^ s)"
proof (cases "s \<ge> 512")
  case True
  then have "x < 2 ^ s" using assms by (meson less_le_trans one_le_numeral power_increasing)
  then show ?thesis using True by (simp add: right_shift_mod_def)
next
  case False
  have "umax 512 = mask 512" by (simp add: umax_def mask_eq_exp_minus_1)
  then have "ushr (umax 512) (512 - s) = mask s" using False by (simp add: ushr_def drop_bit_mask_eq)
  then show ?thesis using False
    by (simp add: right_shift_mod_def ushr_eq flip: take_bit_eq_mod take_bit_eq_mask)
qed

lemma div_ceil_div_ceil: "0 < b \<Longrightarrow> 0 < c \<Longrightarrow> div_ceil (div_ceil a b) c = div_ceil a (b * c)"
  by (rule antisym; simp add: div_ceil_le_iff mult.assoc mult.commute [of c])
    (metis div_ceil_mult_ge div_ceil_le_iff mult.assoc mult.commute nat_0_less_mult_iff)+

lemma div_ceil_step: "(if a mod b = 0 then a div b else a div b + 1) = div_ceil a b"
  by (simp add: div_ceil_def)

lemma bit_top:
  assumes "x < 2 ^ Suc k"
  shows "bit x k \<longleftrightarrow> 2 ^ k \<le> (x::nat)"
proof -
  have "x div 2 ^ k < 2" using assms by (intro less_mult_imp_div_less) simp
  then have "odd (x div 2 ^ k) \<longleftrightarrow> 0 < x div 2 ^ k" by (cases "x div 2 ^ k") auto
  then show ?thesis by (simp add: bit_iff_odd div_greater_zero_iff)
qed

lemma assert_valid_wf [simp]: "float_wf f \<Longrightarrow> assert_valid f = Some ()"
  using bit_top [of "normalised_mantissa f" 255] by (simp add: assert_valid_def float_wf_def assert_that_def)

section \<open>The exact result of \<open>mul_div_ceil\<close>\<close>

definition float_scaled :: "float01 \<Rightarrow> nat \<Rightarrow> nat" where
  "float_scaled f num = normalised_mantissa f * num * 2 ^ leading_zeros 512 (normalised_mantissa f * num)"

definition float_shift :: "float01 \<Rightarrow> nat \<Rightarrow> nat \<Rightarrow> nat" where
  "float_shift f num den = 256 - leading_zeros 512 (div_ceil (float_scaled f num) den)"

definition float_mantissa :: "float01 \<Rightarrow> nat \<Rightarrow> nat \<Rightarrow> nat" where
  "float_mantissa f num den = div_ceil (float_scaled f num) (den * 2 ^ float_shift f num den)"

lemma float_mul_div_ceil_facts:
  fixes f num den
  assumes f: "float_wf f" and num: "0 < num" "num \<le> den" and den: "den < 2 ^ 256"
  defines "p \<equiv> normalised_mantissa f * num"
  defines "s \<equiv> leading_zeros 512 p"
  defines "d \<equiv> div_ceil (float_scaled f num) den"
  defines "n \<equiv> leading_zeros 512 d"
  shows "0 < p" "p < 2 ^ 512" "s \<le> 256" "float_scaled f num < 2 ^ 512" "0 < d" "d < 2 ^ 512" "n \<le> 256"
    "2 ^ (255 + (256 - n)) \<le> d" "d < 2 ^ (256 + (256 - n))" "256 - n \<le> s"
proof -
  have m: "2 ^ 255 \<le> normalised_mantissa f" "normalised_mantissa f < 2 ^ 256"
    using f by (simp_all add: float_wf_def)
  have p: "2 ^ 255 \<le> p" using m(1) num(1) mult_le_mono [of "2 ^ 255" _ 1 num] by (simp add: p_def)
  have "p < 2 ^ 256 * 2 ^ 256" unfolding p_def using m(2) num den by (intro mult_strict_mono) auto
  then show p512: "p < 2 ^ 512" by simp
  show p0: "0 < p" using p by simp
  show s: "s \<le> 256" using leading_zeros_le [OF p, of 512] by (simp add: s_def)
  have M: "2 ^ 511 \<le> float_scaled f num" and M': "float_scaled f num < 2 ^ 512"
    using leading_zeros_normalise [OF p0 p512] by (simp_all add: float_scaled_def p_def)
  from M' show "float_scaled f num < 2 ^ 512" .
  have den0: "0 < den" using num by simp
  have "2 ^ 255 * den < 2 ^ 255 * 2 ^ 256" using den by (intro mult_strict_left_mono) auto
  then have "2 ^ 255 * den < float_scaled f num" using M by simp
  then have d: "2 ^ 255 \<le> d" using less_div_ceil_iff [OF den0] by (simp add: d_def less_imp_le)
  show d0: "0 < d" using d by simp
  have "d \<le> float_scaled f num" unfolding d_def using den0 by (simp add: div_ceil_le_iff)
  then show d512: "d < 2 ^ 512" using M' by simp
  show n: "n \<le> 256" using leading_zeros_le [OF d, of 512] by (simp add: n_def)
  have e: "(2::nat) ^ 511 = 2 ^ (255 + (256 - n)) * 2 ^ n" "(2::nat) ^ 512 = 2 ^ (256 + (256 - n)) * 2 ^ n"
    using n by (simp_all only: power_add [symmetric]) simp_all
  have dn: "2 ^ 511 \<le> d * 2 ^ n" "d * 2 ^ n < 2 ^ 512"
    using leading_zeros_normalise [OF d0 d512] by (simp_all add: n_def)
  show lo: "2 ^ (255 + (256 - n)) \<le> d" "d < 2 ^ (256 + (256 - n))"
    using dn unfolding e by simp_all
  have "float_scaled f num \<le> normalised_mantissa f * 2 ^ s * den"
    using num(2) by (simp add: float_scaled_def s_def p_def algebra_simps)
  then have "d \<le> normalised_mantissa f * 2 ^ s" using den0 by (simp add: d_def div_ceil_le_iff)
  also have "\<dots> < 2 ^ 256 * 2 ^ s" using m(2) by simp
  finally have "(2::nat) ^ (255 + (256 - n)) < 2 ^ (256 + s)" using lo(1) by (simp only: power_add)
  then have "255 + (256 - n) < 256 + s" by (simp only: power_strict_increasing_iff [of "2::nat"] one_less_numeral_iff semiring_norm)
  then show "256 - n \<le> s" by simp
qed

lemma float_mantissa_bounds:
  assumes f: "float_wf f" and num: "0 < num" "num \<le> den" and den: "den < 2 ^ 256"
  shows "2 ^ 255 \<le> float_mantissa f num den" "float_mantissa f num den \<le> 2 ^ 256"
    "float_mantissa f num den
       = div_ceil (div_ceil (float_scaled f num) den) (2 ^ float_shift f num den)"
    "float_shift f num den \<le> leading_zeros 512 (normalised_mantissa f * num)"
proof -
  note F = float_mul_div_ceil_facts [OF assms, folded float_shift_def]
  show e: "float_mantissa f num den
       = div_ceil (div_ceil (float_scaled f num) den) (2 ^ float_shift f num den)"
    using num by (simp add: float_mantissa_def div_ceil_div_ceil)
  have "div_ceil (2 ^ (255 + float_shift f num den)) (2 ^ float_shift f num den) \<le> float_mantissa f num den"
    unfolding e using F(8) by (intro div_ceil_mono) auto
  then show "2 ^ 255 \<le> float_mantissa f num den" by (simp add: div_ceil_def power_add)
  show "float_mantissa f num den \<le> 2 ^ 256"
    unfolding e using F(9) by (simp add: div_ceil_le_iff power_add less_imp_le)
  show "float_shift f num den \<le> leading_zeros 512 (normalised_mantissa f * num)"
    using F(10) .
qed

lemma float_mul_div_ceil_eq:
  assumes f: "float_wf f" and num: "0 < num" "num \<le> den" and den: "den < 2 ^ 256"
  defines "m \<equiv> float_mantissa f num den"
  defines "e \<equiv> negative_exponent f + (leading_zeros 512 (normalised_mantissa f * num) - float_shift f num den)"
  shows "float_mul_div_ceil f num den =
     (if m = 2 ^ 256 then None
      else Some (if e < 2 ^ 256 then Float01 m e else Float01 (2 ^ 255) (umax 256)))"
proof -
  define p where "p = normalised_mantissa f * num"
  define s where "s = leading_zeros 512 p"
  define d where "d = div_ceil (float_scaled f num) den"
  define n where "n = leading_zeros 512 d"
  note F = float_mul_div_ceil_facts [OF f num den, folded p_def, folded s_def, folded d_def, folded n_def]
  note B = float_mantissa_bounds [OF f num den, folded m_def, folded p_def, folded s_def, folded d_def]
  have k: "float_shift f num den = 256 - n" by (simp add: float_shift_def n_def d_def)
  have 1: "ushl 512 p s = float_scaled f num"
    using F(1,2) by (simp add: s_def ushl_leading_zeros float_scaled_def p_def)
  have 2: "usub 256 s = Some (256 - s)" "usub 256 n = Some (256 - n)" using F(3,7) by simp_all
  have 3: "udiv (float_scaled f num) den = Some (float_scaled f num div den)" using num by simp
  have 4: "(if float_scaled f num mod den = 0 then Some (float_scaled f num div den)
      else uadd 512 (float_scaled f num div den) 1) = Some d"
    using F(6) by (cases "float_scaled f num mod den = 0") (simp_all add: d_def div_ceil_def uadd_def)
  have 5: "right_shift_mod d (256 - n) = (d div 2 ^ (256 - n), d mod 2 ^ (256 - n))"
    by (rule right_shift_mod_eq [OF F(6)])
  have 6: "uconv 256 (d div 2 ^ (256 - n)) = Some (d div 2 ^ (256 - n))"
    using F(9) by (simp add: less_mult_imp_div_less power_add)
  have m_eq: "m = div_ceil d (2 ^ (256 - n))" using B(3) by (simp add: k)
  have 7: "(if d mod 2 ^ (256 - n) = 0 then Some (d div 2 ^ (256 - n)) else uadd 256 (d div 2 ^ (256 - n)) 1)
     = (if m = 2 ^ 256 then None else Some m)"
    using B(2) F(9) unfolding m_eq
    by (auto simp: div_ceil_def uadd_def less_mult_imp_div_less power_add)
  have 8: "usub n (256 - s) = Some (s - (256 - n))" using F(3,7,10) by (simp add: add.commute le_diff_conv)
  have e: "e = negative_exponent f + (s - (256 - n))" by (simp add: e_def s_def p_def k)
  have 9: "(case uadd 256 (negative_exponent f) (s - (256 - n)) of Some expo \<Rightarrow> Float01 m expo
       | None \<Rightarrow> Float01 (ushl 256 1 255) (umax 256))
     = (if e < 2 ^ 256 then Float01 m e else Float01 (2 ^ 255) (umax 256))"
    by (simp add: uadd_def e ushl_eq)
  have m0: "0 < m" using B(1) by (rule less_le_trans [rotated]) simp
  show ?thesis
    using num f unfolding float_mul_div_ceil_def Let_def p_def [symmetric] s_def [symmetric] 1 2 3 4 n_def [symmetric] 5
    by (cases "m = 2 ^ 256") (simp_all only: bind.bind_lunit bind.bind_lzero assert_that_True 2 3 4 5 6 7 8 9 n_def [symmetric] if_True
        if_False m0 not_False_eq_True assert_valid_wf prod.case neq0_conv simp_thms)
qed

section \<open>Values\<close>

lemma float_val_pos: "float_wf f \<Longrightarrow> 0 < float_val f"
  by (auto simp: float_val_def float_wf_def intro: divide_pos_pos less_le_trans [of 0 "2 ^ 255"])

text \<open>The order of the type is the order of the values.\<close>

lemma float_val_exponent_less:
  assumes f: "float_wf f" and g: "float_wf g" and less: "negative_exponent g < negative_exponent f"
  shows "float_val f < float_val g"
proof -
  define c :: nat where "c = 255"
  have m: "real (normalised_mantissa f) < 2 ^ Suc c" "2 ^ c \<le> real (normalised_mantissa g)"
    using f g by (simp_all add: float_wf_def c_def numeral_power_le_of_nat_cancel_iff of_nat_less_numeral_power_cancel_iff)
  obtain k where k: "negative_exponent f = negative_exponent g + Suc k"
    using less by (metis add_Suc_right less_iff_Suc_add)
  have "real (normalised_mantissa f) < 2 ^ c * 2 ^ Suc k"
  proof -
    have "(2::real) ^ Suc c \<le> 2 ^ c * 2 ^ Suc k" by simp
    with m(1) show ?thesis by (rule less_le_trans)
  qed
  also have "\<dots> \<le> real (normalised_mantissa g) * 2 ^ Suc k" using m(2) by simp
  finally have "real (normalised_mantissa f) / 2 ^ Suc k < real (normalised_mantissa g)"
    by (simp only: pos_divide_less_eq [of "2 ^ Suc k"] zero_less_power zero_less_numeral)
  then have "real (normalised_mantissa f) / 2 ^ Suc k / (2 ^ 256 * 2 ^ negative_exponent g)
       < real (normalised_mantissa g) / (2 ^ 256 * 2 ^ negative_exponent g)"
    by (intro divide_strict_right_mono) auto
  then show ?thesis unfolding float_val_def k power_add by (simp add: divide_divide_eq_left ac_simps)
qed

lemma float_val_mono:
  assumes "float_wf f" "float_wf g"
  shows "f \<le> g \<longleftrightarrow> float_val f \<le> float_val g"
proof -
  consider "negative_exponent g < negative_exponent f" | "negative_exponent f < negative_exponent g"
    | "negative_exponent f = negative_exponent g" by linarith
  then show ?thesis
  proof cases
    case 1
    then show ?thesis using float_val_exponent_less [OF assms] by (simp add: less_eq_float01_def)
  next
    case 2
    then show ?thesis using float_val_exponent_less [OF assms(2,1)] by (simp add: less_eq_float01_def)
  next
    case 3
    then show ?thesis by (simp add: less_eq_float01_def float_val_def divide_le_cancel)
  qed
qed

text \<open>What \<open>mul_div_ceil\<close> returns: a normalised float that is not above \<open>f\<close> and not below the exact product.\<close>

lemma float_scaled_value:
  assumes "k \<le> leading_zeros 512 (normalised_mantissa f * num)" "0 < den"
  shows "float_val f * real num / real den
    = real (float_scaled f num) / real (den * 2 ^ k) / 2 ^ 256
        / 2 ^ (negative_exponent f + (leading_zeros 512 (normalised_mantissa f * num) - k))"
proof -
  define s where "s = leading_zeros 512 (normalised_mantissa f * num)"
  obtain j where s: "s = k + j" using assms(1) by (metis le_iff_add s_def)
  define M :: real where "M = 2 ^ 256"
  show ?thesis
    using assms(2) unfolding float_val_def float_scaled_def s_def [symmetric] s M_def [symmetric]
    by (simp add: power_add field_simps)
qed

lemma float_saturated_value:
  fixes X :: real
  assumes "X \<le> 2 ^ 256" "\<not> e < 2 ^ 256"
  shows "X / 2 ^ 256 / 2 ^ e \<le> float_val (Float01 (2 ^ 255) (umax 256))"
proof -
  have "Suc (umax 256) \<le> e" using assms(2) by (simp add: umax_def)
  then have "(2::real) ^ Suc (umax 256) \<le> 2 ^ e" by (intro power_increasing) auto
  then have "1 / (2::real) ^ e \<le> 1 / 2 ^ Suc (umax 256)" by (intro divide_left_mono) auto
  moreover have "X / 2 ^ 256 / 2 ^ e \<le> 1 / 2 ^ e" using assms(1) by (intro divide_right_mono) auto
  moreover have "float_val (Float01 (2 ^ 255) (umax 256)) = 1 / 2 ^ Suc (umax 256)"
    by (simp add: float_val_def)
  ultimately show ?thesis by linarith
qed

lemma float_mul_div_ceil_Some:
  assumes f: "float_wf f" and num: "0 < num" "num \<le> den" and den: "den < 2 ^ 256"
    and g: "float_mul_div_ceil f num den = Some g"
  shows "float_wf g" "g \<le> f" "float_val f * real num / real den \<le> float_val g"
proof -
  define s where "s = leading_zeros 512 (normalised_mantissa f * num)"
  define k where "k = float_shift f num den"
  define m where "m = float_mantissa f num den"
  define e where "e = negative_exponent f + (s - k)"
  note B = float_mantissa_bounds [OF f num den, folded m_def k_def s_def]
  have den0: "0 < den" using num by simp
  have m_eq: "m = div_ceil (float_scaled f num) (den * 2 ^ k)" by (simp add: m_def float_mantissa_def k_def)
  have neq: "m \<noteq> 2 ^ 256" and g_eq: "g = (if e < 2 ^ 256 then Float01 m e else Float01 (2 ^ 255) (umax 256))"
    using g float_mul_div_ceil_eq [OF f num den, folded m_def k_def s_def, folded e_def]
    by (auto split: if_splits)
  have m256: "m < 2 ^ 256" using B(2) neq by linarith
  show "float_wf g" using B(1) m256 by (simp add: g_eq float_wf_def umax_def)
  have fm: "2 ^ 255 \<le> normalised_mantissa f" "negative_exponent f \<le> umax 256"
    using f by (simp_all add: float_wf_def umax_def)
  have "m \<le> normalised_mantissa f" if "s = k"
    unfolding m_eq using num(2) den0 that by (simp add: div_ceil_le_iff float_scaled_def s_def)
  then show "g \<le> f"
    using fm B(4) by (auto simp: g_eq less_eq_float01_def e_def)
  have X: "real (float_scaled f num) / real (den * 2 ^ k) \<le> real m"
    unfolding m_eq by (rule real_div_ceil_ge) (simp add: den0)
  have "real m \<le> real (2 ^ 256)" using B(2) by (rule of_nat_mono)
  then have m_real: "real m \<le> 2 ^ 256" by simp
  have eq: "float_val f * real num / real den = real (float_scaled f num) / real (den * 2 ^ k) / 2 ^ 256 / 2 ^ e"
    using float_scaled_value [OF B(4) [unfolded s_def] den0] by (simp only: e_def s_def)
  show "float_val f * real num / real den \<le> float_val g"
  proof (cases "e < 2 ^ 256")
    case True
    have "real (float_scaled f num) / real (den * 2 ^ k) / 2 ^ 256 / 2 ^ e \<le> real m / 2 ^ 256 / 2 ^ e"
      using X by (intro divide_right_mono) auto
    then show ?thesis unfolding eq using True by (simp add: g_eq float_val_def)
  next
    case False
    show ?thesis unfolding eq using float_saturated_value [OF order_trans [OF X m_real] False] False by (simp add: g_eq)
  qed
qed

section \<open>\<open>integer_mul_div\<close> rounds exactly\<close>

lemma float_ratio:
  assumes d: "float_wf d" and le: "negative_exponent d \<le> negative_exponent n"
  shows "float_val n / float_val d =
     real (normalised_mantissa n) / real (normalised_mantissa d * 2 ^ (negative_exponent n - negative_exponent d))"
proof -
  obtain k where k: "negative_exponent n = negative_exponent d + k" using le by (metis le_iff_add)
  define M :: real where "M = 2 ^ 256"
  have "0 < M" by (simp add: M_def)
  moreover have "0 < normalised_mantissa d" using d by (auto simp: float_wf_def intro: less_le_trans [of 0 "2 ^ 255"])
  ultimately show ?thesis unfolding float_val_def k M_def [symmetric] by (simp add: power_add field_simps)
qed

lemma integer_mul_div_eq:
  assumes n: "float_wf n" and d: "float_wf d" and le: "n \<le> d" and x: "x < 2 ^ 256"
  defines "q \<equiv> normalised_mantissa d * 2 ^ (negative_exponent n - negative_exponent d)"
  shows "integer_mul_div x n d = Some (x * normalised_mantissa n div q, div_ceil (x * normalised_mantissa n) q)"
    and "div_ceil (x * normalised_mantissa n) q \<le> x"
proof -
  define a where "a = x * normalised_mantissa n"
  define b where "b = normalised_mantissa d"
  define k where "k = negative_exponent n - negative_exponent d"
  have q: "q = b * 2 ^ k" by (simp add: q_def b_def k_def)
  have b0: "0 < b" using d by (auto simp: b_def float_wf_def intro: less_le_trans [of 0 "2 ^ 255"])
  have q0: "0 < q" using b0 by (simp add: q)
  have ed: "negative_exponent d \<le> negative_exponent n" using le by (auto simp: less_eq_float01_def)
  have "float_val n / float_val d \<le> 1"
    using le float_val_mono [OF n d] float_val_pos [OF d] by (simp add: divide_le_eq)
  then have "real (normalised_mantissa n) \<le> real q"
    unfolding float_ratio [OF d ed] using q0 by (simp add: q_def divide_le_eq)
  then have "a \<le> x * q" by (simp add: a_def)
  then have le_x: "div_ceil a q \<le> x" using q0 by (simp add: div_ceil_le_iff mult.commute)
  then show "div_ceil (x * normalised_mantissa n) q \<le> x" by (simp add: a_def)
  have "a < 2 ^ 256 * 2 ^ 256"
    unfolding a_def using x n by (intro mult_strict_mono) (auto simp: float_wf_def)
  then have "a < 2 ^ 512" by simp
  then have ab: "a div b < 2 ^ 512" using div_le_dividend [of a b] by linarith
  have 1: "right_shift_mod (a div b) k = (a div q, a div b mod 2 ^ k)"
    unfolding right_shift_mod_eq [OF ab] by (simp add: q div_mult2_eq)
  have rem: "a mod b = 0 \<and> a div b mod 2 ^ k = 0 \<longleftrightarrow> a mod q = 0"
    using b0 by (auto simp: q mod_mult2_eq)
  have 2: "uconv 256 (a div q) = Some (a div q)"
    using div_le_div_ceil [of a q] le_x x by simp
  have 3: "(if a mod b = 0 \<and> a div b mod 2 ^ k = 0 then Some (a div q) else uadd 256 (a div q) 1)
      = Some (div_ceil a q)"
    unfolding rem using le_x x by (auto simp: div_ceil_def uadd_def split: if_splits)
  have 4: "udiv a b = Some (a div b)" "usub (negative_exponent n) (negative_exponent d) = Some k"
    using b0 ed by (simp_all add: k_def)
  show "integer_mul_div x n d = Some (x * normalised_mantissa n div q, div_ceil (x * normalised_mantissa n) q)"
    using le n d unfolding integer_mul_div_def a_def [symmetric] b_def [symmetric] Let_def
    by (simp only: assert_that_True assert_valid_wf bind.bind_lunit 4 1 prod.case 2 3)
qed

lemma integer_mul_div_real:
  assumes n: "float_wf n" and d: "float_wf d" and le: "n \<le> d" and x: "x < 2 ^ 256"
  obtains fl cl where "integer_mul_div x n d = Some (fl, cl)" "fl \<le> cl" "cl \<le> x"
    "real fl \<le> real x * (float_val n / float_val d)" "real x * (float_val n / float_val d) \<le> real cl"
    "real x * (float_val n / float_val d) < real fl + 1" "real cl < real x * (float_val n / float_val d) + 1"
proof -
  define q where "q = normalised_mantissa d * 2 ^ (negative_exponent n - negative_exponent d)"
  define a where "a = x * normalised_mantissa n"
  have q0: "0 < q" using d by (auto simp: q_def float_wf_def intro: less_le_trans [of 0 "2 ^ 255"])
  have ed: "negative_exponent d \<le> negative_exponent n" using le by (auto simp: less_eq_float01_def)
  have r: "real x * (float_val n / float_val d) = real a / real q"
    unfolding float_ratio [OF d ed] by (simp add: a_def q_def)
  note E = integer_mul_div_eq [OF assms, folded q_def a_def]
  show thesis
    using that [OF E(1) div_le_div_ceil E(2)] real_div_le [of a q] real_div_greater [OF q0, of a]
      real_div_ceil_ge [OF q0, of a] real_div_ceil_less [OF q0, of a] unfolding r by linarith
qed

text \<open>As long as the exponent cannot saturate, the result is within a factor \<open>1 - 2^-255\<close> of the exact product.\<close>

lemma float_mul_div_ceil_precise:
  assumes f: "float_wf f" and num: "0 < num" "num \<le> den" and den: "den < 2 ^ 256"
    and g: "float_mul_div_ceil f num den = Some g" and e: "negative_exponent f + 256 < 2 ^ 256"
  shows "float_val g * (1 - 1 / 2 ^ 255) \<le> float_val f * real num / real den"
proof -
  define s where "s = leading_zeros 512 (normalised_mantissa f * num)"
  define k where "k = float_shift f num den"
  define m where "m = float_mantissa f num den"
  define e' where "e' = negative_exponent f + (s - k)"
  note B = float_mantissa_bounds [OF f num den, folded m_def k_def s_def]
  have den0: "0 < den" using num by simp
  have m_eq: "m = div_ceil (float_scaled f num) (den * 2 ^ k)" by (simp add: m_def float_mantissa_def k_def)
  have "s \<le> 256" using float_mul_div_ceil_facts(3) [OF f num den] by (simp add: s_def)
  then have "e' < 2 ^ 256" using e by (simp add: e'_def)
  then have g_eq: "g = Float01 m e'"
    using g float_mul_div_ceil_eq [OF f num den, folded m_def k_def s_def, folded e'_def]
    by (auto split: if_splits)
  have X: "real m < real (float_scaled f num) / real (den * 2 ^ k) + 1"
    unfolding m_eq by (rule real_div_ceil_less) (simp add: den0)
  have "real (2 ^ 255) \<le> real m" using B(1) by (rule of_nat_mono)
  then have "1 \<le> real m * (1 / 2 ^ 255)" by simp
  then have "real m * (1 - 1 / 2 ^ 255) \<le> real (float_scaled f num) / real (den * 2 ^ k)"
    using X unfolding right_diff_distrib by linarith
  then have "real m * (1 - 1 / 2 ^ 255) / 2 ^ 256 / 2 ^ e'
      \<le> real (float_scaled f num) / real (den * 2 ^ k) / 2 ^ 256 / 2 ^ e'"
    by (intro divide_right_mono) auto
  moreover have "float_val f * real num / real den = real (float_scaled f num) / real (den * 2 ^ k) / 2 ^ 256 / 2 ^ e'"
    using float_scaled_value [OF B(4) [unfolded s_def] den0] by (simp only: e'_def s_def)
  ultimately show ?thesis unfolding g_eq by (simp add: float_val_def)
qed

section \<open>Properties\<close>

text \<open>
  C20. \<open>integer_mul_div\<close> never panics when the numerator is not above the denominator, and
  returns exactly the floor and the ceiling of the real product.
\<close>

theorem integer_mul_div_exact:
  assumes "float_wf n" "float_wf d" "n \<le> d" "x < 2 ^ 256"
  shows "integer_mul_div x n d =
    Some (nat \<lfloor>real x * (float_val n / float_val d)\<rfloor>, nat \<lceil>real x * (float_val n / float_val d)\<rceil>)"
proof -
  obtain fl cl where r: "integer_mul_div x n d = Some (fl, cl)" "fl \<le> cl" "cl \<le> x"
    "real fl \<le> real x * (float_val n / float_val d)" "real x * (float_val n / float_val d) \<le> real cl"
    "real x * (float_val n / float_val d) < real fl + 1" "real cl < real x * (float_val n / float_val d) + 1"
    using integer_mul_div_real [OF assms] .
  then have "\<lfloor>real x * (float_val n / float_val d)\<rfloor> = int fl" "\<lceil>real x * (float_val n / float_val d)\<rceil> = int cl"
    by (simp_all add: floor_eq_iff ceiling_eq_iff)
  then show ?thesis using r(1) by simp
qed

theorem integer_mul_div_exact_witness:
  "integer_mul_div 1000 (Float01 (3 * 2 ^ 254) 1) float_max =
    Some (nat \<lfloor>real 1000 * (float_val (Float01 (3 * 2 ^ 254) 1) / float_val float_max)\<rfloor>,
          nat \<lceil>real 1000 * (float_val (Float01 (3 * 2 ^ 254) 1) / float_val float_max)\<rceil>)"
  by (rule integer_mul_div_exact) (simp_all add: float_wf_def float_max_def umax_def less_eq_float01_def)

text \<open>
  C21. \<open>FloatBetweenZeroAndOne::mul_div_ceil\<close> on a non-zero numerator not above the denominator
  either panics, which happens exactly when the rounded mantissa is \<open>2^256\<close>, or returns a
  normalised float that is not above \<open>f\<close> and not below the exact product; as long as the
  exponent cannot saturate it is within a factor \<open>1 - 2^-255\<close> of it.
\<close>

theorem float_mul_div_ceil_result:
  assumes "float_wf f" "0 < num" "num \<le> den" "den < 2 ^ 256"
  shows "case float_mul_div_ceil f num den of
      None \<Rightarrow> float_mantissa f num den = 2 ^ 256
    | Some g \<Rightarrow> float_mantissa f num den < 2 ^ 256 \<and> float_wf g \<and> g \<le> f \<and>
        float_val f * real num / real den \<le> float_val g \<and>
        (negative_exponent f + 256 < 2 ^ 256 \<longrightarrow>
           float_val g * (1 - 1 / 2 ^ 255) \<le> float_val f * real num / real den)"
proof (cases "float_mul_div_ceil f num den")
  case None
  then show ?thesis using float_mul_div_ceil_eq [OF assms] by (auto split: if_splits)
next
  case (Some g)
  then have "float_mantissa f num den \<noteq> 2 ^ 256"
    using float_mul_div_ceil_eq [OF assms] by (auto split: if_splits)
  then have "float_mantissa f num den < 2 ^ 256" using float_mantissa_bounds(2) [OF assms] by linarith
  then show ?thesis
    using float_mul_div_ceil_Some [OF assms Some] float_mul_div_ceil_precise [OF assms Some] Some by simp
qed

theorem float_mul_div_ceil_result_witness:
  "case float_mul_div_ceil float_max 2 3 of
      None \<Rightarrow> float_mantissa float_max 2 3 = 2 ^ 256
    | Some g \<Rightarrow> float_mantissa float_max 2 3 < 2 ^ 256 \<and> float_wf g \<and> g \<le> float_max \<and>
        float_val float_max * real 2 / real 3 \<le> float_val g \<and>
        (negative_exponent float_max + 256 < 2 ^ 256 \<longrightarrow>
           float_val g * (1 - 1 / 2 ^ 255) \<le> float_val float_max * real 2 / real 3)"
  by (rule float_mul_div_ceil_result) (simp_all add: float_wf_def float_max_def umax_def)

end
