(* ===== verification/Amm_Tick_Math.thy ===== *)
theory Amm_Tick_Math
  imports Amm_Common
begin

text \<open>
  Correctness of the tick mathematics of \<open>state-chain/amm/src/common.rs\<close>. The functions
  \<open>sqrt_price_at_tick\<close> and \<open>tick_at_sqrt_price\<close> compute with fixed-point integers; the proofs
  compare them with the real number \<open>96 + t * omega\<close>, where \<open>omega\<close> is the binary logarithm of
  \<open>sqrt 1.0001\<close>.

  First the twenty constants of \<open>sqrt_price_at_tick\<close> are shown to be the successive squares
  of \<open>1 / sqrt 1.0001\<close> up to \<open>2^-36\<close>, which with a chain of further squarings gives rational
  bounds on \<open>omega\<close>; then the fold over the bits is bounded, which gives that the function never
  panics, that it is strictly increasing, and that it maps the tick range onto
  \<open>[MIN_SQRT_PRICE, MAX_SQRT_PRICE]\<close>. The second half bounds the binary logarithm that
  \<open>tick_at_sqrt_price\<close> computes and shows that its two candidate ticks bracket the real tick, so
  that the result is the greatest tick whose price is not above the argument.
\<close>

section \<open>Binary logarithms of the constants\<close>

definition omega :: real where
  "omega = log 2 (sqrt (10001 / 10000))"

lemma ln2_lower: "1 / 2 \<le> ln (2::real)"
  using exp_half_le2 by (subst ln_ge_iff) simp_all

lemma log2_near:
  fixes A B u :: real
  assumes B: "0 < B" and u: "0 \<le> u" "u \<le> 1 / 2" and near: "\<bar>A - B\<bar> \<le> u * B"
  shows "\<bar>log 2 A - log 2 B\<bar> \<le> 4 * u"
proof -
  define r where "r = A / B"
  have r: "1 - u \<le> r" "r \<le> 1 + u"
    using near B by (simp_all add: r_def field_simps abs_le_iff)
  then have "0 < r" using u by linarith
  then have "0 < A" using B by (simp add: r_def zero_less_divide_iff)
  have "ln r \<le> ln (1 + u)" using r \<open>0 < r\<close> u by simp
  also have "\<dots> \<le> u" using u ln_add_one_self_le_self by blast
  finally have up: "ln r \<le> u" .
  have "u * u \<le> u * (1 / 2)" using u by (intro mult_left_mono) auto
  then have "- u - 2 * u\<^sup>2 \<ge> - 2 * u" by (simp add: power2_eq_square)
  moreover have "- u - 2 * u\<^sup>2 \<le> ln (1 - u)" using u by (rule ln_one_minus_pos_lower_bound)
  moreover have "ln (1 - u) \<le> ln r" using r u by simp
  ultimately have lo: "- 2 * u \<le> ln r" by linarith
  have "\<bar>ln r\<bar> \<le> 2 * u" using up lo u by linarith
  then have "\<bar>ln r\<bar> / ln 2 \<le> 2 * u / (1 / 2)" using ln2_lower u by (intro frac_le) auto
  moreover have "log 2 A - log 2 B = ln r / ln 2"
    using \<open>0 < A\<close> B by (simp add: log_def r_def ln_div diff_divide_distrib)
  ultimately show ?thesis by (simp add: abs_divide)
qed

lemma log2_mult_power: "0 < x \<Longrightarrow> log 2 (x * 2 ^ n) = log 2 x + real n"
  by (simp add: log_mult log_nat_power)

text \<open>A chain of rounded squares: each entry is the square of the one before, scaled down.\<close>

fun sq_chain :: "nat \<Rightarrow> (nat \<times> nat) list \<Rightarrow> bool" where
  "sq_chain a [] \<longleftrightarrow> True"
| "sq_chain a ((k, b) # xs) \<longleftrightarrow>
     2 ^ 60 \<le> b \<and> 2 ^ k * (b - 2) \<le> a\<^sup>2 \<and> a\<^sup>2 \<le> 2 ^ k * (b + 2) \<and> sq_chain b xs"

lemma log2_sq_step:
  assumes "2 ^ 60 \<le> b" "2 ^ k * (b - 2) \<le> a\<^sup>2" "a\<^sup>2 \<le> 2 ^ k * (b + 2)"
  shows "\<bar>2 * log 2 (real a) - real k - log 2 (real b)\<bar> \<le> 1 / 2 ^ 57"
proof -
  have b: "2 \<le> b" "(0::real) < real b" using assms(1) by simp_all
  have "real (2 ^ k * (b - 2)) \<le> real (a\<^sup>2)" "real (a\<^sup>2) \<le> real (2 ^ k * (b + 2))"
    using assms(2,3) of_nat_mono by blast+
  then have sq: "2 ^ k * (real b - 2) \<le> (real a)\<^sup>2" "(real a)\<^sup>2 \<le> 2 ^ k * (real b + 2)"
    using b by (simp_all add: of_nat_diff distrib_left)
  have a: "0 < real a"
  proof (rule ccontr)
    assume "\<not> 0 < real a"
    then have "a = 0" by simp
    with assms(1,2) show False by simp
  qed
  have "\<bar>(real a)\<^sup>2 - 2 ^ k * real b\<bar> \<le> (2 / real b) * (2 ^ k * real b)"
    using sq b by (simp add: abs_le_iff field_simps)
  moreover have "2 / real b \<le> 1 / 2 ^ 59"
  proof -
    have "(2::real) ^ 60 \<le> real b" using assms(1) by simp
    then show ?thesis by (simp add: field_simps)
  qed
  moreover from this have "2 / real b \<le> 1 / 2" by (rule order_trans) simp
  ultimately have "\<bar>log 2 ((real a)\<^sup>2) - log 2 (2 ^ k * real b)\<bar> \<le> 4 * (2 / real b)"
    using b by (intro log2_near) auto
  also have "\<dots> \<le> 4 * (1 / 2 ^ 59)" using \<open>2 / real b \<le> 1 / 2 ^ 59\<close> by simp
  finally show ?thesis using a b by (simp add: log_mult log_nat_power diff_diff_eq)
qed

lemma sq_chain_log:
  assumes "sq_chain a xs" and "\<bar>log 2 (real a) - (E - x)\<bar> \<le> e"
  shows "\<bar>log 2 (real (last (a # map snd xs))) -
           (fold (\<lambda>(k, b) E. 2 * E - real k) xs E - 2 ^ length xs * x)\<bar>
         \<le> 2 ^ length xs * (e + 1 / 2 ^ 57) - 1 / 2 ^ 57"
  using assms
proof (induction xs arbitrary: a E x e)
  case (Cons kb xs)
  obtain k b where kb: "kb = (k, b)" by fastforce
  with Cons.prems have st: "\<bar>2 * log 2 (real a) - real k - log 2 (real b)\<bar> \<le> 1 / 2 ^ 57"
    by (intro log2_sq_step) auto
  have "\<bar>log 2 (real b) - ((2 * E - real k) - 2 * x)\<bar> \<le> 2 * e + 1 / 2 ^ 57"
    using st Cons.prems(2) by linarith
  from Cons.IH [OF _ this] Cons.prems(1) kb
  show ?case by (simp add: algebra_simps)
qed simp

lemma sq_chain_nth:
  assumes "sq_chain a xs" and "\<forall>(k, b) \<in> set xs. k = 128"
    and "\<bar>log 2 (real a) - (128 - x)\<bar> \<le> e" and "i < length xs"
  shows "\<bar>log 2 (real (snd (xs ! i))) - (128 - 2 ^ Suc i * x)\<bar> \<le> 2 ^ Suc i * (e + 1 / 2 ^ 57)"
  using assms
proof (induction xs arbitrary: a x e i)
  case (Cons kb xs)
  obtain b where kb: "kb = (128, b)" using Cons.prems(2) by (cases kb) auto
  with Cons.prems have st: "\<bar>2 * log 2 (real a) - 128 - log 2 (real b)\<bar> \<le> 1 / 2 ^ 57"
    using log2_sq_step [of b 128 a] by simp
  have b: "\<bar>log 2 (real b) - (128 - 2 * x)\<bar> \<le> 2 * e + 1 / 2 ^ 57"
    using st Cons.prems(3) by linarith
  show ?case
  proof (cases i)
    case 0
    then show ?thesis using b kb by (simp add: algebra_simps)
  next
    case (Suc j)
    have "\<bar>log 2 (real (snd (xs ! j))) - (128 - 2 ^ Suc j * (2 * x))\<bar>
            \<le> 2 ^ Suc j * (2 * e + 1 / 2 ^ 57 + 1 / 2 ^ 57)"
      using Cons.IH [OF _ _ b] Cons.prems kb Suc by simp
    then show ?thesis using Suc kb by (simp add: algebra_simps)
  qed
qed simp

definition tick_bit_0 :: nat where "tick_bit_0 = 0xfffcb933bd6fad37aa2d162d1a594001"

definition omega_chain :: "(nat \<times> nat) list" where
  "omega_chain = [(117, 11878709608121046673),
    (63, 15298498357243375097),
    (64, 12687553481057923734),
    (63, 17452837497119776274),
    (64, 16512482391675323490),
    (64, 14781040689125610988),
    (64, 11843779204643771407),
    (63, 15208657450641759406),
    (64, 12538974928405732781),
    (63, 17046465395404618945),
    (64, 15752480834320617913),
    (64, 13451731722634481016),
    (64, 9809269625831743331),
    (63, 10432385271653578483),
    (63, 11799877747675433623),
    (63, 15096118242191880689),
    (64, 12354092682785853451),
    (63, 16547484521388612932),
    (64, 14843770959876064342),
    (64, 11944521777330169057),
    (63, 15468485920228207214),
    (64, 12971072602742594629),
    (63, 18241563258353975511)]"

lemma length_tick_bit_constants: "length tick_bit_constants = 19"
  by (simp add: tick_bit_constants_def)

lemma nth_tick_bit_constants: "i < 19 \<Longrightarrow> fst (tick_bit_constants ! i) = Suc i"
proof -
  assume i: "i < 19"
  have "map fst tick_bit_constants = [1..<20]"
    by (simp add: tick_bit_constants_def upt_conv_Cons)
  then have "map fst tick_bit_constants ! i = [1..<20] ! i" by simp
  then show ?thesis using i length_tick_bit_constants by simp
qed

lemma constants_chain: "sq_chain tick_bit_0 (map (\<lambda>(i, c). (128, c)) tick_bit_constants)"
  by (simp add: tick_bit_0_def tick_bit_constants_def)

lemma omega_chain_ok: "sq_chain (snd (last tick_bit_constants)) omega_chain"
  by (simp add: omega_chain_def tick_bit_constants_def)

lemma log2_tick_bit_0: "\<bar>log 2 (real tick_bit_0) - (128 - omega)\<bar> \<le> 1 / 2 ^ 57"
proof -
  define L where "L = log 2 (real tick_bit_0)"
  have pos: "0 < real tick_bit_0" by (simp add: tick_bit_0_def)
  have eq1: "log 2 (10001 * (real tick_bit_0)\<^sup>2) = log 2 10001 + 2 * L"
    using pos by (simp add: L_def log_mult log_nat_power)
  have eq2: "log 2 (10000 * 2 ^ 256 :: real) = log 2 10000 + 256"
    using log2_mult_power [of 10000 256] by simp
  have "\<bar>10001 * (real tick_bit_0)\<^sup>2 - 10000 * 2 ^ 256\<bar> \<le> (1 / 2 ^ 60) * (10000 * 2 ^ 256)"
    by (simp add: tick_bit_0_def)
  then have "\<bar>log 2 (10001 * (real tick_bit_0)\<^sup>2) - log 2 (10000 * 2 ^ 256)\<bar> \<le> 4 * (1 / 2 ^ 60)"
    by (intro log2_near) simp_all
  then have "\<bar>(log 2 10001 + 2 * L) - (log 2 10000 + 256)\<bar> \<le> 4 * (1 / 2 ^ 60)"
    by (simp only: eq1 eq2)
  moreover have "omega = (log 2 10001 - log 2 10000) / 2"
    by (simp add: omega_def log_divide log_def ln_sqrt ln_div diff_divide_distrib)
  moreover have "\<bar>L - (128 - w)\<bar> \<le> 1 / 2 ^ 57"
    if "\<bar>(a + 2 * L) - (b + 256)\<bar> \<le> 4 * (1 / 2 ^ 60)" and "w = (a - b) / 2" for a b w :: real
  proof -
    have eq: "L - (128 - w) = ((a + 2 * L) - (b + 256)) / 2" using that(2) by (simp add: field_simps)
    have "\<bar>L - (128 - w)\<bar> \<le> 4 * (1 / 2 ^ 60) / 2"
      unfolding eq abs_divide using that(1) by (simp del: abs_divide)
    then show ?thesis by (rule order_trans) simp
  qed
  ultimately show ?thesis unfolding L_def by blast
qed

lemma log2_tick_constants:
  assumes "(i, c) \<in> set tick_bit_constants"
  shows "\<bar>log 2 (real c) - (128 - 2 ^ i * omega)\<bar> \<le> 1 / 2 ^ 36"
proof -
  let ?xs = "map (\<lambda>(i, c). (128, c)) tick_bit_constants :: (nat \<times> nat) list"
  from assms have "\<exists>j < 19. tick_bit_constants ! j = (i, c)"
    by (metis in_set_conv_nth length_tick_bit_constants)
  then obtain j where j: "j < 19" "tick_bit_constants ! j = (i, c)" by blast
  have i: "i = Suc j" using nth_tick_bit_constants j by (metis fst_conv)
  have "\<bar>log 2 (real (snd (?xs ! j))) - (128 - 2 ^ Suc j * omega)\<bar>
          \<le> 2 ^ Suc j * (1 / 2 ^ 57 + 1 / 2 ^ 57)"
    by (rule sq_chain_nth [OF constants_chain _ log2_tick_bit_0])
       (use j length_tick_bit_constants in auto)
  moreover have "snd (?xs ! j) = c" using j length_tick_bit_constants by simp
  moreover have "(2::real) ^ Suc j * (1 / 2 ^ 57 + 1 / 2 ^ 57) \<le> 2 ^ 19 * (1 / 2 ^ 57 + 1 / 2 ^ 57)"
    using j by (intro mult_right_mono power_increasing) auto
  ultimately show ?thesis using i by simp
qed

lemma omega_bounds: "317236132 / 2 ^ 42 \<le> omega" "omega \<le> 317236135 / 2 ^ 42"
proof -
  have "\<bar>log 2 (real (last (snd (last tick_bit_constants) # map snd omega_chain))) -
         (fold (\<lambda>(k, b) E. 2 * E - real k) omega_chain 128 - 2 ^ length omega_chain * (2 ^ 19 * omega))\<bar>
         \<le> 2 ^ length omega_chain * (1 / 2 ^ 36 + 1 / 2 ^ 57) - 1 / 2 ^ 57"
    by (rule sq_chain_log [OF omega_chain_ok], rule log2_tick_constants)
       (simp add: tick_bit_constants_def)
  moreover have "fold (\<lambda>(k, b) E. 2 * E - real k) omega_chain 128 = 317236197"
    by (simp add: omega_chain_def)
  moreover have "last (snd (last tick_bit_constants) # map snd omega_chain) = 18241563258353975511"
    by (simp add: omega_chain_def)
  moreover have "length omega_chain = 23" by (simp add: omega_chain_def)
  ultimately have a: "\<bar>log 2 18241563258353975511 - (317236197 - 2 ^ 42 * omega)\<bar>
     \<le> 2 ^ 23 * (1 / 2 ^ 36 + 1 / 2 ^ 57)" by simp
  have "63 \<le> log 2 (18241563258353975511::real)" "log 2 (18241563258353975511::real) \<le> 64"
    by (simp_all add: le_log_iff log_le_iff)
  moreover have "\<bar>log 2 18241563258353975511 - (317236197 - 2 ^ 42 * omega)\<bar> \<le> 1"
    by (rule order_trans [OF a]) simp
  ultimately have "317236132 \<le> 2 ^ 42 * omega" "2 ^ 42 * omega \<le> 317236135"
    by linarith+
  then show "317236132 / 2 ^ 42 \<le> omega" "omega \<le> 317236135 / 2 ^ 42"
    by (simp_all add: field_simps)
qed

lemma log2_floor_near:
  fixes x :: real
  assumes "2 ^ k \<le> x" "x - 1 \<le> y" "y \<le> x" "1 \<le> k"
  shows "\<bar>log 2 y - log 2 x\<bar> \<le> 4 / 2 ^ k"
proof -
  have x: "0 < x" using assms(1) by (rule less_le_trans [rotated]) simp
  have "(2::real) ^ 1 \<le> 2 ^ k" using assms(4) by (intro power_increasing) auto
  then have "1 / (2::real) ^ k \<le> 1 / 2" by (simp add: field_simps)
  moreover have "1 \<le> 1 / 2 ^ k * x" using assms(1) by (simp add: field_simps)
  then have "\<bar>y - x\<bar> \<le> 1 / 2 ^ k * x" using assms by linarith
  ultimately have "\<bar>log 2 y - log 2 x\<bar> \<le> 4 * (1 / 2 ^ k)" using x by (intro log2_near) auto
  then show ?thesis by simp
qed

lemma log2_ceil_near:
  fixes x :: real
  assumes "2 ^ k \<le> x" "x \<le> y" "y \<le> x + 1" "1 \<le> k"
  shows "\<bar>log 2 y - log 2 x\<bar> \<le> 4 / 2 ^ k"
proof -
  have x: "0 < x" using assms(1) by (rule less_le_trans [rotated]) simp
  have "(2::real) ^ 1 \<le> 2 ^ k" using assms(4) by (intro power_increasing) auto
  then have "1 / (2::real) ^ k \<le> 1 / 2" by (simp add: field_simps)
  moreover have "1 \<le> 1 / 2 ^ k * x" using assms(1) by (simp add: field_simps)
  then have "\<bar>y - x\<bar> \<le> 1 / 2 ^ k * x" using assms by linarith
  ultimately have "\<bar>log 2 y - log 2 x\<bar> \<le> 4 * (1 / 2 ^ k)" using x by (intro log2_near) auto
  then show ?thesis by simp
qed

lemma handle_tick_bit_log:
  assumes c: "c < 2 ^ 128" "\<bar>log 2 (real c) - (128 - 2 ^ i * omega)\<bar> \<le> e" "0 \<le> e" "e \<le> 1"
    and R: "0 < R" "R \<le> 2 ^ 128" "62 \<le> log 2 (real R) - 2 ^ i * omega"
    and b: "bit t i"
  shows "\<exists>R'. handle_tick_bit t (i, c) R = Some R' \<and> R' \<le> R \<and> 0 < R' \<and>
           \<bar>log 2 (real R') - (log 2 (real R) - 2 ^ i * omega)\<bar> \<le> e + 1 / 2 ^ 59"
proof -
  let ?x = "real R * real c / 2 ^ 128" and ?R' = "R * c div 2 ^ 128"
  have c0: "0 < c"
  proof (rule ccontr)
    assume "\<not> 0 < c"
    then have "128 - 2 ^ i * omega \<le> 1" using c by (simp add: log_def abs_le_iff)
    moreover have "log 2 (real R) \<le> 128" using R by (simp add: log_le_iff)
    ultimately show False using R(3) by linarith
  qed
  have lx: "log 2 ?x = log 2 (real R) + log 2 (real c) - 128"
    using R c0 log2_of_power_eq [of "2 ^ 128" 128] by (simp add: log_mult log_divide)
  then have "61 \<le> log 2 ?x" using R(3) c by linarith
  then have x: "2 ^ 61 \<le> ?x" using R c0 by (simp add: le_log_iff powr_realpow)
  have "R * c < 2 ^ 128 * 2 ^ 128" using R c by (intro mult_le_less_imp_less) auto
  then have ov: "R * c < 2 ^ 256" by (simp flip: power_add)
  have fl: "?x - 1 \<le> real ?R'" "real ?R' \<le> ?x"
    using real_div_greater [of "2 ^ 128" "R * c"] real_div_le [of "R * c" "2 ^ 128"] by simp_all
  have "?R' \<le> R * 2 ^ 128 div 2 ^ 128" using c by (intro div_le_mono mult_le_mono) auto
  then have le: "?R' \<le> R" by simp
  have "1 < ?x" using x by (rule less_le_trans [rotated]) simp
  then have "0 < ?x - 1" by simp
  then have "0 < real ?R'" using fl(1) by (rule less_le_trans)
  moreover have "\<bar>log 2 (real ?R') - log 2 ?x\<bar> \<le> 4 / 2 ^ 61"
    by (rule log2_floor_near [OF x fl]) simp
  moreover have "\<bar>A - (r - w)\<bar> \<le> e + d" if "\<bar>A - X\<bar> \<le> d" "X = r + l - 128" "\<bar>l - (128 - w)\<bar> \<le> e"
    for A X r w l d :: real using that by linarith
  note this [OF _ lx c(2)]
  ultimately have "0 < ?R'" "\<bar>log 2 (real ?R') - (log 2 (real R) - 2 ^ i * omega)\<bar> \<le> e + 4 / 2 ^ 61"
    by (simp_all only: of_nat_0_less_iff)
  moreover have "handle_tick_bit t (i, c) R = Some ?R'"
    using b ov by (simp add: handle_tick_bit_def umul_def ushr_eq)
  ultimately show ?thesis using le by auto
qed

fun tick_sum :: "nat \<Rightarrow> (nat \<times> nat) list \<Rightarrow> nat" where
  "tick_sum t [] = 0"
| "tick_sum t ((i, c) # cs) = (if bit t i then 2 ^ i else 0) + tick_sum t cs"

lemma foldM_tick_log:
  assumes "\<forall>(i, c) \<in> set cs. c < 2 ^ 128 \<and> \<bar>log 2 (real c) - (128 - 2 ^ i * omega)\<bar> \<le> e"
    and e: "0 \<le> e" "e \<le> 1" and d: "d = e + 1 / 2 ^ 59"
    and "0 < R" "R \<le> 2 ^ 128"
    and "62 + real (length cs) * d \<le> log 2 (real R) - real (tick_sum t cs) * omega"
  shows "\<exists>R'. foldM (handle_tick_bit t) cs R = Some R' \<and> R' \<le> R \<and> 0 < R' \<and>
           \<bar>log 2 (real R') - (log 2 (real R) - real (tick_sum t cs) * omega)\<bar>
             \<le> real (length cs) * d"
  using assms(1,5-)
proof (induction cs arbitrary: R)
  case (Cons ic cs)
  obtain i c where ic: "ic = (i, c)" by fastforce
  have d0: "0 \<le> d" using e d by simp
  have om: "0 \<le> omega" using omega_bounds(1) by (rule order_trans [rotated]) simp
  show ?case
  proof (cases "bit t i")
    case False
    then have "handle_tick_bit t ic R = Some R" by (simp add: handle_tick_bit_def ic)
    moreover have "\<exists>R'. foldM (handle_tick_bit t) cs R = Some R' \<and> R' \<le> R \<and> 0 < R' \<and>
           \<bar>log 2 (real R') - (log 2 (real R) - real (tick_sum t cs) * omega)\<bar>
             \<le> real (length cs) * d"
      using Cons.prems False ic d0 by (intro Cons.IH) (auto simp: algebra_simps)
    ultimately show ?thesis using False ic d0 by (auto simp: algebra_simps)
  next
    case True
    have "62 \<le> log 2 (real R) - 2 ^ i * omega"
      using Cons.prems(4) True ic d0 om
      by (simp add: algebra_simps) (smt (verit) mult_nonneg_nonneg of_nat_0_le_iff)
    with Cons.prems True ic e obtain R1 where
      R1: "handle_tick_bit t (i, c) R = Some R1" "R1 \<le> R" "0 < R1"
        "\<bar>log 2 (real R1) - (log 2 (real R) - 2 ^ i * omega)\<bar> \<le> d"
      using handle_tick_bit_log [of c i e R t] d by auto
    have "\<exists>R'. foldM (handle_tick_bit t) cs R1 = Some R' \<and> R' \<le> R1 \<and> 0 < R' \<and>
           \<bar>log 2 (real R') - (log 2 (real R1) - real (tick_sum t cs) * omega)\<bar>
             \<le> real (length cs) * d"
      using Cons.prems True ic d0 R1 by (intro Cons.IH) (auto simp: algebra_simps abs_le_iff)
    then obtain R' where R': "foldM (handle_tick_bit t) cs R1 = Some R'" "R' \<le> R1" "0 < R'"
        "\<bar>log 2 (real R') - (log 2 (real R1) - real (tick_sum t cs) * omega)\<bar>
             \<le> real (length cs) * d" by blast
    have "\<bar>log 2 (real R') - (log 2 (real R) - real (tick_sum t (ic # cs)) * omega)\<bar>
            \<le> real (length (ic # cs)) * d"
      using R1(4) R'(4) True ic by (simp add: algebra_simps abs_le_iff)
    then show ?thesis using R1 R' ic by auto
  qed
qed simp

lemma tick_sum_eq: "tick_sum t cs = (\<Sum>(i, c) \<leftarrow> cs. of_bool (bit t i) * 2 ^ i)"
  by (induction t cs rule: tick_sum.induct) auto

lemma tick_bit_constants_fst: "map fst tick_bit_constants = [1..<20]"
  by (simp add: tick_bit_constants_def upt_conv_Cons)

lemma tick_sum_constants:
  assumes "t < 2 ^ 20"
  shows "of_bool (bit t 0) + tick_sum t tick_bit_constants = t"
proof -
  have "t = take_bit 20 t" using assms by (simp add: take_bit_nat_eq_self)
  also have "\<dots> = (\<Sum>k = 0..<20. of_bool (bit t k) * 2 ^ k)"
    by (simp add: take_bit_sum push_bit_eq_mult)
  also have "\<dots> = of_bool (bit t 0) + (\<Sum>k = 1..<20. of_bool (bit t k) * 2 ^ k)"
    by (subst sum.atLeast_Suc_lessThan) auto
  also have "(\<Sum>k = 1..<20. of_bool (bit t k) * (2::nat) ^ k) = (\<Sum>k \<leftarrow> [1..<20]. of_bool (bit t k) * 2 ^ k)"
    by (simp only: interv_sum_list_conv_sum_set_nat atLeast_upt [symmetric] set_upt)
  also have "\<dots> = tick_sum t tick_bit_constants"
    unfolding tick_sum_eq tick_bit_constants_fst [symmetric] by (simp add: case_prod_unfold comp_def)
  finally show ?thesis by simp
qed

lemma tick_bit_constants_less: "(i, c) \<in> set tick_bit_constants \<Longrightarrow> c < 2 ^ 128"
  by (auto simp: tick_bit_constants_def)

lemma sqrt_price_ratio_log:
  assumes "t \<le> 887272"
  shows "\<exists>R. foldM (handle_tick_bit t) tick_bit_constants
            (if bit t 0 then 0xfffcb933bd6fad37aa2d162d1a594001 else ushl 256 1 128) = Some R \<and>
          0 < R \<and> R \<le> 2 ^ 128 \<and> \<bar>log 2 (real R) - (128 - real t * omega)\<bar> \<le> 1 / 2 ^ 31"
proof -
  define R0 :: nat where "R0 = (if bit t 0 then tick_bit_0 else 2 ^ 128)"
  have R0': "R0 = (if bit t 0 then 0xfffcb933bd6fad37aa2d162d1a594001 else ushl 256 1 128)"
    by (simp add: R0_def tick_bit_0_def ushl_eq)
  have R0: "0 < R0" "R0 \<le> 2 ^ 128" by (simp_all add: R0_def tick_bit_0_def)
  define d :: real where "d = 1 / 2 ^ 36 + 1 / 2 ^ 59"
  define S where "S = tick_sum t tick_bit_constants"
  have S: "real t = real (of_bool (bit t 0)) + real S"
    using tick_sum_constants [of t] assms unfolding S_def of_nat_add [symmetric] by simp
  have l0: "\<bar>log 2 (real R0) - (128 - real (of_bool (bit t 0)) * omega)\<bar> \<le> 1 / 2 ^ 57"
    using log2_tick_bit_0 log2_of_power_eq [of "2 ^ 128" 128] by (simp add: R0_def)
  have "real t * omega \<le> 887272 * (317236135 / 2 ^ 42)"
    using assms omega_bounds by (intro mult_mono) auto
  also have "\<dots> \<le> 65" by simp
  finally have t65: "real t * omega \<le> 65" .
  have tt: "real t * omega = real (of_bool (bit t 0)) * omega + real S * omega"
    using S by (simp add: distrib_right)
  have "\<exists>R'. foldM (handle_tick_bit t) tick_bit_constants R0 = Some R' \<and> R' \<le> R0 \<and> 0 < R' \<and>
           \<bar>log 2 (real R') - (log 2 (real R0) - real S * omega)\<bar>
             \<le> real (length tick_bit_constants) * d"
    unfolding S_def
  proof (rule foldM_tick_log [OF _ _ _ d_def])
    show "\<forall>(i, c) \<in> set tick_bit_constants. c < 2 ^ 128 \<and>
        \<bar>log 2 (real c) - (128 - 2 ^ i * omega)\<bar> \<le> 1 / 2 ^ 36"
      using tick_bit_constants_less log2_tick_constants by blast
    have "real (length tick_bit_constants) * d \<le> 1 / 2"
      by (simp add: d_def length_tick_bit_constants)
    moreover have "(1::real) / 2 ^ 57 \<le> 1 / 4" by simp
    ultimately show "62 + real (length tick_bit_constants) * d
        \<le> log 2 (real R0) - real (tick_sum t tick_bit_constants) * omega"
      using l0 t65 tt unfolding S_def by linarith
  qed (use R0 in auto)
  then obtain R where R: "foldM (handle_tick_bit t) tick_bit_constants R0 = Some R" "R \<le> R0" "0 < R"
      "\<bar>log 2 (real R) - (log 2 (real R0) - real S * omega)\<bar> \<le> real (length tick_bit_constants) * d"
    by blast
  have "\<bar>log 2 (real R) - (128 - real t * omega)\<bar> \<le> real (length tick_bit_constants) * d + 1 / 2 ^ 57"
    using R(4) l0 tt by linarith
  also have "\<dots> \<le> 1 / 2 ^ 31" by (simp add: d_def length_tick_bit_constants)
  finally show ?thesis using R R0 R0' by (intro exI [of _ R]) auto
qed


lemma log2_ge_power:
  assumes "real k \<le> log 2 x" "0 < x"
  shows "2 ^ k \<le> x"
  using assms le_log_iff [of 2 x "real k"] by (simp add: powr_realpow)

lemma log2_shift32_ceil:
  assumes R: "0 < R" and l: "\<bar>log 2 (real R) - (128 + x)\<bar> \<le> e" and e: "e \<le> 1 / 2" and x: "- 64.5 \<le> x"
  shows "0 < div_ceil R (2 ^ 32)"
    and "\<bar>log 2 (real (div_ceil R (2 ^ 32))) - (96 + x)\<bar> \<le> e + 1 / 2 ^ 29"
proof -
  have l32: "log 2 (real R / 2 ^ 32) = log 2 (real R) - 32"
    using R log2_of_power_eq [of "2 ^ 32" 32] by (simp add: log_divide)
  have "2 ^ 31 \<le> real R / 2 ^ 32"
    by (rule log2_ge_power) (use R l e x l32 in auto)
  moreover have "real R / 2 ^ 32 \<le> real (div_ceil R (2 ^ 32))"
    using real_div_ceil_ge [of "2 ^ 32" R] by simp
  moreover have "real (div_ceil R (2 ^ 32)) \<le> real R / 2 ^ 32 + 1"
    using real_div_ceil_less [of "2 ^ 32" R] by simp
  ultimately have "\<bar>log 2 (real (div_ceil R (2 ^ 32))) - log 2 (real R / 2 ^ 32)\<bar> \<le> 4 / 2 ^ 31"
    by (intro log2_ceil_near) auto
  then have "\<bar>log 2 (real (div_ceil R (2 ^ 32))) - log 2 (real R / 2 ^ 32)\<bar> \<le> 1 / 2 ^ 29" by simp
  moreover have "\<bar>a - (b - 32)\<bar> \<le> d \<Longrightarrow> \<bar>b - (128 + x)\<bar> \<le> e \<Longrightarrow> \<bar>a - (96 + x)\<bar> \<le> e + d"
    for a b d :: real by linarith
  ultimately show "\<bar>log 2 (real (div_ceil R (2 ^ 32))) - (96 + x)\<bar> \<le> e + 1 / 2 ^ 29"
    using l unfolding l32 by blast
  show "0 < div_ceil R (2 ^ 32)"
    using R div_ceil_mult_ge [of "2 ^ 32" R] by (cases "div_ceil R (2 ^ 32)") auto
qed

lemma pred_div_bounds:
  fixes N R :: nat
  assumes "0 < R" "0 < N"
  shows "real N / real R - 1 \<le> real ((N - 1) div R)" "real ((N - 1) div R) \<le> real N / real R"
proof -
  define q where "q = (N - 1) div R"
  have "N - 1 < Suc q * R" using dividend_less_div_times [of R "N - 1"] assms by (simp add: q_def)
  then have "real N \<le> real (Suc q * R)" by linarith
  then show "real N / real R - 1 \<le> real ((N - 1) div R)"
    using assms unfolding q_def [symmetric] by (simp add: field_simps)
  have "q * R \<le> N - 1" by (simp add: q_def)
  then have "real (q * R) \<le> real N" by linarith
  then show "real ((N - 1) div R) \<le> real N / real R"
    using assms unfolding q_def [symmetric] by (simp add: field_simps)
qed

lemma umax_div_near:
  assumes R: "0 < R" "R \<le> 2 ^ 128"
  shows "\<bar>log 2 (real (umax 256 div R)) - (256 - log 2 (real R))\<bar> \<le> 1 / 2 ^ 60"
proof -
  define M :: nat where "M = 2 ^ 256"
  have M: "0 < M" "umax 256 = M - 1" by (simp_all add: M_def umax_def)
  have lM: "log 2 (real M) = 256" using log2_of_power_eq [of M 256] by (simp add: M_def)
  have "2 ^ 62 * real R \<le> 2 ^ 62 * 2 ^ 128" using R(2) by (intro mult_left_mono) auto
  also have "\<dots> \<le> real M" by (simp add: M_def)
  finally have "2 ^ 62 \<le> real M / real R" using R(1) by (simp add: pos_le_divide_eq)
  from log2_floor_near [OF this pred_div_bounds [OF R(1) M(1)]]
  have "\<bar>log 2 (real (umax 256 div R)) - log 2 (real M / real R)\<bar> \<le> 1 / 2 ^ 60"
    unfolding M(2) by simp
  then show ?thesis using R(1) M(1) lM by (simp add: log_divide)
qed

section \<open>The price at a tick\<close>

text \<open>The executable form of the final step: shift right by 32, rounding up.\<close>

lemma omega_pos: "0 < omega"
  by (rule less_le_trans [OF _ omega_bounds(1)]) simp

lemma shift32_ceil:
  assumes "q < 2 ^ 256"
  shows "uadd 256 (ushr q 32) (if q mod 2 ^ 32 = 0 then 0 else 1) = Some (div_ceil q (2 ^ 32))"
proof -
  have "q div 2 ^ 32 < 2 ^ 224"
    using assms by (intro less_mult_imp_div_less) simp
  then show ?thesis by (simp add: ushr_eq div_ceil_def uadd_def)
qed

definition tick_eps :: real where "tick_eps = 1 / 2 ^ 28"

lemma sqrt_price_at_tick_log:
  assumes "is_tick_valid t"
  shows "\<exists>sp. sqrt_price_at_tick t = Some sp \<and> 0 < sp \<and>
           \<bar>log 2 (real sp) - (96 + of_int t * omega)\<bar> \<le> tick_eps"
proof -
  have t: "nat \<bar>t\<bar> \<le> 887272" using assms by (simp add: is_tick_valid_def MIN_TICK_def MAX_TICK_def nat_le_iff abs_le_iff)
  obtain R where R: "foldM (handle_tick_bit (nat \<bar>t\<bar>)) tick_bit_constants
            (if bit (nat \<bar>t\<bar>) 0 then 0xfffcb933bd6fad37aa2d162d1a594001 else ushl 256 1 128) = Some R"
       "0 < R" "R \<le> 2 ^ 128" "\<bar>log 2 (real R) - (128 - real (nat \<bar>t\<bar>) * omega)\<bar> \<le> 1 / 2 ^ 31"
    using sqrt_price_ratio_log [OF t] by blast
  have "real (nat \<bar>t\<bar>) * omega \<le> 887272 * (317236135 / 2 ^ 42)"
    using t omega_bounds by (intro mult_mono) auto
  then have t64: "real (nat \<bar>t\<bar>) * omega \<le> 64.5" by simp
  define q where "q = (if t > 0 then umax 256 div R else R)"
  have "R < 2 ^ 256" using R(3) by (rule le_less_trans) simp
  then have q: "q < 2 ^ 256" using R(2) by (auto simp: q_def umax_def intro: le_less_trans [OF div_le_dividend])
  have lq: "\<bar>log 2 (real q) - (128 + of_int t * omega)\<bar> \<le> 1 / 2 ^ 31 + 1 / 2 ^ 60"
  proof -
    have pos: "\<bar>a - (128 - x)\<bar> \<le> d \<Longrightarrow> \<bar>b - (256 - a)\<bar> \<le> d' \<Longrightarrow> \<bar>b - (128 + x)\<bar> \<le> d + d'"
      for a b x d d' :: real by linarith
    have "\<bar>b\<bar> \<le> d \<Longrightarrow> \<bar>b\<bar> \<le> d + 1 / 2 ^ 60" for b d :: real by simp
    with pos [OF R(4) umax_div_near [OF R(2,3)]] R(4) show ?thesis by (cases "t > 0") (simp_all add: q_def)
  qed
  have q0: "0 < q" using R(2,3) by (auto simp: q_def umax_def div_greater_zero_iff)
  have eq: "sqrt_price_at_tick t = Some (div_ceil q (2 ^ 32))"
  proof -
    have "(if t > 0 then udiv (umax 256) R else Some R) = Some q"
      using R(2) by (simp add: q_def udiv_def)
    then show ?thesis using assms R(1) shift32_ceil [OF q]
      by (simp only: sqrt_price_at_tick_def assert_that_def Let_def if_True bind.bind_lunit)
  qed
  have x: "- 64.5 \<le> of_int t * omega" 
  proof (cases "t \<ge> 0")
    case True
    then have "0 \<le> of_int t * omega" using omega_pos by simp
    then show ?thesis by linarith
  qed (use t64 in simp)
  note c = log2_shift32_ceil [OF q0 lq _ x]
  have "(1::real) / 2 ^ 31 + 1 / 2 ^ 60 + 1 / 2 ^ 29 \<le> tick_eps" by (simp add: tick_eps_def)
  with c eq show ?thesis by (intro exI [of _ "div_ceil q (2 ^ 32)"]) force
qed

lemma sqrt_price_at_tick_strict_mono:
  assumes v: "is_tick_valid s" "is_tick_valid t" and less: "s < t"
    and sp: "sqrt_price_at_tick s = Some p" "sqrt_price_at_tick t = Some q"
  shows "p < q"
proof -
  have p: "0 < p" "log 2 (real p) \<le> 96 + of_int s * omega + tick_eps"
    using sqrt_price_at_tick_log [OF v(1)] sp by (force simp: abs_le_iff)+
  have q: "0 < q" "96 + of_int t * omega - tick_eps \<le> log 2 (real q)"
    using sqrt_price_at_tick_log [OF v(2)] sp by (force simp: abs_le_iff)+
  have "(of_int s + 1) * omega \<le> of_int t * omega"
    using less omega_pos by (intro mult_right_mono) auto
  then have "of_int s * omega + omega \<le> of_int t * omega" by (simp add: distrib_right)
  moreover have "2 * tick_eps < omega" using omega_bounds(1) by (simp add: tick_eps_def)
  ultimately have "log 2 (real p) < log 2 (real q)" using p(2) q(2) by argo
  then show ?thesis using p q by simp
qed

lemma sqrt_price_at_min_tick: "sqrt_price_at_tick MIN_TICK = Some MIN_SQRT_PRICE"
  by (simp add: sqrt_price_at_tick_def MIN_TICK_def MAX_TICK_def MIN_SQRT_PRICE_def is_tick_valid_def assert_that_def
      tick_bit_constants_def handle_tick_bit_def umul_def ushr_def uadd_def udiv_def ushl_def bit_0)
lemma sqrt_price_at_max_tick: "sqrt_price_at_tick MAX_TICK = Some MAX_SQRT_PRICE"
  by (simp add: sqrt_price_at_tick_def MIN_TICK_def MAX_TICK_def MAX_SQRT_PRICE_def is_tick_valid_def assert_that_def
      tick_bit_constants_def handle_tick_bit_def umul_def ushr_def uadd_def udiv_def ushl_def bit_0 umax_def)

lemma sqrt_price_at_tick_valid:
  assumes "is_tick_valid t"
  shows "\<exists>sp. sqrt_price_at_tick t = Some sp \<and> MIN_SQRT_PRICE \<le> sp \<and> sp \<le> MAX_SQRT_PRICE"
proof -
  obtain sp where sp: "sqrt_price_at_tick t = Some sp"
    using sqrt_price_at_tick_log [OF assms] by blast
  have v: "is_tick_valid MIN_TICK" "is_tick_valid MAX_TICK"
    by (simp_all add: is_tick_valid_def MIN_TICK_def MAX_TICK_def)
  have "MIN_SQRT_PRICE \<le> sp"
    using sqrt_price_at_tick_strict_mono [OF v(1) assms _ sqrt_price_at_min_tick sp]
      assms sp sqrt_price_at_min_tick by (cases "t = MIN_TICK") (auto simp: is_tick_valid_def)
  moreover have "sp \<le> MAX_SQRT_PRICE"
    using sqrt_price_at_tick_strict_mono [OF assms v(2) _ sp sqrt_price_at_max_tick]
      assms sp sqrt_price_at_max_tick by (cases "t = MAX_TICK") (auto simp: is_tick_valid_def)
  ultimately show ?thesis using sp by simp
qed

section \<open>The tick at a price\<close>

text \<open>The macro calls of the most significant bit search, halving the bit each time.\<close>

lemma integer_bits_eq: "integer_bits = map (\<lambda>k. (2 ^ k, 2 ^ 2 ^ k - 1)) (rev [0..<8])"
  by (simp add: integer_bits_def upt_conv_Cons)

lemma or_power_dvd:
  assumes "2 ^ Suc k dvd (m::nat)"
  shows "or m (2 ^ k) = m + 2 ^ k"
proof -
  have "\<not> bit m k" using assms by (auto elim!: dvdE simp: bit_iff_odd)
  then show ?thesis using set_bit_eq [of k m] set_bit_eq_or [of k m] by (simp add: push_bit_eq_mult)
qed

lemma add_integer_bits:
  assumes "rem < 2 ^ 2 ^ k" "0 < rem" "2 ^ k dvd m"
  shows "\<exists>r < 2 ^ k. fold add_integer_bit (map (\<lambda>k. (2 ^ k, 2 ^ 2 ^ k - 1)) (rev [0..<k])) (rem, m)
           = (1, m + r) \<and> rem div 2 ^ r = 1"
  using assms
proof (induction k arbitrary: rem m)
  case 0
  then show ?case by auto
next
  case (Suc k)
  show ?case
  proof (cases "rem > 2 ^ 2 ^ k - 1")
    case True
    let ?rem = "rem div 2 ^ 2 ^ k"
    have "rem < 2 ^ 2 ^ k * 2 ^ 2 ^ k" using Suc.prems(1) by (simp add: power_add [symmetric] mult_2)
    then have "?rem < 2 ^ 2 ^ k" by (simp add: less_mult_imp_div_less)
    moreover have "0 < ?rem" using True by (simp add: div_greater_zero_iff)
    moreover have "2 ^ k dvd m + 2 ^ k" using Suc.prems(3) by (auto elim!: dvdE)
    ultimately obtain r where r: "r < 2 ^ k"
        "fold add_integer_bit (map (\<lambda>k. (2 ^ k, 2 ^ 2 ^ k - 1)) (rev [0..<k])) (?rem, m + 2 ^ k)
          = (1, m + 2 ^ k + r)" "?rem div 2 ^ r = 1"
      using Suc.IH by blast
    have "rem div 2 ^ (2 ^ k + r) = 1" using r(3) by (simp add: power_add div_mult2_eq)
    then show ?thesis using r True or_power_dvd [OF Suc.prems(3)]
      by (intro exI [of _ "2 ^ k + r"]) (simp add: add_integer_bit_def ushr_eq add.assoc)
  next
    case False
    have "2 ^ k dvd m" using Suc.prems(3) by (auto elim!: dvdE)
    moreover have "rem < 2 ^ 2 ^ k" using False zero_less_power [of "2::nat" "2 ^ k"] by linarith
    ultimately obtain r where "r < 2 ^ k"
        "fold add_integer_bit (map (\<lambda>k. (2 ^ k, 2 ^ 2 ^ k - 1)) (rev [0..<k])) (rem, m) = (1, m + r)"
        "rem div 2 ^ r = 1"
      using Suc.IH [of rem m] Suc.prems(2) by blast
    then show ?thesis using False by (intro exI [of _ r]) (simp add: add_integer_bit_def)
  qed
qed

lemma most_significant_bit:
  assumes "0 < x" "x < 2 ^ 256"
  obtains r where "r < 256" "snd (fold add_integer_bit integer_bits (x, 0)) = r" "2 ^ r \<le> x" "x < 2 ^ Suc r"
proof -
  obtain r where r: "r < 2 ^ 8" "fold add_integer_bit integer_bits (x, 0) = (1, r)" "x div 2 ^ r = 1"
    using add_integer_bits [of x 8 0] assms unfolding integer_bits_eq by auto
  have "2 ^ r \<le> x" using r(3) by (cases "x < 2 ^ r") auto
  moreover have "x < 2 * 2 ^ r" using r(3) dividend_less_div_times [of "2 ^ r" x] by simp
  ultimately show thesis using r that by auto
qed

text \<open>The mantissa keeps the top 128 bits; it is in \<open>[2^127, 2^128)\<close>.\<close>

lemma shift_right_mantissa:
  assumes x: "2 ^ r \<le> x" "x < 2 ^ Suc r" and c: "c \<le> r" "1 \<le> c"
  shows "2 ^ c \<le> x div 2 ^ (r - c)" "x div 2 ^ (r - c) < 2 ^ Suc c"
    "\<bar>log 2 (real (x div 2 ^ (r - c))) - (log 2 (real x) + real c - real r)\<bar> \<le> 4 / 2 ^ c"
proof -
  define k where "k = r - c"
  have r: "r = c + k" using c by (simp add: k_def)
  have x0: "0 < x" using x(1) by (rule less_le_trans [rotated]) simp
  have lo: "2 ^ c * 2 ^ k \<le> x" and hi: "x < 2 ^ Suc c * 2 ^ k"
    using x unfolding r by (simp_all add: power_add)
  from lo show "2 ^ c \<le> x div 2 ^ (r - c)" by (simp add: le_div_iff k_def)
  from hi show "x div 2 ^ (r - c) < 2 ^ Suc c" by (simp add: less_mult_imp_div_less k_def)
  have "real (2 ^ c * 2 ^ k) \<le> real x" using lo by (rule of_nat_mono)
  then have "2 ^ c \<le> real x / real (2 ^ k)" by (simp add: pos_le_divide_eq)
  moreover have "real x / real (2 ^ k) - 1 \<le> real (x div 2 ^ k)"
    using real_div_greater [of "2 ^ k" x] by (intro less_imp_le) simp
  moreover have "real (x div 2 ^ k) \<le> real x / real (2 ^ k)" using real_div_le [of x "2 ^ k"] by simp
  ultimately have "\<bar>log 2 (real (x div 2 ^ k)) - log 2 (real x / real (2 ^ k))\<bar> \<le> 4 / 2 ^ c"
    using c(2) by (intro log2_floor_near)
  moreover have "log 2 (real x / real (2 ^ k)) = log 2 (real x) + real c - real r"
    using x0 log2_of_power_eq [of "2 ^ k" k] by (simp add: log_divide r)
  ultimately show "\<bar>log 2 (real (x div 2 ^ (r - c))) - (log 2 (real x) + real c - real r)\<bar> \<le> 4 / 2 ^ c"
    by (simp add: k_def)
qed

lemma shift_left_mantissa:
  assumes x: "2 ^ r \<le> x" "x < 2 ^ Suc r" and c: "r \<le> c"
  shows "2 ^ c \<le> x * 2 ^ (c - r)" "x * 2 ^ (c - r) < 2 ^ Suc c"
    "log 2 (real (x * 2 ^ (c - r))) = log 2 (real x) + real c - real r"
proof -
  define k where "k = c - r"
  have ck: "c = r + k" using c by (simp add: k_def)
  have x0: "0 < x" using x(1) by (rule less_le_trans [rotated]) simp
  show "2 ^ c \<le> x * 2 ^ (c - r)" "x * 2 ^ (c - r) < 2 ^ Suc c"
    using x unfolding ck by (simp_all add: power_add)
  have "log 2 (real x * 2 ^ k) = log 2 (real x) + real k"
    using x0 by (intro log2_mult_power) simp
  then show "log 2 (real (x * 2 ^ (c - r))) = log 2 (real x) + real c - real r"
    by (simp add: k_def c of_nat_diff)
qed

lemma mantissa_log:
  assumes x: "2 ^ r \<le> x" "x < 2 ^ Suc r" and r: "r < 256"
  defines "m \<equiv> (if r \<ge> 128 then ushr x (r - 127) else ushl 256 x (127 - r))"
  shows "2 ^ 127 \<le> m" "m < 2 ^ 128" "\<bar>log 2 (real m) - (log 2 (real x) + 127 - real r)\<bar> \<le> 4 / 2 ^ 127"
proof -
  have S: "Suc 127 = 128" "real 127 = 127" by simp_all
  have "2 ^ 127 \<le> m \<and> m < 2 ^ 128 \<and> \<bar>log 2 (real m) - (log 2 (real x) + 127 - real r)\<bar> \<le> 4 / 2 ^ 127"
  proof (cases "r \<ge> 128")
    case True
    then have "127 \<le> r" "m = x div 2 ^ (r - 127)" by (simp_all add: m_def ushr_eq)
    with shift_right_mantissa [OF x, of 127] show ?thesis unfolding S by simp
  next
    case False
    then have "r \<le> 127" by simp
    note l = shift_left_mantissa [OF x this, unfolded S]
    have "x * 2 ^ (127 - r) < 2 ^ 256" using l(2) by (rule less_trans) simp
    then have "m = x * 2 ^ (127 - r)" using False by (simp add: m_def ushl_exact del: power_numeral)
    with l show ?thesis by simp
  qed
  then show "2 ^ 127 \<le> m" "m < 2 ^ 128" "\<bar>log 2 (real m) - (log 2 (real x) + 127 - real r)\<bar> \<le> 4 / 2 ^ 127"
    by blast+
qed

text \<open>
  One fractional bit: the pair stands for \<open>l / 2^64 + (log2 m - 127) / 2^j\<close>, which the
  squaring step keeps up to the rounding of the shift.
\<close>

definition log_value :: "nat \<Rightarrow> nat \<times> int \<Rightarrow> real" where
  "log_value j = (\<lambda>(m, l). of_int l / 2 ^ 64 + (log 2 (real m) - 127) / 2 ^ j)"

lemma mantissa_square:
  fixes m c :: nat
  assumes m: "2 ^ c \<le> m" "m < 2 ^ Suc c" and c: "1 \<le> c"
  defines "s \<equiv> m * m div 2 ^ c"
  defines "m' \<equiv> (if bit s (Suc c) then s div 2 else s)"
  shows "2 ^ c \<le> m'" "m' < 2 ^ Suc c"
    "\<bar>log 2 (real m') - (2 * log 2 (real m) - real c - of_bool (bit s (Suc c)))\<bar> \<le> 4 / 2 ^ c"
proof -
  have m0: "0 < m" using m(1) by (rule less_le_trans [rotated]) simp
  have sq: "log 2 (real (m * m)) = 2 * log 2 (real m)" using m0 by (simp add: log_mult)
  have lo: "2 ^ (c + c) \<le> m * m" using m(1) unfolding power_add by (intro mult_mono) auto
  have "m * m < 2 ^ Suc c * 2 ^ Suc c" using m by (intro mult_strict_mono) auto
  then have hi: "m * m < 2 ^ Suc (Suc (c + c))" by (simp add: power_add)
  have bit: "bit s (Suc c) \<longleftrightarrow> 2 ^ Suc (c + c) \<le> m * m"
  proof -
    have "s div 2 ^ Suc c = m * m div 2 ^ Suc (c + c)"
      unfolding s_def by (simp add: div_mult2_eq [symmetric] power_add mult.commute mult.left_commute)
    moreover have "m * m div 2 ^ Suc (c + c) < 2" using hi by (intro less_mult_imp_div_less) simp
    ultimately have "odd (s div 2 ^ Suc c) \<longleftrightarrow> 0 < m * m div 2 ^ Suc (c + c)"
      by (cases "m * m div 2 ^ Suc (c + c)") auto
    then show ?thesis by (simp add: bit_iff_odd div_greater_zero_iff)
  qed
  have "2 ^ c \<le> m' \<and> m' < 2 ^ Suc c \<and>
     \<bar>log 2 (real m') - (2 * log 2 (real m) - real c - of_bool (bit s (Suc c)))\<bar> \<le> 4 / 2 ^ c"
  proof (cases "bit s (Suc c)")
    case True
    then have "m' = m * m div 2 ^ (Suc (c + c) - c)"
      by (simp add: m'_def s_def div_mult2_eq [symmetric] mult.commute)
    with shift_right_mantissa [of "Suc (c + c)" "m * m" c] True bit hi c sq show ?thesis by simp
  next
    case False
    then have "m' = m * m div 2 ^ (c + c - c)" by (simp add: m'_def s_def)
    with shift_right_mantissa [of "c + c" "m * m" c] False bit lo c sq show ?thesis by simp
  qed
  then show "2 ^ c \<le> m'" "m' < 2 ^ Suc c"
    "\<bar>log 2 (real m') - (2 * log 2 (real m) - real c - of_bool (bit s (Suc c)))\<bar> \<le> 4 / 2 ^ c"
    by blast+
qed

lemma set_bit_dvd:
  assumes "2 ^ Suc k dvd (l::int)"
  shows "set_bit k l = l + 2 ^ k"
proof -
  have "\<not> bit l k" using assms by (auto elim!: dvdE simp: bit_iff_odd)
  then show ?thesis by (simp add: set_bit_eq)
qed

lemma add_fractional_bit_eq:
  assumes "m * m < 2 ^ 256"
  shows "add_fractional_bit b (m, l) = (let s = m * m div 2 ^ 127 in
     if bit s 128 then do { m \<leftarrow> uconv 128 (s div 2); Some (m, set_bit b l) }
     else do { m \<leftarrow> uconv 128 s; Some (m, l) })"
  using assms by (simp only: add_fractional_bit_def umul_def Let_def ushr_eq prod.case
        if_True bind.bind_lunit power_one_right)

lemma log_value_step:
  assumes d: "\<bar>log 2 (real m') - (2 * log 2 (real m) - 127 - of_bool B)\<bar> \<le> d" and j: "j \<le> 63"
  shows "\<bar>log_value (Suc j) (m', l + of_bool B * 2 ^ (63 - j)) - log_value j (m, l)\<bar> \<le> d"
proof -
  define a where "a = log 2 (real m')"
  define b where "b = log 2 (real m)"
  have "64 = (63 - j) + Suc j" using j by simp
  then have e: "(2::real) ^ 64 = 2 ^ (63 - j) * 2 ^ Suc j" by (metis power_add)
  have "(x + y * a) / (a * b) = x / (a * b) + y / b" if "a \<noteq> 0" "b \<noteq> 0" for x y a b :: real
    using that by (simp add: field_simps)
  from this [of "2 ^ (63 - j)" "2 ^ Suc j" "of_int l" "of_bool B"]
  have "of_int (l + of_bool B * 2 ^ (63 - j)) / (2::real) ^ 64 = of_int l / 2 ^ 64 + of_bool B / 2 ^ Suc j"
    unfolding e by simp
  then have eq: "log_value (Suc j) (m', l + of_bool B * 2 ^ (63 - j)) - log_value j (m, l)
       = (a - (2 * b - 127 - of_bool B)) / 2 ^ Suc j"
    unfolding log_value_def a_def b_def prod.case by (simp add: diff_divide_distrib add_divide_distrib)
  have "\<bar>x / 2 ^ Suc j\<bar> \<le> \<bar>x\<bar>" for x :: real
  proof -
    have "\<bar>x\<bar> * 1 \<le> \<bar>x\<bar> * 2 ^ Suc j" by (intro mult_left_mono one_le_power) auto
    then show ?thesis by (simp add: divide_le_eq)
  qed
  from order_trans [OF this d] show ?thesis unfolding eq a_def b_def .
qed

lemma add_fractional_bit_step:
  assumes m: "2 ^ 127 \<le> m" "m < 2 ^ 128" and l: "2 ^ Suc (63 - j) dvd l" and j: "j \<le> 63"
  shows "\<exists>m' l'. add_fractional_bit (63 - j) (m, l) = Some (m', l') \<and>
    2 ^ 127 \<le> m' \<and> m' < 2 ^ 128 \<and> 2 ^ (63 - j) dvd l' \<and>
    \<bar>log_value (Suc j) (m', l') - log_value j (m, l)\<bar> \<le> 4 / 2 ^ 127"
proof -
  have S: "Suc 127 = 128" "real 127 = 127" by simp_all
  let ?s = "m * m div 2 ^ 127"
  let ?m' = "if bit ?s 128 then ?s div 2 else ?s"
  let ?l' = "l + of_bool (bit ?s 128) * 2 ^ (63 - j)"
  have c: "m < 2 ^ Suc 127" "1 \<le> (127::nat)" using m by simp_all
  note sq = mantissa_square [OF m(1) c, unfolded S]
  have "m * m < 2 ^ 128 * 2 ^ 128" using m by (intro mult_strict_mono) auto
  also have "(2::nat) ^ 128 * 2 ^ 128 = 2 ^ 256" by simp
  finally have "m * m < 2 ^ 256" .
  from add_fractional_bit_eq [OF this] sq(2) have "add_fractional_bit (63 - j) (m, l) = Some (?m', ?l')"
    using set_bit_dvd [OF l] by (cases "bit ?s 128") (simp_all add: uconv_def Let_def del: power_numeral)
  moreover have "2 ^ (63 - j) dvd ?l'" using l by (auto elim!: dvdE)
  moreover note log_value_step [OF sq(3) j] sq(1,2)
  ultimately show ?thesis by blast
qed

lemma add_fractional_bits:
  assumes "2 ^ 127 \<le> m" "m < 2 ^ 128" "2 ^ Suc (63 - j) dvd l" "j + n \<le> 63"
  shows "\<exists>m' l'. foldM add_fractional_bit (map (\<lambda>i. 63 - i) [j..<j + n]) (m, l) = Some (m', l') \<and>
     2 ^ 127 \<le> m' \<and> m' < 2 ^ 128 \<and>
     \<bar>log_value (j + n) (m', l') - log_value j (m, l)\<bar> \<le> real n * (4 / 2 ^ 127)"
  using assms
proof (induction n arbitrary: j m l)
  case 0
  then show ?case by simp
next
  case (Suc n)
  obtain m1 l1 where 1: "add_fractional_bit (63 - j) (m, l) = Some (m1, l1)"
    "2 ^ 127 \<le> m1" "m1 < 2 ^ 128" "2 ^ (63 - j) dvd l1"
    "\<bar>log_value (Suc j) (m1, l1) - log_value j (m, l)\<bar> \<le> 4 / 2 ^ 127"
    using add_fractional_bit_step [OF Suc.prems(1-3)] Suc.prems(4) by auto
  have "Suc (63 - Suc j) = 63 - j" using Suc.prems by simp
  then obtain m2 l2 where 2: "foldM add_fractional_bit (map (\<lambda>i. 63 - i) [Suc j..<Suc j + n]) (m1, l1) = Some (m2, l2)"
     "2 ^ 127 \<le> m2" "m2 < 2 ^ 128"
     "\<bar>log_value (Suc j + n) (m2, l2) - log_value (Suc j) (m1, l1)\<bar> \<le> real n * (4 / 2 ^ 127)"
    using Suc.IH [of m1 "Suc j" l1] 1 Suc.prems(4) by auto
  have eq: "[j..<j + Suc n] = j # [Suc j..<Suc j + n]" by (simp add: upt_conv_Cons)
  have "\<bar>a - b\<bar> \<le> real n * d \<Longrightarrow> \<bar>b - c\<bar> \<le> d \<Longrightarrow> \<bar>a - c\<bar> \<le> real (Suc n) * d" for a b c d :: real
    by (simp add: algebra_simps)
  from this [OF 2(4) 1(5)] have "\<bar>log_value (j + Suc n) (m2, l2) - log_value j (m, l)\<bar> \<le> real (Suc n) * (4 / 2 ^ 127)"
    by simp
  with 1(1) 2 show ?case unfolding eq by (intro exI [of _ m2] exI [of _ l2]) simp
qed

text \<open>The two's complement arithmetic of the final conversion.\<close>

lemma or_shifted:
  fixes x y :: nat
  assumes "y < 2 ^ k"
  shows "or (x * 2 ^ k) y = x * 2 ^ k + y"
proof -
  have y: "take_bit k y = y" using assms by (simp add: take_bit_nat_eq_self)
  have "and (push_bit k x) (take_bit k y) = 0"
    by (rule bit_eqI) (auto simp: bit_and_iff bit_push_bit_iff bit_take_bit_iff)
  then have "and (x * 2 ^ k) y = 0" by (simp add: y push_bit_eq_mult)
  then show ?thesis by (simp add: disjunctive_add_eq_or)
qed

lemma mod_mult_div:
  fixes z a b :: int
  assumes "0 < a" "0 \<le> b"
  shows "z mod (a * b) div a = z div a mod b"
  using assms by (simp add: zmod_zmult2_eq)

lemma as_signed_mod:
  fixes y :: int
  assumes "- (2 ^ w) \<le> y" "y < 2 ^ w" and n: "int n mod 2 ^ Suc w = y mod 2 ^ Suc w"
  shows "as_signed (Suc w) n = y"
proof -
  have e: "int (n mod 2 ^ Suc w) = y mod 2 ^ Suc w" using n by (simp add: of_nat_mod)
  have less: "n mod 2 ^ Suc w < 2 ^ w \<longleftrightarrow> y mod 2 ^ Suc w < 2 ^ w"
    unfolding e [symmetric] by (metis of_nat_less_iff of_nat_numeral of_nat_power)
  have ym: "y mod 2 ^ Suc w = (if 0 \<le> y then y else y + 2 ^ Suc w)"
  proof (cases "0 \<le> y")
    case True
    then show ?thesis using assms by (simp add: mod_pos_pos_trivial)
  next
    case False
    have "y mod 2 ^ Suc w = (y + 2 ^ Suc w) mod 2 ^ Suc w" by simp
    also have "\<dots> = y + 2 ^ Suc w" by (rule mod_pos_pos_trivial) (use False assms in auto)
    finally show ?thesis using False by simp
  qed
  show ?thesis
    unfolding as_signed_def Let_def e less diff_Suc_1 using ym assms by (auto split: if_splits)
qed

lemma as_signed_ushr:
  fixes z :: int
  assumes u: "int u = z mod 2 ^ 256" and z: "- (2 ^ 31) \<le> z div 2 ^ 128" "z div 2 ^ 128 < 2 ^ 31"
  shows "as_signed 32 (ushr u 128) = z div 2 ^ 128"
proof -
  have "int (ushr u 128) = z mod (2 ^ 128 * 2 ^ 128) div 2 ^ 128"
    using u by (simp add: ushr_eq zdiv_int)
  also have "\<dots> = z div 2 ^ 128 mod 2 ^ 128" by (rule mod_mult_div) auto
  finally have "int (ushr u 128) mod 2 ^ Suc 31 = z div 2 ^ 128 mod 2 ^ 128 mod 2 ^ Suc 31" by simp
  also have "\<dots> = z div 2 ^ 128 mod 2 ^ Suc 31" by (intro mod_mod_cancel le_imp_power_dvd) simp
  finally show ?thesis using as_signed_mod [OF z] by simp
qed

definition log_scale :: int where "log_scale = 255738958999603826347141"

lemma log_sqrt10001_eq:
  assumes l: "- (2 ^ 127) \<le> l" "l < 2 ^ 127"
  shows "int (log_sqrt10001 l) = l * log_scale mod 2 ^ 256"
proof (cases "l < 0")
  case True
  have m: "l mod 2 ^ 128 = l + 2 ^ 128"
  proof -
    have "l mod 2 ^ 128 = (l + 2 ^ 128) mod 2 ^ 128" by simp
    also have "\<dots> = l + 2 ^ 128" by (rule mod_pos_pos_trivial) (use True l in auto)
    finally show ?thesis .
  qed
  have "ushl 256 (umax 128) 128 = (2 ^ 128 - 1) * 2 ^ 128" by (simp add: ushl_eq umax_def)
  moreover have "nat (l mod 2 ^ 128) < 2 ^ 128" by (simp add: nat_less_iff)
  ultimately have "or (ushl 256 (umax 128) 128) (nat (l mod 2 ^ 128)) = (2 ^ 128 - 1) * 2 ^ 128 + nat (l mod 2 ^ 128)"
    using or_shifted by metis
  moreover have "int ((2 ^ 128 - 1) * 2 ^ 128 + nat (l mod 2 ^ 128)) = l + 2 ^ 256"
    unfolding m using True l by simp
  ultimately have "int (log_sqrt10001 l) = (l + 2 ^ 256) * log_scale mod 2 ^ 256"
    using True by (simp only: log_sqrt10001_def log_scale_def of_nat_mod of_nat_mult if_True of_nat_power of_nat_numeral)
  also have "\<dots> = l * log_scale mod 2 ^ 256" by (simp only: distrib_right mod_mult_self2 mod_mult_self3)
  finally show ?thesis .
next
  case False
  then have "int (nat (l mod 2 ^ 128)) = l" using l by simp
  then show ?thesis using False
    by (simp only: log_sqrt10001_def log_scale_def of_nat_mod of_nat_mult if_False of_nat_power of_nat_numeral)
qed

definition log_price :: "sqrt_price \<Rightarrow> real" where
  "log_price sp = log 2 (real sp) - 96"

lemma log_price_bounds:
  assumes "is_sqrt_price_valid sp"
  shows "0 < sp" "- 64 \<le> log_price sp" "log_price sp \<le> 64" "sp * 2 ^ 32 < 2 ^ 256"
proof -
  have b: "2 ^ 32 \<le> sp" "sp \<le> 2 ^ 160"
    using assms by (simp_all add: is_sqrt_price_valid_def MIN_SQRT_PRICE_def MAX_SQRT_PRICE_def)
  then show "0 < sp" "sp * 2 ^ 32 < 2 ^ 256" by simp_all
  have "log 2 (2 ^ 32) \<le> log 2 (real sp)" "log 2 (real sp) \<le> log 2 (2 ^ 160)"
    using b \<open>0 < sp\<close> by (simp_all add: Transcendental.log_le_cancel_iff)
  then show "- 64 \<le> log_price sp" "log_price sp \<le> 64"
    using log2_of_power_eq [of "2 ^ 32" 32] log2_of_power_eq [of "2 ^ 160" 160] unfolding log_price_def by simp_all
qed

lemma fractional_bits_eq: "fractional_bits = map (\<lambda>i. 63 - i) [0..<0 + 14]"
  by (simp add: fractional_bits_def upt_conv_Cons)

lemma log_2_q63f64:
  assumes v: "is_sqrt_price_valid sp"
  defines "x \<equiv> ushl 256 sp 32"
  defines "msb \<equiv> snd (fold add_integer_bit integer_bits (x, 0))"
  shows "\<exists>mant m' l. uconv 128 (if msb \<ge> 128 then ushr x (msb - 127) else ushl 256 x (127 - msb)) = Some mant \<and>
     foldM add_fractional_bit fractional_bits (mant, (int msb - 128) * 2 ^ 64) = Some (m', l) \<and>
     log_price sp - 1 / 2 ^ 14 - 1 / 2 ^ 100 \<le> of_int l / 2 ^ 64 \<and> of_int l / 2 ^ 64 \<le> log_price sp + 1 / 2 ^ 100"
proof -
  have x: "x = sp * 2 ^ 32" using log_price_bounds(4) [OF v] by (simp only: x_def ushl_exact)
  have x0: "0 < x" "x < 2 ^ 256" using log_price_bounds(1,4) [OF v] x by simp_all
  have lx: "log 2 (real x) = log_price sp + 128"
    using log2_mult_power [of "real sp" 32] log_price_bounds(1) [OF v] by (simp add: x log_price_def)
  obtain r where r: "r < 256" "msb = r" "2 ^ r \<le> x" "x < 2 ^ Suc r"
    using most_significant_bit [OF x0] unfolding msb_def by metis
  define mant where "mant = (if r \<ge> 128 then ushr x (r - 127) else ushl 256 x (127 - r))"
  note m = mantissa_log [OF r(3,4,1), folded mant_def]
  have "2 ^ Suc (63 - 0) dvd (int r - 128) * 2 ^ 64" by simp
  from add_fractional_bits [OF m(1,2) this, of 14, folded fractional_bits_eq]
  obtain m' l where f: "foldM add_fractional_bit fractional_bits (mant, (int r - 128) * 2 ^ 64) = Some (m', l)"
      "2 ^ 127 \<le> m'" "m' < 2 ^ 128"
      "\<bar>log_value (0 + 14) (m', l) - log_value 0 (mant, (int r - 128) * 2 ^ 64)\<bar> \<le> real 14 * (4 / 2 ^ 127)"
    by auto
  have lv: "log_value 0 (mant, (int r - 128) * 2 ^ 64) = real r - 255 + log 2 (real mant)"
    by (simp add: log_value_def diff_divide_distrib)
  have "2 ^ 127 \<le> real m'" "real m' \<le> 2 ^ 128" using f(2,3) by (simp_all add: numeral_power_le_of_nat_cancel_iff)
  then have "log 2 (2 ^ 127) \<le> log 2 (real m')" "log 2 (real m') \<le> log 2 (2 ^ 128)"
    by (simp_all add: Transcendental.log_le_cancel_iff)
  then have lm: "127 \<le> log 2 (real m')" "log 2 (real m') \<le> 128"
    using log2_of_power_eq [of "2 ^ 127" 127] log2_of_power_eq [of "2 ^ 128" 128] by simp_all
  define q where "q = (log 2 (real m') - 127) / 2 ^ 14"
  have q: "0 \<le> q" "q \<le> 1 / 2 ^ 14" using lm by (simp_all add: q_def)
  have lv': "log_value (0 + 14) (m', l) = of_int l / 2 ^ 64 + q" by (simp add: log_value_def q_def)
  define e :: real where "e = 1 / 2 ^ 101"
  have "real 14 * (4 / 2 ^ 127) \<le> e" "4 / 2 ^ 127 \<le> e" by (simp_all add: e_def)
  then have "\<bar>of_int l / 2 ^ 64 + q - (real r - 255 + log 2 (real mant))\<bar> \<le> e"
    "\<bar>log 2 (real mant) - (log_price sp + 128 + 127 - real r)\<bar> \<le> e"
    using order_trans [OF f(4)] order_trans [OF m(3)] unfolding lv lv' lx by blast+
  then have "log_price sp - 1 / 2 ^ 14 - 2 * e \<le> of_int l / 2 ^ 64" "of_int l / 2 ^ 64 \<le> log_price sp + 2 * e"
    using q by linarith+
  moreover have "2 * e = 1 / 2 ^ 100" by (simp add: e_def)
  moreover have "uconv 128 mant = Some mant" using m(2) by (simp add: uconv_def)
  ultimately show ?thesis using f(1) r(2) unfolding mant_def by auto
qed

text \<open>The real tick of a price, and the error of the scaled logarithm against it.\<close>

definition real_tick :: "sqrt_price \<Rightarrow> real" where
  "real_tick sp = log_price sp / omega"

lemma log_scale_omega: "\<bar>of_int log_scale / 2 ^ 64 * omega - 1\<bar> \<le> 63 / 10 ^ 10"
proof -
  have "of_int log_scale / 2 ^ 64 * (317236132 / 2 ^ 42) \<le> of_int log_scale / 2 ^ 64 * omega"
    "of_int log_scale / 2 ^ 64 * omega \<le> of_int log_scale / 2 ^ 64 * (317236135 / 2 ^ 42)"
    using omega_bounds by (intro mult_left_mono; simp add: log_scale_def)+
  moreover have "1 - 63 / 10 ^ 10 \<le> of_int log_scale / 2 ^ 64 * (317236132 / 2 ^ 42 :: real)"
     "of_int log_scale / 2 ^ 64 * (317236135 / 2 ^ 42 :: real) \<le> 1 + 63 / 10 ^ 10"
    by (simp_all add: log_scale_def)
  ultimately show ?thesis by (simp only: abs_le_iff) linarith
qed

lemma real_tick_bound:
  assumes v: "is_sqrt_price_valid sp"
  shows "\<bar>real_tick sp\<bar> \<le> 888000"
proof -
  have "\<bar>log_price sp\<bar> \<le> 64" using log_price_bounds [OF v] by simp
  then have "\<bar>real_tick sp\<bar> \<le> 64 / omega" using omega_pos by (simp add: real_tick_def divide_right_mono)
  also have "\<dots> \<le> 64 / (317236132 / 2 ^ 42)" using omega_bounds omega_pos by (intro divide_left_mono) auto
  finally show ?thesis by simp
qed

lemma scaled_log_near:
  assumes v: "is_sqrt_price_valid sp"
  shows "\<bar>of_int log_scale / 2 ^ 64 * log_price sp - real_tick sp\<bar> \<le> 57 / 10000"
proof -
  define k :: real where "k = of_int log_scale / 2 ^ 64"
  have "k * log_price sp - real_tick sp = real_tick sp * (k * omega - 1)"
    using omega_pos by (simp add: real_tick_def field_simps)
  also have "\<bar>\<dots>\<bar> \<le> 888000 * (63 / 10 ^ 10)"
    unfolding abs_mult using real_tick_bound [OF v] log_scale_omega by (intro mult_mono) (auto simp: k_def)
  finally show ?thesis by (simp add: k_def)
qed

lemma scaled_log_bounds:
  assumes v: "is_sqrt_price_valid sp"
    and l: "log_price sp - 1 / 2 ^ 14 - 1 / 2 ^ 100 \<le> of_int l / 2 ^ 64" "of_int l / 2 ^ 64 \<le> log_price sp + 1 / 2 ^ 100"
  shows "real_tick sp - 852 / 1000 \<le> of_int (l * log_scale) / 2 ^ 128"
    and "of_int (l * log_scale) / 2 ^ 128 \<le> real_tick sp + 58 / 10000"
proof -
  define k :: real where "k = of_int log_scale / 2 ^ 64"
  have eq: "of_int (l * log_scale) / 2 ^ 128 = k * (of_int l / 2 ^ 64)" by (simp add: k_def)
  have k0: "0 \<le> k" by (simp add: k_def log_scale_def)
  have "k * (log_price sp - 1 / 2 ^ 14 - 1 / 2 ^ 100) \<le> k * (of_int l / 2 ^ 64)"
    "k * (of_int l / 2 ^ 64) \<le> k * (log_price sp + 1 / 2 ^ 100)"
    using l k0 by (intro mult_left_mono; simp)+
  then have 1: "k * log_price sp - k * (1 / 2 ^ 14) - k * (1 / 2 ^ 100) \<le> k * (of_int l / 2 ^ 64)"
    "k * (of_int l / 2 ^ 64) \<le> k * log_price sp + k * (1 / 2 ^ 100)"
    by (simp_all only: right_diff_distrib distrib_left)
  have 2: "k * (1 / 2 ^ 14) \<le> 84617 / 100000" "k * (1 / 2 ^ 100) \<le> 1 / 100000" by (simp_all add: k_def log_scale_def)
  have 3: "\<bar>k * log_price sp - real_tick sp\<bar> \<le> 57 / 10000" using scaled_log_near [OF v] by (simp add: k_def)
  have "\<lbrakk>a - b - c \<le> y; y \<le> a + c; b \<le> 84617 / 100000; c \<le> 1 / 100000; \<bar>a - t\<bar> \<le> 57 / 10000\<rbrakk>
     \<Longrightarrow> t - 852 / 1000 \<le> y \<and> y \<le> t + 58 / 10000" for a b c y t :: real by linarith
  from this [OF 1 2 3] show "real_tick sp - 852 / 1000 \<le> of_int (l * log_scale) / 2 ^ 128"
    "of_int (l * log_scale) / 2 ^ 128 \<le> real_tick sp + 58 / 10000" unfolding eq by blast+
qed

lemma div_power_floor: "z div 2 ^ n = \<lfloor>of_int z / 2 ^ n :: real\<rfloor>"
  using floor_divide_of_int_eq [of z "2 ^ n", where ?'a = real] by simp

lemma int_sub_mod:
  assumes "c \<le> M" "int u = z mod int M"
  shows "int ((u + M - c) mod M) = (z - int c) mod int M"
proof -
  have "int (u + M - c) = (z mod int M - int c) + int M" using assms by (simp add: of_nat_diff)
  then have "int ((u + M - c) mod M) = (z mod int M - int c) mod int M" by (simp only: of_nat_mod mod_add_self2)
  also have "\<dots> = (z - int c) mod int M" by (simp add: mod_diff_left_eq)
  finally show ?thesis .
qed

lemma int_add_mod:
  assumes "int u = z mod int M"
  shows "int ((u + c) mod M) = (z + int c) mod int M"
  using assms by (simp add: of_nat_mod mod_add_left_eq)

text \<open>The two candidate ticks bracket the real tick.\<close>

lemma tick_candidates:
  assumes v: "is_sqrt_price_valid sp"
  obtains lo hi where
    "tick_at_sqrt_price sp = (if lo = hi then Some lo else
       do { sp_high \<leftarrow> sqrt_price_at_tick hi; Some (if sp_high \<le> sp then hi else lo) })"
    "of_int lo \<le> real_tick sp - 4 / 1000" "real_tick sp + 4 / 1000 \<le> of_int hi + 1"
    "of_int hi \<le> real_tick sp + 9 / 10" "lo \<le> hi" "hi \<le> lo + 1"
proof -
  obtain mant m' l where
    m: "uconv 128 (let x = ushl 256 sp 32; msb = snd (fold add_integer_bit integer_bits (x, 0)) in
          if msb \<ge> 128 then ushr x (msb - 127) else ushl 256 x (127 - msb)) = Some mant"
     "foldM add_fractional_bit fractional_bits
       (mant, (int (snd (fold add_integer_bit integer_bits (ushl 256 sp 32, 0))) - 128) * 2 ^ 64) = Some (m', l)"
    and l: "log_price sp - 1 / 2 ^ 14 - 1 / 2 ^ 100 \<le> of_int l / 2 ^ 64" "of_int l / 2 ^ 64 \<le> log_price sp + 1 / 2 ^ 100"
    using log_2_q63f64 [OF v] unfolding Let_def by blast
  define z where "z = l * log_scale"
  define y :: real where "y = of_int z / 2 ^ 128"
  have y: "real_tick sp - 852 / 1000 \<le> y" "y \<le> real_tick sp + 58 / 10000"
    using scaled_log_bounds [OF v l] by (simp_all add: y_def z_def)
  define c1 :: int where "c1 = 3402992956809132418596140100660247210"
  define c2 :: int where "c2 = 291339464771989622907027621153398088495"
  define lo where "lo = (z - c1) div 2 ^ 128"
  define hi where "hi = (z + c2) div 2 ^ 128"
  have lo: "lo = \<lfloor>y - of_int c1 / 2 ^ 128\<rfloor>" and hi: "hi = \<lfloor>y + of_int c2 / 2 ^ 128\<rfloor>"
    by (simp_all only: lo_def hi_def div_power_floor y_def of_int_diff of_int_add diff_divide_distrib add_divide_distrib)
  have c: "100004 / 10000000 \<le> of_int c1 / (2 ^ 128 :: real)" "of_int c1 / (2 ^ 128 :: real) \<le> 101 / 10000"
     "8561 / 10000 \<le> of_int c2 / (2 ^ 128 :: real)" "of_int c2 / (2 ^ 128 :: real) \<le> 8562 / 10000"
    by (simp_all add: c1_def c2_def)
  have L: "- 65 \<le> of_int l / (2 ^ 64 :: real)" "of_int l / (2 ^ 64 :: real) \<le> 65"
    using l log_price_bounds [OF v] by simp_all
  have "real_of_int (- 65 * 2 ^ 64) \<le> of_int l" "real_of_int l \<le> of_int (65 * 2 ^ 64)" using L by simp_all
  then have L': "- 65 * 2 ^ 64 \<le> l" "l \<le> 65 * 2 ^ 64" by linarith+
  have l128: "- (2 ^ 127) \<le> l" "l < 2 ^ 127" using L' by simp_all
  have b: "of_int lo \<le> real_tick sp - 4 / 1000" "real_tick sp + 4 / 1000 \<le> of_int hi + 1"
    "of_int hi \<le> real_tick sp + 9 / 10" "lo \<le> hi" "hi \<le> lo + 1"
    unfolding lo hi using y c by linarith+
  have rng: "- (2 ^ 31) \<le> lo" "lo < 2 ^ 31" "- (2 ^ 31) \<le> hi" "hi < 2 ^ 31"
    using b real_tick_bound [OF v] by simp_all
  note z_eq = log_sqrt10001_eq [OF l128, folded z_def]
  have lo_signed: "as_signed 32 (ushr ((log_sqrt10001 l + 2 ^ 256 - 3402992956809132418596140100660247210) mod 2 ^ 256) 128) = lo"
    unfolding lo_def
  proof (rule as_signed_ushr)
    show "int ((log_sqrt10001 l + 2 ^ 256 - 3402992956809132418596140100660247210) mod 2 ^ 256) = (z - c1) mod 2 ^ 256"
      using int_sub_mod [of 3402992956809132418596140100660247210 "2 ^ 256" "log_sqrt10001 l" z] z_eq
      by (simp add: c1_def)
  qed (use rng in \<open>simp_all add: lo_def\<close>)
  have hi_signed: "as_signed 32 (ushr ((log_sqrt10001 l + 291339464771989622907027621153398088495) mod 2 ^ 256) 128) = hi"
    unfolding hi_def
  proof (rule as_signed_ushr)
    show "int ((log_sqrt10001 l + 291339464771989622907027621153398088495) mod 2 ^ 256) = (z + c2) mod 2 ^ 256"
      using int_add_mod [of "log_sqrt10001 l" z "2 ^ 256" 291339464771989622907027621153398088495] z_eq
      by (simp add: c2_def)
  qed (use rng in \<open>simp_all add: hi_def\<close>)
  have "tick_at_sqrt_price sp = (if lo = hi then Some lo else
       do { sp_high \<leftarrow> sqrt_price_at_tick hi; Some (if sp_high \<le> sp then hi else lo) })"
    using v m unfolding tick_at_sqrt_price_def Let_def
    by (simp only: assert_that_def if_True bind.bind_lunit lo_signed hi_signed prod.case)
  then show thesis using b by (rule that)
qed

lemma sqrt_price_below:
  assumes v: "is_sqrt_price_valid sp" and t: "sqrt_price_at_tick t = Some p"
    and le: "of_int t \<le> real_tick sp - 4 / 1000"
  shows "p < sp"
proof -
  have tv: "is_tick_valid t" using t by (auto simp: sqrt_price_at_tick_def assert_that_def split: if_splits)
  have p: "0 < p" "log 2 (real p) \<le> 96 + of_int t * omega + tick_eps"
    using sqrt_price_at_tick_log [OF tv] t by (force simp: abs_le_iff)+
  have "of_int t * omega \<le> (real_tick sp - 4 / 1000) * omega" using le omega_pos by (intro mult_right_mono) auto
  also have "\<dots> = log_price sp - 4 / 1000 * omega" using omega_pos by (simp add: real_tick_def left_diff_distrib)
  finally have "of_int t * omega \<le> log_price sp - 4 / 1000 * omega" .
  moreover have "tick_eps < 4 / 1000 * omega" using omega_bounds by (simp add: tick_eps_def)
  ultimately have "log 2 (real p) < log 2 (real sp)" using p(2) by (simp add: log_price_def)
  then show ?thesis using p log_price_bounds(1) [OF v] by simp
qed

lemma sqrt_price_above:
  assumes v: "is_sqrt_price_valid sp" and t: "sqrt_price_at_tick t = Some p"
    and le: "real_tick sp + 4 / 1000 \<le> of_int t"
  shows "sp < p"
proof -
  have tv: "is_tick_valid t" using t by (auto simp: sqrt_price_at_tick_def assert_that_def split: if_splits)
  have p: "0 < p" "96 + of_int t * omega - tick_eps \<le> log 2 (real p)"
    using sqrt_price_at_tick_log [OF tv] t by (force simp: abs_le_iff)+
  have "log_price sp + 4 / 1000 * omega = (real_tick sp + 4 / 1000) * omega"
    using omega_pos by (simp add: real_tick_def distrib_right)
  also have "\<dots> \<le> of_int t * omega" using le omega_pos by (intro mult_right_mono) auto
  finally have "log_price sp + 4 / 1000 * omega \<le> of_int t * omega" .
  moreover have "tick_eps < 4 / 1000 * omega" using omega_bounds by (simp add: tick_eps_def)
  ultimately have "log 2 (real sp) < log 2 (real p)" using p(2) by (simp add: log_price_def)
  then show ?thesis using p log_price_bounds(1) [OF v] by simp
qed

text \<open>What \<open>tick_at_sqrt_price\<close> is documented to compute.\<close>

definition greatest_tick_below :: "sqrt_price \<Rightarrow> tick \<Rightarrow> bool" where
  "greatest_tick_below sp t \<longleftrightarrow> is_tick_valid t \<and>
     (\<exists>p. sqrt_price_at_tick t = Some p \<and> p \<le> sp) \<and>
     (t < MAX_TICK \<longrightarrow> (\<exists>q. sqrt_price_at_tick (t + 1) = Some q \<and> sp < q))"

lemma tick_at_sqrt_price_spec:
  assumes v: "is_sqrt_price_valid sp"
  shows "\<exists>t. tick_at_sqrt_price sp = Some t \<and> greatest_tick_below sp t"
proof -
  obtain lo hi where ticks:
    "tick_at_sqrt_price sp = (if lo = hi then Some lo else
       do { sp_high \<leftarrow> sqrt_price_at_tick hi; Some (if sp_high \<le> sp then hi else lo) })"
    and b: "of_int lo \<le> real_tick sp - 4 / 1000" "real_tick sp + 4 / 1000 \<le> of_int hi + 1"
    "of_int hi \<le> real_tick sp + 9 / 10" "lo \<le> hi" "hi \<le> lo + 1"
    using tick_candidates [OF v] .
  have "real_tick sp < of_int MAX_TICK + 4 / 1000"
    using sqrt_price_below [OF v sqrt_price_at_max_tick] v by (force simp: is_sqrt_price_valid_def)
  then have hi_max: "hi \<le> MAX_TICK" using b(3) by linarith
  have "of_int MIN_TICK < real_tick sp + 4 / 1000"
    using sqrt_price_above [OF v sqrt_price_at_min_tick] v by (force simp: is_sqrt_price_valid_def)
  then have hi_min: "MIN_TICK \<le> hi" using b(2) by linarith
  have hi_v: "is_tick_valid hi" using hi_min hi_max by (simp add: is_tick_valid_def)
  then obtain p where p: "sqrt_price_at_tick hi = Some p" using sqrt_price_at_tick_valid by blast
  have above: "hi < MAX_TICK \<longrightarrow> (\<exists>q. sqrt_price_at_tick (hi + 1) = Some q \<and> sp < q)"
    using sqrt_price_at_tick_valid [of "hi + 1"] sqrt_price_above [OF v] b(2) hi_min
    by (auto simp: is_tick_valid_def)
  show ?thesis
  proof (cases "lo = hi \<or> p \<le> sp")
    case True
    then have "p \<le> sp" using sqrt_price_below [OF v p] b(1) by auto
    then show ?thesis using True ticks p hi_v above by (auto simp: greatest_tick_below_def)
  next
    case False
    then have lo: "hi = lo + 1" using b(4,5) by simp
    have "hi \<noteq> MIN_TICK" using False p sqrt_price_at_min_tick v by (auto simp: is_sqrt_price_valid_def)
    then have lo_v: "is_tick_valid lo" using lo hi_min hi_max by (simp add: is_tick_valid_def)
    then obtain p' where "sqrt_price_at_tick lo = Some p'" using sqrt_price_at_tick_valid by blast
    moreover from this have "p' \<le> sp" using sqrt_price_below [OF v] b(1) by force
    ultimately show ?thesis using False ticks p lo lo_v by (auto simp: greatest_tick_below_def)
  qed
qed

lemma greatest_tick_below_unique:
  assumes s: "greatest_tick_below sp s" and t: "greatest_tick_below sp t"
  shows "s = t"
proof -
  have False if s: "greatest_tick_below sp s" and t: "greatest_tick_below sp t" and less: "s < t" for s t
  proof -
    have v: "is_tick_valid s" "is_tick_valid t" using s t by (simp_all add: greatest_tick_below_def)
    then have v1: "is_tick_valid (s + 1)" and "s < MAX_TICK" using less by (simp_all add: is_tick_valid_def)
    then obtain p q where "sqrt_price_at_tick t = Some p" "p \<le> sp" "sqrt_price_at_tick (s + 1) = Some q" "sp < q"
      using s t by (auto simp: greatest_tick_below_def)
    then show False
      using sqrt_price_at_tick_strict_mono [OF v1 v(2)] less by (cases "t = s + 1") force+
  qed
  then show ?thesis using s t by (meson linorder_less_linear)
qed

lemma tick_at_sqrt_price_at_tick:
  assumes t: "is_tick_valid t" and p: "sqrt_price_at_tick t = Some p"
  shows "tick_at_sqrt_price p = Some t"
proof -
  have "is_sqrt_price_valid p" using sqrt_price_at_tick_valid [OF t] p by (auto simp: is_sqrt_price_valid_def)
  moreover have "greatest_tick_below p t"
  proof -
    have "\<exists>q. sqrt_price_at_tick (t + 1) = Some q \<and> p < q" if "t < MAX_TICK"
    proof -
      have v: "is_tick_valid (t + 1)" using t that by (simp add: is_tick_valid_def)
      then obtain q where q: "sqrt_price_at_tick (t + 1) = Some q" using sqrt_price_at_tick_valid by blast
      with sqrt_price_at_tick_strict_mono [OF t v _ p q] show ?thesis by simp
    qed
    then show ?thesis using t p by (simp add: greatest_tick_below_def)
  qed
  ultimately show ?thesis using tick_at_sqrt_price_spec greatest_tick_below_unique by metis
qed

lemma sqrt_price_at_tick_SomeD: "sqrt_price_at_tick t = Some p \<Longrightarrow> is_tick_valid t"
  by (auto simp: sqrt_price_at_tick_def assert_that_def split: if_splits)

lemma sqrt_price_at_tick_mono:
  assumes "s \<le> t" "sqrt_price_at_tick s = Some p" "sqrt_price_at_tick t = Some q"
  shows "p \<le> q"
  using sqrt_price_at_tick_strict_mono [of s t p q] assms sqrt_price_at_tick_SomeD
  by (cases "s = t") force+

text \<open>The prices that lie on a tick: a finite set, all valid.\<close>

definition tick_sqrt_price :: "sqrt_price \<Rightarrow> bool" where
  "tick_sqrt_price sp \<longleftrightarrow> (\<exists>t. sqrt_price_at_tick t = Some sp)"

lemma tick_sqrt_priceI [intro]: "sqrt_price_at_tick t = Some sp \<Longrightarrow> tick_sqrt_price sp"
  by (auto simp: tick_sqrt_price_def)

lemma tick_sqrt_price_valid:
  assumes "tick_sqrt_price sp"
  shows "is_sqrt_price_valid sp"
proof -
  obtain t where t: "sqrt_price_at_tick t = Some sp" using assms by (auto simp: tick_sqrt_price_def)
  then show ?thesis
    using sqrt_price_at_tick_valid [OF sqrt_price_at_tick_SomeD [OF t]] by (auto simp: is_sqrt_price_valid_def)
qed

lemma tick_sqrt_prices:
  "finite {sp. tick_sqrt_price sp}" "card {sp. tick_sqrt_price sp} \<le> 1774545"
proof -
  have sub: "{sp. tick_sqrt_price sp} \<subseteq> (\<lambda>t. the (sqrt_price_at_tick t)) ` {MIN_TICK..MAX_TICK}"
    using sqrt_price_at_tick_SomeD by (force simp: tick_sqrt_price_def is_tick_valid_def)
  then show "finite {sp. tick_sqrt_price sp}" by (rule finite_subset) simp
  have "card {sp. tick_sqrt_price sp} \<le> card {MIN_TICK..MAX_TICK}"
    using card_mono [OF _ sub] card_image_le [of "{MIN_TICK..MAX_TICK}"] by (meson finite_atLeastAtMost_int finite_imageI order_trans)
  then show "card {sp. tick_sqrt_price sp} \<le> 1774545" by (simp add: MIN_TICK_def MAX_TICK_def)
qed

lemma tick_at_sqrt_price_total: "is_sqrt_price_valid sp \<Longrightarrow> \<exists>t. tick_at_sqrt_price sp = Some t"
  using tick_at_sqrt_price_spec by blast

section \<open>Properties\<close>

text \<open>
  C16. For every valid square-root price, \<open>tick_at_sqrt_price\<close> returns (it never panics) and the
  result is the greatest valid tick whose price is not above the argument.
\<close>

theorem tick_at_sqrt_price_greatest:
  assumes "is_sqrt_price_valid sp"
  shows "\<exists>t p. tick_at_sqrt_price sp = Some t \<and> is_tick_valid t \<and>
           sqrt_price_at_tick t = Some p \<and> p \<le> sp \<and>
           (\<forall>s q. t < s \<and> sqrt_price_at_tick s = Some q \<longrightarrow> sp < q)"
proof -
  obtain t p where t: "tick_at_sqrt_price sp = Some t" "is_tick_valid t" "sqrt_price_at_tick t = Some p" "p \<le> sp"
      and next_tick: "t < MAX_TICK \<Longrightarrow> \<exists>q. sqrt_price_at_tick (t + 1) = Some q \<and> sp < q"
    using tick_at_sqrt_price_spec [OF assms] by (auto simp: greatest_tick_below_def)
  have "sp < q" if "t < s" "sqrt_price_at_tick s = Some q" for s q
    using next_tick that sqrt_price_at_tick_mono [of "t + 1" s] sqrt_price_at_tick_SomeD [OF that(2)] t(2)
    by (fastforce simp: is_tick_valid_def)
  with t show ?thesis by blast
qed

theorem tick_at_sqrt_price_greatest_witness:
  "tick_at_sqrt_price (2 ^ 96) = Some 0 \<and>
   (\<exists>t p. tick_at_sqrt_price (2 ^ 96) = Some t \<and> is_tick_valid t \<and>
           sqrt_price_at_tick t = Some p \<and> p \<le> 2 ^ 96 \<and>
           (\<forall>s q. t < s \<and> sqrt_price_at_tick s = Some q \<longrightarrow> 2 ^ 96 < q))"
proof
  have "sqrt_price_at_tick 0 = Some (2 ^ 96)"
    by (simp add: sqrt_price_at_tick_def is_tick_valid_def MIN_TICK_def MAX_TICK_def
        tick_bit_constants_def handle_tick_bit_def checked_simps)
  then show "tick_at_sqrt_price (2 ^ 96) = Some 0"
    by (rule tick_at_sqrt_price_at_tick [rotated]) (simp add: is_tick_valid_def MIN_TICK_def MAX_TICK_def)
qed (rule tick_at_sqrt_price_greatest, simp add: is_sqrt_price_valid_def MIN_SQRT_PRICE_def MAX_SQRT_PRICE_def)

text \<open>
  \<open>sqrt_price_at_tick\<close> returns for every valid tick (none of its checked multiplications
  overflows and the division by the ratio is never by zero), its result is a valid
  square-root price, and it is strictly increasing.
\<close>

theorem sqrt_price_at_tick_increasing:
  assumes "is_tick_valid s" "is_tick_valid t" "s < t"
  shows "\<exists>p q. sqrt_price_at_tick s = Some p \<and> sqrt_price_at_tick t = Some q \<and>
           is_sqrt_price_valid p \<and> is_sqrt_price_valid q \<and> p < q"
  using sqrt_price_at_tick_valid [OF assms(1)] sqrt_price_at_tick_valid [OF assms(2)]
    sqrt_price_at_tick_strict_mono [OF assms] by (auto simp: is_sqrt_price_valid_def)

theorem sqrt_price_at_tick_increasing_witness:
  "\<exists>p q. sqrt_price_at_tick (-5) = Some p \<and> sqrt_price_at_tick 887272 = Some q \<and>
           is_sqrt_price_valid p \<and> is_sqrt_price_valid q \<and> p < q"
  by (rule sqrt_price_at_tick_increasing) (simp_all add: is_tick_valid_def MIN_TICK_def MAX_TICK_def)

text \<open>
  Round trip: the tick at the price of a tick is that tick.
\<close>

theorem tick_of_price_of_tick:
  assumes "is_tick_valid t"
  shows "do { sp \<leftarrow> sqrt_price_at_tick t; tick_at_sqrt_price sp } = Some t"
  using tick_at_sqrt_price_at_tick [OF assms] sqrt_price_at_tick_valid [OF assms] by auto

theorem tick_of_price_of_tick_witness:
  "do { sp \<leftarrow> sqrt_price_at_tick 123456; tick_at_sqrt_price sp } = Some 123456"
  by (rule tick_of_price_of_tick) (simp add: is_tick_valid_def MIN_TICK_def MAX_TICK_def)

end
