(* ===== verification/Limit_Orders.thy ===== *)
theory Limit_Orders
  imports Limit_Float Amm_Tick_Math
begin

text \<open>
  Model of \<open>state-chain/amm/src/limit_orders.rs\<close>: the pools that sell one asset at a fixed
  price, the positions of the liquidity providers in them, and the operations on both. A
  method of \<open>PoolState\<close> is a function of the state that returns the new state with its
  result; an \<open>Err\<close> carries no state because no method changes the state before it fails.
  The type parameter \<open>LiquidityProvider: Ord\<close> is the type variable \<open>'lp\<close> with its linear
  order.
\<close>

section \<open>Prices and amounts in the two directions\<close>

definition MAX_FIXED_POOL_LIQUIDITY :: amount where
  "MAX_FIXED_POOL_LIQUIDITY = umax 64 + umax 64 * 2 ^ 64"

fun lo_output_amount_floor :: "direction \<Rightarrow> amount \<Rightarrow> price \<Rightarrow> amount option" where
  "lo_output_amount_floor BaseToQuote input p = output_amount_floor input p"
| "lo_output_amount_floor QuoteToBase input p =
     mul_div_floor input (ushl 256 1 PRICE_FRACTIONAL_BITS) p"

fun input_amount_ceil :: "direction \<Rightarrow> amount \<Rightarrow> price \<Rightarrow> amount option" where
  "input_amount_ceil BaseToQuote output p = mul_div_ceil output (ushl 256 1 PRICE_FRACTIONAL_BITS) p"
| "input_amount_ceil QuoteToBase output p = mul_div_ceil output p (ushl 256 1 PRICE_FRACTIONAL_BITS)"

fun input_amount_floor :: "direction \<Rightarrow> amount \<Rightarrow> price \<Rightarrow> amount option" where
  "input_amount_floor BaseToQuote output p = lo_output_amount_floor QuoteToBase output p"
| "input_amount_floor QuoteToBase output p = lo_output_amount_floor BaseToQuote output p"

section \<open>State\<close>

datatype lo_new_error = LoNewInvalidFeeAmount

datatype lo_depth_error = LoDepthInvalidTick | LoDepthInvalidTickRange

datatype lo_mint_error = LoMaximumLiquidity | LoMaximumPoolInstances

datatype 'e lo_position_error = LoInvalidTick | LoNonExistent | LoOther 'e

fun map_other :: "('e \<Rightarrow> 'r) \<Rightarrow> 'e lo_position_error \<Rightarrow> 'r lo_position_error" where
  "map_other f LoInvalidTick = LoInvalidTick"
| "map_other f LoNonExistent = LoNonExistent"
| "map_other f (LoOther e) = LoOther (f e)"

record lo_collected =
  lc_fees :: amount
  lc_bought_amount :: amount
  lc_sold_amount :: amount
  lc_accumulative_fees :: amount
  lc_original_amount :: amount

definition lo_collected_default :: lo_collected where
  "lo_collected_default =
     \<lparr>lc_fees = 0, lc_bought_amount = 0, lc_sold_amount = 0, lc_accumulative_fees = 0, lc_original_amount = 0\<rparr>"

record lo_position_info =
  lpi_amount :: amount

record lo_position =
  lp_pool_instance :: nat
  lp_amount :: amount
  lp_last_percent_remaining :: float01
  lp_accumulative_fees :: amount
  lp_original_amount :: amount

definition lo_info :: "lo_position \<Rightarrow> lo_position_info" where
  "lo_info p = \<lparr>lpi_amount = lp_amount p\<rparr>"

definition lo_info_default :: lo_position_info where
  "lo_info_default = \<lparr>lpi_amount = 0\<rparr>"

record fixed_pool =
  fp_pool_instance :: nat
  fp_available :: amount
  fp_percent_remaining :: float01

type_synonym fixed_pools = "(sqrt_price, fixed_pool) btree_map"
type_synonym 'lp lo_positions = "(sqrt_price \<times> 'lp, lo_position) btree_map"

record 'lp limit_pool =
  lo_fee_hundredth_pips :: nat
  lo_next_pool_instance :: nat
  lo_fixed_pools :: "fixed_pools pool_pairs_map"
  lo_positions :: "'lp lo_positions pool_pairs_map"
  lo_total_fees_earned :: "amount pool_pairs_map"
  lo_total_swap_inputs :: "amount pool_pairs_map"
  lo_total_swap_outputs :: "amount pool_pairs_map"

text \<open>The pools and the positions a swap of direction \<open>sd\<close> trades with: \<open>[!SD::INPUT_SIDE]\<close>.\<close>

abbreviation sold_side :: "direction \<Rightarrow> pairs" where
  "sold_side sd \<equiv> not_pair (input_side sd)"

abbreviation pools_of :: "direction \<Rightarrow> 'lp limit_pool \<Rightarrow> fixed_pools" where
  "pools_of sd st \<equiv> pp_index (lo_fixed_pools st) (sold_side sd)"

abbreviation positions_of :: "direction \<Rightarrow> 'lp limit_pool \<Rightarrow> 'lp lo_positions" where
  "positions_of sd st \<equiv> pp_index (lo_positions st) (sold_side sd)"

abbreviation set_pools :: "direction \<Rightarrow> fixed_pools \<Rightarrow> 'lp limit_pool \<Rightarrow> 'lp limit_pool" where
  "set_pools sd m st \<equiv> st\<lparr>lo_fixed_pools := pp_set (sold_side sd) m (lo_fixed_pools st)\<rparr>"

abbreviation set_positions :: "direction \<Rightarrow> 'lp lo_positions \<Rightarrow> 'lp limit_pool \<Rightarrow> 'lp limit_pool" where
  "set_positions sd m st \<equiv> st\<lparr>lo_positions := pp_set (sold_side sd) m (lo_positions st)\<rparr>"

section \<open>Operations\<close>

definition lo_validate_fees :: "nat \<Rightarrow> bool" where
  "lo_validate_fees fee \<longleftrightarrow> fee \<le> MAX_LP_FEE"

definition lo_new :: "nat \<Rightarrow> lo_new_error + 'lp limit_pool" where
  "lo_new fee =
     (if lo_validate_fees fee
      then Inr \<lparr>lo_fee_hundredth_pips = fee, lo_next_pool_instance = 0,
                lo_fixed_pools = \<lparr>base = [], quote = []\<rparr>,
                lo_positions = \<lparr>base = [], quote = []\<rparr>,
                lo_total_fees_earned = pp_zero, lo_total_swap_inputs = pp_zero,
                lo_total_swap_outputs = pp_zero\<rparr>
      else Inl LoNewInvalidFeeAmount)"

fun best_priced_fixed_pool :: "direction \<Rightarrow> fixed_pools \<Rightarrow> (sqrt_price \<times> fixed_pool) option" where
  "best_priced_fixed_pool BaseToQuote pools = bt_last pools"
| "best_priced_fixed_pool QuoteToBase pools = bt_first pools"

definition lo_current_sqrt_price :: "direction \<Rightarrow> 'lp limit_pool \<Rightarrow> sqrt_price option" where
  "lo_current_sqrt_price sd st = map_option fst (best_priced_fixed_pool sd (pools_of sd st))"

definition collect_from_position ::
    "direction \<Rightarrow> lo_position \<Rightarrow> fixed_pool option \<Rightarrow> price \<Rightarrow> nat \<Rightarrow> (lo_collected \<times> lo_position option) option" where
  "collect_from_position sd position pool p fee =
     do { (used_liquidity, option_position) \<leftarrow>
            (case opt_filter (\<lambda>fp. fp_pool_instance fp = lp_pool_instance position) pool of
               Some fp \<Rightarrow>
                 do { (remaining_amount_floor, remaining_amount_ceil) \<leftarrow>
                        integer_mul_div (lp_amount position) (fp_percent_remaining fp)
                          (lp_last_percent_remaining position);
                      used \<leftarrow> usub (lp_amount position) remaining_amount_ceil;
                      Some (used,
                        if remaining_amount_floor = 0 then None
                        else Some (position\<lparr>lp_amount := remaining_amount_floor,
                                            lp_last_percent_remaining := fp_percent_remaining fp\<rparr>)) }
             | None \<Rightarrow> Some (lp_amount position, None));
          bought_amount \<leftarrow> input_amount_floor sd used_liquidity p;
          other \<leftarrow> usub ONE_IN_HUNDREDTH_PIPS fee;
          fees \<leftarrow> mul_div_floor bought_amount fee other;
          let accumulative_fees = usat_add 256 (lp_accumulative_fees position) fees;
          Some (\<lparr>lc_fees = fees, lc_bought_amount = bought_amount, lc_sold_amount = used_liquidity,
                 lc_accumulative_fees = accumulative_fees,
                 lc_original_amount = lp_original_amount position\<rparr>,
                map_option (lp_accumulative_fees_update (\<lambda>_. accumulative_fees)) option_position) }"

definition lo_validate_tick :: "tick \<Rightarrow> ('e lo_position_error + sqrt_price) option" where
  "lo_validate_tick t =
     (if is_tick_valid t then do { sp \<leftarrow> sqrt_price_at_tick t; Some (Inr sp) }
      else Some (Inl LoInvalidTick))"

text \<open>
  \<open>CollectError\<close> and \<open>BurnError\<close> have no values. The operations that return them are
  polymorphic in the error instead, so that the \<open>map_other\<close> of an empty match is the
  identity.
\<close>

definition lo_inner_collect ::
    "direction \<Rightarrow> 'lp::linorder \<Rightarrow> sqrt_price \<Rightarrow> 'lp limit_pool \<Rightarrow>
     ('e lo_position_error + lo_collected \<times> lo_position_info \<times> 'lp limit_pool) option" where
  "lo_inner_collect sd lp sp st =
     do { p \<leftarrow> sqrt_price_to_price sp;
          (case bt_get (positions_of sd st) (sp, lp) of
             None \<Rightarrow> Some (Inl LoNonExistent)
           | Some position \<Rightarrow>
               do { (collected, option_position) \<leftarrow>
                      collect_from_position sd position (bt_get (pools_of sd st) sp) p
                        (lo_fee_hundredth_pips st);
                    Some (Inr (case option_position of
                      Some position' \<Rightarrow>
                        (collected, lo_info position',
                         set_positions sd (bt_insert (sp, lp) position' (positions_of sd st)) st)
                    | None \<Rightarrow>
                        (collected, lo_info_default,
                         set_positions sd (bt_remove (sp, lp) (positions_of sd st)) st))) }) }"

definition lo_collect ::
    "direction \<Rightarrow> 'lp::linorder \<Rightarrow> tick \<Rightarrow> 'lp limit_pool \<Rightarrow>
     ('e lo_position_error + lo_collected \<times> lo_position_info \<times> 'lp limit_pool) option" where
  "lo_collect sd lp t st =
     do { v \<leftarrow> lo_validate_tick t;
          (case v of Inl e \<Rightarrow> Some (Inl e) | Inr sp \<Rightarrow> lo_inner_collect sd lp sp st) }"

text \<open>The position and the pool that \<open>collect_and_mint\<close> adds to, and the next pool instance.\<close>

definition lo_mint_target ::
    "lo_position option \<Rightarrow> fixed_pool option \<Rightarrow> nat \<Rightarrow>
     (lo_mint_error lo_position_error + lo_position \<times> fixed_pool \<times> nat) option" where
  "lo_mint_target option_position option_fixed_pool next_instance =
     (case option_position of
        Some position \<Rightarrow>
          do { fp \<leftarrow> option_fixed_pool; Some (Inr (position, fp, next_instance)) }
      | None \<Rightarrow>
          (let new_position = (\<lambda>fp. \<lparr>lp_pool_instance = fp_pool_instance fp, lp_amount = 0,
                 lp_last_percent_remaining = fp_percent_remaining fp,
                 lp_accumulative_fees = 0, lp_original_amount = 0\<rparr>)
           in Some (case option_fixed_pool of
                Some fp \<Rightarrow> Inr (new_position fp, fp, next_instance)
              | None \<Rightarrow>
                  (case uadd 128 next_instance 1 of
                     None \<Rightarrow> Inl (LoOther LoMaximumPoolInstances)
                   | Some next_instance' \<Rightarrow>
                       (let fp = \<lparr>fp_pool_instance = next_instance, fp_available = 0,
                                  fp_percent_remaining = float_max\<rparr>
                        in Inr (new_position fp, fp, next_instance'))))))"

text \<open>The end of \<open>collect_and_mint\<close>: the amount is added to the pool and to the position, and both are stored.\<close>

definition lo_mint_into ::
    "direction \<Rightarrow> 'lp::linorder \<Rightarrow> sqrt_price \<Rightarrow> amount \<Rightarrow> lo_collected \<Rightarrow> lo_position \<Rightarrow> fixed_pool \<Rightarrow> nat \<Rightarrow> 'lp limit_pool \<Rightarrow>
     (lo_mint_error lo_position_error + lo_collected \<times> lo_position_info \<times> 'lp limit_pool) option" where
  "lo_mint_into sd lp sp a collected position fp next_instance st =
     (let fp' = fp\<lparr>fp_available := usat_add 256 (fp_available fp) a\<rparr>
      in if fp_available fp' > MAX_FIXED_POOL_LIQUIDITY
         then Some (Inl (LoOther LoMaximumLiquidity))
         else do { amount' \<leftarrow> uadd 256 (lp_amount position) a;
                   let position' = position\<lparr>lp_amount := amount', lp_original_amount := amount'\<rparr>;
                   let st' = set_pools sd (bt_insert sp fp' (pools_of sd st))
                               (st\<lparr>lo_next_pool_instance := next_instance\<rparr>);
                   Some (Inr (collected, lo_info position',
                     set_positions sd (bt_insert (sp, lp) position' (positions_of sd st')) st')) })"

definition lo_collect_and_mint ::
    "direction \<Rightarrow> 'lp::linorder \<Rightarrow> tick \<Rightarrow> amount \<Rightarrow> 'lp limit_pool \<Rightarrow>
     (lo_mint_error lo_position_error + lo_collected \<times> lo_position_info \<times> 'lp limit_pool) option" where
  "lo_collect_and_mint sd lp t a st =
     (if a = 0 then lo_collect sd lp t st
      else do {
        v \<leftarrow> lo_validate_tick t;
        (case v of Inl e \<Rightarrow> Some (Inl e) | Inr sp \<Rightarrow>
           do { p \<leftarrow> sqrt_price_to_price sp;
                (collected, option_position) \<leftarrow>
                  (case bt_get (positions_of sd st) (sp, lp) of
                     Some position \<Rightarrow>
                       collect_from_position sd position (bt_get (pools_of sd st) sp) p (lo_fee_hundredth_pips st)
                   | None \<Rightarrow> Some (lo_collected_default, None));
                target \<leftarrow> lo_mint_target option_position (bt_get (pools_of sd st) sp) (lo_next_pool_instance st);
                (case target of Inl e \<Rightarrow> Some (Inl e)
                 | Inr (position, fp, next_instance) \<Rightarrow>
                     lo_mint_into sd lp sp a collected position fp next_instance st) }) })"

text \<open>The part of \<open>collect_and_burn\<close> for a position that still has liquidity.\<close>

definition lo_burn_from ::
    "direction \<Rightarrow> 'lp::linorder \<Rightarrow> sqrt_price \<Rightarrow> amount \<Rightarrow> lo_collected \<Rightarrow> lo_position \<Rightarrow> fixed_pool \<Rightarrow> 'lp limit_pool \<Rightarrow>
     ('e lo_position_error + amount \<times> lo_collected \<times> lo_position_info \<times> 'lp limit_pool) option" where
  "lo_burn_from sd lp sp a collected position fp st =
     do { let amt = min (lp_amount position) a;
          amount' \<leftarrow> usub (lp_amount position) amt;
          let position' = position\<lparr>lp_amount := amount', lp_original_amount := amount'\<rparr>;
          available' \<leftarrow> usub (fp_available fp) amt;
          let fp' = fp\<lparr>fp_available := available'\<rparr>;
          st' \<leftarrow> (if lp_amount position' = 0
            then Some (set_positions sd (bt_remove (sp, lp) (positions_of sd st)) st)
            else do { assert_that (fp_available fp' \<noteq> 0);
                      Some (set_positions sd (bt_insert (sp, lp) position' (positions_of sd st)) st) });
          let st'' = (if fp_available fp' = 0
            then set_pools sd (bt_remove sp (pools_of sd st')) st'
            else set_pools sd (bt_insert sp fp' (pools_of sd st')) st');
          Some (Inr (amt, collected, lo_info position', st'')) }"

definition lo_collect_and_burn ::
    "direction \<Rightarrow> 'lp::linorder \<Rightarrow> tick \<Rightarrow> amount \<Rightarrow> 'lp limit_pool \<Rightarrow>
     ('e lo_position_error + amount \<times> lo_collected \<times> lo_position_info \<times> 'lp limit_pool) option" where
  "lo_collect_and_burn sd lp t a st =
     (if a = 0 then map_option (map_sum id (\<lambda>(c, i, st'). (0, c, i, st'))) (lo_collect sd lp t st)
      else do {
        v \<leftarrow> lo_validate_tick t;
        (case v of Inl e \<Rightarrow> Some (Inl e) | Inr sp \<Rightarrow>
           do { p \<leftarrow> sqrt_price_to_price sp;
                (case bt_get (positions_of sd st) (sp, lp) of
                   None \<Rightarrow> Some (Inl LoNonExistent)
                 | Some position \<Rightarrow>
                     do { (collected, option_position) \<leftarrow>
                            collect_from_position sd position (bt_get (pools_of sd st) sp) p (lo_fee_hundredth_pips st);
                          (case option_position of
                             Some position \<Rightarrow>
                               do { fp \<leftarrow> bt_get (pools_of sd st) sp;
                                    lo_burn_from sd lp sp a collected position fp st }
                           | None \<Rightarrow>
                               Some (Inr (0, collected, lo_info_default,
                                 set_positions sd (bt_remove (sp, lp) (positions_of sd st)) st))) }) }) })"

definition lo_position_of ::
    "direction \<Rightarrow> 'lp::linorder \<Rightarrow> tick \<Rightarrow> 'lp limit_pool \<Rightarrow>
     ('e lo_position_error + lo_collected \<times> lo_position_info) option" where
  "lo_position_of sd lp t st =
     do { v \<leftarrow> lo_validate_tick t;
          (case v of Inl e \<Rightarrow> Some (Inl e) | Inr sp \<Rightarrow>
             do { p \<leftarrow> sqrt_price_to_price sp;
                  (case bt_get (positions_of sd st) (sp, lp) of
                     None \<Rightarrow> Some (Inl LoNonExistent)
                   | Some position \<Rightarrow>
                       do { (collected, option_position) \<leftarrow>
                              collect_from_position sd position (bt_get (pools_of sd st) sp) p
                                (lo_fee_hundredth_pips st);
                            Some (Inr (collected,
                              case option_position of None \<Rightarrow> lo_info_default | Some p' \<Rightarrow> lo_info p')) }) }) }"

type_synonym 'lp lo_collected_position = "'lp \<times> tick \<times> lo_collected \<times> lo_position_info"

definition lo_positions_list ::
    "direction \<Rightarrow> 'lp::linorder limit_pool \<Rightarrow> 'lp lo_collected_position list option" where
  "lo_positions_list sd st =
     mapM (\<lambda>((sp, lp), position).
       do { p \<leftarrow> sqrt_price_to_price sp;
            (collected, option_position) \<leftarrow>
              collect_from_position sd position (bt_get (pools_of sd st) sp) p (lo_fee_hundredth_pips st);
            t \<leftarrow> tick_at_sqrt_price sp;
            Some (lp, t, collected,
              case option_position of None \<Rightarrow> lo_info_default | Some p' \<Rightarrow> lo_info p') })
       (positions_of sd st)"

text \<open>\<open>collect_all\<close> visits a snapshot of the keys; the \<open>unwrap\<close> of each collect is the panic.\<close>

definition lo_collect_key ::
    "direction \<Rightarrow> sqrt_price \<times> 'lp::linorder \<Rightarrow> 'lp limit_pool \<times> 'lp lo_collected_position list \<Rightarrow>
     ('lp limit_pool \<times> 'lp lo_collected_position list) option" where
  "lo_collect_key sd = (\<lambda>(sp, lp) (st, acc).
     do { r \<leftarrow> (lo_inner_collect sd lp sp st ::
              (unit lo_position_error + lo_collected \<times> lo_position_info \<times> 'lp limit_pool) option);
          (case r of Inl _ \<Rightarrow> None
           | Inr (collected, info, st') \<Rightarrow>
               do { t \<leftarrow> tick_at_sqrt_price sp; Some (st', acc @ [(lp, t, collected, info)]) }) })"

definition lo_collect_all ::
    "'lp::linorder limit_pool \<Rightarrow>
     ('lp lo_collected_position list pool_pairs_map \<times> 'lp limit_pool) option" where
  "lo_collect_all st =
     do { (st1, b) \<leftarrow> foldM (lo_collect_key QuoteToBase) (map fst (positions_of QuoteToBase st)) (st, []);
          (st2, q) \<leftarrow> foldM (lo_collect_key BaseToQuote) (map fst (positions_of BaseToQuote st1)) (st1, []);
          Some (pp_from_array (b, q), st2) }"

definition lo_set_fees ::
    "nat \<Rightarrow> 'lp::linorder limit_pool \<Rightarrow>
     (set_fees_error + 'lp lo_collected_position list pool_pairs_map \<times> 'lp limit_pool) option" where
  "lo_set_fees fee st =
     (if lo_validate_fees fee
      then do { (collected, st') \<leftarrow> lo_collect_all st;
                Some (Inr (collected, st'\<lparr>lo_fee_hundredth_pips := fee\<rparr>)) }
      else Some (Inl SetFeesInvalidFeeAmount))"

definition lo_liquidity :: "direction \<Rightarrow> 'lp limit_pool \<Rightarrow> (tick \<times> amount) list option" where
  "lo_liquidity sd st =
     mapM (\<lambda>(sp, fp). do { t \<leftarrow> tick_at_sqrt_price sp; Some (t, fp_available fp) }) (pools_of sd st)"

definition lo_depth :: "direction \<Rightarrow> tick \<Rightarrow> tick \<Rightarrow> 'lp limit_pool \<Rightarrow> (lo_depth_error + amount) option" where
  "lo_depth sd range_start range_end st =
     do { s \<leftarrow> (lo_validate_tick range_start :: (unit lo_position_error + sqrt_price) option);
          (case s of Inl _ \<Rightarrow> Some (Inl LoDepthInvalidTick) | Inr start_price \<Rightarrow>
             do { e \<leftarrow> (lo_validate_tick range_end :: (unit lo_position_error + sqrt_price) option);
                  (case e of Inl _ \<Rightarrow> Some (Inl LoDepthInvalidTick) | Inr end_price \<Rightarrow>
                     (if start_price \<le> end_price
                      then map_option Inr
                             (foldM (\<lambda>(_, fp) acc. uadd 256 acc (fp_available fp))
                                (bt_range start_price end_price (pools_of sd st)) 0)
                      else Some (Inl LoDepthInvalidTickRange))) }) }"

section \<open>Swap\<close>

text \<open>
  The \<open>while let\<close> loop of \<open>swap\<close>: \<open>lo_swap_entry\<close> is its condition, \<open>lo_swap_fixed_pool\<close>
  the trade with one fixed pool (the pool that is left, the remaining input, the output, the
  input taken and the fees), \<open>lo_swap_step\<close> its body.
\<close>

definition lo_swap_entry ::
    "direction \<Rightarrow> sqrt_price option \<Rightarrow> 'lp limit_pool \<Rightarrow> amount \<Rightarrow> (sqrt_price \<times> fixed_pool) option" where
  "lo_swap_entry sd sqrt_price_limit st a =
     (if a = 0 then None
      else opt_filter (\<lambda>(sp, _). case sqrt_price_limit of None \<Rightarrow> True
                                 | Some limit \<Rightarrow> \<not> sqrt_price_op_more_than sd sp limit)
             (best_priced_fixed_pool sd (pools_of sd st)))"

definition lo_swap_fixed_pool ::
    "direction \<Rightarrow> nat \<Rightarrow> sqrt_price \<Rightarrow> fixed_pool \<Rightarrow> amount \<Rightarrow>
     (fixed_pool option \<times> amount \<times> amount \<times> amount \<times> amount) option" where
  "lo_swap_fixed_pool sd fee sp fp a =
     do { other \<leftarrow> usub ONE_IN_HUNDREDTH_PIPS fee;
          amount_minus_fees \<leftarrow> mul_div_floor a other ONE_IN_HUNDREDTH_PIPS;
          p \<leftarrow> sqrt_price_to_price sp;
          amount_required_to_consume_pool \<leftarrow> input_amount_ceil sd (fp_available fp) p;
          (if amount_minus_fees \<ge> amount_required_to_consume_pool
           then do { fees \<leftarrow> mul_div_ceil amount_required_to_consume_pool fee other;
                     taken \<leftarrow> uadd 256 amount_required_to_consume_pool fees;
                     a' \<leftarrow> usub a taken;
                     Some (None, a', fp_available fp, amount_required_to_consume_pool, fees) }
           else do { initial_output_amount \<leftarrow> lo_output_amount_floor sd amount_minus_fees p;
                     remaining \<leftarrow> usub (fp_available fp) initial_output_amount;
                     next_percent_remaining \<leftarrow>
                       float_mul_div_ceil (fp_percent_remaining fp) remaining (fp_available fp);
                     (_, remaining_ceil) \<leftarrow> integer_mul_div (fp_available fp) next_percent_remaining
                       (fp_percent_remaining fp);
                     output_amount \<leftarrow> usub (fp_available fp) remaining_ceil;
                     assert_that (output_amount \<le> initial_output_amount);
                     available' \<leftarrow> usub (fp_available fp) output_amount;
                     fees_taken \<leftarrow> usub a amount_minus_fees;
                     Some (Some (fp\<lparr>fp_percent_remaining := next_percent_remaining,
                                    fp_available := available'\<rparr>),
                           0, output_amount, amount_minus_fees, fees_taken) }) }"

definition lo_swap_step ::
    "direction \<Rightarrow> sqrt_price \<times> fixed_pool \<Rightarrow> 'lp limit_pool \<times> amount \<times> amount \<Rightarrow>
     ('lp limit_pool \<times> amount \<times> amount) option" where
  "lo_swap_step sd = (\<lambda>(sp, fp) (st, a, total_output_amount).
     do { (fp', a', output_amount, swapped_amount, fees_taken) \<leftarrow>
            lo_swap_fixed_pool sd (lo_fee_hundredth_pips st) sp fp a;
          let st1 = set_pools sd (case fp' of None \<Rightarrow> bt_remove sp (pools_of sd st)
                                  | Some fp' \<Rightarrow> bt_insert sp fp' (pools_of sd st)) st;
          let st2 = st1\<lparr>lo_total_swap_inputs := pp_set (input_side sd)
                          (usat_add 256 (pp_index (lo_total_swap_inputs st1) (input_side sd)) swapped_amount)
                          (lo_total_swap_inputs st1)\<rparr>;
          let st3 = st2\<lparr>lo_total_fees_earned := pp_set (input_side sd)
                          (usat_add 256 (pp_index (lo_total_fees_earned st2) (input_side sd)) fees_taken)
                          (lo_total_fees_earned st2)\<rparr>;
          Some (st3, a', usat_add 256 total_output_amount output_amount) })"

text \<open>
  Termination: a round either consumes the best fixed pool, which leaves one pool fewer, or
  ends with no input left.
\<close>

lemma best_priced_fixed_pool_mem: "best_priced_fixed_pool sd m = Some e \<Longrightarrow> e \<in> set m"
  by (cases sd) (auto dest: bt_first_Some bt_last_Some)

lemma lo_swap_entry_SomeD:
  "lo_swap_entry sd limit st a = Some (sp, fp) \<Longrightarrow>
     a \<noteq> 0 \<and> best_priced_fixed_pool sd (pools_of sd st) = Some (sp, fp) \<and>
     (\<forall>l. limit = Some l \<longrightarrow> \<not> sqrt_price_op_more_than sd sp l)"
  by (auto simp: lo_swap_entry_def split: if_splits option.splits)

lemma lo_swap_fixed_pool_amount: 
  "lo_swap_fixed_pool sd fee sp fp a = Some (Some fp', a', out, swapped, fees) \<Longrightarrow> a' = 0"
  by (auto simp: lo_swap_fixed_pool_def split: bind_splits if_splits)

lemma lo_swap_step_progress:
  assumes entry: "lo_swap_entry sd limit st a = Some e"
    and step: "lo_swap_step sd e (st, a, out) = Some (st', a', out')"
  shows "a' = 0 \<or> length (pools_of sd st') < length (pools_of sd st)"
proof -
  obtain sp fp where e: "e = (sp, fp)" by (cases e)
  have "(sp, fp) \<in> set (pools_of sd st)"
    using best_priced_fixed_pool_mem lo_swap_entry_SomeD entry e by blast
  then have "length (bt_remove sp (pools_of sd st)) < length (pools_of sd st)"
    by (intro length_bt_remove) force
  then show ?thesis using step
    by (auto simp: lo_swap_step_def e split: bind_splits option.splits dest: lo_swap_fixed_pool_amount)
qed

function lo_swap_loop ::
    "direction \<Rightarrow> sqrt_price option \<Rightarrow> 'lp limit_pool \<times> amount \<times> amount \<Rightarrow>
     ('lp limit_pool \<times> amount \<times> amount) option" where
  "lo_swap_loop sd limit (st, a, out) =
     (case lo_swap_entry sd limit st a of
        None \<Rightarrow> Some (st, a, out)
      | Some e \<Rightarrow>
          (case lo_swap_step sd e (st, a, out) of
             None \<Rightarrow> None
           | Some s \<Rightarrow> lo_swap_loop sd limit s))"
  by pat_completeness auto
termination
  by (relation "measures [\<lambda>(sd, limit, st, a, out). if a = 0 then 0 else 1,
                          \<lambda>(sd, limit, st, a, out). length (pools_of sd st)]")
     (auto dest: lo_swap_step_progress lo_swap_entry_SomeD split: if_splits)

declare lo_swap_loop.simps [simp del]

definition lo_swap ::
    "direction \<Rightarrow> amount \<Rightarrow> sqrt_price option \<Rightarrow> 'lp limit_pool \<Rightarrow> (amount \<times> amount \<times> 'lp limit_pool) option" where
  "lo_swap sd a limit st =
     do { (st', a', total_output_amount) \<leftarrow> lo_swap_loop sd limit (st, a, 0);
          Some (total_output_amount, a',
            st'\<lparr>lo_total_swap_outputs := pp_set (sold_side sd)
                  (usat_add 256 (pp_index (lo_total_swap_outputs st') (sold_side sd)) total_output_amount)
                  (lo_total_swap_outputs st')\<rparr>) }"

end
