(* ===== verification/Limit_Solvency.thy ===== *)
theory Limit_Solvency
  imports Limit_Orders
begin

text \<open>
  Correctness of the limit-order pool of \<open>state-chain/amm/src/limit_orders.rs\<close>. The invariant
  \<open>lo_inv\<close> says that every fixed pool holds at least what the positions in it still claim,
  where a claim is the exact real number \<open>amount * percent_remaining / last_percent_remaining\<close>
  that the code only ever rounds. From it follow that no operation panics (the subtractions,
  the assertions and the conversions of the code always succeed, the increment of the
  mantissa in \<open>mul_div_ceil\<close> excepted), that every operation keeps the invariant, and the
  accounting of both assets: what the pools hold is what was minted less what was burned and
  sold, and what the providers collect never exceeds what the swaps paid in.
\<close>


section \<open>Pricing\<close>

text \<open>
  The interface of \<open>limit_orders::SwapDirection\<close> that the pool relies on: \<open>rate p\<close> is the
  exact input per unit of output at the price \<open>p\<close>, and the three conversions round it in the
  direction their names say.
\<close>

locale limit_pricing =
  fixes in_ceil in_floor out_floor :: "amount \<Rightarrow> price \<Rightarrow> amount option"
    and rate :: "price \<Rightarrow> real"
  assumes rate_pos: "0 < p \<Longrightarrow> 0 < rate p"
    and in_ceil: "0 < p \<Longrightarrow> p < 2 ^ 256 \<Longrightarrow> out < 2 ^ 128 \<Longrightarrow>
      \<exists>r. in_ceil out p = Some r \<and> r < 2 ^ 256 \<and> real out * rate p \<le> real r \<and> real r < real out * rate p + 1"
    and in_floor: "0 < p \<Longrightarrow> p < 2 ^ 256 \<Longrightarrow> out < 2 ^ 128 \<Longrightarrow>
      \<exists>r. in_floor out p = Some r \<and> r < 2 ^ 256 \<and> real r \<le> real out * rate p"
    and out_floor: "0 < p \<Longrightarrow> p < 2 ^ 256 \<Longrightarrow> out < 2 ^ 128 \<Longrightarrow> real x < real out * rate p \<Longrightarrow>
      \<exists>r. out_floor x p = Some r \<and> real r * rate p \<le> real x"
begin

text \<open>An input that does not consume the pool buys strictly less than the pool holds.\<close>

lemma partial_fill:
  assumes p: "0 < p" "p < 2 ^ 256" and avail: "avail < 2 ^ 128"
    and req: "in_ceil avail p = Some req" and less: "x < req"
  shows "\<exists>r. out_floor x p = Some r \<and> r < avail \<and> real r * rate p \<le> real x"
proof -
  have "real req < real avail * rate p + 1" using in_ceil [OF p avail] req by auto
  then have x: "real x < real avail * rate p" using less by linarith
  then obtain r where r: "out_floor x p = Some r" "real r * rate p \<le> real x"
    using out_floor [OF p avail] by blast
  then have "real r * rate p < real avail * rate p" using x by linarith
  then have "r < avail" using rate_pos [OF p(1)] by simp
  with r show ?thesis by blast
qed

end

definition input_rate :: "direction \<Rightarrow> price \<Rightarrow> real" where
  "input_rate sd p = (case sd of BaseToQuote \<Rightarrow> 2 ^ 128 / real p | QuoteToBase \<Rightarrow> real p / 2 ^ 128)"

lemma div_ceil_less_iff: "0 < c \<Longrightarrow> x \<le> r * c \<Longrightarrow> r < n \<Longrightarrow> div_ceil x c < (n::nat)"
  using div_ceil_le_iff [of c x r] by simp

lemma input_amount_ceil_bound:
  assumes "0 < p" "p < 2 ^ 256" "out < 2 ^ 128"
  shows "div_ceil (out * 2 ^ 128) p < 2 ^ 256" "div_ceil (out * p) (2 ^ 128) < 2 ^ 256"
proof -
  have "out * 2 ^ 128 \<le> out * 2 ^ 128 * p" using assms(1) by simp
  moreover have "out * 2 ^ 128 < 2 ^ 128 * 2 ^ 128" using assms(3) by (intro mult_strict_right_mono) auto
  then have "out * 2 ^ 128 < 2 ^ 256" by simp
  ultimately show "div_ceil (out * 2 ^ 128) p < 2 ^ 256" using assms(1) by (intro div_ceil_less_iff)
  have "out * p \<le> p * 2 ^ 128" using assms(3) by simp
  then show "div_ceil (out * p) (2 ^ 128) < 2 ^ 256" using assms(2) by (intro div_ceil_less_iff) auto
qed

interpretation pricing: limit_pricing "input_amount_ceil sd" "input_amount_floor sd"
    "lo_output_amount_floor sd" "input_rate sd" for sd
proof
  show "0 < p \<Longrightarrow> 0 < input_rate sd p" for p
    by (cases sd) (auto simp: input_rate_def)
next
  fix p out :: nat
  assume a: "0 < p" "p < 2 ^ 256" "out < 2 ^ 128"
  note b = input_amount_ceil_bound [OF a]
  have c: "x div c \<le> div_ceil x c" for x c :: nat by (rule div_le_div_ceil)
  show "\<exists>r. input_amount_ceil sd out p = Some r \<and> r < 2 ^ 256 \<and> real out * input_rate sd p \<le> real r \<and>
      real r < real out * input_rate sd p + 1"
  proof (cases sd)
    case BaseToQuote
    then show ?thesis using a b(1) real_div_ceil_ge [of p "out * 2 ^ 128"] real_div_ceil_less [of p "out * 2 ^ 128"]
      by (simp add: input_rate_def del: power_numeral)
  next
    case QuoteToBase
    then show ?thesis using a b(2) real_div_ceil_ge [of "2 ^ 128" "out * p"] real_div_ceil_less [of "2 ^ 128" "out * p"]
      by (simp add: input_rate_def del: power_numeral)
  qed
  show "\<exists>r. input_amount_floor sd out p = Some r \<and> r < 2 ^ 256 \<and> real r \<le> real out * input_rate sd p"
  proof (cases sd)
    case BaseToQuote
    then show ?thesis using a le_less_trans [OF c b(1)] real_div_le [of "out * 2 ^ 128" p]
      by (simp add: input_rate_def del: power_numeral)
  next
    case QuoteToBase
    then show ?thesis using a le_less_trans [OF c b(2)] real_div_le [of "out * p" "2 ^ 128"]
      by (simp add: input_rate_def output_amount_floor_def del: power_numeral)
  qed
  fix x :: nat
  assume x: "real x < real out * input_rate sd p"
  show "\<exists>r. lo_output_amount_floor sd x p = Some r \<and> real r * input_rate sd p \<le> real x"
  proof (cases sd)
    case BaseToQuote
    then have "real (x * p) < real (out * 2 ^ 128)" using x a(1) by (simp add: input_rate_def field_simps del: power_numeral)
    then have "x * p div 2 ^ 128 < out" by (intro less_mult_imp_div_less) (simp only: of_nat_less_iff)
    then have "x * p div 2 ^ 128 < 2 ^ 256" using a(3) by simp
    moreover have "real (x * p div 2 ^ 128) * (2 ^ 128 / real p) \<le> real (x * p) / 2 ^ 128 * (2 ^ 128 / real p)"
      using real_div_le [of "x * p" "2 ^ 128"] by (intro mult_right_mono) auto
    ultimately show ?thesis using BaseToQuote a(1) by (simp add: input_rate_def output_amount_floor_def)
  next
    case QuoteToBase
    then have "real (x * 2 ^ 128) < real (out * p)" using x a(1) by (simp add: input_rate_def field_simps del: power_numeral)
    then have "x * 2 ^ 128 div p < out" by (intro less_mult_imp_div_less) (simp only: of_nat_less_iff)
    then have "x * 2 ^ 128 div p < 2 ^ 256" using a(3) by simp
    moreover have "real (x * 2 ^ 128 div p) * (real p / 2 ^ 128) \<le> real (x * 2 ^ 128) / real p * (real p / 2 ^ 128)"
      using real_div_le [of "x * 2 ^ 128" p] by (intro mult_right_mono) auto
    ultimately show ?thesis using QuoteToBase a(1) by (simp add: input_rate_def)
  qed
qed

section \<open>The invariant of one side of the pool\<close>

lemma MAX_FIXED_POOL_LIQUIDITY_eq: "MAX_FIXED_POOL_LIQUIDITY = 2 ^ 128 - 1"
  by (simp add: MAX_FIXED_POOL_LIQUIDITY_def umax_def)

text \<open>
  \<open>lo_remaining\<close> is the exact amount of a position that swaps have not sold yet, and
  \<open>lo_claims\<close> the sum of it over all positions at a price. The invariant says that a fixed
  pool always holds at least what its positions claim.
\<close>

definition lo_remaining :: "fixed_pool option \<Rightarrow> lo_position \<Rightarrow> real" where
  "lo_remaining pool pos =
     (case opt_filter (\<lambda>fp. fp_pool_instance fp = lp_pool_instance pos) pool of
        None \<Rightarrow> 0
      | Some fp \<Rightarrow> real (lp_amount pos) *
          (float_val (fp_percent_remaining fp) / float_val (lp_last_percent_remaining pos)))"

definition lo_claims :: "fixed_pools \<Rightarrow> 'lp lo_positions \<Rightarrow> sqrt_price \<Rightarrow> real" where
  "lo_claims pools ps sp =
     bt_sum (\<lambda>(sp', lp) pos. if sp' = sp then lo_remaining (bt_get pools sp) pos else 0) ps"

definition fixed_pool_wf :: "nat \<Rightarrow> fixed_pool \<Rightarrow> bool" where
  "fixed_pool_wf nxt fp \<longleftrightarrow> fp_pool_instance fp < nxt \<and> 0 < fp_available fp \<and>
     fp_available fp \<le> MAX_FIXED_POOL_LIQUIDITY \<and> float_wf (fp_percent_remaining fp)"

definition lo_position_wf :: "nat \<Rightarrow> fixed_pool option \<Rightarrow> lo_position \<Rightarrow> bool" where
  "lo_position_wf nxt pool pos \<longleftrightarrow> lp_pool_instance pos < nxt \<and>
     0 < lp_amount pos \<and> lp_amount pos \<le> MAX_FIXED_POOL_LIQUIDITY \<and>
     float_wf (lp_last_percent_remaining pos) \<and> lp_accumulative_fees pos < 2 ^ 256 \<and>
     (\<forall>fp. pool = Some fp \<and> fp_pool_instance fp = lp_pool_instance pos \<longrightarrow>
        fp_percent_remaining fp \<le> lp_last_percent_remaining pos)"

definition lo_side_inv :: "nat \<Rightarrow> fixed_pools \<Rightarrow> 'lp::linorder lo_positions \<Rightarrow> bool" where
  "lo_side_inv nxt pools ps \<longleftrightarrow> bt_wf pools \<and> bt_wf ps \<and>
     (\<forall>sp fp. bt_get pools sp = Some fp \<longrightarrow> tick_sqrt_price sp \<and> fixed_pool_wf nxt fp \<and>
        lo_claims pools ps sp \<le> real (fp_available fp)) \<and>
     (\<forall>sp lp pos. bt_get ps (sp, lp) = Some pos \<longrightarrow> tick_sqrt_price sp \<and>
        lo_position_wf nxt (bt_get pools sp) pos)"

lemma lo_remaining_bounds:
  assumes pos: "lo_position_wf nxt pool pos" and pool: "\<And>fp. pool = Some fp \<Longrightarrow> fixed_pool_wf nxt fp"
  shows "0 \<le> lo_remaining pool pos" "lo_remaining pool pos \<le> real (lp_amount pos)"
proof -
  have "0 \<le> lo_remaining pool pos \<and> lo_remaining pool pos \<le> real (lp_amount pos)"
  proof (cases "opt_filter (\<lambda>fp. fp_pool_instance fp = lp_pool_instance pos) pool")
    case None
    then show ?thesis by (simp add: lo_remaining_def)
  next
    case (Some fp)
    define r where "r = float_val (fp_percent_remaining fp) / float_val (lp_last_percent_remaining pos)"
    have wf: "float_wf (fp_percent_remaining fp)" "float_wf (lp_last_percent_remaining pos)"
      and le: "fp_percent_remaining fp \<le> lp_last_percent_remaining pos"
      using pos pool Some by (auto simp: lo_position_wf_def fixed_pool_wf_def)
    have "0 \<le> r" "r \<le> 1"
      using float_val_pos [OF wf(1)] float_val_pos [OF wf(2)] le float_val_mono [OF wf] by (simp_all add: r_def)
    then show ?thesis using Some mult_left_le [of r "real (lp_amount pos)"]
      by (simp add: lo_remaining_def r_def [symmetric])
  qed
  then show "0 \<le> lo_remaining pool pos" "lo_remaining pool pos \<le> real (lp_amount pos)" by auto
qed

text \<open>The price of a fixed pool, and the factor from an input without fees to one with fees.\<close>

definition price_of :: "sqrt_price \<Rightarrow> price" where
  "price_of sp = sp * sp div 2 ^ 64"

definition fee_factor :: "nat \<Rightarrow> real" where
  "fee_factor fee = 1000000 / (1000000 - real fee)"

lemma fee_factor:
  assumes "fee \<le> MAX_LP_FEE"
  shows "0 < fee_factor fee" "real x * fee_factor fee = real x + real x * real fee / real (1000000 - fee)"
    "0 < 1000000 - fee" "usub ONE_IN_HUNDREDTH_PIPS fee = Some (1000000 - fee)"
proof -
  have f: "real fee < 1000000" "fee < 1000000"
    using assms by (simp_all add: MAX_LP_FEE_def ONE_IN_HUNDREDTH_PIPS_def)
  then show "0 < fee_factor fee" "0 < 1000000 - fee" "usub ONE_IN_HUNDREDTH_PIPS fee = Some (1000000 - fee)"
    by (simp_all add: fee_factor_def ONE_IN_HUNDREDTH_PIPS_def)
  show "real x * fee_factor fee = real x + real x * real fee / real (1000000 - fee)"
    using f by (simp add: fee_factor_def of_nat_diff field_simps)
qed

lemma lp_fees:
  assumes fee: "fee \<le> MAX_LP_FEE" and b: "b < 2 ^ 256"
  shows "\<exists>r. mul_div_floor b fee (1000000 - fee) = Some r \<and> real (b + r) \<le> real b * fee_factor fee"
proof -
  have "fee \<le> 1000000 - fee" using fee by (simp add: MAX_LP_FEE_def ONE_IN_HUNDREDTH_PIPS_def)
  then have "b * fee div (1000000 - fee) \<le> b"
    using fee_factor(3) [OF fee] by (metis div_le_mono div_mult_self1_is_m mult.commute mult_le_mono2)
  then show ?thesis
    using fee_factor(2,3) [OF fee] b real_div_le [of "b * fee" "1000000 - fee"] by simp
qed

section \<open>Collecting from a position\<close>

text \<open>
  \<open>collect_from_position\<close> on a well-formed position never panics; it pays out at most the
  input value of what was sold, and the position it leaves claims at most what the old one
  claimed.
\<close>

definition lo_collect_post ::
    "direction \<Rightarrow> nat \<Rightarrow> price \<Rightarrow> nat \<Rightarrow> fixed_pool option \<Rightarrow> lo_position \<Rightarrow> lo_collected \<Rightarrow> lo_position option \<Rightarrow> bool" where
  "lo_collect_post sd nxt p fee pool pos c opt \<longleftrightarrow>
     real (lc_bought_amount c + lc_fees c)
       \<le> (real (lp_amount pos) - lo_remaining pool pos) * input_rate sd p * fee_factor fee \<and>
     real (lc_sold_amount c) \<le> real (lp_amount pos) - lo_remaining pool pos \<and>
     (case opt of
        None \<Rightarrow> lo_remaining pool pos < 1
      | Some pos' \<Rightarrow> lo_position_wf nxt pool pos' \<and>
          lp_pool_instance pos' = lp_pool_instance pos \<and>
          lo_remaining pool pos' = real (lp_amount pos') \<and>
          real (lp_amount pos') \<le> lo_remaining pool pos \<and>
          (\<exists>fp. pool = Some fp \<and> fp_pool_instance fp = lp_pool_instance pos' \<and>
             fp_percent_remaining fp = lp_last_percent_remaining pos'))"

lemma collect_tail:
  assumes p: "0 < p" "p < 2 ^ 256" and fee: "fee \<le> MAX_LP_FEE" and used: "used < 2 ^ 128"
    and le: "real used \<le> u"
  shows "\<exists>b f. input_amount_floor sd used p = Some b \<and> mul_div_floor b fee (1000000 - fee) = Some f \<and>
     real (b + f) \<le> u * input_rate sd p * fee_factor fee"
proof -
  obtain b where b: "input_amount_floor sd used p = Some b" "b < 2 ^ 256" "real b \<le> real used * input_rate sd p"
    using pricing.in_floor [OF p used] by blast
  obtain f where f: "mul_div_floor b fee (1000000 - fee) = Some f" "real (b + f) \<le> real b * fee_factor fee"
    using lp_fees [OF fee b(2)] by blast
  have "real used * input_rate sd p \<le> u * input_rate sd p"
    using le pricing.rate_pos [OF p(1)] by (simp add: mult_right_mono less_imp_le)
  then have "real b * fee_factor fee \<le> u * input_rate sd p * fee_factor fee"
    using b(3) fee_factor(1) [OF fee] by (intro mult_right_mono) auto
  with b f show ?thesis by force
qed

lemma collect_from_position_ok:
  assumes pos: "lo_position_wf nxt pool pos" and pool: "\<And>fp. pool = Some fp \<Longrightarrow> fixed_pool_wf nxt fp"
    and p: "0 < p" "p < 2 ^ 256" and fee: "fee \<le> MAX_LP_FEE"
  shows "\<exists>c opt. collect_from_position sd pos pool p fee = Some (c, opt) \<and>
     lo_collect_post sd nxt p fee pool pos c opt"
proof (cases "opt_filter (\<lambda>fp. fp_pool_instance fp = lp_pool_instance pos) pool")
  case None
  then have rem: "lo_remaining pool pos = 0" by (simp add: lo_remaining_def)
  have "lp_amount pos < 2 ^ 128" using pos by (simp add: lo_position_wf_def MAX_FIXED_POOL_LIQUIDITY_eq)
  then obtain b f where "input_amount_floor sd (lp_amount pos) p = Some b" "mul_div_floor b fee (1000000 - fee) = Some f"
     "real (b + f) \<le> (real (lp_amount pos) - 0) * input_rate sd p * fee_factor fee"
    using collect_tail [OF p fee] by (metis diff_zero order_refl)
  then show ?thesis using None rem fee_factor(4) [OF fee]
    by (simp add: collect_from_position_def lo_collect_post_def del: checked_iffs)
next
  case (Some fp)
  have a128: "lp_amount pos < 2 ^ 128" using pos by (simp add: lo_position_wf_def MAX_FIXED_POOL_LIQUIDITY_eq)
  then have a256: "lp_amount pos < 2 ^ 256" by simp
  have fp: "pool = Some fp" "fp_pool_instance fp = lp_pool_instance pos" using Some by simp_all
  have wf: "float_wf (fp_percent_remaining fp)" "float_wf (lp_last_percent_remaining pos)"
    and le: "fp_percent_remaining fp \<le> lp_last_percent_remaining pos"
    using pos pool fp by (auto simp: lo_position_wf_def fixed_pool_wf_def)
  have rem: "lo_remaining pool pos = real (lp_amount pos) *
      (float_val (fp_percent_remaining fp) / float_val (lp_last_percent_remaining pos))"
    using Some by (simp add: lo_remaining_def)
  obtain fl cl where r: "integer_mul_div (lp_amount pos) (fp_percent_remaining fp) (lp_last_percent_remaining pos) = Some (fl, cl)"
    "fl \<le> cl" "cl \<le> lp_amount pos" "real fl \<le> lo_remaining pool pos" "lo_remaining pool pos \<le> real cl"
    "lo_remaining pool pos < real fl + 1"
    unfolding rem using integer_mul_div_real [OF wf le a256] by metis
  have used: "lp_amount pos - cl < 2 ^ 128" "real (lp_amount pos - cl) \<le> real (lp_amount pos) - lo_remaining pool pos"
    using a128 r(3,5) by (simp_all add: of_nat_diff)
  obtain b f where bf: "input_amount_floor sd (lp_amount pos - cl) p = Some b" "mul_div_floor b fee (1000000 - fee) = Some f"
     "real (b + f) \<le> (real (lp_amount pos) - lo_remaining pool pos) * input_rate sd p * fee_factor fee"
    using collect_tail [OF p fee used] by blast
  define acc where "acc = usat_add 256 (lp_accumulative_fees pos) f"
  define pos' where "pos' = pos\<lparr>lp_amount := fl, lp_last_percent_remaining := fp_percent_remaining fp,
     lp_accumulative_fees := acc\<rparr>"
  define c where "c = \<lparr>lc_fees = f, lc_bought_amount = b, lc_sold_amount = lp_amount pos - cl,
     lc_accumulative_fees = acc, lc_original_amount = lp_original_amount pos\<rparr>"
  have sub: "usub (lp_amount pos) cl = Some (lp_amount pos - cl)" using r(3) by simp
  have eq: "collect_from_position sd pos pool p fee = Some (c, if fl = 0 then None else Some pos')"
    using Some r(1) sub bf fee_factor(4) [OF fee]
    by (simp add: collect_from_position_def c_def pos'_def acc_def Let_def del: checked_iffs)
  have "lo_position_wf nxt pool pos'" "lo_remaining pool pos' = real fl" if "fl \<noteq> 0"
  proof -
    show "lo_position_wf nxt pool pos'"
      using that pos fp wf r(2,3) usat_add_less [of 256 "lp_accumulative_fees pos" f]
      by (auto simp: lo_position_wf_def pos'_def acc_def)
    have "float_val (fp_percent_remaining fp) \<noteq> 0" using float_val_pos [OF wf(1)] by simp
    then show "lo_remaining pool pos' = real fl"
      using fp by (simp add: lo_remaining_def pos'_def)
  qed
  then have "lo_collect_post sd nxt p fee pool pos c (if fl = 0 then None else Some pos')"
    using bf(3) used(2) r(4,6) fp
    by (auto simp: lo_collect_post_def c_def) (simp_all add: pos'_def)
  with eq show ?thesis by blast
qed

section \<open>Updating one position and its pool\<close>

text \<open>What a position claims of its pool, and the input that swaps have paid for the part it has sold.\<close>

definition opt_remaining :: "fixed_pool option \<Rightarrow> lo_position option \<Rightarrow> real" where
  "opt_remaining pool opt = (case opt of None \<Rightarrow> 0 | Some pos \<Rightarrow> lo_remaining pool pos)"

definition lo_earned :: "direction \<Rightarrow> nat \<Rightarrow> sqrt_price \<Rightarrow> fixed_pool option \<Rightarrow> lo_position \<Rightarrow> real" where
  "lo_earned sd fee sp pool pos =
     (real (lp_amount pos) - lo_remaining pool pos) * input_rate sd (price_of sp) * fee_factor fee"

definition opt_earned :: "direction \<Rightarrow> nat \<Rightarrow> sqrt_price \<Rightarrow> fixed_pool option \<Rightarrow> lo_position option \<Rightarrow> real" where
  "opt_earned sd fee sp pool opt = (case opt of None \<Rightarrow> 0 | Some pos \<Rightarrow> lo_earned sd fee sp pool pos)"

definition lo_pending :: "direction \<Rightarrow> nat \<Rightarrow> fixed_pools \<Rightarrow> 'lp lo_positions \<Rightarrow> real" where
  "lo_pending sd fee pools ps = bt_sum (\<lambda>(sp, lp) pos. lo_earned sd fee sp (bt_get pools sp) pos) ps"

lemma lo_claims_put:
  assumes wf: "bt_wf ps" and other: "\<And>s. s \<noteq> sp \<Longrightarrow> bt_get pools' s = bt_get pools s"
    and same: "\<And>lp' pos. lp' \<noteq> lp \<Longrightarrow> bt_get ps (sp, lp') = Some pos \<Longrightarrow>
      lo_remaining (bt_get pools' sp) pos = lo_remaining (bt_get pools sp) pos"
  shows "lo_claims pools' (bt_put (sp, lp) opt ps) s =
      lo_claims pools ps s - (if s = sp then opt_remaining (bt_get pools sp) (bt_get ps (sp, lp)) else 0)
        + (if s = sp then opt_remaining (bt_get pools' sp) opt else 0)"
proof -
  have same': "lo_remaining (bt_get pools' s) pos = lo_remaining (bt_get pools s) pos"
    if "(s, lp') \<noteq> (sp, lp)" "bt_get ps (s, lp') = Some pos" for lp' pos
    using that same other by (cases "s = sp") auto
  let ?f = "\<lambda>pools (sp', lp) pos. if sp' = s then lo_remaining (bt_get pools s) pos else 0"
  have eq: "bt_sum (?f pools') (bt_put (sp, lp) opt ps) = bt_sum (?f pools) ps
      - (case bt_get ps (sp, lp) of None \<Rightarrow> 0 | Some w \<Rightarrow> ?f pools (sp, lp) w)
      + (case opt of None \<Rightarrow> 0 | Some v \<Rightarrow> ?f pools' (sp, lp) v)"
  proof (rule bt_sum_put [OF wf])
    fix k' v
    assume k: "k' \<noteq> (sp, lp)" "bt_get ps k' = Some v"
    obtain a b where "k' = (a, b)" by (cases k')
    then show "?f pools' k' v = ?f pools k' v" using same' [of b v] k by (cases "a = s") auto
  qed
  show ?thesis unfolding lo_claims_def eq by (auto simp: opt_remaining_def split: option.splits)
qed

lemma lo_pending_put:
  assumes wf: "bt_wf ps" and other: "\<And>s. s \<noteq> sp \<Longrightarrow> bt_get pools' s = bt_get pools s"
    and same: "\<And>lp' pos. lp' \<noteq> lp \<Longrightarrow> bt_get ps (sp, lp') = Some pos \<Longrightarrow>
      lo_remaining (bt_get pools' sp) pos = lo_remaining (bt_get pools sp) pos"
  shows "lo_pending sd fee pools' (bt_put (sp, lp) opt ps) =
      lo_pending sd fee pools ps - opt_earned sd fee sp (bt_get pools sp) (bt_get ps (sp, lp))
        + opt_earned sd fee sp (bt_get pools' sp) opt"
proof -
  have eq: "lo_earned sd fee s (bt_get pools' s) pos = lo_earned sd fee s (bt_get pools s) pos"
    if "(s, lp') \<noteq> (sp, lp)" "bt_get ps (s, lp') = Some pos" for s lp' pos
    using that same other by (cases "s = sp") (auto simp: lo_earned_def)
  let ?f = "\<lambda>pools (sp, lp) pos. lo_earned sd fee sp (bt_get pools sp) pos"
  have eq: "bt_sum (?f pools') (bt_put (sp, lp) opt ps) = bt_sum (?f pools) ps
      - (case bt_get ps (sp, lp) of None \<Rightarrow> 0 | Some w \<Rightarrow> ?f pools (sp, lp) w)
      + (case opt of None \<Rightarrow> 0 | Some v \<Rightarrow> ?f pools' (sp, lp) v)"
    by (rule bt_sum_put [OF wf]) (use eq in \<open>auto split: prod.splits\<close>)
  show ?thesis unfolding lo_pending_def eq by (auto simp: opt_earned_def split: option.splits)
qed

lemma lo_side_inv_put:
  assumes inv: "lo_side_inv nxt pools ps" and nxt: "nxt \<le> nxt'" and wf: "bt_wf pools'" and sp: "tick_sqrt_price sp"
    and other: "\<And>s. s \<noteq> sp \<Longrightarrow> bt_get pools' s = bt_get pools s"
    and same: "\<And>lp' pos. lp' \<noteq> lp \<Longrightarrow> bt_get ps (sp, lp') = Some pos \<Longrightarrow>
      lo_remaining (bt_get pools' sp) pos = lo_remaining (bt_get pools sp) pos \<and>
      lo_position_wf nxt' (bt_get pools' sp) pos"
    and new: "\<And>pos. opt = Some pos \<Longrightarrow> lo_position_wf nxt' (bt_get pools' sp) pos"
    and pool: "\<And>fp. bt_get pools' sp = Some fp \<Longrightarrow> fixed_pool_wf nxt' fp \<and>
      lo_claims pools ps sp - opt_remaining (bt_get pools sp) (bt_get ps (sp, lp))
        + opt_remaining (bt_get pools' sp) opt \<le> real (fp_available fp)"
  shows "lo_side_inv nxt' pools' (bt_put (sp, lp) opt ps)"
proof -
  have wfp: "bt_wf ps" using inv by (simp add: lo_side_inv_def)
  have claims: "lo_claims pools' (bt_put (sp, lp) opt ps) s =
      lo_claims pools ps s - (if s = sp then opt_remaining (bt_get pools sp) (bt_get ps (sp, lp)) else 0)
        + (if s = sp then opt_remaining (bt_get pools' sp) opt else 0)" for s
    by (rule lo_claims_put [OF wfp other]) (use same in auto)
  have "tick_sqrt_price s \<and> fixed_pool_wf nxt' fp \<and>
      lo_claims pools' (bt_put (sp, lp) opt ps) s \<le> real (fp_available fp)"
    if "bt_get pools' s = Some fp" for s fp
  proof (cases "s = sp")
    case True
    then show ?thesis using that sp pool claims [of sp] by simp
  next
    case False
    then have "bt_get pools s = Some fp" "lo_claims pools' (bt_put (sp, lp) opt ps) s = lo_claims pools ps s"
      using that other [of s] claims [of s] by simp_all
    then show ?thesis using inv nxt by (force simp: lo_side_inv_def fixed_pool_wf_def)
  qed
  moreover have "tick_sqrt_price s \<and> lo_position_wf nxt' (bt_get pools' s) pos"
    if "bt_get (bt_put (sp, lp) opt ps) (s, lp') = Some pos" for s lp' pos
  proof (cases "s = sp")
    case True
    then show ?thesis using that sp new same by (auto simp: bt_get_put split: if_splits)
  next
    case False
    then have "bt_get ps (s, lp') = Some pos" "bt_get pools' s = bt_get pools s"
      using that other [of s] by (simp_all add: bt_get_put)
    then show ?thesis using inv nxt by (force simp: lo_side_inv_def lo_position_wf_def)
  qed
  ultimately show ?thesis using wf wfp by (simp add: lo_side_inv_def bt_wf_put)
qed

section \<open>The invariant of the pool\<close>

definition lo_inv :: "'lp::linorder limit_pool \<Rightarrow> bool" where
  "lo_inv st \<longleftrightarrow> lo_fee_hundredth_pips st \<le> MAX_LP_FEE \<and> lo_next_pool_instance st < 2 ^ 128 \<and>
     (\<forall>sd. lo_side_inv (lo_next_pool_instance st) (pools_of sd st) (positions_of sd st))"

text \<open>What the pools of a direction hold, and what the swaps have paid in but no provider has collected yet.\<close>

definition lo_held :: "direction \<Rightarrow> 'lp limit_pool \<Rightarrow> nat" where
  "lo_held sd st = bt_sum (\<lambda>_ fp. fp_available fp) (pools_of sd st)"

definition lo_owed :: "direction \<Rightarrow> 'lp limit_pool \<Rightarrow> real" where
  "lo_owed sd st = lo_pending sd (lo_fee_hundredth_pips st) (pools_of sd st) (positions_of sd st)"

lemma sold_side_eq [simp]: "sold_side sd = sold_side sd' \<longleftrightarrow> sd = sd'"
  by (cases sd; cases sd') auto

lemma input_side_eq [simp]: "input_side sd = input_side sd' \<longleftrightarrow> sd = sd'"
  by (cases sd; cases sd') auto

lemma pp_index_same [simp]: "pp_index \<lparr>base = x, quote = x\<rparr> s = x"
  by (cases s) simp_all

lemma lo_new_inv:
  assumes "lo_new fee = Inr st"
  shows "lo_inv st" "lo_held sd st = 0" "lo_owed sd st = 0"
  using assms by (auto simp: lo_new_def lo_inv_def lo_validate_fees_def lo_side_inv_def lo_held_def
      lo_owed_def lo_pending_def split: if_splits)

lemma lo_side_invD:
  assumes "lo_side_inv nxt pools ps"
  shows "bt_wf pools" "bt_wf ps"
    and "bt_get pools sp = Some fp \<Longrightarrow> tick_sqrt_price sp \<and> fixed_pool_wf nxt fp \<and>
           lo_claims pools ps sp \<le> real (fp_available fp)"
    and "bt_get ps (sp, lp) = Some pos \<Longrightarrow> tick_sqrt_price sp \<and> lo_position_wf nxt (bt_get pools sp) pos"
  using assms by (auto simp: lo_side_inv_def)

lemma lo_remaining_nonneg:
  assumes "lo_side_inv nxt pools ps" "bt_get ps (sp, lp) = Some pos"
  shows "0 \<le> lo_remaining (bt_get pools sp) pos" "lo_remaining (bt_get pools sp) pos \<le> real (lp_amount pos)"
  using lo_remaining_bounds lo_side_invD [OF assms(1)] assms(2) by metis+

text \<open>The other positions at a price claim a non-negative amount.\<close>

lemma lo_claims_others:
  assumes inv: "lo_side_inv nxt pools ps"
  shows "0 \<le> lo_claims pools ps sp - opt_remaining (bt_get pools sp) (bt_get ps (sp, lp))"
proof -
  have "lo_claims pools (bt_put (sp, lp) None ps) sp
      = lo_claims pools ps sp - opt_remaining (bt_get pools sp) (bt_get ps (sp, lp))"
    using lo_claims_put [OF lo_side_invD(2) [OF inv], where pools' = pools and opt = None and s = sp]
    by (simp add: opt_remaining_def)
  moreover have "0 \<le> lo_claims pools (bt_put (sp, lp) None ps) sp"
    unfolding lo_claims_def
  proof (rule bt_sum_nonneg)
    fix k v
    assume kv: "(k, v) \<in> set (bt_put (sp, lp) None ps)"
    obtain s l where k: "k = (s, l)" by (cases k)
    have "bt_get ps (s, l) = Some v"
      using kv lo_side_invD(2) [OF inv] by (simp add: k bt_put_def set_bt_remove bt_get_mem)
    then show "0 \<le> (case k of (sp', lp) \<Rightarrow> \<lambda>pos. if sp' = sp then lo_remaining (bt_get pools sp) pos else 0) v"
      using lo_remaining_nonneg [OF inv] k by auto
  qed
  ultimately show ?thesis by simp
qed

section \<open>Collect\<close>

lemma lo_side_inv_collect:
  assumes inv: "lo_side_inv nxt pools ps" and pos: "bt_get ps (sp, lp) = Some pos"
    and post: "lo_collect_post sd nxt (price_of sp) fee (bt_get pools sp) pos c opt"
  shows "lo_side_inv nxt pools (bt_put (sp, lp) opt ps)"
    "lo_pending sd fee pools (bt_put (sp, lp) opt ps) + real (lc_bought_amount c + lc_fees c) \<le> lo_pending sd fee pools ps"
    "opt_remaining (bt_get pools sp) opt \<le> lo_remaining (bt_get pools sp) pos"
proof -
  note D = lo_side_invD [OF inv]
  show le: "opt_remaining (bt_get pools sp) opt \<le> lo_remaining (bt_get pools sp) pos"
    using post lo_remaining_nonneg [OF inv pos]
    by (auto simp: opt_remaining_def lo_collect_post_def split: option.splits)
  show "lo_side_inv nxt pools (bt_put (sp, lp) opt ps)"
  proof (rule lo_side_inv_put [OF inv order_refl D(1)])
    show "tick_sqrt_price sp" using D(4) [OF pos] by simp
  next
    fix lp' pos'
    assume "bt_get ps (sp, lp') = Some pos'"
    then show "lo_remaining (bt_get pools sp) pos' = lo_remaining (bt_get pools sp) pos' \<and>
        lo_position_wf nxt (bt_get pools sp) pos'" using D(4) by blast
  next
    fix pos'
    assume "opt = Some pos'"
    then show "lo_position_wf nxt (bt_get pools sp) pos'" using post by (simp add: lo_collect_post_def)
  next
    fix fp
    assume "bt_get pools sp = Some fp"
    then show "fixed_pool_wf nxt fp \<and>
      lo_claims pools ps sp - opt_remaining (bt_get pools sp) (bt_get ps (sp, lp))
        + opt_remaining (bt_get pools sp) opt \<le> real (fp_available fp)"
      using D(3) [of sp fp] le pos by (simp add: opt_remaining_def [of _ "Some pos"])
  qed auto
  have "opt_earned sd fee sp (bt_get pools sp) opt = 0"
    using post by (auto simp: opt_earned_def lo_earned_def lo_collect_post_def split: option.splits)
  then show "lo_pending sd fee pools (bt_put (sp, lp) opt ps) + real (lc_bought_amount c + lc_fees c) \<le> lo_pending sd fee pools ps"
    using lo_pending_put [OF D(2), where pools' = pools and opt = opt and sp = sp and lp = lp and sd = sd and fee = fee] post pos
    by (simp add: opt_earned_def [of _ _ _ _ "Some pos"] lo_earned_def lo_collect_post_def)
qed

lemma price_of_tick:
  assumes "tick_sqrt_price sp"
  shows "sqrt_price_to_price sp = Some (price_of sp)" "0 < price_of sp" "price_of sp < 2 ^ 256"
  using sqrt_price_to_price_Some [OF tick_sqrt_price_valid [OF assms]] by (auto simp: price_of_def)

lemma lo_invD:
  assumes "lo_inv st"
  shows "lo_fee_hundredth_pips st \<le> MAX_LP_FEE" "lo_next_pool_instance st < 2 ^ 128"
    "lo_side_inv (lo_next_pool_instance st) (pools_of sd st) (positions_of sd st)"
  using assms by (auto simp: lo_inv_def)

lemma collect_from_position_inv:
  assumes inv: "lo_inv st" and pos: "bt_get (positions_of sd st) (sp, lp) = Some pos"
  shows "\<exists>c opt. collect_from_position sd pos (bt_get (pools_of sd st) sp) (price_of sp) (lo_fee_hundredth_pips st)
      = Some (c, opt) \<and>
     lo_collect_post sd (lo_next_pool_instance st) (price_of sp) (lo_fee_hundredth_pips st) (bt_get (pools_of sd st) sp) pos c opt"
proof -
  note D = lo_side_invD [OF lo_invD(3) [OF inv]]
  have sp: "tick_sqrt_price sp" using D(4) [OF pos] by simp
  show ?thesis
    by (rule collect_from_position_ok [OF _ _ price_of_tick(2,3) [OF sp] lo_invD(1) [OF inv]])
      (use D(4) [OF pos] D(3) in auto)
qed

text \<open>The state with one position (and nothing else) of one direction replaced.\<close>

abbreviation put_position :: "direction \<Rightarrow> sqrt_price \<times> 'lp::linorder \<Rightarrow> lo_position option \<Rightarrow> 'lp limit_pool \<Rightarrow> 'lp limit_pool" where
  "put_position sd k opt st \<equiv> set_positions sd (bt_put k opt (positions_of sd st)) st"

text \<open>
  The effect of an operation of direction \<open>sd\<close>: it keeps the invariant and the fee, changes
  what the pools hold by \<open>d\<close>, and what is owed to the providers by at most \<open>e\<close>; nothing
  changes in the other direction.
\<close>

definition lo_effect :: "direction \<Rightarrow> int \<Rightarrow> real \<Rightarrow> 'lp::linorder limit_pool \<Rightarrow> 'lp limit_pool \<Rightarrow> bool" where
  "lo_effect sd d e st st' \<longleftrightarrow> lo_inv st' \<and> lo_fee_hundredth_pips st' = lo_fee_hundredth_pips st \<and>
     (\<forall>sd'. int (lo_held sd' st') = int (lo_held sd' st) + (if sd' = sd then d else 0) \<and>
            lo_owed sd' st' \<le> lo_owed sd' st + (if sd' = sd then e else 0))"

lemma lo_side_inv_next:
  assumes "lo_side_inv nxt pools ps" "nxt \<le> nxt'"
  shows "lo_side_inv nxt' pools ps"
  using assms by (fastforce simp: lo_side_inv_def fixed_pool_wf_def lo_position_wf_def)

lemma lo_effectI:
  assumes inv: "lo_inv st" and fee: "lo_fee_hundredth_pips st' = lo_fee_hundredth_pips st"
    and nxt: "lo_next_pool_instance st \<le> lo_next_pool_instance st'" "lo_next_pool_instance st' < 2 ^ 128"
    and other: "\<And>sd'. sd' \<noteq> sd \<Longrightarrow> pools_of sd' st' = pools_of sd' st \<and> positions_of sd' st' = positions_of sd' st"
    and side: "lo_side_inv (lo_next_pool_instance st') (pools_of sd st') (positions_of sd st')"
    and held: "int (lo_held sd st') = int (lo_held sd st) + d"
    and owed: "lo_pending sd (lo_fee_hundredth_pips st) (pools_of sd st') (positions_of sd st')
      \<le> lo_pending sd (lo_fee_hundredth_pips st) (pools_of sd st) (positions_of sd st) + e"
  shows "lo_effect sd d e st st'"
proof -
  have "lo_side_inv (lo_next_pool_instance st') (pools_of sd' st') (positions_of sd' st')" for sd'
    using side other [of sd'] lo_side_inv_next [OF lo_invD(3) [OF inv] nxt(1)] by (cases "sd' = sd") auto
  then have "lo_inv st'" using inv fee nxt(2) by (simp add: lo_inv_def)
  moreover have "int (lo_held sd' st') = int (lo_held sd' st) + (if sd' = sd then d else 0)" for sd'
    using held other [of sd'] by (simp add: lo_held_def)
  moreover have "lo_owed sd' st' \<le> lo_owed sd' st + (if sd' = sd then e else 0)" for sd'
    using owed other [of sd'] fee by (simp add: lo_owed_def)
  ultimately show ?thesis using fee by (simp add: lo_effect_def)
qed

abbreviation paid_out :: "lo_collected \<Rightarrow> real" where
  "paid_out c \<equiv> real (lc_bought_amount c + lc_fees c)"

lemma put_position_collect:
  assumes inv: "lo_inv st" and pos: "bt_get (positions_of sd st) (sp, lp) = Some pos"
    and post: "lo_collect_post sd (lo_next_pool_instance st) (price_of sp) (lo_fee_hundredth_pips st)
      (bt_get (pools_of sd st) sp) pos c opt"
  shows "lo_effect sd 0 (- paid_out c) st (put_position sd (sp, lp) opt st)"
  by (rule lo_effectI [OF inv])
    (use lo_side_inv_collect [OF lo_invD(3) [OF inv] pos post] lo_invD(2) [OF inv] in \<open>simp_all add: lo_held_def\<close>)

lemma lo_inner_collect_ok:
  fixes lp :: "'lp::linorder"
  assumes inv: "lo_inv st" and sp: "tick_sqrt_price sp"
  shows "case bt_get (positions_of sd st) (sp, lp) of
      None \<Rightarrow> (lo_inner_collect sd lp sp st :: ('e lo_position_error + lo_collected \<times> lo_position_info \<times> 'lp limit_pool) option)
        = Some (Inl LoNonExistent)
    | Some pos \<Rightarrow> \<exists>c i opt. (lo_inner_collect sd lp sp st :: ('e lo_position_error + lo_collected \<times> lo_position_info \<times> 'lp limit_pool) option)
        = Some (Inr (c, i, put_position sd (sp, lp) opt st)) \<and>
         i = (case opt of None \<Rightarrow> lo_info_default | Some pos' \<Rightarrow> lo_info pos') \<and>
         lo_collect_post sd (lo_next_pool_instance st) (price_of sp) (lo_fee_hundredth_pips st)
           (bt_get (pools_of sd st) sp) pos c opt"
proof (cases "bt_get (positions_of sd st) (sp, lp)")
  case None
  then show ?thesis by (simp add: lo_inner_collect_def price_of_tick [OF sp])
next
  case (Some pos)
  obtain c opt where c: "collect_from_position sd pos (bt_get (pools_of sd st) sp) (price_of sp) (lo_fee_hundredth_pips st)
      = Some (c, opt)"
     "lo_collect_post sd (lo_next_pool_instance st) (price_of sp) (lo_fee_hundredth_pips st) (bt_get (pools_of sd st) sp) pos c opt"
    using collect_from_position_inv [OF inv Some] by blast
  have "(lo_inner_collect sd lp sp st :: ('e lo_position_error + _) option) = Some (Inr (c, case opt of None \<Rightarrow> lo_info_default | Some pos' \<Rightarrow> lo_info pos',
      put_position sd (sp, lp) opt st))"
    using Some c(1) by (cases opt) (simp_all add: lo_inner_collect_def price_of_tick [OF sp] bt_put_def)
  then show ?thesis using Some c(2) by auto
qed

lemma lo_validate_tick [simp]:
  "is_tick_valid t \<Longrightarrow> sqrt_price_at_tick t = Some sp \<Longrightarrow> lo_validate_tick t = Some (Inr sp)"
  "\<not> is_tick_valid t \<Longrightarrow> lo_validate_tick t = Some (Inl LoInvalidTick)"
  by (simp_all add: lo_validate_tick_def)

lemma valid_tick_price:
  assumes "is_tick_valid t"
  obtains sp where "sqrt_price_at_tick t = Some sp" "tick_sqrt_price sp"
  using sqrt_price_at_tick_valid [OF assms] by (auto intro: tick_sqrt_priceI)

lemma lo_collect_ok:
  fixes lp :: "'lp::linorder"
  assumes inv: "lo_inv st"
  shows "\<exists>r. (lo_collect sd lp t st :: ('e lo_position_error + lo_collected \<times> lo_position_info \<times> 'lp limit_pool) option) = Some r \<and>
    (case r of Inl e \<Rightarrow> True | Inr (c, i, st') \<Rightarrow> lo_effect sd 0 (- paid_out c) st st')"
proof (cases "is_tick_valid t")
  case True
  then obtain sp where sp: "sqrt_price_at_tick t = Some sp" "tick_sqrt_price sp" by (rule valid_tick_price)
  with True have eq: "(lo_collect sd lp t st :: ('e lo_position_error + _) option) = lo_inner_collect sd lp sp st"
    by (simp add: lo_collect_def)
  note ok = lo_inner_collect_ok [OF inv sp(2), of sd lp, where ?'e = 'e]
  show ?thesis
  proof (cases "bt_get (positions_of sd st) (sp, lp)")
    case None
    then show ?thesis using ok eq by simp
  next
    case (Some pos)
    then show ?thesis using ok eq put_position_collect [OF inv Some] by fastforce
  qed
next
  case False
  then show ?thesis by (simp add: lo_collect_def)
qed

section \<open>Mint\<close>

lemma lo_remaining_current:
  assumes "float_wf (fp_percent_remaining fp)" "fp_pool_instance fp = lp_pool_instance pos"
    "fp_percent_remaining fp = lp_last_percent_remaining pos"
  shows "lo_remaining (Some fp) pos = real (lp_amount pos)"
  using assms float_val_pos [OF assms(1)] by (simp add: lo_remaining_def)

lemma lo_remaining_available [simp]:
  "lo_remaining (Some (fp\<lparr>fp_available := x\<rparr>)) pos = lo_remaining (Some fp) pos"
  by (simp add: lo_remaining_def)

text \<open>A pool that a mint adds to: the one at the price, or a new one with a fresh instance.\<close>

definition lo_mint_pool :: "nat \<Rightarrow> nat \<Rightarrow> fixed_pool option \<Rightarrow> fixed_pool \<Rightarrow> bool" where
  "lo_mint_pool nxt nxt' pool fp \<longleftrightarrow>
     (case pool of
        Some fp0 \<Rightarrow> fp = fp0 \<and> nxt' = nxt
      | None \<Rightarrow> fp = \<lparr>fp_pool_instance = nxt, fp_available = 0, fp_percent_remaining = float_max\<rparr> \<and> nxt' = Suc nxt)"

lemma float_max_wf [simp]: "float_wf float_max"
  by (simp add: float_wf_def float_max_def umax_def)

lemma lo_mint_pool_facts:
  assumes inv: "lo_side_inv nxt pools ps" and fp: "lo_mint_pool nxt nxt' (bt_get pools sp) fp"
  shows "nxt \<le> nxt'" "fp_pool_instance fp < nxt'" "float_wf (fp_percent_remaining fp)"
    "bt_get ps (sp, lp) = Some pos \<Longrightarrow> lo_remaining (Some fp) pos = lo_remaining (bt_get pools sp) pos"
    "bt_get ps (sp, lp) = Some pos \<Longrightarrow> lo_position_wf nxt' (Some (fp\<lparr>fp_available := x\<rparr>)) pos"
    "lo_claims pools ps sp \<le> real (fp_available fp)"
proof -
  note D = lo_side_invD [OF inv]
  have none: "lo_claims pools ps sp = 0" if "bt_get pools sp = None"
    unfolding lo_claims_def using that
    by (induction ps) (auto simp: lo_remaining_def split: prod.splits)
  show "nxt \<le> nxt'" "fp_pool_instance fp < nxt'" "float_wf (fp_percent_remaining fp)"
    "lo_claims pools ps sp \<le> real (fp_available fp)"
    using fp D(3) none by (auto simp: lo_mint_pool_def fixed_pool_wf_def split: option.splits)
  assume pos: "bt_get ps (sp, lp) = Some pos"
  show "lo_remaining (Some fp) pos = lo_remaining (bt_get pools sp) pos"
    using fp D(4) [OF pos] by (auto simp: lo_mint_pool_def lo_remaining_def lo_position_wf_def split: option.splits)
  show "lo_position_wf nxt' (Some (fp\<lparr>fp_available := x\<rparr>)) pos"
    using fp D(4) [OF pos] by (auto simp: lo_mint_pool_def lo_position_wf_def split: option.splits)
qed

lemma lo_side_inv_mint:
  assumes inv: "lo_side_inv nxt pools ps" and sp: "tick_sqrt_price sp"
    and fp: "lo_mint_pool nxt nxt' (bt_get pools sp) fp"
    and pos: "lp_pool_instance pos = fp_pool_instance fp" "lp_last_percent_remaining pos = fp_percent_remaining fp"
      "real (lp_amount pos) \<le> opt_remaining (bt_get pools sp) (bt_get ps (sp, lp))" "lp_accumulative_fees pos < 2 ^ 256"
    and a: "0 < a" "fp_available fp + a \<le> MAX_FIXED_POOL_LIQUIDITY"
  defines "pools' \<equiv> bt_insert sp (fp\<lparr>fp_available := fp_available fp + a\<rparr>) pools"
    and "ps' \<equiv> bt_put (sp, lp) (Some (pos\<lparr>lp_amount := lp_amount pos + a, lp_original_amount := lp_amount pos + a\<rparr>)) ps"
  shows "lo_side_inv nxt' pools' ps'" "lp_amount pos + a \<le> fp_available fp + a"
    "lo_pending sd fee pools' ps' = lo_pending sd fee pools ps
       - opt_earned sd fee sp (bt_get pools sp) (bt_get ps (sp, lp))"
proof -
  note D = lo_side_invD [OF inv]
  note F = lo_mint_pool_facts [OF inv fp]
  let ?fp = "fp\<lparr>fp_available := fp_available fp + a\<rparr>"
  let ?pos = "pos\<lparr>lp_amount := lp_amount pos + a, lp_original_amount := lp_amount pos + a\<rparr>"
  have get: "bt_get pools' sp = Some ?fp" by (simp add: pools'_def bt_get_insert)
  have other: "s \<noteq> sp \<Longrightarrow> bt_get pools' s = bt_get pools s" for s by (simp add: pools'_def bt_get_insert)
  have rem: "lo_remaining (Some ?fp) ?pos = real (lp_amount pos + a)"
    using F(3) pos by (subst lo_remaining_current) simp_all
  have others: "0 \<le> lo_claims pools ps sp - opt_remaining (bt_get pools sp) (bt_get ps (sp, lp))"
    by (rule lo_claims_others [OF inv])
  then have "real (lp_amount pos) \<le> real (fp_available fp)" using F(6) pos(3) by linarith
  then show le: "lp_amount pos + a \<le> fp_available fp + a" by simp
  have amt: "lp_amount pos + a \<le> MAX_FIXED_POOL_LIQUIDITY" using le a(2) by linarith
  have wf_pos: "lo_position_wf nxt' (Some ?fp) ?pos"
    using F(2,3) pos(1,2,4) a(1) amt by (simp add: lo_position_wf_def)
  have wf_fp: "fixed_pool_wf nxt' ?fp"
    using F(2,3) a by (simp add: fixed_pool_wf_def)
  have same: "lo_remaining (bt_get pools' sp) pos' = lo_remaining (bt_get pools sp) pos'"
    if "bt_get ps (sp, lp') = Some pos'" for lp' pos'
    using F(4) [OF that] by (simp add: get)
  show "lo_side_inv nxt' pools' ps'"
    unfolding ps'_def
  proof (rule lo_side_inv_put [OF inv F(1) _ sp other])
    show "bt_wf pools'" using D(1) by (simp add: pools'_def bt_wf_insert)
    show "lo_remaining (bt_get pools' sp) pos' = lo_remaining (bt_get pools sp) pos' \<and>
        lo_position_wf nxt' (bt_get pools' sp) pos'" if "bt_get ps (sp, lp') = Some pos'" for lp' pos'
      using same [OF that] F(5) [OF that] by (simp add: get)
    show "lo_position_wf nxt' (bt_get pools' sp) pos'" if "Some ?pos = Some pos'" for pos'
      using that wf_pos by (simp add: get)
    show "fixed_pool_wf nxt' fp' \<and> lo_claims pools ps sp - opt_remaining (bt_get pools sp) (bt_get ps (sp, lp))
        + opt_remaining (bt_get pools' sp) (Some ?pos) \<le> real (fp_available fp')"
      if "bt_get pools' sp = Some fp'" for fp'
      using that wf_fp F(6) rem pos(3) by (auto simp: get opt_remaining_def [of _ "Some ?pos"])
  qed
  have "opt_earned sd fee sp (bt_get pools' sp) (Some ?pos) = 0"
    using rem by (simp add: opt_earned_def lo_earned_def get)
  then show "lo_pending sd fee pools' ps' = lo_pending sd fee pools ps
       - opt_earned sd fee sp (bt_get pools sp) (bt_get ps (sp, lp))"
    unfolding ps'_def using lo_pending_put [OF D(2) other, where opt = "Some ?pos" and sd = sd and fee = fee and lp = lp] same
    by simp
qed

lemma mint_collect:
  fixes sd
  assumes inv: "lo_inv st"
  defines "pool \<equiv> \<lambda>sp. bt_get (pools_of sd st) sp"
  shows "\<exists>c opt. (case bt_get (positions_of sd st) (sp, lp) of
        Some position \<Rightarrow> collect_from_position sd position (pool sp) (price_of sp) (lo_fee_hundredth_pips st)
      | None \<Rightarrow> Some (lo_collected_default, None)) = Some (c, opt) \<and>
    paid_out c \<le> opt_earned sd (lo_fee_hundredth_pips st) sp (pool sp) (bt_get (positions_of sd st) (sp, lp)) \<and>
    (\<forall>pos. opt = Some pos \<longrightarrow> lp_accumulative_fees pos < 2 ^ 256 \<and>
       real (lp_amount pos) \<le> opt_remaining (pool sp) (bt_get (positions_of sd st) (sp, lp)) \<and>
       (\<exists>fp. pool sp = Some fp \<and> lp_pool_instance pos = fp_pool_instance fp \<and>
          lp_last_percent_remaining pos = fp_percent_remaining fp))"
proof (cases "bt_get (positions_of sd st) (sp, lp)")
  case None
  then show ?thesis by (simp add: lo_collected_default_def opt_earned_def)
next
  case (Some pos)
  from collect_from_position_inv [OF inv Some] show ?thesis
    by (fastforce simp: Some pool_def lo_collect_post_def lo_earned_def opt_earned_def opt_remaining_def lo_position_wf_def)
qed

text \<open>The result of \<open>lo_mint_target\<close>, and the position it adds to.\<close>

lemma lo_mint_target_ok:
  assumes opt: "\<And>pos. opt = Some pos \<Longrightarrow> lp_accumulative_fees pos < 2 ^ 256 \<and> real (lp_amount pos) \<le> rem \<and>
       (\<exists>fp. pool = Some fp \<and> lp_pool_instance pos = fp_pool_instance fp \<and>
          lp_last_percent_remaining pos = fp_percent_remaining fp)"
    and rem: "0 \<le> rem" and nxt: "nxt < 2 ^ 128"
  shows "lo_mint_target opt pool nxt = Some (Inl (LoOther LoMaximumPoolInstances)) \<or>
    (\<exists>pos fp nxt'. lo_mint_target opt pool nxt = Some (Inr (pos, fp, nxt')) \<and> nxt' < 2 ^ 128 \<and>
       lo_mint_pool nxt nxt' pool fp \<and> lp_pool_instance pos = fp_pool_instance fp \<and>
       lp_last_percent_remaining pos = fp_percent_remaining fp \<and>
       real (lp_amount pos) \<le> rem \<and> lp_accumulative_fees pos < 2 ^ 256)"
proof (cases opt)
  case None
  then show ?thesis using rem nxt
    by (cases pool) (auto simp: lo_mint_target_def lo_mint_pool_def uadd_def)
next
  case (Some pos)
  then show ?thesis using opt [OF Some] nxt by (auto simp: lo_mint_target_def lo_mint_pool_def)
qed

lemma usat_add_MAX:
  assumes "\<not> usat_add 256 x a > MAX_FIXED_POOL_LIQUIDITY"
  shows "usat_add 256 x a = x + a" "x + a \<le> MAX_FIXED_POOL_LIQUIDITY"
  using assms by (auto simp: usat_add_def umax_def MAX_FIXED_POOL_LIQUIDITY_eq min_def split: if_splits)

lemma lo_held_insert:
  assumes "bt_wf pools"
  shows "int (bt_sum (\<lambda>_ fp. fp_available fp) (bt_insert sp fp pools)) = int (bt_sum (\<lambda>_ fp. fp_available fp) pools)
    - (case bt_get pools sp of None \<Rightarrow> 0 | Some fp \<Rightarrow> int (fp_available fp)) + int (fp_available fp)"
  unfolding of_nat_bt_sum using bt_sum_insert [OF assms, of "\<lambda>_ fp. int (fp_available fp)" sp fp] by simp

lemma lo_held_remove:
  assumes "bt_wf pools"
  shows "int (bt_sum (\<lambda>_ fp. fp_available fp) (bt_remove sp pools)) = int (bt_sum (\<lambda>_ fp. fp_available fp) pools)
    - (case bt_get pools sp of None \<Rightarrow> 0 | Some fp \<Rightarrow> int (fp_available fp))"
  unfolding of_nat_bt_sum using bt_sum_remove [OF assms, of "\<lambda>_ fp. int (fp_available fp)" sp] by simp

lemma opt_remaining_nonneg:
  assumes "lo_side_inv nxt pools ps"
  shows "0 \<le> opt_remaining (bt_get pools sp) (bt_get ps (sp, lp))"
  using lo_remaining_nonneg(1) [OF assms] by (auto simp: opt_remaining_def split: option.splits)

lemma lo_mint_into_ok:
  fixes lp :: "'lp::linorder"
  assumes inv: "lo_inv st" and sp: "tick_sqrt_price sp" and a: "0 < a" and nxt': "nxt' < 2 ^ 128"
    and fp: "lo_mint_pool (lo_next_pool_instance st) nxt' (bt_get (pools_of sd st) sp) fp"
    and pos: "lp_pool_instance pos = fp_pool_instance fp" "lp_last_percent_remaining pos = fp_percent_remaining fp"
      "real (lp_amount pos) \<le> opt_remaining (bt_get (pools_of sd st) sp) (bt_get (positions_of sd st) (sp, lp))"
      "lp_accumulative_fees pos < 2 ^ 256"
    and paid: "paid_out c \<le> opt_earned sd (lo_fee_hundredth_pips st) sp (bt_get (pools_of sd st) sp)
      (bt_get (positions_of sd st) (sp, lp))"
  shows "\<exists>r. lo_mint_into sd lp sp a c pos fp nxt' st = Some r \<and>
    (case r of Inl e \<Rightarrow> True | Inr (c, i, st') \<Rightarrow> lo_effect sd (int a) (- paid_out c) st st')"
proof (cases "usat_add 256 (fp_available fp) a > MAX_FIXED_POOL_LIQUIDITY")
  case True
  then show ?thesis by (simp add: lo_mint_into_def Let_def)
next
  case False
  note S = lo_invD(3) [OF inv, of sd]
  note A = usat_add_MAX [OF False]
  note M = lo_side_inv_mint [OF S sp fp pos a A(2)]
  define st' where "st' = put_position sd (sp, lp)
    (Some (pos\<lparr>lp_amount := lp_amount pos + a, lp_original_amount := lp_amount pos + a\<rparr>))
    (set_pools sd (bt_insert sp (fp\<lparr>fp_available := fp_available fp + a\<rparr>) (pools_of sd st)) (st\<lparr>lo_next_pool_instance := nxt'\<rparr>))"
  have "lp_amount pos + a < 2 ^ 256"
    using M(2) A(2) by (simp add: MAX_FIXED_POOL_LIQUIDITY_eq)
  then have "uadd 256 (lp_amount pos) a = Some (lp_amount pos + a)" by simp
  then have "lo_mint_into sd lp sp a c pos fp nxt' st = Some (Inr (c,
       lo_info (pos\<lparr>lp_amount := lp_amount pos + a, lp_original_amount := lp_amount pos + a\<rparr>), st'))"
    using False by (simp add: lo_mint_into_def A(1) Let_def st'_def bt_put_def del: uadd_Some)
  moreover have "lo_effect sd (int a) (- paid_out c) st st'"
  proof (rule lo_effectI [OF inv])
    show "int (lo_held sd st') = int (lo_held sd st) + int a"
      using lo_held_insert [OF lo_side_invD(1) [OF S], of sp] fp
      by (auto simp: st'_def lo_held_def lo_mint_pool_def split: option.splits)
    show "lo_pending sd (lo_fee_hundredth_pips st) (pools_of sd st') (positions_of sd st')
        \<le> lo_pending sd (lo_fee_hundredth_pips st) (pools_of sd st) (positions_of sd st) + - paid_out c"
      using M(3) [of sd "lo_fee_hundredth_pips st"] paid by (simp add: st'_def)
  qed (use M(1) lo_mint_pool_facts(1) [OF S fp] nxt' in \<open>simp_all add: st'_def\<close>)
  ultimately show ?thesis by simp
qed

lemma lo_collect_and_mint_ok:
  fixes lp :: "'lp::linorder"
  assumes inv: "lo_inv st"
  shows "\<exists>r. lo_collect_and_mint sd lp t a st = Some r \<and>
    (case r of Inl e \<Rightarrow> True | Inr (c, i, st') \<Rightarrow> lo_effect sd (int a) (- paid_out c) st st')"
proof -
  consider "a = 0" | "a \<noteq> 0" "\<not> is_tick_valid t" | "0 < a" "is_tick_valid t" by blast
  then show ?thesis
  proof cases
    case 1
    show ?thesis unfolding 1 lo_collect_and_mint_def of_nat_0
      using lo_collect_ok [OF inv, where ?'e = lo_mint_error, of sd lp t] by simp
  next
    case 2
    then show ?thesis by (simp add: lo_collect_and_mint_def)
  next
    case 3
    then obtain sp where sp: "sqrt_price_at_tick t = Some sp" "tick_sqrt_price sp" by (elim valid_tick_price)
    let ?pools = "pools_of sd st" and ?ps = "positions_of sd st" and ?nxt = "lo_next_pool_instance st"
    note S = lo_invD(3) [OF inv, of sd]
    obtain c opt where col: "(case bt_get ?ps (sp, lp) of
        Some position \<Rightarrow> collect_from_position sd position (bt_get ?pools sp) (price_of sp) (lo_fee_hundredth_pips st)
      | None \<Rightarrow> Some (lo_collected_default, None)) = Some (c, opt)"
      and paid: "paid_out c \<le> opt_earned sd (lo_fee_hundredth_pips st) sp (bt_get ?pools sp) (bt_get ?ps (sp, lp))"
      and opt: "\<And>pos. opt = Some pos \<Longrightarrow> lp_accumulative_fees pos < 2 ^ 256 \<and>
       real (lp_amount pos) \<le> opt_remaining (bt_get ?pools sp) (bt_get ?ps (sp, lp)) \<and>
       (\<exists>fp. bt_get ?pools sp = Some fp \<and> lp_pool_instance pos = fp_pool_instance fp \<and>
          lp_last_percent_remaining pos = fp_percent_remaining fp)"
      using mint_collect [OF inv, of sd sp lp] by blast
    have run: "lo_collect_and_mint sd lp t a st =
       do { target \<leftarrow> lo_mint_target opt (bt_get ?pools sp) ?nxt;
            (case target of Inl e \<Rightarrow> Some (Inl e)
             | Inr (position, fp, nxt') \<Rightarrow> lo_mint_into sd lp sp a c position fp nxt' st) }"
      using 3 sp col by (simp add: lo_collect_and_mint_def price_of_tick [OF sp(2)])
    from lo_mint_target_ok [OF opt opt_remaining_nonneg [OF S] lo_invD(2) [OF inv]] show ?thesis
      unfolding run using lo_mint_into_ok [OF inv sp(2) 3(1) _ _ _ _ _ _ paid] by fastforce
  qed
qed

section \<open>Burn\<close>

lemma lo_claims_other_le:
  assumes inv: "lo_side_inv nxt pools ps" and pos: "bt_get ps (sp, lp') = Some pos" and neq: "lp' \<noteq> lp"
  shows "lo_remaining (bt_get pools sp) pos
    \<le> lo_claims pools ps sp - opt_remaining (bt_get pools sp) (bt_get ps (sp, lp))"
proof -
  let ?f = "\<lambda>(sp', lp) pos. if sp' = sp then lo_remaining (bt_get pools sp) pos else 0"
  have wf: "bt_wf ps" by (rule lo_side_invD(2) [OF inv])
  have mem: "(k, v) \<in> set (bt_remove (sp, lp) ps) \<longleftrightarrow> k \<noteq> (sp, lp) \<and> bt_get ps k = Some v" for k v
    using bt_get_mem [OF wf] by (auto simp: set_bt_remove)
  have "?f (sp, lp') pos \<le> bt_sum ?f (bt_remove (sp, lp) ps)"
  proof (rule bt_sum_member_le)
    show "((sp, lp'), pos) \<in> set (bt_remove (sp, lp) ps)" using pos neq by (simp add: mem)
    show "0 \<le> ?f k v" if "(k, v) \<in> set (bt_remove (sp, lp) ps)" for k v
      using that lo_remaining_nonneg(1) [OF inv] by (auto simp: mem split: prod.splits)
  qed
  then show ?thesis
    using bt_sum_remove [OF wf, of ?f "(sp, lp)"] by (simp add: lo_claims_def opt_remaining_def split: option.splits)
qed

lemma lo_side_inv_burn:
  assumes inv: "lo_side_inv nxt pools ps" and sp: "tick_sqrt_price sp" and fp: "bt_get pools sp = Some fp"
    and pos: "lp_pool_instance pos = fp_pool_instance fp" "lp_last_percent_remaining pos = fp_percent_remaining fp"
      "real (lp_amount pos) \<le> opt_remaining (bt_get pools sp) (bt_get ps (sp, lp))" "lo_position_wf nxt (Some fp) pos"
    and amt: "amt \<le> lp_amount pos"
  defines "fp' \<equiv> fp\<lparr>fp_available := fp_available fp - amt\<rparr>"
    and "pos' \<equiv> pos\<lparr>lp_amount := lp_amount pos - amt, lp_original_amount := lp_amount pos - amt\<rparr>"
  defines "pools' \<equiv> bt_put sp (if fp_available fp - amt = 0 then None else Some fp') pools"
    and "ps' \<equiv> bt_put (sp, lp) (if lp_amount pos - amt = 0 then None else Some pos') ps"
  shows "amt \<le> fp_available fp" "lp_amount pos - amt \<noteq> 0 \<Longrightarrow> fp_available fp - amt \<noteq> 0"
    "lo_side_inv nxt pools' ps'"
    "lo_pending sd fee pools' ps' = lo_pending sd fee pools ps
       - opt_earned sd fee sp (bt_get pools sp) (bt_get ps (sp, lp))"
proof -
  note D = lo_side_invD [OF inv]
  have wf: "fixed_pool_wf nxt fp" and claims: "lo_claims pools ps sp \<le> real (fp_available fp)"
    using D(3) [OF fp] by simp_all
  let ?others = "lo_claims pools ps sp - opt_remaining (bt_get pools sp) (bt_get ps (sp, lp))"
  have others0: "0 \<le> ?others" by (rule lo_claims_others [OF inv])
  have others: "?others + real (lp_amount pos - amt) \<le> real (fp_available fp) - real amt"
    using claims pos(3) amt by (simp add: of_nat_diff)
  then have "real amt \<le> real (fp_available fp)" using others0 by linarith
  then show avail: "amt \<le> fp_available fp" by simp
  have others': "?others + real (lp_amount pos - amt) \<le> real (fp_available fp - amt)"
    using others avail by (simp add: of_nat_diff)
  then show ne: "lp_amount pos - amt \<noteq> 0 \<Longrightarrow> fp_available fp - amt \<noteq> 0" using others0 by auto
  have fwf: "float_wf (fp_percent_remaining fp)" using wf by (simp add: fixed_pool_wf_def)
  have rem: "lo_remaining (Some fp') pos' = real (lp_amount pos - amt)"
    using fwf pos by (subst lo_remaining_current) (simp_all add: fp'_def pos'_def)
  have get: "bt_get pools' sp = (if fp_available fp - amt = 0 then None else Some fp')"
    by (simp add: pools'_def bt_get_put)
  have other: "s \<noteq> sp \<Longrightarrow> bt_get pools' s = bt_get pools s" for s by (simp add: pools'_def bt_get_put)
  have same: "lo_remaining (bt_get pools' sp) q = lo_remaining (bt_get pools sp) q"
    if "bt_get ps (sp, lp') = Some q" "lp' \<noteq> lp" for lp' q
  proof (cases "fp_available fp - amt = 0")
    case True
    then have "?others \<le> 0" using others' by simp
    then have "lo_remaining (bt_get pools sp) q = 0"
      using lo_claims_other_le [OF inv that] lo_remaining_nonneg(1) [OF inv that(1)] by linarith
    then show ?thesis using True by (simp add: get lo_remaining_def)
  next
    case False
    then show ?thesis by (simp add: get fp fp'_def)
  qed
  show "lo_side_inv nxt pools' ps'"
    unfolding ps'_def
  proof (rule lo_side_inv_put [OF inv order_refl _ sp other])
    show "bt_wf pools'" using D(1) by (simp add: pools'_def bt_wf_put)
    show "lo_remaining (bt_get pools' sp) q = lo_remaining (bt_get pools sp) q \<and> lo_position_wf nxt (bt_get pools' sp) q"
      if "lp' \<noteq> lp" "bt_get ps (sp, lp') = Some q" for lp' q
      using same [OF that(2,1)] D(4) [OF that(2)] by (auto simp: get fp fp'_def lo_position_wf_def)
    show "lo_position_wf nxt (bt_get pools' sp) q"
      if "(if lp_amount pos - amt = 0 then None else Some pos') = Some q" for q
      using that pos(2,4) amt ne by (auto simp: get lo_position_wf_def pos'_def fp'_def split: if_splits)
    show "fixed_pool_wf nxt fq \<and> ?others + opt_remaining (bt_get pools' sp) (if lp_amount pos - amt = 0 then None else Some pos')
        \<le> real (fp_available fq)"
      if "bt_get pools' sp = Some fq" for fq
      using that wf others' rem
      by (auto simp: get fp'_def fixed_pool_wf_def opt_remaining_def [of _ "Some pos'"] opt_remaining_def [of _ None] split: if_splits)
  qed
  have "opt_earned sd fee sp (bt_get pools' sp) (if lp_amount pos - amt = 0 then None else Some pos') = 0"
    using rem ne by (simp add: opt_earned_def lo_earned_def get) (simp add: pos'_def)
  then show "lo_pending sd fee pools' ps' = lo_pending sd fee pools ps
       - opt_earned sd fee sp (bt_get pools sp) (bt_get ps (sp, lp))"
    unfolding ps'_def
    using lo_pending_put [OF D(2) other, where sp = sp and lp = lp and sd = sd and fee = fee
        and opt = "if lp_amount pos - amt = 0 then None else Some pos'"] same by simp
qed

lemma lo_burn_from_ok:
  fixes lp :: "'lp::linorder"
  assumes inv: "lo_inv st" and sp: "tick_sqrt_price sp" and fp: "bt_get (pools_of sd st) sp = Some fp"
    and pos: "lp_pool_instance pos = fp_pool_instance fp" "lp_last_percent_remaining pos = fp_percent_remaining fp"
      "real (lp_amount pos) \<le> opt_remaining (bt_get (pools_of sd st) sp) (bt_get (positions_of sd st) (sp, lp))"
      "lo_position_wf (lo_next_pool_instance st) (Some fp) pos"
    and paid: "paid_out c \<le> opt_earned sd (lo_fee_hundredth_pips st) sp (bt_get (pools_of sd st) sp)
      (bt_get (positions_of sd st) (sp, lp))"
  shows "\<exists>i st'. (lo_burn_from sd lp sp a c pos fp st ::
        ('e lo_position_error + amount \<times> lo_collected \<times> lo_position_info \<times> 'lp limit_pool) option)
      = Some (Inr (min (lp_amount pos) a, c, i, st')) \<and>
    lo_effect sd (- int (min (lp_amount pos) a)) (- paid_out c) st st'"
proof -
  define amt where "amt = min (lp_amount pos) a"
  have amt: "amt \<le> lp_amount pos" by (simp add: amt_def)
  note S = lo_invD(3) [OF inv, of sd]
  note B = lo_side_inv_burn [OF S sp fp pos amt]
  define fp' where "fp' = fp\<lparr>fp_available := fp_available fp - amt\<rparr>"
  define pos' where "pos' = pos\<lparr>lp_amount := lp_amount pos - amt, lp_original_amount := lp_amount pos - amt\<rparr>"
  define st' where "st' = set_pools sd (bt_put sp (if fp_available fp - amt = 0 then None else Some fp') (pools_of sd st))
     (put_position sd (sp, lp) (if lp_amount pos - amt = 0 then None else Some pos') st)"
  have sub: "usub (lp_amount pos) amt = Some (lp_amount pos - amt)" "usub (fp_available fp) amt = Some (fp_available fp - amt)"
    using amt B(1) by simp_all
  have "(lo_burn_from sd lp sp a c pos fp st :: ('e lo_position_error + _) option) = Some (Inr (amt, c, lo_info pos', st'))"
    using B(2) unfolding lo_burn_from_def Let_def amt_def [symmetric] sub
    by (auto simp: st'_def bt_put_def fp'_def pos'_def)
  moreover have "lo_effect sd (- int amt) (- paid_out c) st st'"
  proof (rule lo_effectI [OF inv])
    show "int (lo_held sd st') = int (lo_held sd st) + - int amt"
      using lo_held_insert [OF lo_side_invD(1) [OF S], of sp fp'] lo_held_remove [OF lo_side_invD(1) [OF S], of sp] fp B(1)
      by (auto simp: st'_def lo_held_def bt_put_def fp'_def of_nat_diff)
    show "lo_pending sd (lo_fee_hundredth_pips st) (pools_of sd st') (positions_of sd st')
        \<le> lo_pending sd (lo_fee_hundredth_pips st) (pools_of sd st) (positions_of sd st) + - paid_out c"
      using B(4) [of sd "lo_fee_hundredth_pips st", folded fp'_def pos'_def] paid by (simp add: st'_def)
  qed (use B(3) [folded fp'_def pos'_def] lo_invD(2) [OF inv] in \<open>simp_all add: st'_def\<close>)
  ultimately show ?thesis unfolding amt_def by blast
qed

lemma lo_collect_and_burn_ok:
  fixes lp :: "'lp::linorder"
  assumes inv: "lo_inv st"
  shows "\<exists>r. (lo_collect_and_burn sd lp t a st ::
        ('e lo_position_error + amount \<times> lo_collected \<times> lo_position_info \<times> 'lp limit_pool) option) = Some r \<and>
    (case r of Inl e \<Rightarrow> True
     | Inr (amt, c, i, st') \<Rightarrow> amt \<le> a \<and> lo_effect sd (- int amt) (- paid_out c) st st')"
proof -
  consider "a = 0" | "a \<noteq> 0" "\<not> is_tick_valid t" | "0 < a" "is_tick_valid t" by blast
  then show ?thesis
  proof cases
    case 1
    obtain r where r: "(lo_collect sd lp t st :: ('e lo_position_error + _) option) = Some r"
      "case r of Inl e \<Rightarrow> True | Inr (c, i, st') \<Rightarrow> lo_effect sd 0 (- paid_out c) st st'"
      using lo_collect_ok [OF inv, where ?'e = 'e] by blast
    show ?thesis unfolding 1 lo_collect_and_burn_def using r by (auto split: sum.splits)
  next
    case 2
    then show ?thesis by (simp add: lo_collect_and_burn_def)
  next
    case 3
    then obtain sp where sp: "sqrt_price_at_tick t = Some sp" "tick_sqrt_price sp" by (elim valid_tick_price)
    show ?thesis
    proof (cases "bt_get (positions_of sd st) (sp, lp)")
      case None
      then show ?thesis using 3 sp by (simp add: lo_collect_and_burn_def price_of_tick [OF sp(2)])
    next
      case (Some pos)
      let ?pool = "bt_get (pools_of sd st) sp"
      obtain c opt where col: "collect_from_position sd pos ?pool (price_of sp) (lo_fee_hundredth_pips st) = Some (c, opt)"
        and post: "lo_collect_post sd (lo_next_pool_instance st) (price_of sp) (lo_fee_hundredth_pips st) ?pool pos c opt"
        using collect_from_position_inv [OF inv Some] by blast
      have run: "(lo_collect_and_burn sd lp t a st :: ('e lo_position_error + _) option) =
          (case opt of Some position \<Rightarrow> do { fp \<leftarrow> ?pool; lo_burn_from sd lp sp a c position fp st }
           | None \<Rightarrow> Some (Inr (0, c, lo_info_default, put_position sd (sp, lp) None st)))"
        using 3 sp Some col
        by (simp add: lo_collect_and_burn_def price_of_tick [OF sp(2)] bt_put_def split: option.splits)
      show ?thesis
      proof (cases opt)
        case None
        then show ?thesis using run put_position_collect [OF inv Some post] by simp
      next
        case (Some pos')
        then obtain fp where fp: "?pool = Some fp" "lp_pool_instance pos' = fp_pool_instance fp"
            "lp_last_percent_remaining pos' = fp_percent_remaining fp"
          using post by (auto simp: lo_collect_post_def)
        have le: "real (lp_amount pos') \<le> opt_remaining ?pool (bt_get (positions_of sd st) (sp, lp))"
          and wf: "lo_position_wf (lo_next_pool_instance st) (Some fp) pos'"
          and paid: "paid_out c \<le> opt_earned sd (lo_fee_hundredth_pips st) sp ?pool (bt_get (positions_of sd st) (sp, lp))"
          using post Some \<open>bt_get (positions_of sd st) (sp, lp) = Some pos\<close> fp(1)
          by (simp_all add: lo_collect_post_def opt_remaining_def opt_earned_def lo_earned_def)
        show ?thesis
          using lo_burn_from_ok [OF inv sp(2) fp le wf paid, where ?'e = 'e, of a] run Some fp(1) by auto
      qed
    qed
  qed
qed

section \<open>Swap\<close>

text \<open>Trading with a fixed pool scales every claim on it by the same factor; consuming it is the factor 0.\<close>

lemma lo_claims_scale:
  assumes other: "\<forall>s. s \<noteq> sp \<longrightarrow> bt_get pools' s = bt_get pools s"
    and scale: "\<And>pos. lo_remaining (bt_get pools' sp) pos = r * lo_remaining (bt_get pools sp) pos"
  shows "lo_claims pools' ps sp = r * lo_claims pools ps sp"
    and "s \<noteq> sp \<Longrightarrow> lo_claims pools' ps s = lo_claims pools ps s"
    and "lo_pending sd fee pools' ps = lo_pending sd fee pools ps
      + (1 - r) * lo_claims pools ps sp * input_rate sd (price_of sp) * fee_factor fee"
proof -
  show "lo_claims pools' ps sp = r * lo_claims pools ps sp"
    unfolding lo_claims_def bt_sum_scale [symmetric] scale by (rule bt_sum_cong) auto
  show "lo_claims pools' ps s = lo_claims pools ps s" if "s \<noteq> sp"
  proof -
    have "bt_get pools' s = bt_get pools s" using other that by blast
    then show ?thesis unfolding lo_claims_def by (rule arg_cong)
  qed
  have eq: "(case k of (s, lp) \<Rightarrow> \<lambda>pos. lo_earned sd fee s (bt_get pools' s) pos) pos
      = (case k of (s, lp) \<Rightarrow> \<lambda>pos. lo_earned sd fee s (bt_get pools s) pos) pos
        + (1 - r) * input_rate sd (price_of sp) * fee_factor fee *
          (case k of (s, lp) \<Rightarrow> \<lambda>pos. if s = sp then lo_remaining (bt_get pools sp) pos else 0) pos" for k pos
    using other scale by (cases k) (auto simp: lo_earned_def algebra_simps)
  show "lo_pending sd fee pools' ps = lo_pending sd fee pools ps
      + (1 - r) * lo_claims pools ps sp * input_rate sd (price_of sp) * fee_factor fee"
    unfolding lo_pending_def lo_claims_def
    by (subst bt_sum_cong [OF eq]) (simp add: bt_sum_add bt_sum_scale)
qed

lemma lo_side_inv_swap:
  assumes inv: "lo_side_inv nxt pools ps" and fp: "bt_get pools sp = Some fp" and wf: "bt_wf pools'"
    and other: "\<forall>s. s \<noteq> sp \<longrightarrow> bt_get pools' s = bt_get pools s"
    and r: "0 \<le> r" "\<And>pos. lo_remaining (bt_get pools' sp) pos = r * lo_remaining (bt_get pools sp) pos"
    and fp': "\<And>fp'. bt_get pools' sp = Some fp' \<Longrightarrow> fixed_pool_wf nxt fp' \<and> fp_pool_instance fp' = fp_pool_instance fp \<and>
      fp_percent_remaining fp' \<le> fp_percent_remaining fp \<and> r * real (fp_available fp) \<le> real (fp_available fp')"
  shows "lo_side_inv nxt pools' ps"
proof -
  note D = lo_side_invD [OF inv]
  note C = lo_claims_scale [OF other r(2), where ps = ps]
  have sp: "tick_sqrt_price sp" and claims: "lo_claims pools ps sp \<le> real (fp_available fp)"
    using D(3) [OF fp] by simp_all
  have "tick_sqrt_price s \<and> fixed_pool_wf nxt fq \<and> lo_claims pools' ps s \<le> real (fp_available fq)"
    if "bt_get pools' s = Some fq" for s fq
  proof (cases "s = sp")
    case True
    have "r * lo_claims pools ps sp \<le> r * real (fp_available fp)" using claims r(1) by (intro mult_left_mono)
    then show ?thesis using that True sp fp' [of fq] C(1) by auto
  next
    case False
    then show ?thesis using that D(3) [of s fq] other False C(2) [OF False] by simp
  qed
  moreover have "tick_sqrt_price s \<and> lo_position_wf nxt (bt_get pools' s) pos"
    if pos: "bt_get ps (s, lp) = Some pos" for s lp pos
  proof (cases "s = sp")
    case True
    then have q: "lo_position_wf nxt (Some fp) pos" using D(4) [OF pos] fp by simp
    have "fp_percent_remaining fq \<le> lp_last_percent_remaining pos"
      if "bt_get pools' sp = Some fq" "fp_pool_instance fq = lp_pool_instance pos" for fq
      using fp' [OF that(1)] that(2) q by (auto simp: lo_position_wf_def)
    then show ?thesis using True sp q by (auto simp: lo_position_wf_def)
  next
    case False
    then show ?thesis using D(4) [OF pos] other False by simp
  qed
  ultimately show ?thesis using wf D(2) by (simp add: lo_side_inv_def)
qed

text \<open>The trade with one fixed pool.\<close>

definition lo_swap_overflows :: "direction \<Rightarrow> nat \<Rightarrow> sqrt_price \<Rightarrow> fixed_pool \<Rightarrow> amount \<Rightarrow> bool" where
  "lo_swap_overflows sd fee sp fp a \<longleftrightarrow>
     (\<exists>amf req out. mul_div_floor a (1000000 - fee) 1000000 = Some amf \<and>
        input_amount_ceil sd (fp_available fp) (price_of sp) = Some req \<and> amf < req \<and>
        lo_output_amount_floor sd amf (price_of sp) = Some out \<and>
        float_mantissa (fp_percent_remaining fp) (fp_available fp - out) (fp_available fp) = 2 ^ 256)"

definition lo_trade_post ::
    "direction \<Rightarrow> nat \<Rightarrow> sqrt_price \<Rightarrow> fixed_pool \<Rightarrow> amount \<Rightarrow> fixed_pool option \<Rightarrow> amount \<Rightarrow> amount \<Rightarrow> amount \<Rightarrow> amount \<Rightarrow> bool" where
  "lo_trade_post sd fee sp fp a fp' a' out swapped fees \<longleftrightarrow>
     a' + swapped + fees = a \<and> out \<le> fp_available fp \<and>
     (case fp' of
        None \<Rightarrow> out = fp_available fp \<and>
          real (fp_available fp) * input_rate sd (price_of sp) * fee_factor fee \<le> real a - real a'
      | Some fp' \<Rightarrow> a' = 0 \<and> fp_pool_instance fp' = fp_pool_instance fp \<and>
          0 < fp_available fp' \<and> fp_available fp' + out = fp_available fp \<and>
          float_wf (fp_percent_remaining fp') \<and> fp_percent_remaining fp' \<le> fp_percent_remaining fp \<and>
          real (fp_available fp) * (float_val (fp_percent_remaining fp') / float_val (fp_percent_remaining fp))
            \<le> real (fp_available fp') \<and>
          real (fp_available fp) * (1 - float_val (fp_percent_remaining fp') / float_val (fp_percent_remaining fp))
            * input_rate sd (price_of sp) * fee_factor fee \<le> real a)"

lemma fee_split_factor:
  assumes fee: "fee \<le> MAX_LP_FEE" and a: "a < 2 ^ 256"
  obtains amf where "mul_div_floor a (1000000 - fee) 1000000 = Some amf" "amf \<le> a" "real amf * fee_factor fee \<le> real a"
    "\<And>req. req \<le> amf \<Longrightarrow> req + div_ceil (req * fee) (1000000 - fee) \<le> a"
proof -
  obtain amf where amf: "mul_div_floor a (1000000 - fee) 1000000 = Some amf" "amf \<le> a"
    "amf * 1000000 \<le> a * (1000000 - fee)" "\<And>req. req \<le> amf \<Longrightarrow> req + div_ceil (req * fee) (1000000 - fee) \<le> a"
    using fee_split [OF assms] by blast
  have f: "fee < 1000000" using fee by (simp add: MAX_LP_FEE_def ONE_IN_HUNDREDTH_PIPS_def)
  have "real (amf * 1000000) \<le> real (a * (1000000 - fee))" using amf(3) by (rule of_nat_mono)
  then have "real amf * fee_factor fee \<le> real a"
    using f by (simp add: fee_factor_def of_nat_diff field_simps)
  then show thesis using that amf by blast
qed

lemma lo_swap_fixed_pool_cases:
  assumes fp: "fixed_pool_wf nxt fp" and sp: "tick_sqrt_price sp" and fee: "fee \<le> MAX_LP_FEE" and a: "a < 2 ^ 256"
  shows "case lo_swap_fixed_pool sd fee sp fp a of
      None \<Rightarrow> lo_swap_overflows sd fee sp fp a
    | Some (fp', a', out, swapped, fees) \<Rightarrow> lo_trade_post sd fee sp fp a fp' a' out swapped fees"
proof -
  note P = price_of_tick [OF sp]
  have av: "0 < fp_available fp" "fp_available fp < 2 ^ 128" and pct: "float_wf (fp_percent_remaining fp)"
    using fp by (simp_all add: fixed_pool_wf_def MAX_FIXED_POOL_LIQUIDITY_eq)
  have av256: "fp_available fp < 2 ^ 256" using av(2) by simp
  obtain amf where amf: "mul_div_floor a (1000000 - fee) 1000000 = Some amf" "amf \<le> a" "real amf * fee_factor fee \<le> real a"
    "\<And>req. req \<le> amf \<Longrightarrow> req + div_ceil (req * fee) (1000000 - fee) \<le> a"
    using fee_split_factor [OF fee a] by metis
  obtain req where req: "input_amount_ceil sd (fp_available fp) (price_of sp) = Some req"
      "real (fp_available fp) * input_rate sd (price_of sp) \<le> real req"
    using pricing.in_ceil [OF P(2,3) av(2), of sd] by blast
  note F = fee_factor [OF fee]
  have one: "ONE_IN_HUNDREDTH_PIPS = 1000000" by (simp add: ONE_IN_HUNDREDTH_PIPS_def)
  show ?thesis
  proof (cases "req \<le> amf")
    case True
    define fees where "fees = div_ceil (req * fee) (1000000 - fee)"
    have le: "req + fees \<le> a" using amf(4) [OF True] by (simp add: fees_def)
    have 1: "mul_div_ceil req fee (1000000 - fee) = Some fees" "uadd 256 req fees = Some (req + fees)"
        "usub a (req + fees) = Some (a - (req + fees))"
      using le a F(3) by (simp_all add: fees_def)
    have "real req * fee_factor fee \<le> real (req + fees)"
      unfolding F(2) using real_div_ceil_ge [OF F(3), of "req * fee"] by (simp add: fees_def)
    moreover have "real (fp_available fp) * input_rate sd (price_of sp) * fee_factor fee \<le> real req * fee_factor fee"
      using req(2) F(1) by (intro mult_right_mono) auto
    ultimately have "real (fp_available fp) * input_rate sd (price_of sp) * fee_factor fee \<le> real a - real (a - (req + fees))"
      using le by (simp add: of_nat_diff)
    then have "lo_trade_post sd fee sp fp a None (a - (req + fees)) (fp_available fp) req fees"
      using le by (simp add: lo_trade_post_def)
    moreover have "lo_swap_fixed_pool sd fee sp fp a = Some (None, a - (req + fees), fp_available fp, req, fees)"
      using True amf(1) req(1) F(4) P(1) 1 by (simp add: lo_swap_fixed_pool_def one del: checked_iffs)
    ultimately show ?thesis by simp
  next
    case False
    then obtain out0 where out0: "lo_output_amount_floor sd amf (price_of sp) = Some out0" "out0 < fp_available fp"
        "real out0 * input_rate sd (price_of sp) \<le> real amf"
      using pricing.partial_fill [OF P(2,3) av(2) req(1), of amf] by (meson not_le)
    define rest where "rest = fp_available fp - out0"
    have rest: "0 < rest" "rest \<le> fp_available fp" "usub (fp_available fp) out0 = Some rest"
      using out0(2) by (simp_all add: rest_def)
    have run: "lo_swap_fixed_pool sd fee sp fp a =
      do { next_percent_remaining \<leftarrow> float_mul_div_ceil (fp_percent_remaining fp) rest (fp_available fp);
           (_, remaining_ceil) \<leftarrow> integer_mul_div (fp_available fp) next_percent_remaining (fp_percent_remaining fp);
           output_amount \<leftarrow> usub (fp_available fp) remaining_ceil;
           assert_that (output_amount \<le> out0);
           available' \<leftarrow> usub (fp_available fp) output_amount;
           fees_taken \<leftarrow> usub a amf;
           Some (Some (fp\<lparr>fp_percent_remaining := next_percent_remaining, fp_available := available'\<rparr>),
                 0, output_amount, amf, fees_taken) }"
      using False amf(1) req(1) F(4) P(1) out0(1) rest(3) by (simp add: lo_swap_fixed_pool_def one del: checked_iffs)
    show ?thesis
    proof (cases "float_mul_div_ceil (fp_percent_remaining fp) rest (fp_available fp)")
      case None
      then have "float_mantissa (fp_percent_remaining fp) rest (fp_available fp) = 2 ^ 256"
        using float_mul_div_ceil_eq [OF pct rest(1,2) av256] by (auto split: if_splits)
      then have "lo_swap_overflows sd fee sp fp a"
        using amf(1) req(1) False out0(1) by (auto simp: lo_swap_overflows_def rest_def)
      then show ?thesis using run None by simp
    next
      case (Some g)
      note G = float_mul_div_ceil_Some [OF pct rest(1,2) av256 Some]
      define r where "r = float_val g / float_val (fp_percent_remaining fp)"
      have pos: "0 < float_val (fp_percent_remaining fp)" "0 < float_val g"
        using float_val_pos [OF pct] float_val_pos [OF G(1)] by simp_all
      obtain fl cl where c: "integer_mul_div (fp_available fp) g (fp_percent_remaining fp) = Some (fl, cl)"
          "cl \<le> fp_available fp" "real (fp_available fp) * r \<le> real cl" "real cl < real (fp_available fp) * r + 1"
        using integer_mul_div_real [OF G(1) pct G(2) av256] unfolding r_def by metis
      have "real rest / real (fp_available fp) \<le> r" using G(3) pos by (simp add: r_def field_simps)
      then have "real rest \<le> real (fp_available fp) * r" using av(1) by (simp add: field_simps)
      then have "rest \<le> cl" using c(3) by linarith
      then have out: "fp_available fp - cl \<le> out0" by (simp add: rest_def)
      have "0 < real (fp_available fp) * r" using av(1) pos by (simp add: r_def)
      then have cl0: "0 < cl" using c(3) by linarith
      define fp' where "fp' = fp\<lparr>fp_percent_remaining := g, fp_available := cl\<rparr>"
      have sub: "usub (fp_available fp) cl = Some (fp_available fp - cl)" "usub a amf = Some (a - amf)"
          "usub (fp_available fp) (fp_available fp - cl) = Some cl"
        using c(2) amf(2) by simp_all
      have "lo_swap_fixed_pool sd fee sp fp a = Some (Some fp', 0, fp_available fp - cl, amf, a - amf)"
        using run Some c(1) sub out by (simp add: fp'_def del: checked_iffs)
      moreover have "real (fp_available fp) * (1 - r) * input_rate sd (price_of sp) * fee_factor fee \<le> real a"
      proof -
        have "real (fp_available fp) * (1 - r) \<le> real out0"
          using \<open>real rest \<le> real (fp_available fp) * r\<close> out0(2) by (simp add: rest_def of_nat_diff algebra_simps)
        then have "real (fp_available fp) * (1 - r) * input_rate sd (price_of sp) \<le> real out0 * input_rate sd (price_of sp)"
          using pricing.rate_pos [OF P(2), of sd] by (intro mult_right_mono) auto
        then have "real (fp_available fp) * (1 - r) * input_rate sd (price_of sp) * fee_factor fee \<le> real amf * fee_factor fee"
          using out0(3) F(1) by (intro mult_right_mono) auto
        then show ?thesis using amf(3) by linarith
      qed
      then have "lo_trade_post sd fee sp fp a (Some fp') 0 (fp_available fp - cl) amf (a - amf)"
        using G(1,2) c(2,3) cl0 amf(2) by (simp add: lo_trade_post_def fp'_def r_def)
      ultimately show ?thesis by simp
    qed
  qed
qed

lemma lo_effect_refl: "lo_inv st \<Longrightarrow> lo_effect sd 0 0 st st"
  by (simp add: lo_effect_def)

lemma lo_effect_trans:
  assumes "lo_effect sd d1 e1 st1 st2" "lo_effect sd d2 e2 st2 st3"
  shows "lo_effect sd (d1 + d2) (e1 + e2) st1 st3"
  using assms unfolding lo_effect_def by (smt (verit))

lemma lo_effect_inv: "lo_effect sd d e st st' \<Longrightarrow> lo_inv st'"
  by (simp add: lo_effect_def)

lemma lo_effect_held: "lo_effect sd d e st st' \<Longrightarrow> int (lo_held sd st') = int (lo_held sd st) + d"
  unfolding lo_effect_def by (drule conjunct2, drule conjunct2, drule spec [of _ sd]) simp

lemma lo_effect_totals [simp]:
  "lo_effect sd d e st (st'\<lparr>lo_total_swap_inputs := x\<rparr>) \<longleftrightarrow> lo_effect sd d e st st'"
  "lo_effect sd d e st (st'\<lparr>lo_total_fees_earned := x\<rparr>) \<longleftrightarrow> lo_effect sd d e st st'"
  "lo_effect sd d e st (st'\<lparr>lo_total_swap_outputs := x\<rparr>) \<longleftrightarrow> lo_effect sd d e st st'"
  by (simp_all add: lo_effect_def lo_inv_def lo_held_def lo_owed_def)

text \<open>All pools of a direction together hold less than \<open>2^149\<close>, so no sum over them overflows.\<close>

lemma lo_pools_length:
  assumes "lo_side_inv nxt pools ps"
  shows "length pools \<le> 1774545"
proof -
  have "set (map fst pools) \<subseteq> {sp. tick_sqrt_price sp}"
    using lo_side_invD(3) [OF assms] bt_get_mem [OF lo_side_invD(1) [OF assms]] by fastforce
  then have "card (set (map fst pools)) \<le> 1774545"
    using card_mono [OF tick_sqrt_prices(1)] tick_sqrt_prices(2) by (meson order_trans)
  then show ?thesis
    using distinct_card [OF bt_wf_distinct [OF lo_side_invD(1) [OF assms]]] by simp
qed

lemma lo_held_bound:
  assumes "lo_inv st"
  shows "lo_held sd st < 2 ^ 149"
proof -
  note S = lo_invD(3) [OF assms, of sd]
  have "lo_held sd st \<le> length (pools_of sd st) * (2 ^ 128 - 1)"
    unfolding lo_held_def
  proof (rule bt_sum_le_length)
    fix sp fp
    assume "(sp, fp) \<in> set (pools_of sd st)"
    then have "bt_get (pools_of sd st) sp = Some fp" using bt_get_mem [OF lo_side_invD(1) [OF S]] by blast
    then show "fp_available fp \<le> 2 ^ 128 - 1"
      using lo_side_invD(3) [OF S] by (auto simp: fixed_pool_wf_def MAX_FIXED_POOL_LIQUIDITY_eq)
  qed
  also have "\<dots> \<le> 1774545 * (2 ^ 128 - 1)" using lo_pools_length [OF S] by (intro mult_le_mono1)
  finally show ?thesis by simp
qed

lemma lo_swap_entry_get:
  assumes inv: "lo_inv st" and entry: "lo_swap_entry sd limit st a = Some (sp, fp)"
  shows "bt_get (pools_of sd st) sp = Some fp"
  using lo_swap_entry_SomeD [OF entry] best_priced_fixed_pool_mem bt_get_mem [OF lo_side_invD(1) [OF lo_invD(3) [OF inv]]]
  by blast

text \<open>Storing the result of a trade.\<close>

lemma lo_trade_effect:
  assumes inv: "lo_inv st" and fp: "bt_get (pools_of sd st) sp = Some fp"
    and post: "lo_trade_post sd (lo_fee_hundredth_pips st) sp fp a fp' a' out swapped fees"
  shows "lo_effect sd (- int out) (real a - real a') st (set_pools sd (bt_put sp fp' (pools_of sd st)) st)"
proof -
  let ?pools = "pools_of sd st" and ?fee = "lo_fee_hundredth_pips st"
  note S = lo_invD(3) [OF inv, of sd]
  note D = lo_side_invD [OF S]
  have wf: "fixed_pool_wf (lo_next_pool_instance st) fp" and claims: "lo_claims ?pools (positions_of sd st) sp \<le> real (fp_available fp)"
    and sp: "tick_sqrt_price sp"
    using D(3) [OF fp] by simp_all
  define r where "r = (case fp' of None \<Rightarrow> 0
     | Some fp' \<Rightarrow> float_val (fp_percent_remaining fp') / float_val (fp_percent_remaining fp))"
  have pos: "0 < float_val (fp_percent_remaining fp)" using wf float_val_pos by (simp add: fixed_pool_wf_def)
  have r: "0 \<le> r" "r \<le> 1"
    using post wf pos float_val_pos float_val_mono
    by (auto simp: r_def lo_trade_post_def fixed_pool_wf_def divide_le_eq less_imp_le split: option.splits)
  have get: "bt_get (bt_put sp fp' ?pools) sp = fp'" by (simp add: bt_get_put)
  have other: "\<forall>s. s \<noteq> sp \<longrightarrow> bt_get (bt_put sp fp' ?pools) s = bt_get ?pools s" by (simp add: bt_get_put)
  have scale: "lo_remaining (bt_get (bt_put sp fp' ?pools) sp) q = r * lo_remaining (bt_get ?pools sp) q" for q
    using post pos by (auto simp: get fp r_def lo_remaining_def lo_trade_post_def split: option.splits)
  have side: "lo_side_inv (lo_next_pool_instance st) (bt_put sp fp' ?pools) (positions_of sd st)"
  proof (rule lo_side_inv_swap [OF S fp bt_wf_put [OF D(1)] other r(1) scale])
    show "fixed_pool_wf (lo_next_pool_instance st) fq \<and> fp_pool_instance fq = fp_pool_instance fp \<and>
      fp_percent_remaining fq \<le> fp_percent_remaining fp \<and> r * real (fp_available fp) \<le> real (fp_available fq)"
      if "bt_get (bt_put sp fp' ?pools) sp = Some fq" for fq
      using that post wf by (auto simp: get r_def lo_trade_post_def fixed_pool_wf_def mult.commute)
  qed
  have rate: "0 \<le> input_rate sd (price_of sp) * fee_factor ?fee"
    using pricing.rate_pos [OF price_of_tick(2) [OF sp], of sd] fee_factor(1) [OF lo_invD(1) [OF inv]] by simp
  have "(1 - r) * lo_claims ?pools (positions_of sd st) sp \<le> (1 - r) * real (fp_available fp)"
    using claims r(2) by (intro mult_left_mono) auto
  then have "(1 - r) * lo_claims ?pools (positions_of sd st) sp * (input_rate sd (price_of sp) * fee_factor ?fee)
      \<le> (1 - r) * real (fp_available fp) * (input_rate sd (price_of sp) * fee_factor ?fee)"
    using rate by (intro mult_right_mono)
  also have "\<dots> \<le> real a - real a'"
    using post by (auto simp: r_def lo_trade_post_def mult.commute mult.left_commute mult.assoc split: option.splits)
  finally have owed: "lo_pending sd ?fee (bt_put sp fp' ?pools) (positions_of sd st)
      \<le> lo_pending sd ?fee ?pools (positions_of sd st) + (real a - real a')"
    using lo_claims_scale(3) [OF other scale, where ps = "positions_of sd st" and sd = sd and fee = ?fee]
    by (simp add: mult.assoc)
  have held: "int (bt_sum (\<lambda>_ fp. fp_available fp) (bt_put sp fp' ?pools))
      = int (bt_sum (\<lambda>_ fp. fp_available fp) ?pools) + - int out"
    using lo_held_insert [OF D(1), of sp] lo_held_remove [OF D(1), of sp] fp post
    by (auto simp: bt_put_def lo_trade_post_def split: option.splits)
  show ?thesis
    by (rule lo_effectI [OF inv]) (use side owed held lo_invD(2) [OF inv] in \<open>simp_all add: lo_held_def\<close>)
qed

lemma lo_swap_step_ok:
  assumes inv: "lo_inv st" and a: "a < 2 ^ 256" and entry: "lo_swap_entry sd limit st a = Some (sp, fp)"
  shows "case lo_swap_step sd (sp, fp) (st, a, tot) of
      None \<Rightarrow> lo_swap_overflows sd (lo_fee_hundredth_pips st) sp fp a
    | Some (st', a', tot') \<Rightarrow> \<exists>out. tot' = usat_add 256 tot out \<and> a' \<le> a \<and>
        lo_effect sd (- int out) (real a - real a') st st'"
proof -
  have get: "bt_get (pools_of sd st) sp = Some fp" by (rule lo_swap_entry_get [OF inv entry])
  have D: "tick_sqrt_price sp" "fixed_pool_wf (lo_next_pool_instance st) fp"
    using lo_side_invD(3) [OF lo_invD(3) [OF inv] get] by simp_all
  show ?thesis
  proof (cases "lo_swap_fixed_pool sd (lo_fee_hundredth_pips st) sp fp a")
    case None
    then show ?thesis
      using lo_swap_fixed_pool_cases [OF D(2,1) lo_invD(1) [OF inv] a, of sd] by (simp add: lo_swap_step_def)
  next
    case (Some res)
    obtain fp' a' out swapped fees where res: "res = (fp', a', out, swapped, fees)" by (cases res) auto
    have post: "lo_trade_post sd (lo_fee_hundredth_pips st) sp fp a fp' a' out swapped fees"
      using lo_swap_fixed_pool_cases [OF D(2,1) lo_invD(1) [OF inv] a, of sd] Some by (simp add: res)
    have put: "(case fp' of None \<Rightarrow> bt_remove sp (pools_of sd st) | Some fp' \<Rightarrow> bt_insert sp fp' (pools_of sd st))
        = bt_put sp fp' (pools_of sd st)" by (simp add: bt_put_def)
    have "a' \<le> a" using post by (auto simp: lo_trade_post_def)
    then show ?thesis
      using lo_trade_effect [OF inv get post] Some by (auto simp: lo_swap_step_def res Let_def put)
  qed
qed

text \<open>The whole loop: the effect of all trades together, or the trade that overflows.\<close>

text \<open>The trades that a swap has made at some point of its loop.\<close>

inductive lo_swap_run ::
    "direction \<Rightarrow> sqrt_price option \<Rightarrow> 'lp limit_pool \<times> amount \<times> amount \<Rightarrow> 'lp limit_pool \<times> amount \<times> amount \<Rightarrow> bool"
  for sd limit where
  run_refl: "lo_swap_run sd limit s s"
| run_step: "lo_swap_entry sd limit st a = Some e \<Longrightarrow> lo_swap_step sd e (st, a, tot) = Some s \<Longrightarrow>
    lo_swap_run sd limit s s' \<Longrightarrow> lo_swap_run sd limit (st, a, tot) s'"

lemma lo_swap_loop_run:
  fixes st :: "'lp limit_pool"
  shows "case lo_swap_loop sd limit (st, a, tot) of
      None \<Rightarrow> \<exists>(st2 :: 'lp limit_pool) a2 tot2 e. lo_swap_run sd limit (st, a, tot) (st2, a2, tot2) \<and>
        lo_swap_entry sd limit st2 a2 = Some e \<and> lo_swap_step sd e (st2, a2, tot2) = None
    | Some (st', a', tot') \<Rightarrow> lo_swap_run sd limit (st, a, tot) (st', a', tot') \<and> lo_swap_entry sd limit st' a' = None"
proof (induction sd limit "(st, a, tot)" arbitrary: st a tot rule: lo_swap_loop.induct)
  case (1 sd limit st a tot)
  show ?case
  proof (cases "lo_swap_entry sd limit st a")
    case entry: (Some e)
    show ?thesis
    proof (cases "lo_swap_step sd e (st, a, tot)")
      case None
      then have loop: "lo_swap_loop sd limit (st, a, tot) = None"
        using entry by (simp add: lo_swap_loop.simps [of sd limit st])
      show ?thesis
        unfolding loop option.case using entry None run_refl [of sd limit "(st, a, tot)"]
        by (intro exI [of _ st] exI [of _ a] exI [of _ tot] exI [of _ e]) simp
    next
      case (Some s)
      obtain st1 a1 tot1 where s: "s = (st1, a1, tot1)" by (cases s)
      have loop: "lo_swap_loop sd limit (st, a, tot) = lo_swap_loop sd limit (st1, a1, tot1)"
        using entry Some s by (simp add: lo_swap_loop.simps [of sd limit st])
      note IH = "1.hyps" [OF entry Some [unfolded s]] and run = run_step [OF entry Some [unfolded s]]
      show ?thesis
      proof (cases "lo_swap_loop sd limit (st1, a1, tot1)")
        case None
        with IH obtain st2 :: "'lp limit_pool" and a2 tot2 e2 where
          "lo_swap_run sd limit (st1, a1, tot1) (st2, a2, tot2)" "lo_swap_entry sd limit st2 a2 = Some e2"
          "lo_swap_step sd e2 (st2, a2, tot2) = None" by auto
        then show ?thesis unfolding loop None option.case using run by blast
      next
        case (Some r)
        then show ?thesis using IH run by (cases r) (simp add: loop)
      qed
    qed
  qed (simp add: lo_swap_loop.simps [of sd limit st] run_refl)
qed

lemma lo_swap_run_ok:
  fixes st st' :: "'lp::linorder limit_pool"
  assumes "lo_swap_run sd limit (st, a, tot) (st', a', tot')"
    and "lo_inv st" "a < 2 ^ 256" "tot + lo_held sd st < 2 ^ 256"
  shows "\<exists>out. tot' = tot + out \<and> a' \<le> a \<and> lo_effect sd (- int out) (real a - real a') st st'"
  using assms
proof (induction "(st, a, tot)" "(st', a', tot')" arbitrary: st a tot rule: lo_swap_run.induct)
  case run_refl
  then show ?case using lo_effect_refl by auto
next
  case (run_step st a e tot s)
  obtain sp fp where e: "e = (sp, fp)" by (cases e)
  obtain st1 a1 tot1 where s: "s = (st1, a1, tot1)" by (cases s)
  obtain out where out: "tot1 = usat_add 256 tot out" "a1 \<le> a" "lo_effect sd (- int out) (real a - real a1) st st1"
    using lo_swap_step_ok [OF run_step.prems(1,2), of sd limit sp fp tot] run_step.hyps(1,2) by (auto simp: e s)
  have held: "lo_held sd st1 + out = lo_held sd st" using lo_effect_held [OF out(3)] by linarith
  then have tot1: "tot1 = tot + out" using out(1) run_step.prems(3) by (simp add: usat_add_exact)
  obtain out' where o: "tot' = tot1 + out'" "a' \<le> a1" "lo_effect sd (- int out') (real a1 - real a') st1 st'"
    using run_step.hyps(4) [OF s lo_effect_inv [OF out(3)]] run_step.prems(2,3) out(2) held tot1 by auto
  have "lo_effect sd (- int (out + out')) (real a - real a') st st'"
    using lo_effect_trans [OF out(3) o(3)] by (simp add: algebra_simps)
  then show ?case using o out(2) tot1 by (auto intro!: exI [of _ "out + out'"])
qed

lemma lo_swap_ok:
  fixes st :: "'lp::linorder limit_pool"
  assumes inv: "lo_inv st" and a: "a < 2 ^ 256"
  shows "case lo_swap sd a limit st of
      None \<Rightarrow> \<exists>(st2 :: 'lp limit_pool) a2 tot2 sp fp. lo_swap_run sd limit (st, a, 0) (st2, a2, tot2) \<and>
        lo_swap_entry sd limit st2 a2 = Some (sp, fp) \<and> lo_swap_overflows sd (lo_fee_hundredth_pips st) sp fp a2
    | Some (out, a', st') \<Rightarrow> a' \<le> a \<and> lo_effect sd (- int out) (real a - real a') st st' \<and>
        lo_swap_entry sd limit st' a' = None"
proof -
  have tot: "0 + lo_held sd st < 2 ^ 256" using lo_held_bound [OF inv, of sd] by simp
  note ok = lo_swap_run_ok [OF _ inv a tot]
  note L = lo_swap_loop_run [of sd limit st a 0]
  show ?thesis
  proof (cases "lo_swap_loop sd limit (st, a, 0)")
    case None
    with L obtain st2 :: "'lp limit_pool" and a2 tot2 sp fp where
      1: "lo_swap_run sd limit (st, a, 0) (st2, a2, tot2)" "lo_swap_entry sd limit st2 a2 = Some (sp, fp)"
        "lo_swap_step sd (sp, fp) (st2, a2, tot2) = None" by (auto simp: split_paired_Ex)
    from ok [OF 1(1)] obtain out where e: "a2 \<le> a" "lo_effect sd (- int out) (real a - real a2) st st2" by auto
    have a2: "a2 < 2 ^ 256" using a e(1) by simp
    have "lo_swap_overflows sd (lo_fee_hundredth_pips st) sp fp a2"
      using lo_swap_step_ok [OF lo_effect_inv [OF e(2)] a2 1(2), of tot2] 1(3) e(2) by (simp add: lo_effect_def)
    with 1 show ?thesis using None by (auto simp: lo_swap_def)
  next
    case (Some res)
    obtain st' a' tot' where res: "res = (st', a', tot')" by (cases res)
    from L Some res have run: "lo_swap_run sd limit (st, a, 0) (st', a', tot')" "lo_swap_entry sd limit st' a' = None" by auto
    have "lo_swap_entry sd limit (st'\<lparr>lo_total_swap_outputs := x\<rparr>) a' = lo_swap_entry sd limit st' a'" for x
      by (simp add: lo_swap_entry_def)
    then show ?thesis using ok [OF run(1)] run(2) Some res by (simp add: lo_swap_def)
  qed
qed

section \<open>Collecting everything and changing the fee\<close>

definition lo_paid_list :: "'lp lo_collected_position list \<Rightarrow> nat" where
  "lo_paid_list l = (\<Sum>(lp, t, c, i) \<leftarrow> l. lc_bought_amount c + lc_fees c)"

text \<open>A position from which nothing is left to collect.\<close>

definition lo_fresh :: "direction \<Rightarrow> 'lp::linorder limit_pool \<Rightarrow> sqrt_price \<times> 'lp \<Rightarrow> bool" where
  "lo_fresh sd st k \<longleftrightarrow> (\<forall>pos. bt_get (positions_of sd st) k = Some pos \<longrightarrow>
     lo_remaining (bt_get (pools_of sd st) (fst k)) pos = real (lp_amount pos))"

definition lo_same_other :: "direction \<Rightarrow> 'lp limit_pool \<Rightarrow> 'lp limit_pool \<Rightarrow> bool" where
  "lo_same_other sd st st' \<longleftrightarrow> lo_fixed_pools st' = lo_fixed_pools st \<and>
     (\<forall>sd'. sd' \<noteq> sd \<longrightarrow> positions_of sd' st' = positions_of sd' st)"

lemma lo_fresh_other:
  assumes "lo_same_other sd st st'" "sd' \<noteq> sd"
  shows "lo_fresh sd' st' k = lo_fresh sd' st k"
proof -
  have "positions_of sd' st' = positions_of sd' st" "pools_of sd' st' = pools_of sd' st"
    using assms unfolding lo_same_other_def by metis+
  then show ?thesis unfolding lo_fresh_def by metis
qed

lemma lo_collect_key_ok:
  fixes lp :: "'lp::linorder"
  assumes inv: "lo_inv st" and pos: "bt_get (positions_of sd st) (sp, lp) = Some pos"
  shows "\<exists>t c i st'. lo_collect_key sd (sp, lp) (st, acc) = Some (st', acc @ [(lp, t, c, i)]) \<and>
     lo_effect sd 0 (- paid_out c) st st' \<and> lo_fresh sd st' (sp, lp) \<and> lo_same_other sd st st' \<and>
     (\<forall>k. k \<noteq> (sp, lp) \<longrightarrow> bt_get (positions_of sd st') k = bt_get (positions_of sd st) k)"
proof -
  have sp: "tick_sqrt_price sp" using lo_side_invD(4) [OF lo_invD(3) [OF inv] pos] by simp
  obtain c i opt where c: "(lo_inner_collect sd lp sp st :: (unit lo_position_error + _) option)
        = Some (Inr (c, i, put_position sd (sp, lp) opt st))"
    and post: "lo_collect_post sd (lo_next_pool_instance st) (price_of sp) (lo_fee_hundredth_pips st)
           (bt_get (pools_of sd st) sp) pos c opt"
    using lo_inner_collect_ok [OF inv sp, of sd lp, where ?'e = unit] pos by auto
  obtain t where t: "tick_at_sqrt_price sp = Some t"
    using tick_at_sqrt_price_total [OF tick_sqrt_price_valid [OF sp]] by blast
  have "lo_fresh sd (put_position sd (sp, lp) opt st) (sp, lp)"
    using post by (auto simp: lo_fresh_def bt_get_put lo_collect_post_def)
  then show ?thesis
    using c t put_position_collect [OF inv pos post]
    by (simp add: lo_collect_key_def lo_same_other_def bt_get_put)
qed

lemma lo_collect_keys_ok:
  fixes st :: "'lp::linorder limit_pool"
  assumes "lo_inv st" "distinct ks" "\<forall>k \<in> set ks. bt_get (positions_of sd st) k \<noteq> None"
  shows "\<exists>st' l. foldM (lo_collect_key sd) ks (st, acc) = Some (st', acc @ l) \<and> length l = length ks \<and>
     lo_effect sd 0 (- real (lo_paid_list l)) st st' \<and> lo_same_other sd st st' \<and>
     (\<forall>k \<in> set ks. lo_fresh sd st' k) \<and>
     (\<forall>k. k \<notin> set ks \<longrightarrow> bt_get (positions_of sd st') k = bt_get (positions_of sd st) k)"
  using assms
proof (induction ks arbitrary: st acc)
  case Nil
  then show ?case using lo_effect_refl by (auto simp: lo_paid_list_def lo_same_other_def)
next
  case (Cons k ks)
  obtain sp lp where k: "k = (sp, lp)" by (cases k)
  obtain pos where pos: "bt_get (positions_of sd st) (sp, lp) = Some pos" using Cons.prems(3) k by auto
  obtain t c i st1 where 1: "lo_collect_key sd k (st, acc) = Some (st1, acc @ [(lp, t, c, i)])"
     "lo_effect sd 0 (- paid_out c) st st1" "lo_fresh sd st1 k" "lo_same_other sd st st1"
     "\<forall>k'. k' \<noteq> k \<longrightarrow> bt_get (positions_of sd st1) k' = bt_get (positions_of sd st) k'"
    using lo_collect_key_ok [OF Cons.prems(1) pos, of acc] k by auto
  have prems: "lo_inv st1" "distinct ks" "\<forall>k \<in> set ks. bt_get (positions_of sd st1) k \<noteq> None"
    using lo_effect_inv [OF 1(2)] Cons.prems 1(5) by (auto simp del: split_paired_All split_paired_Ex)
  obtain st2 l where 2: "foldM (lo_collect_key sd) ks (st1, acc @ [(lp, t, c, i)]) = Some (st2, (acc @ [(lp, t, c, i)]) @ l)"
     "length l = length ks" "lo_effect sd 0 (- real (lo_paid_list l)) st1 st2" "lo_same_other sd st1 st2"
     "\<forall>k \<in> set ks. lo_fresh sd st2 k"
     "\<forall>k. k \<notin> set ks \<longrightarrow> bt_get (positions_of sd st2) k = bt_get (positions_of sd st1) k"
    using Cons.IH [OF prems] by blast
  have "lo_fresh sd st2 k" using 1(3) 2(4,6) Cons.prems(2)
    by (auto simp: lo_fresh_def lo_same_other_def simp del: split_paired_All)
  moreover have "lo_effect sd 0 (- real (lo_paid_list ((lp, t, c, i) # l))) st st2"
    using lo_effect_trans [OF 1(2) 2(3)] by (simp add: lo_paid_list_def)
  moreover have "lo_same_other sd st st2" using 1(4) 2(4) by (simp add: lo_same_other_def)
  ultimately show ?case using 1(1,5) 2 by (intro exI [of _ st2] exI [of _ "(lp, t, c, i) # l"]) auto
qed

lemma lo_all_keys:
  assumes "bt_wf m"
  shows "distinct (map fst m)" "\<forall>k \<in> set (map fst m). bt_get m k \<noteq> None" "k \<notin> set (map fst m) \<Longrightarrow> bt_get m k = None"
  using assms by (auto simp: bt_wf_distinct bt_get_None_iff)

lemma lo_pending_fresh:
  assumes wf: "bt_wf (positions_of sd st)" and fresh: "\<forall>k. lo_fresh sd st k"
  shows "lo_pending sd fee (pools_of sd st) (positions_of sd st) = 0"
proof -
  have "bt_sum (\<lambda>(sp, lp) pos. lo_earned sd fee sp (bt_get (pools_of sd st) sp) pos) (positions_of sd st)
      = bt_sum (\<lambda>_ _. 0) (positions_of sd st)"
    using fresh bt_get_mem [OF wf] by (intro bt_sum_cong) (force simp: lo_fresh_def lo_earned_def)
  also have "\<dots> = 0" using bt_sum_scale [of 0 "\<lambda>_ _. 0" "positions_of sd st"] by simp
  finally show ?thesis by (simp add: lo_pending_def)
qed

lemma lo_collect_side_ok:
  fixes st :: "'lp::linorder limit_pool"
  assumes inv: "lo_inv st"
  shows "\<exists>st' l. foldM (lo_collect_key sd) (map fst (positions_of sd st)) (st, []) = Some (st', l) \<and>
     lo_effect sd 0 (- real (lo_paid_list l)) st st' \<and> lo_same_other sd st st' \<and> (\<forall>k. lo_fresh sd st' k)"
proof -
  note wf = lo_side_invD(2) [OF lo_invD(3) [OF inv, of sd]]
  obtain st' l where 1: "foldM (lo_collect_key sd) (map fst (positions_of sd st)) (st, []) = Some (st', [] @ l)"
     "lo_effect sd 0 (- real (lo_paid_list l)) st st'" "lo_same_other sd st st'"
     "\<forall>k \<in> set (map fst (positions_of sd st)). lo_fresh sd st' k"
     "\<forall>k. k \<notin> set (map fst (positions_of sd st)) \<longrightarrow> bt_get (positions_of sd st') k = bt_get (positions_of sd st) k"
    using lo_collect_keys_ok [OF inv lo_all_keys(1,2) [OF wf], of "[]"] by blast
  have "lo_fresh sd st' k" for k
  proof (cases "k \<in> set (map fst (positions_of sd st))")
    case False
    then have "bt_get (positions_of sd st') k = None" using 1(5) lo_all_keys(3) [OF wf False] by metis
    then show ?thesis by (simp add: lo_fresh_def)
  qed (use 1(4) in blast)
  with 1 show ?thesis by auto
qed

text \<open>\<open>collect_all\<close> never panics; afterwards nothing is owed, and it paid out at most what was owed.\<close>

lemma lo_collect_all_ok:
  fixes st :: "'lp::linorder limit_pool"
  assumes inv: "lo_inv st"
  shows "\<exists>b q st'. lo_collect_all st = Some (\<lparr>base = b, quote = q\<rparr>, st') \<and> lo_inv st' \<and>
     lo_fee_hundredth_pips st' = lo_fee_hundredth_pips st \<and>
     (\<forall>sd. lo_held sd st' = lo_held sd st \<and> (\<forall>k. lo_fresh sd st' k)) \<and>
     real (lo_paid_list b) \<le> lo_owed QuoteToBase st \<and> real (lo_paid_list q) \<le> lo_owed BaseToQuote st"
proof -
  obtain st1 b where 1: "foldM (lo_collect_key QuoteToBase) (map fst (positions_of QuoteToBase st)) (st, []) = Some (st1, b)"
     "lo_effect QuoteToBase 0 (- real (lo_paid_list b)) st st1" "lo_same_other QuoteToBase st st1"
     "\<forall>k. lo_fresh QuoteToBase st1 k"
    using lo_collect_side_ok [OF inv] by blast
  obtain st2 q where 2: "foldM (lo_collect_key BaseToQuote) (map fst (positions_of BaseToQuote st1)) (st1, []) = Some (st2, q)"
     "lo_effect BaseToQuote 0 (- real (lo_paid_list q)) st1 st2" "lo_same_other BaseToQuote st1 st2"
     "\<forall>k. lo_fresh BaseToQuote st2 k"
    using lo_collect_side_ok [OF lo_effect_inv [OF 1(2)]] by blast
  have inv2: "lo_inv st2" using 2(2) by (rule lo_effect_inv)
  have "lo_fresh QuoteToBase st2 k" for k
    using 1(4) lo_fresh_other [OF 2(3)] by (simp del: split_paired_All)
  then have fresh: "\<forall>sd k. lo_fresh sd st2 k" using 2(4) by (metis direction.exhaust)
  have owed0: "lo_owed sd st2 = 0" for sd
    unfolding lo_owed_def using lo_pending_fresh [OF lo_side_invD(2) [OF lo_invD(3) [OF inv2]]] fresh by blast
  have "lo_owed QuoteToBase st2 \<le> lo_owed QuoteToBase st1" "lo_owed QuoteToBase st1 \<le> lo_owed QuoteToBase st - real (lo_paid_list b)"
    "lo_owed BaseToQuote st2 \<le> lo_owed BaseToQuote st1 - real (lo_paid_list q)" "lo_owed BaseToQuote st1 \<le> lo_owed BaseToQuote st"
    using 1(2) 2(2) unfolding lo_effect_def by (smt (verit) direction.distinct(1))+
  moreover have "lo_held sd st2 = lo_held sd st" "lo_fee_hundredth_pips st2 = lo_fee_hundredth_pips st" for sd
    using 1(2) 2(2) by (simp_all add: lo_effect_def)
  moreover have "lo_collect_all st = Some (\<lparr>base = b, quote = q\<rparr>, st2)" using 1(1) 2(1) by (simp add: lo_collect_all_def)
  ultimately show ?thesis using inv2 fresh owed0 [of QuoteToBase] owed0 [of BaseToQuote] by fastforce
qed

lemma lo_owed_fresh:
  assumes "lo_inv st" "\<forall>k. lo_fresh sd st k"
  shows "lo_owed sd st = 0"
  unfolding lo_owed_def using lo_pending_fresh [OF lo_side_invD(2) [OF lo_invD(3) [OF assms(1)]] assms(2)] .

lemma lo_set_fees_ok:
  fixes st :: "'lp::linorder limit_pool"
  assumes inv: "lo_inv st"
  shows "\<exists>r. lo_set_fees fee st = Some r \<and>
    (case r of Inl e \<Rightarrow> \<not> lo_validate_fees fee
     | Inr (m, st') \<Rightarrow> lo_inv st' \<and> lo_fee_hundredth_pips st' = fee \<and>
         (\<forall>sd. lo_held sd st' = lo_held sd st \<and> lo_owed sd st' = 0) \<and>
         real (lo_paid_list (base m)) \<le> lo_owed QuoteToBase st \<and> real (lo_paid_list (quote m)) \<le> lo_owed BaseToQuote st)"
proof (cases "lo_validate_fees fee")
  case True
  obtain b q st' where 1: "lo_collect_all st = Some (\<lparr>base = b, quote = q\<rparr>, st')" "lo_inv st'"
     "\<forall>sd. lo_held sd st' = lo_held sd st" "\<forall>sd k. lo_fresh sd st' k"
     "real (lo_paid_list b) \<le> lo_owed QuoteToBase st" "real (lo_paid_list q) \<le> lo_owed BaseToQuote st"
    using lo_collect_all_ok [OF inv] by blast
  let ?st = "st'\<lparr>lo_fee_hundredth_pips := fee\<rparr>"
  have inv': "lo_inv ?st" using 1(2) True by (simp add: lo_inv_def lo_validate_fees_def)
  moreover have "lo_owed sd ?st = 0" for sd
    using inv' 1(4) by (intro lo_owed_fresh) (simp_all add: lo_fresh_def)
  ultimately show ?thesis using True 1 by (simp add: lo_set_fees_def lo_held_def)
qed (simp add: lo_set_fees_def)

lemma lo_position_of_collect:
  fixes st :: "'lp::linorder limit_pool"
  shows "(lo_position_of sd lp t st :: ('e lo_position_error + _) option) =
    map_option (map_sum id (\<lambda>(c, i, st'). (c, i))) (lo_collect sd lp t st)"
  by (auto simp: lo_position_of_def lo_collect_def lo_inner_collect_def split: bind_splits option.splits sum.splits)

text \<open>The read-only methods never panic either; the depth cannot overflow.\<close>

lemma lo_positions_list_ok:
  fixes st :: "'lp::linorder limit_pool"
  assumes inv: "lo_inv st"
  shows "\<exists>l. lo_positions_list sd st = Some l"
  unfolding lo_positions_list_def
proof (rule mapM_SomeI, clarsimp simp del: sqrt_price_to_price_def)
  fix sp lp pos assume mem: "((sp, lp), pos) \<in> set (positions_of sd st)"
  note side = lo_invD(3) [OF inv, of sd]
  have pos: "bt_get (positions_of sd st) (sp, lp) = Some pos"
    using mem bt_get_mem [OF lo_side_invD(2) [OF side]] by blast
  have sp: "tick_sqrt_price sp" using lo_side_invD(4) [OF side pos] by simp
  obtain t where "tick_at_sqrt_price sp = Some t"
    using tick_at_sqrt_price_total [OF tick_sqrt_price_valid [OF sp]] by blast
  moreover obtain c opt where "collect_from_position sd pos (bt_get (pools_of sd st) sp) (price_of sp)
      (lo_fee_hundredth_pips st) = Some (c, opt)"
    using collect_from_position_inv [OF inv pos] by blast
  ultimately show "\<exists>lp' t c i. do { p \<leftarrow> sqrt_price_to_price sp;
       (collected, option_position) \<leftarrow>
         collect_from_position sd pos (bt_get (pools_of sd st) sp) p (lo_fee_hundredth_pips st);
       t \<leftarrow> tick_at_sqrt_price sp;
       Some (lp, t, collected, case option_position of None \<Rightarrow> lo_info_default | Some p' \<Rightarrow> lo_info p') }
     = Some (lp', t, c, i)"
    using price_of_tick [OF sp] by simp
qed

lemma lo_liquidity_ok:
  fixes st :: "'lp::linorder limit_pool"
  assumes inv: "lo_inv st"
  shows "\<exists>l. lo_liquidity sd st = Some l"
  unfolding lo_liquidity_def
proof (rule mapM_SomeI, clarsimp)
  fix sp fp assume mem: "(sp, fp) \<in> set (pools_of sd st)"
  note side = lo_invD(3) [OF inv, of sd]
  have "tick_sqrt_price sp"
    using mem bt_get_mem [OF lo_side_invD(1) [OF side]] lo_side_invD(3) [OF side] by blast
  then show "\<exists>a b. do { t \<leftarrow> tick_at_sqrt_price sp; Some (t, fp_available fp) } = Some (a, b)"
    using tick_at_sqrt_price_total [OF tick_sqrt_price_valid] by fastforce
qed

lemma foldM_uadd:
  assumes "s + sum_list (map f xs) < 2 ^ w"
  shows "foldM (\<lambda>x acc. uadd w acc (f x)) xs s = Some (s + sum_list (map f xs))"
  using assms
proof (induction xs arbitrary: s)
  case (Cons x xs)
  then have "uadd w s (f x) = Some (s + f x)" by simp
  then show ?case using Cons.IH [of "s + f x"] Cons.prems
    by (simp add: add.assoc del: checked_iffs uadd_def)
qed simp

lemma bt_range_sum:
  "(\<Sum>e \<leftarrow> bt_range lo hi m. f e) = bt_sum (\<lambda>k v. if lo \<le> k \<and> k < hi then f (k, v) else (0::nat)) m"
  by (induction m) (auto simp: bt_range_def bt_sum_def split: if_splits)

lemma lo_depth_ok:
  fixes st :: "'lp::linorder limit_pool"
  assumes inv: "lo_inv st" and p0: "sqrt_price_at_tick t0 = Some p0" and p1: "sqrt_price_at_tick t1 = Some p1"
  shows "lo_depth sd t0 t1 st = Some
    (if t0 \<le> t1
     then Inr (bt_sum (\<lambda>sp fp. if p0 \<le> sp \<and> sp < p1 then fp_available fp else 0) (pools_of sd st))
     else Inl LoDepthInvalidTickRange)"
proof -
  let ?f = "\<lambda>(sp, fp). fp_available fp"
  let ?sum = "bt_sum (\<lambda>sp fp. if p0 \<le> sp \<and> sp < p1 then fp_available fp else 0) (pools_of sd st)"
  note valid = sqrt_price_at_tick_SomeD [OF p0] sqrt_price_at_tick_SomeD [OF p1]
  have le: "p0 \<le> p1 \<longleftrightarrow> t0 \<le> t1"
    using sqrt_price_at_tick_mono [of t0 t1 p0 p1] sqrt_price_at_tick_strict_mono [of t1 t0 p1 p0] p0 p1 valid
    by (metis linorder_not_less)
  have sum: "(\<Sum>e \<leftarrow> bt_range p0 p1 (pools_of sd st). ?f e) = ?sum"
    by (simp only: bt_range_sum prod.case)
  have "?sum \<le> lo_held sd st" unfolding lo_held_def by (rule bt_sum_mono) simp
  then have "0 + (\<Sum>e \<leftarrow> bt_range p0 p1 (pools_of sd st). ?f e) < 2 ^ 256"
    using lo_held_bound [OF inv, of sd] sum by simp
  from foldM_uadd [OF this]
  have "foldM (\<lambda>(_, fp) acc. uadd 256 acc (fp_available fp)) (bt_range p0 p1 (pools_of sd st)) 0 = Some ?sum"
    by (simp add: case_prod_unfold sum [unfolded case_prod_unfold])
  then show ?thesis using valid p0 p1 le by (simp add: lo_depth_def)
qed

section \<open>The prices of a swap\<close>

lemma lo_trade_price:
  assumes fp: "fixed_pool_wf nxt fp" and sp: "0 < price_of sp" and fee: "fee \<le> MAX_LP_FEE"
    and post: "lo_trade_post sd fee sp fp a fp' a' out swapped fees"
  shows "real out * input_rate sd (price_of sp) * fee_factor fee \<le> real a - real a'"
proof (cases fp')
  case None
  then show ?thesis using post by (simp add: lo_trade_post_def)
next
  case (Some fp1)
  define x where "x = float_val (fp_percent_remaining fp1) / float_val (fp_percent_remaining fp)"
  have 1: "a' = 0" "fp_available fp1 + out = fp_available fp"
    "real (fp_available fp) * x \<le> real (fp_available fp1)"
    "real (fp_available fp) * (1 - x) * input_rate sd (price_of sp) * fee_factor fee \<le> real a"
    using post by (simp_all add: lo_trade_post_def Some x_def)
  have "real out \<le> real (fp_available fp) * (1 - x)"
    using 1(2,3) by (simp add: algebra_simps flip: 1(2))
  moreover have "0 \<le> input_rate sd (price_of sp)" by (cases sd) (simp_all add: input_rate_def)
  moreover have "0 \<le> fee_factor fee" using fee_factor(1) [OF fee] by simp
  ultimately have "real out * input_rate sd (price_of sp) * fee_factor fee
      \<le> real (fp_available fp) * (1 - x) * input_rate sd (price_of sp) * fee_factor fee"
    by (intro mult_right_mono)
  with 1 show ?thesis by simp
qed

lemma price_of_mono: "sp \<le> sp' \<Longrightarrow> price_of sp \<le> price_of sp'"
  by (auto simp: price_of_def intro!: div_le_mono mult_le_mono)

lemma input_rate_mono:
  assumes "\<not> sqrt_price_op_more_than sd sp sp'" "0 < price_of sp" "0 < price_of sp'"
  shows "input_rate sd (price_of sp) \<le> input_rate sd (price_of sp')"
  using assms price_of_mono [of sp sp'] price_of_mono [of sp' sp]
  by (cases sd) (auto simp: input_rate_def intro!: divide_left_mono divide_right_mono)

lemma lo_swap_step_price:
  assumes inv: "lo_inv st" and a: "a < 2 ^ 256" and entry: "lo_swap_entry sd limit st a = Some (sp, fp)"
    and step: "lo_swap_step sd (sp, fp) (st, a, tot) = Some (st', a', tot')"
  shows "\<exists>out. tot' = usat_add 256 tot out \<and>
      real out * input_rate sd (price_of sp) * fee_factor (lo_fee_hundredth_pips st) \<le> real a - real a' \<and>
      (\<forall>s. s \<noteq> sp \<longrightarrow> bt_get (pools_of sd st') s = bt_get (pools_of sd st) s)"
proof -
  have get: "bt_get (pools_of sd st) sp = Some fp" by (rule lo_swap_entry_get [OF inv entry])
  have D: "tick_sqrt_price sp" "fixed_pool_wf (lo_next_pool_instance st) fp"
    using lo_side_invD(3) [OF lo_invD(3) [OF inv] get] by simp_all
  obtain fp' out swapped fees where
    f: "lo_swap_fixed_pool sd (lo_fee_hundredth_pips st) sp fp a = Some (fp', a', out, swapped, fees)"
    and tot': "tot' = usat_add 256 tot out" and st': "pools_of sd st' = bt_put sp fp' (pools_of sd st)"
    using step by (auto simp: lo_swap_step_def Let_def bt_put_def split: bind_splits)
  have "lo_trade_post sd (lo_fee_hundredth_pips st) sp fp a fp' a' out swapped fees"
    using lo_swap_fixed_pool_cases [OF D(2,1) lo_invD(1) [OF inv] a, of sd] f by simp
  then show ?thesis
    using lo_trade_price [OF D(2) price_of_tick(2) [OF D(1)] lo_invD(1) [OF inv]] tot' st' by (auto simp: bt_get_put)
qed

lemma usat_add_inject:
  assumes "usat_add w t x = usat_add w t y" "t + x < 2 ^ w - 1"
  shows "y = x"
  using assms unfolding usat_add_def umax_def min_def by (auto split: if_splits)

lemma lo_swap_run_price:
  fixes st st' :: "'lp::linorder limit_pool"
  assumes "lo_swap_run sd limit (st, a, tot) (st', a', tot')"
    and "lo_inv st" "a < 2 ^ 256" "tot + lo_held sd st < 2 ^ 256 - 1"
    and "\<forall>s. bt_get (pools_of sd st) s \<noteq> None \<longrightarrow> \<not> sqrt_price_op_more_than sd best s" "0 < price_of best"
  shows "(real tot' - real tot) * input_rate sd (price_of best) * fee_factor (lo_fee_hundredth_pips st) \<le> real a - real a' \<and>
    (\<forall>l s. limit = Some l \<and> sqrt_price_op_more_than sd s l \<longrightarrow> bt_get (pools_of sd st') s = bt_get (pools_of sd st) s)"
  using assms
proof (induction "(st, a, tot)" "(st', a', tot')" arbitrary: st a tot rule: lo_swap_run.induct)
  case (run_step st a e tot s)
  obtain sp fp where e: "e = (sp, fp)" by (cases e)
  obtain st1 a1 tot1 where s: "s = (st1, a1, tot1)" by (cases s)
  note entry = run_step.hyps(1) [unfolded e] and step = run_step.hyps(2) [unfolded e s] and inv = run_step.prems(1)
  let ?ff = "fee_factor (lo_fee_hundredth_pips st)"
  have get: "bt_get (pools_of sd st) sp = Some fp" by (rule lo_swap_entry_get [OF inv entry])
  obtain out where out: "tot1 = usat_add 256 tot out" "a1 \<le> a" "lo_effect sd (- int out) (real a - real a1) st st1"
    using lo_swap_step_ok [OF inv run_step.prems(2) entry, of tot] step by auto
  have held: "lo_held sd st1 + out = lo_held sd st" using lo_effect_held [OF out(3)] by linarith
  obtain out2 where out2: "tot1 = usat_add 256 tot out2" "real out2 * input_rate sd (price_of sp) * ?ff \<le> real a - real a1"
    "\<forall>s. s \<noteq> sp \<longrightarrow> bt_get (pools_of sd st1) s = bt_get (pools_of sd st) s"
    using lo_swap_step_price [OF inv run_step.prems(2) entry step] by blast
  have "tot + out < 2 ^ 256 - 1" using held run_step.prems(3) by linarith
  then have "out2 = out" by (rule usat_add_inject [OF trans [OF out(1) [symmetric] out2(1)]])
  moreover have tot1: "tot1 = tot + out" using out(1) \<open>tot + out < 2 ^ 256 - 1\<close> usat_add_exact [of tot out 256] by linarith
  moreover have "input_rate sd (price_of best) \<le> input_rate sd (price_of sp)"
    using run_step.prems(4,5) get price_of_tick(2) lo_side_invD(3) [OF lo_invD(3) [OF inv] get]
    by (intro input_rate_mono) auto
  moreover have ff: "0 \<le> ?ff" using fee_factor(1) [OF lo_invD(1) [OF inv]] by simp
  ultimately have "real out * input_rate sd (price_of best) * ?ff \<le> real out * input_rate sd (price_of sp) * ?ff"
    by (intro mult_right_mono mult_left_mono) simp_all
  with out2(2) \<open>out2 = out\<close> have step_le: "real out * input_rate sd (price_of best) * ?ff \<le> real a - real a1" by simp
  have fee1: "lo_fee_hundredth_pips st1 = lo_fee_hundredth_pips st" using out(3) by (simp add: lo_effect_def)
  have best1: "\<forall>s. bt_get (pools_of sd st1) s \<noteq> None \<longrightarrow> \<not> sqrt_price_op_more_than sd best s"
  proof (intro allI impI)
    fix s assume "bt_get (pools_of sd st1) s \<noteq> None"
    then have "bt_get (pools_of sd st) s \<noteq> None" using out2(3) get by (cases "s = sp") auto
    then show "\<not> sqrt_price_op_more_than sd best s" using run_step.prems(4) by blast
  qed
  have pre: "a1 < 2 ^ 256" "tot1 + lo_held sd st1 < 2 ^ 256 - 1"
    using run_step.prems(2,3) out(2) held tot1 by linarith+
  note IH = run_step.hyps(4) [OF s lo_effect_inv [OF out(3)] pre best1 run_step.prems(5), unfolded fee1]
  have "\<forall>l s. limit = Some l \<and> sqrt_price_op_more_than sd s l \<longrightarrow> s \<noteq> sp"
    using lo_swap_entry_SomeD [OF entry] by auto
  then have "\<forall>l s. limit = Some l \<and> sqrt_price_op_more_than sd s l \<longrightarrow> bt_get (pools_of sd st') s = bt_get (pools_of sd st) s"
    using conjunct2 [OF IH] out2(3) by metis
  moreover have "(real tot' - real tot) * input_rate sd (price_of best) * ?ff
      = (real tot' - real tot1) * input_rate sd (price_of best) * ?ff + real out * input_rate sd (price_of best) * ?ff"
    by (simp add: tot1 algebra_simps)
  ultimately show ?case using conjunct1 [OF IH] step_le by simp
qed simp

end
