(* ===== verification/Limit_Ledger.thy ===== *)
theory Limit_Ledger
  imports Limit_Solvency
begin

text \<open>
  The limit order pool as a transition system: a step is one successful call of a method of
  \<open>PoolState\<close> that changes the state, together with the assets that it moves between the
  pool and its callers. The theorems say that the assets add up in every state the calls
  can reach, and that no call in such a state panics, the overflow of
  \<open>lo_swap_overflows\<close> in a swap excepted.
\<close>

section \<open>The assets that a call moves\<close>

text \<open>
  Per direction of the swaps: what the providers deposited of the asset the pools sell and
  what left the pools of it (burned, or the output of swaps); what the swaps paid in of the
  other asset, fees included, and what the providers collected of it.
\<close>

record lo_flows =
  lf_deposited :: "direction \<Rightarrow> nat"
  lf_withdrawn :: "direction \<Rightarrow> nat"
  lf_paid_in :: "direction \<Rightarrow> nat"
  lf_collected :: "direction \<Rightarrow> nat"

definition flow_add :: "direction \<Rightarrow> nat \<Rightarrow> (direction \<Rightarrow> nat) \<Rightarrow> direction \<Rightarrow> nat" where
  "flow_add sd x f = f(sd := f sd + x)"

definition lo_no_flows :: lo_flows where
  "lo_no_flows = \<lparr>lf_deposited = \<lambda>_. 0, lf_withdrawn = \<lambda>_. 0, lf_paid_in = \<lambda>_. 0, lf_collected = \<lambda>_. 0\<rparr>"

definition lo_flow :: "direction \<Rightarrow> nat \<Rightarrow> nat \<Rightarrow> nat \<Rightarrow> nat \<Rightarrow> lo_flows \<Rightarrow> lo_flows" where
  "lo_flow sd d w p c fl = fl\<lparr>lf_deposited := flow_add sd d (lf_deposited fl),
     lf_withdrawn := flow_add sd w (lf_withdrawn fl), lf_paid_in := flow_add sd p (lf_paid_in fl),
     lf_collected := flow_add sd c (lf_collected fl)\<rparr>"

abbreviation lo_payout :: "lo_collected \<Rightarrow> nat" where
  "lo_payout c \<equiv> lc_bought_amount c + lc_fees c"

inductive lo_step :: "'lp::linorder limit_pool \<Rightarrow> lo_flows \<Rightarrow> 'lp limit_pool \<Rightarrow> lo_flows \<Rightarrow> bool" where
  step_collect:
    "(lo_collect sd lp t st :: (unit lo_position_error + _) option) = Some (Inr (c, i, st')) \<Longrightarrow>
     lo_step st fl st' (lo_flow sd 0 0 0 (lo_payout c) fl)"
| step_mint:
    "lo_collect_and_mint sd lp t a st = Some (Inr (c, i, st')) \<Longrightarrow>
     lo_step st fl st' (lo_flow sd a 0 0 (lo_payout c) fl)"
| step_burn:
    "(lo_collect_and_burn sd lp t a st :: (unit lo_position_error + _) option) = Some (Inr (amt, c, i, st')) \<Longrightarrow>
     lo_step st fl st' (lo_flow sd 0 amt 0 (lo_payout c) fl)"
| step_swap:
    "a < 2 ^ 256 \<Longrightarrow> lo_swap sd a limit st = Some (out, a', st') \<Longrightarrow>
     lo_step st fl st' (lo_flow sd 0 out (a - a') 0 fl)"
| step_collect_all:
    "lo_collect_all st = Some (m, st') \<Longrightarrow>
     lo_step st fl st' (lo_flow QuoteToBase 0 0 0 (lo_paid_list (base m))
       (lo_flow BaseToQuote 0 0 0 (lo_paid_list (quote m)) fl))"
| step_set_fees:
    "lo_set_fees fee st = Some (Inr (m, st')) \<Longrightarrow>
     lo_step st fl st' (lo_flow QuoteToBase 0 0 0 (lo_paid_list (base m))
       (lo_flow BaseToQuote 0 0 0 (lo_paid_list (quote m)) fl))"

inductive lo_reachable :: "'lp::linorder limit_pool \<Rightarrow> lo_flows \<Rightarrow> bool" where
  reach_new: "lo_new fee = Inr st \<Longrightarrow> lo_reachable st lo_no_flows"
| reach_step: "lo_reachable st fl \<Longrightarrow> lo_step st fl st' fl' \<Longrightarrow> lo_reachable st' fl'"

inductive_cases lo_stepE: "lo_step st fl st' fl'"

section \<open>The ledger invariant\<close>

definition lo_ledger_inv :: "'lp::linorder limit_pool \<Rightarrow> lo_flows \<Rightarrow> bool" where
  "lo_ledger_inv st fl \<longleftrightarrow> lo_inv st \<and>
     (\<forall>sd. lo_held sd st + lf_withdrawn fl sd = lf_deposited fl sd \<and>
           real (lf_collected fl sd) + lo_owed sd st \<le> real (lf_paid_in fl sd))"

lemma lo_flow_sel [simp]:
  "lf_deposited (lo_flow sd d w p c fl) sd' = lf_deposited fl sd' + (if sd' = sd then d else 0)"
  "lf_withdrawn (lo_flow sd d w p c fl) sd' = lf_withdrawn fl sd' + (if sd' = sd then w else 0)"
  "lf_paid_in (lo_flow sd d w p c fl) sd' = lf_paid_in fl sd' + (if sd' = sd then p else 0)"
  "lf_collected (lo_flow sd d w p c fl) sd' = lf_collected fl sd' + (if sd' = sd then c else 0)"
  by (simp_all add: lo_flow_def flow_add_def)

lemma lo_ledger_effect:
  assumes inv: "lo_ledger_inv st fl" and eff: "lo_effect sd (int d - int w) (real p - real c) st st'"
  shows "lo_ledger_inv st' (lo_flow sd d w p c fl)"
proof -
  have "lo_held sd' st' + lf_withdrawn (lo_flow sd d w p c fl) sd' = lf_deposited (lo_flow sd d w p c fl) sd' \<and>
      real (lf_collected (lo_flow sd d w p c fl) sd') + lo_owed sd' st' \<le> real (lf_paid_in (lo_flow sd d w p c fl) sd')" for sd'
  proof -
    have "int (lo_held sd' st') = int (lo_held sd' st) + (if sd' = sd then int d - int w else 0)"
      "lo_owed sd' st' \<le> lo_owed sd' st + (if sd' = sd then real p - real c else 0)"
      using eff by (simp_all add: lo_effect_def)
    moreover have "lo_held sd' st + lf_withdrawn fl sd' = lf_deposited fl sd'"
      "real (lf_collected fl sd') + lo_owed sd' st \<le> real (lf_paid_in fl sd')"
      using inv by (simp_all add: lo_ledger_inv_def)
    ultimately show ?thesis by (simp split: if_splits)
  qed
  then show ?thesis using lo_effect_inv [OF eff] unfolding lo_ledger_inv_def by blast
qed

lemma lo_ledger_all:
  assumes inv: "lo_ledger_inv st fl" and inv': "lo_inv st'"
    and held: "\<forall>sd. lo_held sd st' = lo_held sd st" and owed: "\<forall>sd. lo_owed sd st' = 0"
    and paid: "real b \<le> lo_owed QuoteToBase st" "real q \<le> lo_owed BaseToQuote st"
  shows "lo_ledger_inv st' (lo_flow QuoteToBase 0 0 0 b (lo_flow BaseToQuote 0 0 0 q fl))"
proof -
  have "real (lf_collected (lo_flow QuoteToBase 0 0 0 b (lo_flow BaseToQuote 0 0 0 q fl)) sd) + lo_owed sd st'
      \<le> real (lf_paid_in fl sd)" for sd
  proof -
    have "real (lf_collected fl sd) + lo_owed sd st \<le> real (lf_paid_in fl sd)"
      using inv by (simp add: lo_ledger_inv_def)
    then show ?thesis using owed paid by (cases sd) simp_all
  qed
  then show ?thesis using inv inv' held by (simp add: lo_ledger_inv_def)
qed

lemma lo_step_ledger:
  assumes "lo_step st fl st' fl'" and inv: "lo_ledger_inv st fl"
  shows "lo_ledger_inv st' fl'"
proof -
  have I: "lo_inv st" using inv by (simp add: lo_ledger_inv_def)
  from assms(1) show ?thesis
  proof cases
    case (step_collect sd lp t c i)
    then show ?thesis
      using lo_ledger_effect [OF inv, of sd 0 0 0 "lo_payout c"] lo_collect_ok [OF I, of sd lp t, where ?'e = unit] by simp
  next
    case (step_mint sd lp t a c i)
    then show ?thesis
      using lo_ledger_effect [OF inv, of sd a 0 0 "lo_payout c"] lo_collect_and_mint_ok [OF I, of sd lp t a] by simp
  next
    case (step_burn sd lp t a amt c i)
    then show ?thesis
      using lo_ledger_effect [OF inv, of sd 0 amt 0 "lo_payout c"]
        lo_collect_and_burn_ok [OF I, of sd lp t a, where ?'e = unit] by simp
  next
    case (step_swap a sd limit out a')
    then show ?thesis
      using lo_ledger_effect [OF inv, of sd 0 out "a - a'" 0] lo_swap_ok [OF I step_swap(2), of sd limit] by simp
  next
    case (step_collect_all m)
    then show ?thesis
      using lo_ledger_all [OF inv] lo_collect_all_ok [OF I] lo_owed_fresh by fastforce
  next
    case (step_set_fees fee m)
    then show ?thesis
      using lo_set_fees_ok [OF I, of fee] by (auto intro!: lo_ledger_all [OF inv])
  qed
qed

lemma lo_reachable_ledger: "lo_reachable st fl \<Longrightarrow> lo_ledger_inv st fl"
proof (induction rule: lo_reachable.induct)
  case (reach_new fee st)
  then show ?case using lo_new_inv [OF reach_new] by (simp add: lo_ledger_inv_def lo_no_flows_def)
qed (rule lo_step_ledger)

lemma lo_reachable_inv: "lo_reachable st fl \<Longrightarrow> lo_inv st"
  using lo_reachable_ledger lo_ledger_inv_def by blast

section \<open>A run of four calls\<close>

definition lo_ex_pool :: "nat \<Rightarrow> nat \<Rightarrow> nat \<Rightarrow> fixed_pools \<Rightarrow> nat lo_positions \<Rightarrow> nat limit_pool" where
  "lo_ex_pool nxt inputs outputs pools ps =
     \<lparr>lo_fee_hundredth_pips = 0, lo_next_pool_instance = nxt,
      lo_fixed_pools = \<lparr>base = pools, quote = []\<rparr>, lo_positions = \<lparr>base = ps, quote = []\<rparr>,
      lo_total_fees_earned = \<lparr>base = 0, quote = 0\<rparr>, lo_total_swap_inputs = \<lparr>base = 0, quote = inputs\<rparr>,
      lo_total_swap_outputs = \<lparr>base = outputs, quote = 0\<rparr>\<rparr>"

definition lo_ex_float :: float01 where
  "lo_ex_float = Float01 96493407697763496186309154173906589877724987221367136699547986673260941366613 0"

definition lo_ex_position :: "nat \<Rightarrow> float01 \<Rightarrow> lo_position" where
  "lo_ex_position a f = \<lparr>lp_pool_instance = 0, lp_amount = a, lp_last_percent_remaining = f,
     lp_accumulative_fees = 0, lp_original_amount = a\<rparr>"

definition lo_ex_fixed :: "nat \<Rightarrow> float01 \<Rightarrow> fixed_pool" where
  "lo_ex_fixed a f = \<lparr>fp_pool_instance = 0, fp_available = a, fp_percent_remaining = f\<rparr>"

definition lo_ex0 :: "nat limit_pool" where
  "lo_ex0 = lo_ex_pool 0 0 0 [] []"

definition lo_ex1 :: "nat limit_pool" where
  "lo_ex1 = lo_ex_pool 1 0 0 [(2 ^ 96, lo_ex_fixed 6 float_max)] [((2 ^ 96, 1), lo_ex_position 6 float_max)]"

definition lo_ex2 :: "nat limit_pool" where
  "lo_ex2 = lo_ex_pool 1 1 0 [(2 ^ 96, lo_ex_fixed 6 lo_ex_float)] [((2 ^ 96, 1), lo_ex_position 6 float_max)]"

definition lo_ex3 :: "nat limit_pool" where
  "lo_ex3 = lo_ex_pool 1 1 0 [(2 ^ 96, lo_ex_fixed 10 lo_ex_float)]
     [((2 ^ 96, 1), lo_ex_position 6 float_max), ((2 ^ 96, 2), lo_ex_position 4 lo_ex_float)]"

lemmas lo_ex_defs = lo_ex0_def lo_ex1_def lo_ex2_def lo_ex3_def lo_ex_pool_def lo_ex_float_def
  lo_ex_position_def lo_ex_fixed_def

lemma lo_ex_tick: "sqrt_price_at_tick 0 = Some 79228162514264337593543950336" "is_tick_valid 0"
  "sqrt_price_to_price 79228162514264337593543950336 = Some 340282366920938463463374607431768211456"
  by (simp_all add: sqrt_price_at_tick_def is_tick_valid_def MIN_TICK_def MAX_TICK_def
        tick_bit_constants_def handle_tick_bit_def sqrt_price_to_price_def is_sqrt_price_valid_def
        MIN_SQRT_PRICE_def MAX_SQRT_PRICE_def SQRT_PRICE_FRACTIONAL_BITS_def PRICE_FRACTIONAL_BITS_def mul_div_floor_def checked_simps)

lemma lo_ex_new: "lo_new 0 = Inr lo_ex0"
  by (simp add: lo_new_def lo_validate_fees_def lo_ex_defs MAX_LP_FEE_def)

lemmas lo_ex_mint_simps = lo_collect_and_mint_def lo_ex_tick lo_mint_target_def lo_mint_into_def lo_ex_defs
  lo_info_def umax_def MAX_FIXED_POOL_LIQUIDITY_def usat_add_def uadd_def float_max_def
  lo_collected_default_def

lemma lo_ex_mint1:
  "lo_collect_and_mint QuoteToBase 1 0 6 lo_ex0 = Some (Inr (lo_collected_default, \<lparr>lpi_amount = 6\<rparr>, lo_ex1))"
  by (simp add: lo_ex_mint_simps)

lemma lo_ex_mint2:
  "lo_collect_and_mint QuoteToBase 2 0 4 lo_ex2 = Some (Inr (lo_collected_default, \<lparr>lpi_amount = 4\<rparr>, lo_ex3))"
  by (simp add: lo_ex_mint_simps)

lemma leading_zeros_eqI:
  assumes "x < 2 ^ (w - z)" "2 ^ (w - z - 1) \<le> x" "z < w"
  shows "leading_zeros w x = z"
proof -
  have x: "0 < x" using assms(2) by (metis gr0I le_zero_eq power_not_zero zero_neq_numeral)
  have "bit_len x - 1 < w - z" "w - z - 1 < bit_len x"
    using bit_len_bounds [OF x] assms(1,2) by (meson le_less_trans power_less_imp_less_exp one_less_numeral_iff semiring_norm(76))+
  then show ?thesis using assms(3) by (simp add: leading_zeros_def)
qed

lemma lo_ex_zeros:
  "leading_zeros 512 578960446186580977117854925043439539266349923328202820197287920039565648199675 = 253"
  "leading_zeros 512 1396646659369020531205627603979775638279100606311707643512870983721017086465982415074233018955362485073439913570690914673863358567490324204419347487129600 = 3"
  "leading_zeros 512 578960446186580977117854925043439539266349923328202820197287920039565648199678 = 253"
  "leading_zeros 512 837987995621412318723376562387865382967460363787024586107722590232610251879593791247886210730545874956001773938959046428742976661645674182051905234639258 = 4"
  by (rule leading_zeros_eqI; simp)+

lemmas lo_ex_float_simps = float_mul_div_ceil_def integer_mul_div_def float_max_def lo_ex_float_def
  assert_valid_def right_shift_mod_def less_eq_float01_def lo_ex_zeros umax_def bit_Suc_0_iff checked_simps

lemma lo_ex_float1: "float_mul_div_ceil float_max 5 6 = Some lo_ex_float"
  by (simp add: lo_ex_float_simps)

lemma lo_ex_float2: "float_mul_div_ceil lo_ex_float 6 10 = None"
  by (simp add: lo_ex_float_simps)

lemma lo_ex_float3: "integer_mul_div 6 lo_ex_float float_max = Some (5, 6)"
  by (simp add: lo_ex_float_simps)

lemmas lo_ex_trade_simps = lo_swap_fixed_pool_def lo_ex_tick ONE_IN_HUNDREDTH_PIPS_def mul_div_floor_def
  mul_div_ceil_def mul_div_def PRICE_FRACTIONAL_BITS_def lo_ex_fixed_def checked_simps

lemma lo_ex_trade1:
  "lo_swap_fixed_pool QuoteToBase 0 79228162514264337593543950336 (lo_ex_fixed 6 float_max) 1
     = Some (Some (lo_ex_fixed 6 lo_ex_float), 0, 0, 1, 0)"
  by (simp add: lo_ex_trade_simps lo_ex_float1 lo_ex_float3)

lemma lo_ex_trade2:
  "lo_swap_fixed_pool QuoteToBase 0 79228162514264337593543950336 (lo_ex_fixed 10 lo_ex_float) 4 = None"
  by (simp add: lo_ex_trade_simps lo_ex_float2)

lemma lo_ex_swap1: "lo_swap QuoteToBase 1 None lo_ex1 = Some (0, 0, lo_ex2)"
  by (simp add: lo_swap_def lo_swap_loop.simps lo_swap_entry_def lo_swap_step_def bt_first_def
      lo_ex1_def lo_ex2_def lo_ex_pool_def lo_ex_trade1 [simplified] usat_add_def umax_def)

lemma lo_ex_swap2: "lo_swap QuoteToBase 4 None lo_ex3 = None"
  by (simp add: lo_swap_def lo_swap_loop.simps lo_swap_entry_def lo_swap_step_def bt_first_def
      lo_ex3_def lo_ex_pool_def lo_ex_trade2)

lemma lo_ex_reachable:
  "lo_reachable lo_ex0 lo_no_flows"
  "lo_reachable lo_ex1 (lo_flow QuoteToBase 6 0 0 0 lo_no_flows)"
  "lo_reachable lo_ex2 (lo_flow QuoteToBase 0 0 1 0 (lo_flow QuoteToBase 6 0 0 0 lo_no_flows))"
  "lo_reachable lo_ex3 (lo_flow QuoteToBase 4 0 0 0 (lo_flow QuoteToBase 0 0 1 0 (lo_flow QuoteToBase 6 0 0 0 lo_no_flows)))"
proof -
  show 0: "lo_reachable lo_ex0 lo_no_flows" using lo_ex_new by (rule reach_new)
  show 1: "lo_reachable lo_ex1 (lo_flow QuoteToBase 6 0 0 0 lo_no_flows)"
    using reach_step [OF 0 step_mint [OF lo_ex_mint1]] by (simp add: lo_collected_default_def)
  show 2: "lo_reachable lo_ex2 (lo_flow QuoteToBase 0 0 1 0 (lo_flow QuoteToBase 6 0 0 0 lo_no_flows))"
    using reach_step [OF 1 step_swap [OF _ lo_ex_swap1]] by simp
  show "lo_reachable lo_ex3 (lo_flow QuoteToBase 4 0 0 0 (lo_flow QuoteToBase 0 0 1 0 (lo_flow QuoteToBase 6 0 0 0 lo_no_flows)))"
    using reach_step [OF 2 step_mint [OF lo_ex_mint2]] by (simp add: lo_collected_default_def)
qed

lemma lo_ex_entry3:
  "lo_swap_entry QuoteToBase None lo_ex3 4 = Some (79228162514264337593543950336, lo_ex_fixed 10 lo_ex_float)"
  by (simp add: lo_swap_entry_def bt_first_def lo_ex3_def lo_ex_pool_def)

text \<open>A second pool, at tick 1, and a swap whose limit is the price of tick 0: it buys all of the first pool only.\<close>

definition lo_ex_tick1_pools :: fixed_pools where
  "lo_ex_tick1_pools =
     [(79232123823359799118286999568, \<lparr>fp_pool_instance = 1, fp_available = 5, fp_percent_remaining = float_max\<rparr>)]"

definition lo_ex_tick1_positions :: "nat lo_positions" where
  "lo_ex_tick1_positions = [((2 ^ 96, 1), lo_ex_position 6 float_max),
     ((79232123823359799118286999568, 3), (lo_ex_position 5 float_max)\<lparr>lp_pool_instance := 1\<rparr>)]"

definition lo_ex4 :: "nat limit_pool" where
  "lo_ex4 = lo_ex_pool 2 0 0 ((2 ^ 96, lo_ex_fixed 6 float_max) # lo_ex_tick1_pools) lo_ex_tick1_positions"

definition lo_ex5 :: "nat limit_pool" where
  "lo_ex5 = lo_ex_pool 2 6 6 lo_ex_tick1_pools lo_ex_tick1_positions"

lemma lo_ex_tick1: "sqrt_price_at_tick 1 = Some 79232123823359799118286999568" "is_tick_valid 1"
  "sqrt_price_to_price 79232123823359799118286999568 = Some 340316395157630557309720944898007205646"
  by (simp_all add: sqrt_price_at_tick_def is_tick_valid_def MIN_TICK_def MAX_TICK_def tick_bit_constants_def
      handle_tick_bit_def umax_def bit_Suc_0_iff sqrt_price_to_price_def is_sqrt_price_valid_def MIN_SQRT_PRICE_def
      MAX_SQRT_PRICE_def SQRT_PRICE_FRACTIONAL_BITS_def PRICE_FRACTIONAL_BITS_def mul_div_floor_def checked_simps)

lemma lo_ex_mint3:
  "lo_collect_and_mint QuoteToBase 3 1 5 lo_ex1 = Some (Inr (lo_collected_default, \<lparr>lpi_amount = 5\<rparr>, lo_ex4))"
  by (simp add: lo_ex_mint_simps lo_ex_tick1 lo_ex4_def lo_ex_tick1_pools_def lo_ex_tick1_positions_def)

lemma lo_ex_trade3:
  "lo_swap_fixed_pool QuoteToBase 0 79228162514264337593543950336 (lo_ex_fixed 6 float_max) 7 = Some (None, 1, 6, 6, 0)"
  by (simp add: lo_ex_trade_simps)

lemma lo_ex_swap3: "lo_swap QuoteToBase 7 (Some 79228162514264337593543950336) lo_ex4 = Some (6, 1, lo_ex5)"
  by (simp add: lo_swap_def lo_swap_loop.simps lo_swap_entry_def lo_swap_step_def bt_first_def
      lo_ex4_def lo_ex5_def lo_ex_pool_def lo_ex_trade3 lo_ex_tick1_pools_def bt_remove_def opt_filter_def usat_add_def umax_def)

lemma lo_ex4_reachable: "\<exists>fl. lo_reachable lo_ex4 fl"
  using reach_step [OF lo_ex_reachable(2) step_mint [OF lo_ex_mint3]] by blast

section \<open>Properties\<close>

lemma lo_owed_nonneg:
  assumes inv: "lo_inv st"
  shows "0 \<le> lo_owed sd st"
proof -
  note side = lo_invD(3) [OF inv, of sd]
  have "0 \<le> lo_earned sd (lo_fee_hundredth_pips st) sp (bt_get (pools_of sd st) sp) pos"
    if "((sp, lp), pos) \<in> set (positions_of sd st)" for sp lp pos
  proof -
    have "bt_get (positions_of sd st) (sp, lp) = Some pos"
      using that bt_get_mem [OF lo_side_invD(2) [OF side]] by blast
    then have "0 \<le> real (lp_amount pos) - lo_remaining (bt_get (pools_of sd st) sp) pos"
      using lo_remaining_nonneg(2) [OF side] by simp
    moreover have "0 \<le> input_rate sd (price_of sp)" by (cases sd) (simp_all add: input_rate_def)
    moreover have "0 \<le> fee_factor (lo_fee_hundredth_pips st)"
      using fee_factor(1) [OF lo_invD(1) [OF inv]] by simp
    ultimately show ?thesis by (simp add: lo_earned_def)
  qed
  then show ?thesis unfolding lo_owed_def lo_pending_def by (intro bt_sum_nonneg) auto
qed

text \<open>
  C13. Solvency: in every state that calls of the pool can reach, what the pools of a
  direction hold is exactly what was minted less what was burned or swapped out, the
  positions at a price can together claim at most what the pool at that price holds, and the
  providers have not collected more than the swaps paid in.
\<close>

theorem limit_pool_solvent:
  assumes "lo_reachable st fl"
  shows "lo_held sd st + lf_withdrawn fl sd = lf_deposited fl sd \<and>
    (\<forall>sp fp. bt_get (pools_of sd st) sp = Some fp \<longrightarrow>
       lo_claims (pools_of sd st) (positions_of sd st) sp \<le> real (fp_available fp)) \<and>
    lf_collected fl sd \<le> lf_paid_in fl sd"
proof -
  note L = lo_reachable_ledger [OF assms]
  note inv = lo_reachable_inv [OF assms]
  have "real (lf_collected fl sd) + lo_owed sd st \<le> real (lf_paid_in fl sd)"
    using L by (simp add: lo_ledger_inv_def)
  then have "lf_collected fl sd \<le> lf_paid_in fl sd" using lo_owed_nonneg [OF inv, of sd] by simp
  then show ?thesis
    using L lo_side_invD(3) [OF lo_invD(3) [OF inv]] by (simp add: lo_ledger_inv_def)
qed

theorem limit_pool_solvent_witness:
  "lo_held QuoteToBase lo_ex3 = 10 \<and>
   lo_claims (pools_of QuoteToBase lo_ex3) (positions_of QuoteToBase lo_ex3) 79228162514264337593543950336 \<le> 10"
proof -
  have "bt_get (pools_of QuoteToBase lo_ex3) 79228162514264337593543950336 = Some (lo_ex_fixed 10 lo_ex_float)"
    by (simp add: lo_ex3_def lo_ex_pool_def)
  moreover have "real (fp_available (lo_ex_fixed 10 lo_ex_float)) = 10" by (simp add: lo_ex_fixed_def)
  ultimately show ?thesis
    using limit_pool_solvent [OF lo_ex_reachable(4), of QuoteToBase] by (fastforce simp: lo_no_flows_def)
qed

text \<open>
  C14. No method of the pool but \<open>swap\<close> panics in a reachable state, whatever its arguments:
  collecting, minting, burning, reading positions, liquidity or depth, collecting everything
  and changing the fee all return, with a value or an error.
\<close>

theorem limit_pool_never_panics:
  fixes st :: "'lp::linorder limit_pool"
  assumes "lo_reachable st fl"
  shows "(lo_collect sd lp t st :: (unit lo_position_error + _) option) \<noteq> None \<and>
    lo_collect_and_mint sd lp t a st \<noteq> None \<and>
    (lo_collect_and_burn sd lp t a st :: (unit lo_position_error + _) option) \<noteq> None \<and>
    (lo_position_of sd lp t st :: (unit lo_position_error + _) option) \<noteq> None \<and>
    lo_positions_list sd st \<noteq> None \<and> lo_liquidity sd st \<noteq> None \<and> lo_depth sd t t' st \<noteq> None \<and>
    lo_collect_all st \<noteq> None \<and> lo_set_fees fee st \<noteq> None"
proof -
  note inv = lo_reachable_inv [OF assms]
  have "(lo_collect sd lp t st :: (unit lo_position_error + _) option) \<noteq> None"
    using lo_collect_ok [OF inv, of sd lp t, where ?'e = unit] by auto
  moreover have "lo_collect_and_mint sd lp t a st \<noteq> None" using lo_collect_and_mint_ok [OF inv, of sd lp t a] by auto
  moreover have "(lo_collect_and_burn sd lp t a st :: (unit lo_position_error + _) option) \<noteq> None"
    using lo_collect_and_burn_ok [OF inv, of sd lp t a, where ?'e = unit] by auto
  moreover have "lo_depth sd t t' st \<noteq> None"
  proof (cases "is_tick_valid t \<and> is_tick_valid t'")
    case True
    then obtain p p' where "sqrt_price_at_tick t = Some p" "sqrt_price_at_tick t' = Some p'"
      using valid_tick_price by metis
    then show ?thesis using lo_depth_ok [OF inv] by simp
  next
    case False
    have "\<exists>r. (lo_validate_tick t :: (unit lo_position_error + _) option) = Some r" 
      by (cases "is_tick_valid t") (metis lo_validate_tick(1) valid_tick_price, simp)
    with False show ?thesis by (auto simp: lo_depth_def split: sum.splits)
  qed
  ultimately show ?thesis
    using lo_positions_list_ok [OF inv, of sd] lo_liquidity_ok [OF inv, of sd] lo_collect_all_ok [OF inv]
      lo_set_fees_ok [OF inv, of fee] by (auto simp: lo_position_of_collect)
qed

theorem limit_pool_never_panics_witness:
  "lo_collect_and_mint QuoteToBase 7 (-3) 100 lo_ex3 \<noteq> None \<and> lo_set_fees 3000 lo_ex3 \<noteq> None"
  using limit_pool_never_panics [OF lo_ex_reachable(4)] by blast

text \<open>
  C15. \<open>swap\<close> ends for every input. It either returns, with all the input used or no pool left
  whose price is within the limit, or it panics in a trade whose new percentage overflows.
\<close>

theorem limit_swap_returns:
  fixes st :: "'lp::linorder limit_pool"
  assumes "lo_reachable st fl" "a < 2 ^ 256"
  shows "case lo_swap sd a limit st of
      None \<Rightarrow> \<exists>(st2 :: 'lp limit_pool) a2 tot2 sp fp. lo_swap_run sd limit (st, a, 0) (st2, a2, tot2) \<and>
        lo_swap_entry sd limit st2 a2 = Some (sp, fp) \<and> lo_swap_overflows sd (lo_fee_hundredth_pips st) sp fp a2
    | Some (out, a', st') \<Rightarrow> a' \<le> a \<and> out \<le> lo_held sd st \<and> lo_swap_entry sd limit st' a' = None"
proof (cases "lo_swap sd a limit st")
  case None
  then show ?thesis using lo_swap_ok [OF lo_reachable_inv [OF assms(1)] assms(2), of sd limit] by auto
next
  case (Some r)
  obtain out a' st' where r: "r = (out, a', st')" by (cases r)
  have 1: "a' \<le> a" "lo_effect sd (- int out) (real a - real a') st st'" "lo_swap_entry sd limit st' a' = None"
    using Some lo_swap_ok [OF lo_reachable_inv [OF assms(1)] assms(2), of sd limit] by (auto simp: r)
  have "out \<le> lo_held sd st" using lo_effect_held [OF 1(2)] by simp
  with 1 show ?thesis by (simp add: Some r)
qed

theorem limit_swap_returns_witness:
  "lo_swap QuoteToBase 1 None lo_ex1 = Some (0, 0, lo_ex2) \<and> lo_swap_entry QuoteToBase None lo_ex2 0 = None \<and>
   lo_swap QuoteToBase 4 None lo_ex3 = None \<and>
   (\<exists>st2 a2 tot2 sp fp. lo_swap_run QuoteToBase None (lo_ex3, 4, 0) (st2, a2, tot2) \<and>
     lo_swap_entry QuoteToBase None st2 a2 = Some (sp, fp) \<and>
     lo_swap_overflows QuoteToBase (lo_fee_hundredth_pips lo_ex3) sp fp a2)"
  using limit_swap_returns [OF lo_ex_reachable(2), of 1 QuoteToBase None] lo_ex_swap1
    limit_swap_returns [OF lo_ex_reachable(4), of 4 QuoteToBase None] lo_ex_swap2 by simp

text \<open>
  C19. The overflow is reachable, although \<open>swap\<close> is documented to never panic: in a new pool
  with no fee, after a mint of 6, a swap of 1 and a mint of 4 by another provider, all at
  tick 0, a swap of 4 panics, because the mantissa of the new percentage of the pool it
  trades with is \<open>2 ^ 256\<close>.
\<close>

theorem limit_swap_can_panic:
  "\<exists>(st0 :: nat limit_pool) st1 st2 st3. lo_new 0 = Inr st0 \<and>
     lo_collect_and_mint QuoteToBase 1 0 6 st0 = Some (Inr (lo_collected_default, \<lparr>lpi_amount = 6\<rparr>, st1)) \<and>
     lo_swap QuoteToBase 1 None st1 = Some (0, 0, st2) \<and>
     lo_collect_and_mint QuoteToBase 2 0 4 st2 = Some (Inr (lo_collected_default, \<lparr>lpi_amount = 4\<rparr>, st3)) \<and>
     (\<exists>sp fp. lo_swap_entry QuoteToBase None st3 4 = Some (sp, fp) \<and> lo_swap_overflows QuoteToBase 0 sp fp 4) \<and>
     lo_swap QuoteToBase 4 None st3 = None"
proof -
  have "\<exists>sp fp. lo_swap_entry QuoteToBase None lo_ex3 4 = Some (sp, fp) \<and> lo_swap_overflows QuoteToBase 0 sp fp 4"
    using lo_swap_step_ok [OF lo_reachable_inv [OF lo_ex_reachable(4)] _ lo_ex_entry3, of 0] lo_ex_entry3
    by (simp add: lo_swap_step_def lo_ex_trade2 lo_ex3_def lo_ex_pool_def)
  with lo_ex_new lo_ex_mint1 lo_ex_swap1 lo_ex_mint2 lo_ex_swap2 show ?thesis by blast
qed

text \<open>
  \<open>position\<close> reports exactly what \<open>collect\<close> would return at the same place, errors
  included, without changing the state.
\<close>

theorem limit_position_is_collect:
  fixes st :: "'lp::linorder limit_pool"
  shows "(lo_position_of sd lp t st :: ('e lo_position_error + _) option) =
    map_option (map_sum id (\<lambda>(c, i, st'). (c, i))) (lo_collect sd lp t st)"
  by (rule lo_position_of_collect)

lemma integer_mul_div_self:
  assumes "float_wf f" "x < 2 ^ 256"
  shows "integer_mul_div x f f = Some (x, x)"
proof -
  have "float_val f \<noteq> 0" using float_val_pos [OF assms(1)] by simp
  moreover obtain fl cl where "integer_mul_div x f f = Some (fl, cl)" "fl \<le> cl" "cl \<le> x"
    "real x * (float_val f / float_val f) < real fl + 1"
    using integer_mul_div_real [OF assms(1,1) order.refl assms(2)] .
  ultimately show ?thesis by simp
qed

lemma input_amount_floor_0: "input_amount_floor sd 0 p = Some x \<Longrightarrow> x = 0"
  by (cases sd) (auto simp: output_amount_floor_def)

text \<open>What \<open>collect_and_mint\<close> stores for a provider without a position at the price.\<close>

lemma lo_mint_new_position:
  fixes st :: "'lp::linorder limit_pool"
  assumes sp: "sqrt_price_at_tick t = Some sp" and a: "0 < a"
    and none: "bt_get (positions_of sd st) (sp, lp) = None"
    and mint: "lo_collect_and_mint sd lp t a st = Some (Inr (c, i, st'))"
  obtains fp pos where "c = lo_collected_default" "bt_get (pools_of sd st') sp = Some fp" "bt_get (positions_of sd st') (sp, lp) = Some pos"
    "lp_amount pos = a" "lp_pool_instance pos = fp_pool_instance fp"
    "lp_last_percent_remaining pos = fp_percent_remaining fp" "lp_original_amount pos = a"
proof -
  have v: "is_tick_valid t" using sqrt_price_at_tick_SomeD [OF sp] by simp
  obtain pos fp nxt where 1: "lo_mint_target None (bt_get (pools_of sd st) sp) (lo_next_pool_instance st) = Some (Inr (pos, fp, nxt))"
    "lo_mint_into sd lp sp a lo_collected_default pos fp nxt st = Some (Inr (c, i, st'))"
    using mint a v sp none
    by (auto simp: lo_collect_and_mint_def split: bind_splits sum.splits)
  have "lp_amount pos = 0" "lp_pool_instance pos = fp_pool_instance fp" "lp_last_percent_remaining pos = fp_percent_remaining fp"
    using 1(1) by (auto simp: lo_mint_target_def Let_def split: option.splits)
  with 1(2) show thesis
    by (intro that [of "fp\<lparr>fp_available := usat_add 256 (fp_available fp) a\<rparr>"
          "pos\<lparr>lp_amount := a, lp_original_amount := a\<rparr>"])
       (auto simp: lo_mint_into_def Let_def split: if_splits bind_splits)
qed

text \<open>
  C18. Round trip: burning what was just minted into a new position returns exactly the
  minted amount, pays nothing else, removes the position and leaves what the pools hold and
  owe as before the mint.
\<close>

theorem limit_mint_burn_roundtrip:
  fixes st :: "'lp::linorder limit_pool"
  assumes reach: "lo_reachable st fl" and sp: "sqrt_price_at_tick t = Some sp" and a: "0 < a"
    and none: "bt_get (positions_of sd st) (sp, lp) = None"
    and mint: "lo_collect_and_mint sd lp t a st = Some (Inr (c, i, st'))"
  shows "\<exists>c' st''. (lo_collect_and_burn sd lp t a st' :: (unit lo_position_error + _) option)
       = Some (Inr (a, c', \<lparr>lpi_amount = 0\<rparr>, st'')) \<and>
     lc_bought_amount c' = 0 \<and> lc_fees c' = 0 \<and>
     bt_get (positions_of sd st'') (sp, lp) = None \<and> lo_held sd st'' = lo_held sd st"
proof -
  obtain fp pos where p: "bt_get (pools_of sd st') sp = Some fp" "bt_get (positions_of sd st') (sp, lp) = Some pos"
    "lp_amount pos = a" "lp_pool_instance pos = fp_pool_instance fp"
    "lp_last_percent_remaining pos = fp_percent_remaining fp"
    using lo_mint_new_position [OF sp a none mint] by metis
  have eff: "lo_effect sd (int a) (- paid_out c) st st'"
    using lo_collect_and_mint_ok [OF lo_reachable_inv [OF reach], of sd lp t a] mint by simp
  note inv = lo_effect_inv [OF eff]
  note D = lo_side_invD [OF lo_invD(3) [OF inv, of sd]]
  have v: "is_tick_valid t" "tick_sqrt_price sp" using sqrt_price_at_tick_SomeD [OF sp] D(3) [OF p(1)] by simp_all
  have wf: "float_wf (fp_percent_remaining fp)" "a < 2 ^ 256"
    using D(3) [OF p(1)] D(4) [OF p(2)] p(3)
    by (auto simp: fixed_pool_wf_def lo_position_wf_def MAX_FIXED_POOL_LIQUIDITY_eq)
  obtain r where r: "(lo_collect_and_burn sd lp t a st' :: (unit lo_position_error + _) option) = Some r"
    "case r of Inl e \<Rightarrow> True | Inr (amt, c, i, st'') \<Rightarrow> amt \<le> a \<and> lo_effect sd (- int amt) (- paid_out c) st' st''"
    using lo_collect_and_burn_ok [OF inv, of sd lp t a, where ?'e = unit] by blast
  have "\<exists>c' st''. r = Inr (a, c', \<lparr>lpi_amount = 0\<rparr>, st'') \<and> lc_bought_amount c' = 0 \<and> lc_fees c' = 0 \<and>
      bt_get (positions_of sd st'') (sp, lp) = None"
    using r(1) a sp v(1) p price_of_tick(1) [OF v(2)] integer_mul_div_self [OF wf]
    by (auto simp: lo_collect_and_burn_def collect_from_position_def lo_burn_from_def lo_info_def Let_def
        split: bind_splits dest!: input_amount_floor_0)
  then obtain c' st'' where r': "r = Inr (a, c', \<lparr>lpi_amount = 0\<rparr>, st'')" "lc_bought_amount c' = 0" "lc_fees c' = 0"
    "bt_get (positions_of sd st'') (sp, lp) = None" by blast
  have "lo_effect sd (- int a) (- paid_out c') st' st''" using r(2) r'(1) by simp
  then have "lo_held sd st'' = lo_held sd st" using lo_effect_held [OF eff] lo_effect_held by fastforce
  with r(1) r' show ?thesis by blast
qed

theorem limit_mint_burn_roundtrip_witness:
  "\<exists>c' st''. (lo_collect_and_burn QuoteToBase 1 0 6 lo_ex1 :: (unit lo_position_error + _) option)
       = Some (Inr (6, c', \<lparr>lpi_amount = 0\<rparr>, st'')) \<and>
     lc_bought_amount c' = 0 \<and> lc_fees c' = 0 \<and>
     bt_get (positions_of QuoteToBase st'') (79228162514264337593543950336, 1) = None \<and>
     lo_held QuoteToBase st'' = lo_held QuoteToBase lo_ex0"
  by (rule limit_mint_burn_roundtrip [OF lo_ex_reachable(1) lo_ex_tick(1) _ _ lo_ex_mint1])
     (simp_all add: lo_ex0_def lo_ex_pool_def)

text \<open>
  The depth between two ticks is the amount on sale in the pools whose price is from that of
  the first tick up to but not including that of the second; ticks in the wrong order are an
  error.
\<close>

theorem limit_depth_is_sum:
  fixes st :: "'lp::linorder limit_pool"
  assumes "lo_reachable st fl" "sqrt_price_at_tick t0 = Some p0" "sqrt_price_at_tick t1 = Some p1"
  shows "lo_depth sd t0 t1 st = Some
    (if t0 \<le> t1
     then Inr (bt_sum (\<lambda>sp fp. if p0 \<le> sp \<and> sp < p1 then fp_available fp else 0) (pools_of sd st))
     else Inl LoDepthInvalidTickRange)"
  using lo_depth_ok [OF lo_reachable_inv [OF assms(1)] assms(2,3)] .

theorem limit_depth_is_sum_witness:
  "lo_depth QuoteToBase 0 0 lo_ex3 = Some (Inr 0)"
  using limit_depth_is_sum [OF lo_ex_reachable(4) lo_ex_tick(1,1), of QuoteToBase]
  by (simp add: lo_ex3_def lo_ex_pool_def)

text \<open>
  C17. Prices of a swap that returns: the swapper pays at least the best price on sale, fee
  included, for all that they get, and pools whose price is beyond the limit are untouched.
\<close>

theorem limit_swap_price:
  fixes st :: "'lp::linorder limit_pool"
  assumes reach: "lo_reachable st fl" and a: "a < 2 ^ 256"
    and best: "lo_current_sqrt_price sd st = Some best"
    and swap: "lo_swap sd a limit st = Some (out, a', st')"
  shows "real out * input_rate sd (price_of best) * fee_factor (lo_fee_hundredth_pips st) \<le> real a - real a' \<and>
    (\<forall>l s. limit = Some l \<and> sqrt_price_op_more_than sd s l \<longrightarrow> bt_get (pools_of sd st') s = bt_get (pools_of sd st) s)"
proof -
  note inv = lo_reachable_inv [OF reach]
  have tot: "0 + lo_held sd st < 2 ^ 256 - 1" using lo_held_bound [OF inv, of sd] by simp
  obtain st1 where loop: "lo_swap_loop sd limit (st, a, 0) = Some (st1, a', out)" and st': "lo_fixed_pools st' = lo_fixed_pools st1"
    using swap by (auto simp: lo_swap_def split: bind_splits)
  have run: "lo_swap_run sd limit (st, a, 0) (st1, a', out)"
    using lo_swap_loop_run [of sd limit st a 0] loop by simp
  obtain fp where fp: "best_priced_fixed_pool sd (pools_of sd st) = Some (best, fp)"
    using best by (auto simp: lo_current_sqrt_price_def)
  note wf = lo_side_invD(1) [OF lo_invD(3) [OF inv, of sd]]
  have get: "bt_get (pools_of sd st) best = Some fp"
    using best_priced_fixed_pool_mem [OF fp] bt_get_mem [OF wf] by blast
  have least: "\<forall>s. bt_get (pools_of sd st) s \<noteq> None \<longrightarrow> \<not> sqrt_price_op_more_than sd best s"
    using fp bt.first_least [OF wf] bt.last_greatest [OF wf] by (cases sd) (auto simp: not_less)
  have "0 < price_of best" using price_of_tick(2) lo_side_invD(3) [OF lo_invD(3) [OF inv] get] by blast
  from lo_swap_run_price [OF run inv a tot least this] show ?thesis by (simp add: st') blast
qed

theorem limit_swap_price_witness:
  "lo_swap QuoteToBase 7 (Some 79228162514264337593543950336) lo_ex4 = Some (6, 1, lo_ex5) \<and>
   real 6 * input_rate QuoteToBase (price_of 79228162514264337593543950336) * fee_factor (lo_fee_hundredth_pips lo_ex4)
     \<le> real 7 - real 1 \<and>
   bt_get (pools_of QuoteToBase lo_ex5) 79232123823359799118286999568
     = bt_get (pools_of QuoteToBase lo_ex4) 79232123823359799118286999568"
proof -
  obtain fl where "lo_reachable lo_ex4 fl" using lo_ex4_reachable by blast
  moreover have "lo_current_sqrt_price QuoteToBase lo_ex4 = Some 79228162514264337593543950336"
    by (simp add: lo_current_sqrt_price_def lo_ex4_def lo_ex_pool_def lo_ex_tick1_pools_def bt_first_def)
  moreover have "(7 :: nat) < 2 ^ 256" "sqrt_price_op_more_than QuoteToBase 79232123823359799118286999568 79228162514264337593543950336"
    by simp_all
  ultimately show ?thesis using limit_swap_price [OF _ _ _ lo_ex_swap3] lo_ex_swap3 by blast
qed

end
