(* ===== verification/Range_Orders.thy ===== *)
theory Range_Orders
  imports Amm_Tick_Math
begin

text \<open>
  Model of \<open>state-chain/amm/src/range_orders.rs\<close>: the concentrated liquidity pool. Liquidity
  is constant between two neighbouring ticks of \<open>liquidity_map\<close>, and a swap walks from tick to
  tick. A method of \<open>PoolState\<close> is a function of the state that returns the new state with its
  result; an \<open>Err\<close> carries no state because no method changes the state before it fails. The
  callback \<open>try_debit\<close> of \<open>collect_and_mint\<close> is an argument of its model.
\<close>

type_synonym liquidity = nat

definition MAX_TICK_GROSS_LIQUIDITY :: liquidity where
  "MAX_TICK_GROSS_LIQUIDITY = umax 128 div nat (1 + MAX_TICK - MIN_TICK)"

section \<open>State\<close>

record ro_position =
  rp_liquidity :: liquidity
  rp_last_fee_growth_inside :: "nat pool_pairs_map"
  rp_accumulative_fees :: "amount pool_pairs_map"
  rp_original_sqrt_price :: sqrt_price

record tick_delta =
  td_liquidity_delta :: int
  td_liquidity_gross :: nat
  td_fee_growth_outside :: "nat pool_pairs_map"

type_synonym liquidity_map = "(tick, tick_delta) btree_map"
type_synonym 'lp ro_positions_map = "('lp \<times> tick \<times> tick, ro_position) btree_map"

record 'lp range_pool =
  ro_fee_hundredth_pips :: nat
  ro_sqrt_price :: sqrt_price
  ro_tick :: tick
  ro_current_liquidity :: liquidity
  ro_global_fee_growth :: "nat pool_pairs_map"
  ro_liquidity_map :: liquidity_map
  ro_positions :: "'lp ro_positions_map"
  ro_total_fees_earned :: "amount pool_pairs_map"
  ro_total_swap_inputs :: "amount pool_pairs_map"
  ro_total_swap_outputs :: "amount pool_pairs_map"

datatype ro_new_error = RoNewInvalidFeeAmount | RoNewInvalidInitialPrice

datatype 'e ro_mint_error =
  RoMaximumGrossLiquidity | RoMintAssetRatioUnachieveable | RoCallbackFailed 'e

datatype 'e ro_position_error = RoInvalidTickRange | RoNonExistent | RoOther 'e

datatype ro_burn_error = RoBurnAssetRatioUnachieveable

datatype ro_asset_ratio_error = RoRatioInvalidTickRange

datatype ro_depth_error = RoDepthInvalidTick | RoDepthInvalidTickRange

datatype ro_amounts_error = RoAmountsInvalidTickRange | RoAmountsLiquidityTooLarge

record ro_collected =
  rc_fees :: "amount pool_pairs_map"
  rc_accumulative_fees :: "amount pool_pairs_map"
  rc_original_sqrt_price :: sqrt_price

datatype ro_size =
  SizeLiquidity liquidity
| SizeAmount (size_maximum: "amount pool_pairs_map") (size_minimum: "amount pool_pairs_map")

record ro_position_info =
  rpi_liquidity :: liquidity

definition ro_info :: "ro_position \<Rightarrow> ro_position_info" where
  "ro_info p = \<lparr>rpi_liquidity = rp_liquidity p\<rparr>"

section \<open>Fees of a position\<close>

definition fee_growth_inside ::
    "'lp range_pool \<Rightarrow> tick \<Rightarrow> tick_delta \<Rightarrow> tick \<Rightarrow> tick_delta \<Rightarrow> pairs \<Rightarrow> nat option" where
  "fee_growth_inside st lower_tick lower_delta upper_tick upper_delta side =
     do { fee_growth_below \<leftarrow>
            (if ro_tick st < lower_tick
             then usub (pp_index (ro_global_fee_growth st) side) (pp_index (td_fee_growth_outside lower_delta) side)
             else Some (pp_index (td_fee_growth_outside lower_delta) side));
          fee_growth_above \<leftarrow>
            (if ro_tick st < upper_tick
             then Some (pp_index (td_fee_growth_outside upper_delta) side)
             else usub (pp_index (ro_global_fee_growth st) side) (pp_index (td_fee_growth_outside upper_delta) side));
          x \<leftarrow> usub (pp_index (ro_global_fee_growth st) side) fee_growth_below;
          usub x fee_growth_above }"

definition ro_collect_fees ::
    "'lp range_pool \<Rightarrow> tick \<Rightarrow> tick_delta \<Rightarrow> tick \<Rightarrow> tick_delta \<Rightarrow> ro_position \<Rightarrow>
     (ro_collected \<times> ro_position) option" where
  "ro_collect_fees st lower_tick lower_delta upper_tick upper_delta position =
     do { inside \<leftarrow> pp_map_with_pairM
            (\<lambda>side _. fee_growth_inside st lower_tick lower_delta upper_tick upper_delta side)
            \<lparr>base = (), quote = ()\<rparr>;
          fees \<leftarrow> pp_map_with_pairM
            (\<lambda>side _. do { growth \<leftarrow> usub (pp_index inside side) (pp_index (rp_last_fee_growth_inside position) side);
                           mul_div_floor growth (rp_liquidity position) (ushl 512 1 128) })
            \<lparr>base = (), quote = ()\<rparr>;
          let accumulative_fees = pp_map_with_pair
            (\<lambda>side acc. usat_add 256 acc (pp_index fees side)) (rp_accumulative_fees position);
          Some (\<lparr>rc_fees = fees, rc_accumulative_fees = accumulative_fees,
                 rc_original_sqrt_price = rp_original_sqrt_price position\<rparr>,
                position\<lparr>rp_accumulative_fees := accumulative_fees,
                         rp_last_fee_growth_inside := inside\<rparr>) }"

definition set_liquidity ::
    "'lp range_pool \<Rightarrow> liquidity \<Rightarrow> tick \<Rightarrow> tick_delta \<Rightarrow> tick \<Rightarrow> tick_delta \<Rightarrow> ro_position \<Rightarrow>
     (ro_collected \<times> ro_position_info \<times> ro_position) option" where
  "set_liquidity st new_liquidity lower_tick lower_delta upper_tick upper_delta position =
     do { (collected_fees, position1) \<leftarrow>
            ro_collect_fees st lower_tick lower_delta upper_tick upper_delta position;
          let position2 = (if rp_liquidity position1 \<noteq> new_liquidity
            then position1\<lparr>rp_liquidity := new_liquidity,
                           rp_original_sqrt_price := ro_sqrt_price st,
                           rp_accumulative_fees := pp_zero\<rparr>
            else position1);
          Some (collected_fees, ro_info position2, position2) }"

section \<open>Amounts between two prices\<close>

definition zero_amount_delta_floor :: "sqrt_price \<Rightarrow> sqrt_price \<Rightarrow> liquidity \<Rightarrow> amount option" where
  "zero_amount_delta_floor from to l =
     do { assert_that (0 < from);
          assert_that (from \<le> to);
          d \<leftarrow> usub to from;
          mul_div_floor (ushl 256 l SQRT_PRICE_FRACTIONAL_BITS) d (to * from) }"

definition zero_amount_delta_ceil :: "sqrt_price \<Rightarrow> sqrt_price \<Rightarrow> liquidity \<Rightarrow> amount option" where
  "zero_amount_delta_ceil from to l =
     do { assert_that (0 < from);
          assert_that (from \<le> to);
          d \<leftarrow> usub to from;
          mul_div_ceil (ushl 256 l SQRT_PRICE_FRACTIONAL_BITS) d (to * from) }"

definition one_amount_delta_floor :: "sqrt_price \<Rightarrow> sqrt_price \<Rightarrow> liquidity \<Rightarrow> amount option" where
  "one_amount_delta_floor from to l =
     do { assert_that (from \<le> to);
          d \<leftarrow> usub to from;
          mul_div_floor l d (ushl 512 1 SQRT_PRICE_FRACTIONAL_BITS) }"

definition one_amount_delta_ceil :: "sqrt_price \<Rightarrow> sqrt_price \<Rightarrow> liquidity \<Rightarrow> amount option" where
  "one_amount_delta_ceil from to l =
     do { assert_that (from \<le> to);
          d \<leftarrow> usub to from;
          mul_div_ceil l d (ushl 512 1 SQRT_PRICE_FRACTIONAL_BITS) }"

section \<open>The two directions\<close>

fun further_liquidity :: "direction \<Rightarrow> tick \<Rightarrow> bool" where
  "further_liquidity BaseToQuote current_tick \<longleftrightarrow> current_tick \<ge> MIN_TICK"
| "further_liquidity QuoteToBase current_tick \<longleftrightarrow> current_tick < MAX_TICK"

fun liquidity_delta_on_crossing_tick :: "direction \<Rightarrow> tick_delta \<Rightarrow> int option" where
  "liquidity_delta_on_crossing_tick BaseToQuote d = iconv 128 (- td_liquidity_delta d)"
| "liquidity_delta_on_crossing_tick QuoteToBase d = Some (td_liquidity_delta d)"

fun current_tick_after_crossing_tick :: "direction \<Rightarrow> tick \<Rightarrow> tick option" where
  "current_tick_after_crossing_tick BaseToQuote t = iconv 32 (t - 1)"
| "current_tick_after_crossing_tick QuoteToBase t = Some t"

text \<open>\<open>range(..=t)\<close>, \<open>range(..t)\<close> and \<open>range(t..)\<close>.\<close>

definition bt_upto :: "'k::linorder \<Rightarrow> ('k, 'v) btree_map \<Rightarrow> ('k, 'v) btree_map" where
  "bt_upto k m = filter (\<lambda>(k', v). k' \<le> k) m"

definition bt_below :: "'k::linorder \<Rightarrow> ('k, 'v) btree_map \<Rightarrow> ('k, 'v) btree_map" where
  "bt_below k m = filter (\<lambda>(k', v). k' < k) m"

definition bt_from :: "'k::linorder \<Rightarrow> ('k, 'v) btree_map \<Rightarrow> ('k, 'v) btree_map" where
  "bt_from k m = filter (\<lambda>(k', v). k \<le> k') m"

fun next_liquidity_delta :: "direction \<Rightarrow> tick \<Rightarrow> liquidity_map \<Rightarrow> (tick \<times> tick_delta) option option" where
  "next_liquidity_delta BaseToQuote current_tick m =
     do { assert_that (bt_get m MIN_TICK \<noteq> None);
          (if further_liquidity BaseToQuote current_tick
           then do { e \<leftarrow> bt_last (bt_upto current_tick m); Some (Some e) }
           else do { t \<leftarrow> current_tick_after_crossing_tick BaseToQuote MIN_TICK;
                     assert_that (current_tick = t);
                     Some None }) }"
| "next_liquidity_delta QuoteToBase current_tick m =
     do { assert_that (bt_get m MAX_TICK \<noteq> None);
          (if further_liquidity QuoteToBase current_tick
           then do { t \<leftarrow> iconv 32 (current_tick + 1);
                     e \<leftarrow> bt_first (bt_from t m);
                     Some (Some e) }
           else do { t \<leftarrow> current_tick_after_crossing_tick QuoteToBase MAX_TICK;
                     assert_that (current_tick = t);
                     Some None }) }"

fun input_amount_delta_ceil :: "direction \<Rightarrow> sqrt_price \<Rightarrow> sqrt_price \<Rightarrow> liquidity \<Rightarrow> amount option" where
  "input_amount_delta_ceil BaseToQuote current target l = zero_amount_delta_ceil target current l"
| "input_amount_delta_ceil QuoteToBase current target l = one_amount_delta_ceil current target l"

fun output_amount_delta_floor :: "direction \<Rightarrow> sqrt_price \<Rightarrow> sqrt_price \<Rightarrow> liquidity \<Rightarrow> amount option" where
  "output_amount_delta_floor BaseToQuote current target l = one_amount_delta_floor target current l"
| "output_amount_delta_floor QuoteToBase current target l = zero_amount_delta_floor current target l"

fun next_sqrt_price_from_input_amount ::
    "direction \<Rightarrow> sqrt_price \<Rightarrow> liquidity \<Rightarrow> amount \<Rightarrow> sqrt_price option" where
  "next_sqrt_price_from_input_amount BaseToQuote sqrt_price_current l a =
     do { assert_that (0 < l);
          assert_that (0 < sqrt_price_current);
          let l' = ushl 256 l SQRT_PRICE_FRACTIONAL_BITS;
          d \<leftarrow> uadd 512 l' (a * sqrt_price_current);
          mul_div_ceil l' sqrt_price_current d }"
| "next_sqrt_price_from_input_amount QuoteToBase sqrt_price_current l a =
     do { assert_that (0 < l);
          d \<leftarrow> mul_div_floor a (ushl 256 1 SQRT_PRICE_FRACTIONAL_BITS) l;
          uadd 256 sqrt_price_current d }"

section \<open>Construction, fees and prices\<close>

definition ro_validate_fees :: "nat \<Rightarrow> bool" where
  "ro_validate_fees fee \<longleftrightarrow> fee \<le> MAX_LP_FEE"

definition empty_tick_delta :: tick_delta where
  "empty_tick_delta = \<lparr>td_liquidity_delta = 0, td_liquidity_gross = 0, td_fee_growth_outside = pp_zero\<rparr>"

definition ro_new :: "nat \<Rightarrow> sqrt_price \<Rightarrow> (ro_new_error + 'lp range_pool) option" where
  "ro_new fee initial_sqrt_price =
     (if \<not> ro_validate_fees fee then Some (Inl RoNewInvalidFeeAmount)
      else if \<not> is_sqrt_price_valid initial_sqrt_price then Some (Inl RoNewInvalidInitialPrice)
      else do { initial_tick \<leftarrow> tick_at_sqrt_price initial_sqrt_price;
                Some (Inr \<lparr>ro_fee_hundredth_pips = fee,
                           ro_sqrt_price = initial_sqrt_price,
                           ro_tick = initial_tick,
                           ro_current_liquidity = 0,
                           ro_global_fee_growth = pp_zero,
                           ro_liquidity_map = [(MIN_TICK, empty_tick_delta), (MAX_TICK, empty_tick_delta)],
                           ro_positions = [],
                           ro_total_fees_earned = pp_zero,
                           ro_total_swap_inputs = pp_zero,
                           ro_total_swap_outputs = pp_zero\<rparr>) })"

definition ro_set_fees :: "nat \<Rightarrow> 'lp range_pool \<Rightarrow> set_fees_error + 'lp range_pool" where
  "ro_set_fees fee st =
     (if ro_validate_fees fee then Inr (st\<lparr>ro_fee_hundredth_pips := fee\<rparr>) else Inl SetFeesInvalidFeeAmount)"

definition ro_current_sqrt_price :: "direction \<Rightarrow> 'lp range_pool \<Rightarrow> sqrt_price option" where
  "ro_current_sqrt_price sd st = (if further_liquidity sd (ro_tick st) then Some (ro_sqrt_price st) else None)"

definition raw_current_sqrt_price :: "'lp range_pool \<Rightarrow> sqrt_price" where
  "raw_current_sqrt_price st = ro_sqrt_price st"

definition validate_position_range :: "tick \<Rightarrow> tick \<Rightarrow> 'e ro_position_error + unit" where
  "validate_position_range lower_tick upper_tick =
     (if lower_tick < upper_tick \<and> MIN_TICK \<le> lower_tick \<and> upper_tick \<le> MAX_TICK
      then Inr () else Inl RoInvalidTickRange)"

section \<open>Liquidity and amounts\<close>

definition inner_liquidity_to_amounts ::
    "bool \<Rightarrow> 'lp range_pool \<Rightarrow> liquidity \<Rightarrow> tick \<Rightarrow> tick \<Rightarrow> (amount pool_pairs_map \<times> liquidity) option" where
  "inner_liquidity_to_amounts round_up st l lower_tick upper_tick =
     (let zero = (if round_up then zero_amount_delta_ceil else zero_amount_delta_floor);
          one = (if round_up then one_amount_delta_ceil else one_amount_delta_floor)
      in if ro_tick st < lower_tick
         then do { p \<leftarrow> sqrt_price_at_tick lower_tick;
                   q \<leftarrow> sqrt_price_at_tick upper_tick;
                   z \<leftarrow> zero p q l;
                   Some (pp_from_array (z, 0), 0) }
         else if ro_tick st < upper_tick
         then do { q \<leftarrow> sqrt_price_at_tick upper_tick;
                   z \<leftarrow> zero (ro_sqrt_price st) q l;
                   p \<leftarrow> sqrt_price_at_tick lower_tick;
                   n \<leftarrow> one p (ro_sqrt_price st) l;
                   Some (pp_from_array (z, n), l) }
         else do { p \<leftarrow> sqrt_price_at_tick lower_tick;
                   q \<leftarrow> sqrt_price_at_tick upper_tick;
                   n \<leftarrow> one p q l;
                   Some (pp_from_array (0, n), 0) })"

definition required_asset_ratio ::
    "bool \<Rightarrow> 'lp range_pool \<Rightarrow> tick \<Rightarrow> tick \<Rightarrow> (ro_asset_ratio_error + amount pool_pairs_map) option" where
  "required_asset_ratio round_up st lower_tick upper_tick =
     (case (validate_position_range lower_tick upper_tick :: unit ro_position_error + unit) of
        Inl _ \<Rightarrow> Some (Inl RoRatioInvalidTickRange)
      | Inr _ \<Rightarrow> do { (amounts, _) \<leftarrow> inner_liquidity_to_amounts round_up st MAX_TICK_GROSS_LIQUIDITY lower_tick upper_tick;
                     Some (Inr amounts) })"

definition liquidity_to_amounts ::
    "bool \<Rightarrow> 'lp range_pool \<Rightarrow> liquidity \<Rightarrow> tick \<Rightarrow> tick \<Rightarrow> (ro_amounts_error + amount pool_pairs_map) option" where
  "liquidity_to_amounts round_up st l lower_tick upper_tick =
     (case (validate_position_range lower_tick upper_tick :: unit ro_position_error + unit) of
        Inl _ \<Rightarrow> Some (Inl RoAmountsInvalidTickRange)
      | Inr _ \<Rightarrow>
          (if l > MAX_TICK_GROSS_LIQUIDITY then Some (Inl RoAmountsLiquidityTooLarge)
           else do { (amounts, _) \<leftarrow> inner_liquidity_to_amounts round_up st l lower_tick upper_tick;
                     Some (Inr amounts) }))"

definition zero_amount_to_liquidity :: "sqrt_price \<Rightarrow> sqrt_price \<Rightarrow> amount pool_pairs_map \<Rightarrow> nat option" where
  "zero_amount_to_liquidity lower_sqrt_price upper_sqrt_price amounts =
     do { d \<leftarrow> usub upper_sqrt_price lower_sqrt_price;
          x \<leftarrow> udiv (usat_mul 512 (base amounts) (lower_sqrt_price * upper_sqrt_price)) d;
          Some (ushr x SQRT_PRICE_FRACTIONAL_BITS) }"

definition one_amount_to_liquidity :: "sqrt_price \<Rightarrow> sqrt_price \<Rightarrow> amount pool_pairs_map \<Rightarrow> nat option" where
  "one_amount_to_liquidity lower_sqrt_price upper_sqrt_price amounts =
     do { d \<leftarrow> usub upper_sqrt_price lower_sqrt_price;
          udiv (quote amounts * ushl 256 1 SQRT_PRICE_FRACTIONAL_BITS) d }"

definition inner_amounts_to_liquidity ::
    "'lp range_pool \<Rightarrow> tick \<Rightarrow> tick \<Rightarrow> amount pool_pairs_map \<Rightarrow> liquidity option" where
  "inner_amounts_to_liquidity st lower_tick upper_tick amounts =
     do { lower_sqrt_price \<leftarrow> sqrt_price_at_tick lower_tick;
          upper_sqrt_price \<leftarrow> sqrt_price_at_tick upper_tick;
          l \<leftarrow> (if ro_sqrt_price st \<le> lower_sqrt_price
                then zero_amount_to_liquidity lower_sqrt_price upper_sqrt_price amounts
                else if ro_sqrt_price st < upper_sqrt_price
                then do { z \<leftarrow> zero_amount_to_liquidity (ro_sqrt_price st) upper_sqrt_price amounts;
                          n \<leftarrow> one_amount_to_liquidity lower_sqrt_price (ro_sqrt_price st) amounts;
                          Some (min z n) }
                else one_amount_to_liquidity lower_sqrt_price upper_sqrt_price amounts);
          Some (case uconv 128 l of
                  Some l' \<Rightarrow> min l' MAX_TICK_GROSS_LIQUIDITY
                | None \<Rightarrow> MAX_TICK_GROSS_LIQUIDITY) }"

text \<open>The outer option is the panic, the inner one the \<open>Option\<close> that the source returns.\<close>

definition size_as_liquidity ::
    "'lp range_pool \<Rightarrow> tick \<Rightarrow> tick \<Rightarrow> ro_size \<Rightarrow> liquidity option option" where
  "size_as_liquidity st lower_tick upper_tick sz =
     (case sz of
        SizeLiquidity l \<Rightarrow> Some (Some l)
      | SizeAmount maximum minimum \<Rightarrow>
          do { l \<leftarrow> inner_amounts_to_liquidity st lower_tick upper_tick maximum;
               (possible, _) \<leftarrow> inner_liquidity_to_amounts False st l lower_tick upper_tick;
               Some (if base possible < base minimum \<or> quote possible < quote minimum
                     then None else Some l) })"

section \<open>Minting, burning and collecting\<close>

definition tick_delta_with_updated_gross_liquidity ::
    "'lp range_pool \<Rightarrow> liquidity \<Rightarrow> tick \<Rightarrow> tick_delta option \<Rightarrow> tick_delta option" where
  "tick_delta_with_updated_gross_liquidity st minted_liquidity t option_initial =
     (let d = (case option_initial of
          Some d \<Rightarrow> d
        | None \<Rightarrow> \<lparr>td_liquidity_delta = 0, td_liquidity_gross = 0,
                   td_fee_growth_outside = (if t \<le> ro_tick st then ro_global_fee_growth st else pp_zero)\<rparr>)
      in do { g \<leftarrow> uadd 128 (td_liquidity_gross d) minted_liquidity;
              Some (d\<lparr>td_liquidity_gross := g\<rparr>) })"

text \<open>The part of \<open>collect_and_mint\<close> after the liquidity to mint is known.\<close>

definition ro_mint_into ::
    "'lp::linorder range_pool \<Rightarrow> 'lp \<Rightarrow> tick \<Rightarrow> tick \<Rightarrow> liquidity \<Rightarrow> ro_position \<Rightarrow>
     (amount pool_pairs_map \<Rightarrow> 'e + 't) \<Rightarrow>
     ('e ro_mint_error ro_position_error + 't \<times> liquidity \<times> ro_collected \<times> ro_position_info \<times> 'lp range_pool) option" where
  "ro_mint_into st lp lower_tick upper_tick minted_liquidity position try_debit =
     do { lower0 \<leftarrow> tick_delta_with_updated_gross_liquidity st minted_liquidity lower_tick
                     (bt_get (ro_liquidity_map st) lower_tick);
          ld \<leftarrow> iconv 128 (td_liquidity_delta lower0 + int minted_liquidity);
          let lower_delta = lower0\<lparr>td_liquidity_delta := ld\<rparr>;
          upper0 \<leftarrow> tick_delta_with_updated_gross_liquidity st minted_liquidity upper_tick
                     (bt_get (ro_liquidity_map st) upper_tick);
          ud \<leftarrow> iconv 128 (td_liquidity_delta upper0 - int minted_liquidity);
          let upper_delta = upper0\<lparr>td_liquidity_delta := ud\<rparr>;
          new_liquidity \<leftarrow> uadd 128 (rp_liquidity position) minted_liquidity;
          (collected_fees, position_info, position') \<leftarrow>
            set_liquidity st new_liquidity lower_tick lower_delta upper_tick upper_delta position;
          (amounts_required, current_liquidity_delta) \<leftarrow>
            inner_liquidity_to_amounts True st minted_liquidity lower_tick upper_tick;
          (case try_debit amounts_required of
             Inl err \<Rightarrow> Some (Inl (RoOther (RoCallbackFailed err)))
           | Inr t \<Rightarrow>
               do { l \<leftarrow> uadd 128 (ro_current_liquidity st) current_liquidity_delta;
                    Some (Inr (t, minted_liquidity, collected_fees, position_info,
                      st\<lparr>ro_current_liquidity := l,
                         ro_positions := bt_insert (lp, lower_tick, upper_tick) position' (ro_positions st),
                         ro_liquidity_map := bt_insert upper_tick upper_delta
                           (bt_insert lower_tick lower_delta (ro_liquidity_map st))\<rparr>)) }) }"

definition ro_collect_and_mint ::
    "'lp::linorder \<Rightarrow> tick \<Rightarrow> tick \<Rightarrow> ro_size \<Rightarrow> (amount pool_pairs_map \<Rightarrow> 'e + 't) \<Rightarrow> 'lp range_pool \<Rightarrow>
     ('e ro_mint_error ro_position_error + 't \<times> liquidity \<times> ro_collected \<times> ro_position_info \<times> 'lp range_pool) option" where
  "ro_collect_and_mint lp lower_tick upper_tick sz try_debit st =
     (case validate_position_range lower_tick upper_tick of
        Inl e \<Rightarrow> Some (Inl e)
      | Inr _ \<Rightarrow>
          do { option_liquidity \<leftarrow> size_as_liquidity st lower_tick upper_tick sz;
               (case option_liquidity of
                  None \<Rightarrow> Some (Inl (RoOther RoMintAssetRatioUnachieveable))
                | Some minted_liquidity \<Rightarrow>
                    do { room \<leftarrow> usub MAX_TICK_GROSS_LIQUIDITY
                           (fold max (map td_liquidity_gross (List.map_filter id
                              [bt_get (ro_liquidity_map st) lower_tick,
                               bt_get (ro_liquidity_map st) upper_tick])) 0);
                         (if minted_liquidity > room
                          then Some (Inl (RoOther RoMaximumGrossLiquidity))
                          else
                            let option_position = bt_get (ro_positions st) (lp, lower_tick, upper_tick)
                            in if option_position \<noteq> None \<or> minted_liquidity \<noteq> 0
                               then ro_mint_into st lp lower_tick upper_tick minted_liquidity
                                      (case option_position of
                                         Some p \<Rightarrow> p
                                       | None \<Rightarrow> \<lparr>rp_liquidity = 0, rp_last_fee_growth_inside = pp_zero,
                                                  rp_accumulative_fees = pp_zero,
                                                  rp_original_sqrt_price = ro_sqrt_price st\<rparr>) try_debit
                               else Some (Inl RoNonExistent)) }) })"

text \<open>The end of \<open>collect_and_burn\<close>: the tick of one end of the range is stored or removed.\<close>

definition ro_put_tick ::
    "tick \<Rightarrow> tick \<Rightarrow> tick_delta \<Rightarrow> ro_position \<Rightarrow> 'lp range_pool \<Rightarrow> 'lp range_pool option" where
  "ro_put_tick keep t d position st =
     (if td_liquidity_gross d = 0 \<and> t \<noteq> keep
      then do { assert_that (rp_liquidity position = 0);
                Some (st\<lparr>ro_liquidity_map := bt_remove t (ro_liquidity_map st)\<rparr>) }
      else do { assert_that (bt_get (ro_liquidity_map st) t \<noteq> None);
                Some (st\<lparr>ro_liquidity_map := bt_insert t d (ro_liquidity_map st)\<rparr>) })"

definition ro_burn_from ::
    "'lp::linorder range_pool \<Rightarrow> 'lp \<Rightarrow> tick \<Rightarrow> tick \<Rightarrow> liquidity \<Rightarrow> ro_position \<Rightarrow>
     (ro_burn_error ro_position_error + amount pool_pairs_map \<times> liquidity \<times> ro_collected \<times> ro_position_info \<times> 'lp range_pool) option" where
  "ro_burn_from st lp lower_tick upper_tick burnt_liquidity position =
     do { lower0 \<leftarrow> bt_get (ro_liquidity_map st) lower_tick;
          lg \<leftarrow> usub (td_liquidity_gross lower0) burnt_liquidity;
          ld \<leftarrow> iconv 128 (td_liquidity_delta lower0 - int burnt_liquidity);
          let lower_delta = lower0\<lparr>td_liquidity_gross := lg, td_liquidity_delta := ld\<rparr>;
          upper0 \<leftarrow> bt_get (ro_liquidity_map st) upper_tick;
          ug \<leftarrow> usub (td_liquidity_gross upper0) burnt_liquidity;
          ud \<leftarrow> iconv 128 (td_liquidity_delta upper0 + int burnt_liquidity);
          let upper_delta = upper0\<lparr>td_liquidity_gross := ug, td_liquidity_delta := ud\<rparr>;
          new_liquidity \<leftarrow> usub (rp_liquidity position) burnt_liquidity;
          (collected_fees, position_info, position') \<leftarrow>
            set_liquidity st new_liquidity lower_tick lower_delta upper_tick upper_delta position;
          (amounts_owed, current_liquidity_delta) \<leftarrow>
            inner_liquidity_to_amounts False st burnt_liquidity lower_tick upper_tick;
          l \<leftarrow> usub (ro_current_liquidity st) current_liquidity_delta;
          st1 \<leftarrow> ro_put_tick MIN_TICK lower_tick lower_delta position' (st\<lparr>ro_current_liquidity := l\<rparr>);
          st2 \<leftarrow> ro_put_tick MAX_TICK upper_tick upper_delta position' st1;
          Some (Inr (amounts_owed, burnt_liquidity, collected_fees, position_info,
            st2\<lparr>ro_positions :=
              (if rp_liquidity position' = 0
               then bt_remove (lp, lower_tick, upper_tick) (ro_positions st2)
               else bt_insert (lp, lower_tick, upper_tick) position' (ro_positions st2))\<rparr>)) }"

definition ro_collect_and_burn ::
    "'lp::linorder \<Rightarrow> tick \<Rightarrow> tick \<Rightarrow> ro_size \<Rightarrow> 'lp range_pool \<Rightarrow>
     (ro_burn_error ro_position_error + amount pool_pairs_map \<times> liquidity \<times> ro_collected \<times> ro_position_info \<times> 'lp range_pool) option" where
  "ro_collect_and_burn lp lower_tick upper_tick sz st =
     (case validate_position_range lower_tick upper_tick of
        Inl e \<Rightarrow> Some (Inl e)
      | Inr _ \<Rightarrow>
          (case bt_get (ro_positions st) (lp, lower_tick, upper_tick) of
             None \<Rightarrow> Some (Inl RoNonExistent)
           | Some position \<Rightarrow>
               do { assert_that (rp_liquidity position \<noteq> 0);
                    option_liquidity \<leftarrow> size_as_liquidity st lower_tick upper_tick sz;
                    (case option_liquidity of
                       None \<Rightarrow> Some (Inl (RoOther RoBurnAssetRatioUnachieveable))
                     | Some l \<Rightarrow> ro_burn_from st lp lower_tick upper_tick (min (rp_liquidity position) l) position) }))"

text \<open>\<open>CollectError\<close> and \<open>Infallible\<close> have no values; the error of \<open>collect\<close> and \<open>position\<close> is polymorphic instead.\<close>

definition ro_collect ::
    "'lp::linorder \<Rightarrow> tick \<Rightarrow> tick \<Rightarrow> 'lp range_pool \<Rightarrow>
     ('e ro_position_error + ro_collected \<times> ro_position_info \<times> 'lp range_pool) option" where
  "ro_collect lp lower_tick upper_tick st =
     (case validate_position_range lower_tick upper_tick of
        Inl e \<Rightarrow> Some (Inl e)
      | Inr _ \<Rightarrow>
          (case bt_get (ro_positions st) (lp, lower_tick, upper_tick) of
             None \<Rightarrow> Some (Inl RoNonExistent)
           | Some position \<Rightarrow>
               do { assert_that (rp_liquidity position \<noteq> 0);
                    lower_delta \<leftarrow> bt_get (ro_liquidity_map st) lower_tick;
                    upper_delta \<leftarrow> bt_get (ro_liquidity_map st) upper_tick;
                    (collected_fees, position') \<leftarrow>
                      ro_collect_fees st lower_tick lower_delta upper_tick upper_delta position;
                    Some (Inr (collected_fees, ro_info position',
                      st\<lparr>ro_positions := bt_insert (lp, lower_tick, upper_tick) position' (ro_positions st)\<rparr>)) }))"

text \<open>\<open>collect_all\<close> is an iterator over a snapshot of the keys; the model is the iterator run to its end.\<close>

definition ro_collect_all ::
    "'lp::linorder range_pool \<Rightarrow>
     ((('lp \<times> tick \<times> tick) \<times> ro_collected \<times> ro_position_info) list \<times> 'lp range_pool) option" where
  "ro_collect_all st =
     foldM (\<lambda>(lp, lower_tick, upper_tick) (acc, st).
         do { r \<leftarrow> (ro_collect lp lower_tick upper_tick st ::
                  (unit ro_position_error + ro_collected \<times> ro_position_info \<times> 'lp range_pool) option);
              (case r of Inl _ \<Rightarrow> None
               | Inr (c, i, st') \<Rightarrow> Some (acc @ [((lp, lower_tick, upper_tick), c, i)], st')) })
       (map fst (ro_positions st)) ([], st)"

definition ro_positions_list ::
    "'lp range_pool \<Rightarrow> ('lp \<times> tick \<times> tick \<times> ro_collected \<times> ro_position_info) list option" where
  "ro_positions_list st =
     mapM (\<lambda>((lp, lower_tick, upper_tick), position).
       do { lower_delta \<leftarrow> bt_get (ro_liquidity_map st) lower_tick;
            upper_delta \<leftarrow> bt_get (ro_liquidity_map st) upper_tick;
            (c, position') \<leftarrow> ro_collect_fees st lower_tick lower_delta upper_tick upper_delta position;
            Some (lp, lower_tick, upper_tick, c, ro_info position') })
       (ro_positions st)"

definition ro_position_of ::
    "'lp::linorder \<Rightarrow> tick \<Rightarrow> tick \<Rightarrow> 'lp range_pool \<Rightarrow>
     ('e ro_position_error + ro_collected \<times> ro_position_info) option" where
  "ro_position_of lp lower_tick upper_tick st =
     (case validate_position_range lower_tick upper_tick of
        Inl e \<Rightarrow> Some (Inl e)
      | Inr _ \<Rightarrow>
          (case bt_get (ro_positions st) (lp, lower_tick, upper_tick) of
             None \<Rightarrow> Some (Inl RoNonExistent)
           | Some position \<Rightarrow>
               do { lower_delta \<leftarrow> bt_get (ro_liquidity_map st) lower_tick;
                    upper_delta \<leftarrow> bt_get (ro_liquidity_map st) upper_tick;
                    (c, position') \<leftarrow> ro_collect_fees st lower_tick lower_delta upper_tick upper_delta position;
                    Some (Inr (c, ro_info position')) }))"

definition ro_liquidity :: "'lp range_pool \<Rightarrow> (tick \<times> liquidity) list option" where
  "ro_liquidity st =
     map_option snd (foldM (\<lambda>(t, d) (l, acc).
         do { delta \<leftarrow> liquidity_delta_on_crossing_tick QuoteToBase d;
              l' \<leftarrow> uadd_signed 128 l delta;
              Some (l', acc @ [(t, l')]) })
       (ro_liquidity_map st) (0, []))"

definition ro_depth :: "tick \<Rightarrow> tick \<Rightarrow> 'lp range_pool \<Rightarrow> (ro_depth_error + amount pool_pairs_map) option" where
  "ro_depth lower_tick upper_tick st =
     (if \<not> is_tick_valid lower_tick \<or> \<not> is_tick_valid upper_tick then Some (Inl RoDepthInvalidTick)
      else if lower_tick \<le> upper_tick
      then do { liquidity_at_lower_tick \<leftarrow>
                  foldM (\<lambda>(_, d) l. uadd_signed 128 l (td_liquidity_delta d))
                    (bt_below lower_tick (ro_liquidity_map st)) 0;
                (_, _, assets) \<leftarrow>
                  foldM (\<lambda>(t, liquidity_delta) (l, previous_tick, assets).
                      do { l' \<leftarrow> uadd_signed 128 l liquidity_delta;
                           (amounts, _) \<leftarrow> inner_liquidity_to_amounts False st l previous_tick t;
                           assets' \<leftarrow> pp_add assets amounts;
                           Some (l', t, assets') })
                    (map (\<lambda>(t, d). (t, td_liquidity_delta d))
                       (bt_range lower_tick upper_tick (ro_liquidity_map st)) @ [(upper_tick, 0)])
                    (liquidity_at_lower_tick, lower_tick, pp_zero);
                Some (Inr assets) }
      else Some (Inl RoDepthInvalidTickRange))"

section \<open>Swap\<close>

text \<open>
  The \<open>while let\<close> loop of \<open>swap\<close>: \<open>ro_swap_entry\<close> is its condition (the outer option is the
  panic of an assertion), \<open>ro_swap_segment\<close> the trade with the current liquidity up to the
  target price, \<open>ro_swap_move\<close> the move of the price to the end of the segment.
\<close>

definition ro_swap_entry ::
    "direction \<Rightarrow> sqrt_price option \<Rightarrow> 'lp range_pool \<Rightarrow> amount \<Rightarrow> (tick \<times> tick_delta) option option" where
  "ro_swap_entry sd sqrt_price_limit st a =
     (if a \<noteq> 0 \<and> (case sqrt_price_limit of None \<Rightarrow> True
                   | Some limit \<Rightarrow> sqrt_price_op_more_than sd limit (ro_sqrt_price st))
      then next_liquidity_delta sd (ro_tick st) (ro_liquidity_map st)
      else Some None)"

definition ro_swap_target :: "direction \<Rightarrow> sqrt_price option \<Rightarrow> sqrt_price \<Rightarrow> sqrt_price" where
  "ro_swap_target sd sqrt_price_limit sqrt_price_at_delta =
     (case sqrt_price_limit of
        Some limit \<Rightarrow> (if sqrt_price_op_more_than sd sqrt_price_at_delta limit then limit else sqrt_price_at_delta)
      | None \<Rightarrow> sqrt_price_at_delta)"

text \<open>The next price, the input that is swapped, the fees and the output.\<close>

definition ro_swap_amounts ::
    "direction \<Rightarrow> nat \<Rightarrow> sqrt_price \<Rightarrow> liquidity \<Rightarrow> sqrt_price \<Rightarrow> amount \<Rightarrow>
     (sqrt_price \<times> amount \<times> amount \<times> amount) option" where
  "ro_swap_amounts sd fee current l target a =
     do { other \<leftarrow> usub ONE_IN_HUNDREDTH_PIPS fee;
          amount_minus_fees \<leftarrow> mul_div_floor a other ONE_IN_HUNDREDTH_PIPS;
          amount_required_to_reach_target \<leftarrow> input_amount_delta_ceil sd current target l;
          sqrt_price_next \<leftarrow> (if amount_minus_fees \<ge> amount_required_to_reach_target then Some target
                             else next_sqrt_price_from_input_amount sd current l amount_minus_fees);
          output_amount \<leftarrow> output_amount_delta_floor sd current sqrt_price_next l;
          (if sqrt_price_next = target
           then do { fees \<leftarrow> mul_div_ceil amount_required_to_reach_target fee other;
                     Some (sqrt_price_next, amount_required_to_reach_target, fees, output_amount) }
           else do { amount_swapped \<leftarrow> input_amount_delta_ceil sd current sqrt_price_next l;
                     fees \<leftarrow> usub a amount_swapped;
                     Some (sqrt_price_next, amount_swapped, fees, output_amount) }) }"

definition ro_swap_segment ::
    "direction \<Rightarrow> sqrt_price \<Rightarrow> 'lp range_pool \<times> amount \<times> amount \<Rightarrow>
     (sqrt_price \<times> 'lp range_pool \<times> amount \<times> amount) option" where
  "ro_swap_segment sd target = (\<lambda>(st, a, total_output_amount).
     if ro_current_liquidity st = 0 then Some (target, st, a, total_output_amount)
     else do {
       (sqrt_price_next, amount_swapped, fees, output_amount) \<leftarrow>
         ro_swap_amounts sd (ro_fee_hundredth_pips st) (ro_sqrt_price st) (ro_current_liquidity st) target a;
       total_output_amount' \<leftarrow> uadd 256 total_output_amount output_amount;
       let st1 = st\<lparr>ro_total_swap_inputs := pp_set (input_side sd)
                      (usat_add 256 (pp_index (ro_total_swap_inputs st) (input_side sd)) amount_swapped)
                      (ro_total_swap_inputs st)\<rparr>;
       let st2 = st1\<lparr>ro_total_fees_earned := pp_set (input_side sd)
                      (usat_add 256 (pp_index (ro_total_fees_earned st1) (input_side sd)) fees)
                      (ro_total_fees_earned st1)\<rparr>;
       taken \<leftarrow> uadd 256 amount_swapped fees;
       a' \<leftarrow> usub a taken;
       growth \<leftarrow> mul_div_floor fees (ushl 256 1 128) (ro_current_liquidity st2);
       let st3 = st2\<lparr>ro_global_fee_growth := pp_set (input_side sd)
                      (usat_add 256 (pp_index (ro_global_fee_growth st2) (input_side sd)) growth)
                      (ro_global_fee_growth st2)\<rparr>;
       Some (sqrt_price_next, st3, a', total_output_amount') })"

definition ro_swap_move ::
    "direction \<Rightarrow> tick \<Rightarrow> tick_delta \<Rightarrow> sqrt_price \<Rightarrow> sqrt_price \<Rightarrow> 'lp range_pool \<Rightarrow> 'lp range_pool option" where
  "ro_swap_move sd tick_at_delta delta sqrt_price_at_delta sqrt_price_next st =
     do { assert_that (\<not> sqrt_price_op_more_than sd sqrt_price_next sqrt_price_at_delta);
          (if sqrt_price_next = sqrt_price_at_delta
           then do { outside \<leftarrow> pp_map_with_pairM
                       (\<lambda>side _. usub (pp_index (ro_global_fee_growth st) side)
                                      (pp_index (td_fee_growth_outside delta) side))
                       \<lparr>base = (), quote = ()\<rparr>;
                     let delta' = delta\<lparr>td_fee_growth_outside := outside\<rparr>;
                     t \<leftarrow> current_tick_after_crossing_tick sd tick_at_delta;
                     d \<leftarrow> liquidity_delta_on_crossing_tick sd delta';
                     l \<leftarrow> uadd_signed 128 (ro_current_liquidity st) d;
                     Some (st\<lparr>ro_liquidity_map := bt_insert tick_at_delta delta' (ro_liquidity_map st),
                              ro_sqrt_price := sqrt_price_next, ro_tick := t, ro_current_liquidity := l\<rparr>) }
           else if ro_sqrt_price st \<noteq> sqrt_price_next
           then do { t \<leftarrow> tick_at_sqrt_price sqrt_price_next;
                     Some (st\<lparr>ro_sqrt_price := sqrt_price_next, ro_tick := t\<rparr>) }
           else Some st) }"

definition ro_swap_step ::
    "direction \<Rightarrow> sqrt_price option \<Rightarrow> tick \<times> tick_delta \<Rightarrow> 'lp range_pool \<times> amount \<times> amount \<Rightarrow>
     ('lp range_pool \<times> amount \<times> amount) option" where
  "ro_swap_step sd sqrt_price_limit = (\<lambda>(tick_at_delta, delta) s.
     do { sqrt_price_at_delta \<leftarrow> sqrt_price_at_tick tick_at_delta;
          (sqrt_price_next, st, a, total_output_amount) \<leftarrow>
            ro_swap_segment sd (ro_swap_target sd sqrt_price_limit sqrt_price_at_delta) s;
          st' \<leftarrow> ro_swap_move sd tick_at_delta delta sqrt_price_at_delta sqrt_price_next st;
          Some (st', a, total_output_amount) })"

text \<open>
  Termination, in every state: a round crosses the tick it moves towards, which leaves fewer
  ticks ahead, or it stops short of it, which only happens when the price limit is reached or
  the input is used up.
\<close>

fun ticks_ahead :: "direction \<Rightarrow> tick \<Rightarrow> nat" where
  "ticks_ahead BaseToQuote t = nat (t - MIN_TICK + 1)"
| "ticks_ahead QuoteToBase t = nat (MAX_TICK - t)"

lemma sqrt_price_op_more_than_irrefl [simp]: "\<not> sqrt_price_op_more_than sd p p"
  by (cases sd) simp_all

lemma ro_swap_entry_SomeD:
  assumes "ro_swap_entry sd limit st a = Some (Some (t, d))"
  shows "a \<noteq> 0" "(t, d) \<in> set (ro_liquidity_map st)" "further_liquidity sd (ro_tick st)"
    "\<And>l. limit = Some l \<Longrightarrow> sqrt_price_op_more_than sd l (ro_sqrt_price st)"
    "sd = BaseToQuote \<Longrightarrow> t \<le> ro_tick st" "sd = QuoteToBase \<Longrightarrow> ro_tick st < t"
  using assms
  by (cases sd; force simp: ro_swap_entry_def bt_upto_def bt_from_def dest!: bt_last_Some bt_first_Some
      split: if_splits bind_splits option.splits)+

lemma ticks_ahead_crossing:
  assumes "ro_swap_entry sd limit st a = Some (Some (t, d))" "current_tick_after_crossing_tick sd t = Some t'"
  shows "ticks_ahead sd t' < ticks_ahead sd (ro_tick st)"
  using assms(2) ro_swap_entry_SomeD [OF assms(1)] by (cases sd) auto

lemma ro_swap_segment_stops:
  assumes "ro_swap_segment sd target (st, a, tot) = Some (nxt, st1, a1, tot1)"
  shows "nxt = target \<or> a1 = 0" "ro_sqrt_price st1 = ro_sqrt_price st" "ro_tick st1 = ro_tick st"
    "ro_liquidity_map st1 = ro_liquidity_map st" "ro_positions st1 = ro_positions st"
    "ro_current_liquidity st1 = ro_current_liquidity st" "ro_fee_hundredth_pips st1 = ro_fee_hundredth_pips st"
proof -
  have "ro_swap_amounts sd fee p l target x = Some (nxt, swapped, fees, out) \<Longrightarrow> nxt = target \<or> fees = x - swapped" for fee p l x swapped fees out
    by (auto simp: ro_swap_amounts_def split: if_splits bind_splits)
  then show "nxt = target \<or> a1 = 0"
    using assms by (fastforce simp: ro_swap_segment_def Let_def split: if_splits bind_splits)
qed (use assms in \<open>auto simp: ro_swap_segment_def Let_def split: if_splits bind_splits\<close>)

lemma ro_swap_move_facts:
  assumes "ro_swap_move sd t d at_delta nxt st = Some st'"
  shows "ro_sqrt_price st' = nxt" "ro_positions st' = ro_positions st"
    "nxt = at_delta \<Longrightarrow> current_tick_after_crossing_tick sd t = Some (ro_tick st')"
  using assms by (auto simp: ro_swap_move_def Let_def split: if_splits bind_splits)

definition ro_swap_measure :: "direction \<Rightarrow> sqrt_price option \<Rightarrow> 'lp range_pool \<times> amount \<times> amount \<Rightarrow> nat" where
  "ro_swap_measure sd limit = (\<lambda>(st, a, tot).
     if a \<noteq> 0 \<and> (\<forall>l. limit = Some l \<longrightarrow> sqrt_price_op_more_than sd l (ro_sqrt_price st))
     then Suc (ticks_ahead sd (ro_tick st)) else 0)"

lemma ro_swap_step_progress:
  assumes entry: "ro_swap_entry sd limit st a = Some (Some (t, d))"
    and step: "ro_swap_step sd limit (t, d) (st, a, tot) = Some (st', a', tot')"
  shows "ro_swap_measure sd limit (st', a', tot') < ro_swap_measure sd limit (st, a, tot)"
proof -
  obtain p nxt st1 where p: "sqrt_price_at_tick t = Some p"
    and seg: "ro_swap_segment sd (ro_swap_target sd limit p) (st, a, tot) = Some (nxt, st1, a', tot')"
    and move: "ro_swap_move sd t d p nxt st1 = Some st'"
    using step by (auto simp: ro_swap_step_def split: bind_splits)
  have start: "ro_swap_measure sd limit (st, a, tot) = Suc (ticks_ahead sd (ro_tick st))"
    using ro_swap_entry_SomeD(1,4) [OF entry] by (simp add: ro_swap_measure_def)
  show ?thesis
  proof (cases "nxt = p")
    case True
    then show ?thesis
      using ticks_ahead_crossing [OF entry ro_swap_move_facts(3) [OF move]] start
      by (simp add: ro_swap_measure_def)
  next
    case False
    then have "a' = 0 \<or> limit = Some nxt"
      using ro_swap_segment_stops(1) [OF seg] by (auto simp: ro_swap_target_def split: option.splits if_splits)
    then show ?thesis using ro_swap_move_facts(1) [OF move] start by (auto simp: ro_swap_measure_def)
  qed
qed

function ro_swap_loop ::
    "direction \<Rightarrow> sqrt_price option \<Rightarrow> 'lp range_pool \<times> amount \<times> amount \<Rightarrow>
     ('lp range_pool \<times> amount \<times> amount) option" where
  "ro_swap_loop sd limit (st, a, tot) =
     (case ro_swap_entry sd limit st a of
        None \<Rightarrow> None
      | Some None \<Rightarrow> Some (st, a, tot)
      | Some (Some e) \<Rightarrow>
          (case ro_swap_step sd limit e (st, a, tot) of
             None \<Rightarrow> None
           | Some s \<Rightarrow> ro_swap_loop sd limit s))"
  by pat_completeness auto
termination
  by (relation "measure (\<lambda>(sd, limit, s). ro_swap_measure sd limit s)") (auto intro: ro_swap_step_progress)

declare ro_swap_loop.simps [simp del]

definition ro_swap ::
    "direction \<Rightarrow> amount \<Rightarrow> sqrt_price option \<Rightarrow> 'lp range_pool \<Rightarrow> (amount \<times> amount \<times> 'lp range_pool) option" where
  "ro_swap sd a limit st =
     do { (st', a', total_output_amount) \<leftarrow> ro_swap_loop sd limit (st, a, 0);
          Some (total_output_amount, a',
            st'\<lparr>ro_total_swap_outputs := pp_set (not_pair (input_side sd))
                  (usat_add 256 (pp_index (ro_total_swap_outputs st') (not_pair (input_side sd))) total_output_amount)
                  (ro_total_swap_outputs st')\<rparr>) }"

end
