(* ===== verification/Range_Math.thy ===== *)
theory Range_Math
  imports Range_Orders
begin

text \<open>
  The arithmetic of one segment of a range order swap, over which the liquidity is constant:
  what the rounded amounts of \<open>range_orders.rs\<close> are worth exactly, that none of the checked
  operations of a segment can panic, and that a segment ends at its target or with no input
  left. This settles the comment \<open>TODO: Prove this does not underflow\<close> in \<open>swap\<close>.
\<close>

section \<open>Amounts between two prices\<close>

text \<open>The exact amounts that a liquidity of \<open>l\<close> holds between two prices.\<close>

definition base_exact :: "sqrt_price \<Rightarrow> sqrt_price \<Rightarrow> liquidity \<Rightarrow> real" where
  "base_exact p q l = real l * (2 ^ 96 / real p - 2 ^ 96 / real q)"

definition quote_exact :: "sqrt_price \<Rightarrow> sqrt_price \<Rightarrow> liquidity \<Rightarrow> real" where
  "quote_exact p q l = real l * (real q / 2 ^ 96 - real p / 2 ^ 96)"

lemma valid_price_bounds:
  assumes "is_sqrt_price_valid p"
  shows "2 ^ 32 \<le> p" "p < 2 ^ 160" "0 < p"
  using assms by (simp_all add: is_sqrt_price_valid_def MIN_SQRT_PRICE_def MAX_SQRT_PRICE_def)

lemma shl_liquidity: "l < 2 ^ 128 \<Longrightarrow> ushl 256 l SQRT_PRICE_FRACTIONAL_BITS = l * 2 ^ 96"
  by (simp add: SQRT_PRICE_FRACTIONAL_BITS_def ushl_exact)

lemma shl_one:
  "ushl 256 (Suc 0) SQRT_PRICE_FRACTIONAL_BITS = 2 ^ 96" "ushl 512 (Suc 0) SQRT_PRICE_FRACTIONAL_BITS = 2 ^ 96"
  by (simp_all add: SQRT_PRICE_FRACTIONAL_BITS_def ushl_exact)

lemma base_frac: "0 < p \<Longrightarrow> p \<le> q \<Longrightarrow> real (l * 2 ^ 96 * (q - p)) / real (q * p) = base_exact p q l"
  by (simp add: base_exact_def of_nat_diff field_simps)

lemma quote_frac: "p \<le> q \<Longrightarrow> real (l * (q - p)) / real (2 ^ 96) = quote_exact p q l"
  by (simp add: quote_exact_def of_nat_diff field_simps)

lemma base_numerator_le:
  assumes "is_sqrt_price_valid p" "p \<le> q"
  shows "l * 2 ^ 96 * (q - p) \<le> (l * 2 ^ 64) * (q * p)"
proof -
  have "2 ^ 32 * (q - p) \<le> p * q" using valid_price_bounds(1) [OF assms(1)] by (intro mult_le_mono) auto
  then have "(l * 2 ^ 64) * (2 ^ 32 * (q - p)) \<le> (l * 2 ^ 64) * (p * q)" by (rule mult_le_mono2)
  then show ?thesis by (simp add: algebra_simps)
qed

lemma quote_numerator_le:
  assumes "is_sqrt_price_valid q"
  shows "l * (q - p) \<le> (l * 2 ^ 64) * 2 ^ 96"
proof -
  have "q - p \<le> 2 ^ 160" using valid_price_bounds(2) [OF assms] by simp
  then have "l * (q - p) \<le> l * 2 ^ 160" by (rule mult_le_mono2)
  then show ?thesis by (simp add: algebra_simps)
qed

lemma liquidity_bound: "l < 2 ^ 128 \<Longrightarrow> l * 2 ^ 64 < (2::nat) ^ 192"
  by simp

lemma delta_ok:
  assumes p: "is_sqrt_price_valid p" and q: "is_sqrt_price_valid q" and le: "p \<le> q" and l: "l < 2 ^ 128"
  shows "zero_amount_delta_ceil p q l = Some (div_ceil (l * 2 ^ 96 * (q - p)) (q * p))"
    "zero_amount_delta_floor p q l = Some (l * 2 ^ 96 * (q - p) div (q * p))"
    "one_amount_delta_ceil p q l = Some (div_ceil (l * (q - p)) (2 ^ 96))"
    "one_amount_delta_floor p q l = Some (l * (q - p) div 2 ^ 96)"
    "div_ceil (l * 2 ^ 96 * (q - p)) (q * p) \<le> l * 2 ^ 64"
    "div_ceil (l * (q - p)) (2 ^ 96) \<le> l * 2 ^ 64"
proof -
  note P = valid_price_bounds [OF p] and Q = valid_price_bounds [OF q]
  have pq: "0 < q * p" using P(3) Q(3) by simp
  show c1: "div_ceil (l * 2 ^ 96 * (q - p)) (q * p) \<le> l * 2 ^ 64"
    using base_numerator_le [OF p le] pq by (simp add: div_ceil_le_iff del: mult_le_mono)
  show c2: "div_ceil (l * (q - p)) (2 ^ 96) \<le> l * 2 ^ 64"
    using quote_numerator_le [OF q, of l p] by (subst div_ceil_le_iff) simp_all
  have big: "x \<le> l * 2 ^ 64 \<Longrightarrow> x < 2 ^ 256" for x using liquidity_bound [OF l] by simp
  note fl1 = order.trans [OF div_le_div_ceil c1] and fl2 = order.trans [OF div_le_div_ceil c2]
  show "zero_amount_delta_ceil p q l = Some (div_ceil (l * 2 ^ 96 * (q - p)) (q * p))"
    using le P(3) pq big [OF c1] by (simp add: zero_amount_delta_ceil_def shl_liquidity [OF l] usub_def)
  show "zero_amount_delta_floor p q l = Some (l * 2 ^ 96 * (q - p) div (q * p))"
    using le P(3) pq big [OF fl1] by (simp add: zero_amount_delta_floor_def shl_liquidity [OF l] usub_def)
  show "one_amount_delta_ceil p q l = Some (div_ceil (l * (q - p)) (2 ^ 96))"
    using le big [OF c2] by (simp add: one_amount_delta_ceil_def shl_one usub_def)
  show "one_amount_delta_floor p q l = Some (l * (q - p) div 2 ^ 96)"
    using le big [OF fl2] by (simp add: one_amount_delta_floor_def shl_one usub_def)
qed

text \<open>What a swap in a direction pays and gets, exactly; \<open>q\<close> lies ahead of \<open>p\<close>.\<close>

definition ahead :: "direction \<Rightarrow> sqrt_price \<Rightarrow> sqrt_price \<Rightarrow> bool" where
  "ahead sd p q \<longleftrightarrow> \<not> sqrt_price_op_more_than sd p q"

fun in_exact :: "direction \<Rightarrow> sqrt_price \<Rightarrow> sqrt_price \<Rightarrow> liquidity \<Rightarrow> real" where
  "in_exact BaseToQuote p q l = base_exact q p l"
| "in_exact QuoteToBase p q l = quote_exact p q l"

fun out_exact :: "direction \<Rightarrow> sqrt_price \<Rightarrow> sqrt_price \<Rightarrow> liquidity \<Rightarrow> real" where
  "out_exact BaseToQuote p q l = quote_exact q p l"
| "out_exact QuoteToBase p q l = base_exact p q l"

lemma ahead_simps [simp]: "ahead BaseToQuote p q \<longleftrightarrow> q \<le> p" "ahead QuoteToBase p q \<longleftrightarrow> p \<le> q"
  by (simp_all add: ahead_def not_less)

lemma ahead_refl [simp]: "ahead sd p p" by (simp add: ahead_def)

lemma ahead_trans: "ahead sd p q \<Longrightarrow> ahead sd q r \<Longrightarrow> ahead sd p r"
  by (cases sd) simp_all

lemma ahead_valid:
  assumes "is_sqrt_price_valid p" "is_sqrt_price_valid r" "ahead sd p q" "ahead sd q r"
  shows "is_sqrt_price_valid q"
  using assms by (cases sd) (auto simp: is_sqrt_price_valid_def)

lemma frac_floor: "0 < c \<Longrightarrow> real (x div c) \<le> real x / real c"
  using div_times_less_eq_dividend [of x c] by (simp add: pos_le_divide_eq flip: of_nat_mult)

lemma input_delta_ok:
  assumes p: "is_sqrt_price_valid p" and q: "is_sqrt_price_valid q" and pq: "ahead sd p q" and l: "l < 2 ^ 128"
  obtains r where "input_amount_delta_ceil sd p q l = Some r" "r \<le> l * 2 ^ 64" "in_exact sd p q l \<le> real r"
proof (cases sd)
  case BaseToQuote
  have "0 < p * q" using valid_price_bounds(3) [OF p] valid_price_bounds(3) [OF q] by simp
  from real_div_ceil_ge [OF this, of "l * 2 ^ 96 * (p - q)"]
  have "base_exact q p l \<le> real (div_ceil (l * 2 ^ 96 * (p - q)) (p * q))"
    using base_frac [of q p l] valid_price_bounds(3) [OF q] pq BaseToQuote by simp
  then show thesis using delta_ok(1,5) [OF q p _ l] pq BaseToQuote that by simp
next
  case QuoteToBase
  have "quote_exact p q l \<le> real (div_ceil (l * (q - p)) (2 ^ 96))"
    using real_div_ceil_ge [of "2 ^ 96" "l * (q - p)"] quote_frac [of p q l] pq QuoteToBase by simp
  then show thesis using delta_ok(3,6) [OF p q _ l] pq QuoteToBase that by simp
qed

lemma output_delta_ok:
  assumes p: "is_sqrt_price_valid p" and q: "is_sqrt_price_valid q" and pq: "ahead sd p q" and l: "l < 2 ^ 128"
  obtains r where "output_amount_delta_floor sd p q l = Some r" "r \<le> l * 2 ^ 64" "real r \<le> out_exact sd p q l"
proof (cases sd)
  case BaseToQuote
  have "real (l * (p - q) div 2 ^ 96) \<le> quote_exact q p l"
    using frac_floor [of "2 ^ 96" "l * (p - q)"] quote_frac [of q p l] pq BaseToQuote by simp
  then show thesis
    using delta_ok(4) [OF q p _ l] order.trans [OF div_le_div_ceil delta_ok(6) [OF q p _ l]] pq BaseToQuote that by simp
next
  case QuoteToBase
  have "0 < q * p" using valid_price_bounds(3) [OF p] valid_price_bounds(3) [OF q] by simp
  from frac_floor [OF this, of "l * 2 ^ 96 * (q - p)"]
  have "real (l * 2 ^ 96 * (q - p) div (q * p)) \<le> base_exact p q l"
    using base_frac [of p q l] valid_price_bounds(3) [OF p] pq QuoteToBase by simp
  then show thesis
    using delta_ok(2) [OF p q _ l] order.trans [OF div_le_div_ceil delta_ok(5) [OF p q _ l]] pq QuoteToBase that by simp
qed

text \<open>
  The price after an input that is too small to reach the target: it lies strictly before the
  target, and the input that the move requires is at most the one given.
\<close>

lemma next_price_base:
  assumes p: "is_sqrt_price_valid p" and t: "is_sqrt_price_valid t" and l: "0 < l" "l < 2 ^ 128"
    and a: "a < div_ceil (l * 2 ^ 96 * (p - t)) (p * t)" and tp: "t \<le> p"
  shows "\<exists>n. next_sqrt_price_from_input_amount BaseToQuote p l a = Some n \<and> t < n \<and> n \<le> p \<and>
    div_ceil (l * 2 ^ 96 * (p - n)) (p * n) \<le> a"
proof -
  define L where "L = l * 2 ^ 96"
  define n where "n = div_ceil (L * p) (L + a * p)"
  have L: "0 < L" "L < 2 ^ 224" using l by (simp_all add: L_def)
  have shl: "ushl 256 l SQRT_PRICE_FRACTIONAL_BITS = L" unfolding L_def by (rule shl_liquidity [OF l(2)])
  note P = valid_price_bounds [OF p] and T = valid_price_bounds [OF t]
  have d: "0 < L + a * p" using L by simp
  have apt: "a * (p * t) < L * (p - t)"
    using a less_div_ceil_iff [of "p * t" a "L * (p - t)"] P(3) T(3) by (simp add: L_def)
  have tn: "t < n"
    unfolding n_def less_div_ceil_iff [OF d]
  proof -
    have "L * t + a * (p * t) < L * t + L * (p - t)" using apt by simp
    also have "\<dots> = L * p" using tp by (simp flip: distrib_left)
    finally show "t * (L + a * p) < L * p" by (simp add: algebra_simps)
  qed
  have np: "n \<le> p" unfolding n_def div_ceil_le_iff [OF d] by (simp add: algebra_simps)
  have "L * p \<le> n * (L + a * p)" unfolding n_def by (rule div_ceil_mult_ge [OF d])
  then have "L * p - L * n \<le> a * (p * n)" by (simp add: algebra_simps)
  then have "L * (p - n) \<le> a * (p * n)" by (simp add: diff_mult_distrib2)
  then have req: "div_ceil (L * (p - n)) (p * n) \<le> a" using P(3) tn by (subst div_ceil_le_iff) simp_all
  have "a * p \<le> a * (p * t)" using T(3) by simp
  also have "\<dots> < L * p" using apt by (metis diff_le_self le_trans less_le_trans mult_le_mono2)
  also have "\<dots> \<le> 2 ^ 224 * 2 ^ 160" using L P(2) by (intro mult_le_mono) simp_all
  finally have "L + a * p < 2 ^ 512" using L by simp
  then have "uadd 512 L (a * p) = Some (L + a * p)" by simp
  moreover have "n < 2 ^ 256" using np P(2) by simp
  ultimately have "next_sqrt_price_from_input_amount BaseToQuote p l a = Some n"
    using l P(3) d by (simp add: shl n_def del: uadd_Some)
  with tn np req show ?thesis by (auto simp: L_def)
qed

lemma next_price_quote:
  assumes p: "is_sqrt_price_valid p" and t: "is_sqrt_price_valid t" and l: "0 < l" "l < 2 ^ 128"
    and a: "a < div_ceil (l * (t - p)) (2 ^ 96)" and tp: "p \<le> t"
  shows "\<exists>n. next_sqrt_price_from_input_amount QuoteToBase p l a = Some n \<and> n < t \<and> p \<le> n \<and>
    div_ceil (l * (n - p)) (2 ^ 96) \<le> a"
proof -
  define d where "d = a * 2 ^ 96 div l"
  have "a * 2 ^ 96 < (t - p) * l" using a less_div_ceil_iff [of "2 ^ 96" a "l * (t - p)"] by (simp add: mult.commute)
  then have d: "d < t - p" unfolding d_def using l by (simp add: div_less_iff_less_mult mult.commute)
  have "l * d \<le> a * 2 ^ 96" unfolding d_def by simp
  then have req: "div_ceil (l * d) (2 ^ 96) \<le> a" by (subst div_ceil_le_iff) simp_all
  have "d < 2 ^ 256" "p + d < 2 ^ 256" using d tp valid_price_bounds(2) [OF t] by simp_all
  then have "next_sqrt_price_from_input_amount QuoteToBase p l a = Some (p + d)"
    using l by (simp add: shl_one d_def mul_div_floor_def udiv_def uconv_def uadd_def del: uadd_Some)
  with d req show ?thesis by auto
qed

lemma next_price_ok:
  assumes p: "is_sqrt_price_valid p" and t: "is_sqrt_price_valid t" and l: "0 < l" "l < 2 ^ 128"
    and pt: "ahead sd p t" and req: "input_amount_delta_ceil sd p t l = Some req" and a: "a < req"
  obtains n r where "next_sqrt_price_from_input_amount sd p l a = Some n" "n \<noteq> t" "ahead sd p n" "ahead sd n t"
    "input_amount_delta_ceil sd p n l = Some r" "r \<le> a"
proof (cases sd)
  case BaseToQuote
  have tp: "t \<le> p" using pt BaseToQuote by simp
  have "a < div_ceil (l * 2 ^ 96 * (p - t)) (p * t)" using a req delta_ok(1) [OF t p tp l(2)] BaseToQuote by simp
  from next_price_base [OF p t l this tp] obtain n where
    n: "next_sqrt_price_from_input_amount BaseToQuote p l a = Some n" "t < n" "n \<le> p"
      "div_ceil (l * 2 ^ 96 * (p - n)) (p * n) \<le> a" by blast
  have "is_sqrt_price_valid n" using ahead_valid [OF p t, of BaseToQuote n] n by simp
  from delta_ok(1) [OF this p n(3) l(2)] show thesis using that [of n] n BaseToQuote by simp
next
  case QuoteToBase
  have tp: "p \<le> t" using pt QuoteToBase by simp
  have "a < div_ceil (l * (t - p)) (2 ^ 96)" using a req delta_ok(3) [OF p t tp l(2)] QuoteToBase by simp
  from next_price_quote [OF p t l this tp] obtain n where
    n: "next_sqrt_price_from_input_amount QuoteToBase p l a = Some n" "n < t" "p \<le> n"
      "div_ceil (l * (n - p)) (2 ^ 96) \<le> a" by blast
  have "is_sqrt_price_valid n" using ahead_valid [OF p t, of QuoteToBase n] n by simp
  from delta_ok(3) [OF p this n(3) l(2)] show thesis using that [of n] n QuoteToBase by simp
qed

text \<open>
  One segment of a swap never panics: neither the fee growth nor the subtraction of what was
  taken from the input can overflow, and the segment ends at the target or with no input left.
\<close>

definition segment_post ::
    "direction \<Rightarrow> sqrt_price \<Rightarrow> liquidity \<Rightarrow> sqrt_price \<Rightarrow> amount \<Rightarrow> sqrt_price \<Rightarrow> amount \<Rightarrow> amount \<Rightarrow> amount \<Rightarrow> bool" where
  "segment_post sd p l target a nxt swapped fees out \<longleftrightarrow>
     ahead sd p nxt \<and> ahead sd nxt target \<and> swapped + fees \<le> a \<and> (nxt = target \<or> swapped + fees = a) \<and>
     in_exact sd p nxt l \<le> real swapped \<and> real out \<le> out_exact sd p nxt l \<and>
     out \<le> l * 2 ^ 64 \<and> fees \<le> l * 2 ^ 66"

lemma fee_le_input:
  assumes fee: "fee \<le> MAX_LP_FEE"
  shows "div_ceil (req * fee) (1000000 - fee) \<le> req"
proof -
  have "fee \<le> 1000000 - fee" "0 < 1000000 - fee" using fee by (simp_all add: MAX_LP_FEE_def ONE_IN_HUNDREDTH_PIPS_def)
  then show ?thesis by (subst div_ceil_le_iff) simp_all
qed

lemma input_le_twice:
  assumes fee: "fee \<le> MAX_LP_FEE" and amf: "mul_div_floor a (1000000 - fee) 1000000 = Some amf" and less: "amf < req"
  shows "a \<le> 2 * req"
proof (rule ccontr)
  assume "\<not> a \<le> 2 * req"
  then have "(2 * req) * 500000 \<le> a * (1000000 - fee)"
    using fee by (intro mult_le_mono) (simp_all add: MAX_LP_FEE_def ONE_IN_HUNDREDTH_PIPS_def)
  then have "req * 1000000 div 1000000 \<le> a * (1000000 - fee) div 1000000" by (intro div_le_mono) simp
  then show False using amf less by simp
qed

lemma ro_swap_amounts_ok:
  assumes p: "is_sqrt_price_valid p" and t: "is_sqrt_price_valid t" and l: "0 < l" "l < 2 ^ 128"
    and pt: "ahead sd p t" and fee: "fee \<le> MAX_LP_FEE" and a: "a < 2 ^ 256"
  obtains nxt swapped fees out where "ro_swap_amounts sd fee p l t a = Some (nxt, swapped, fees, out)"
    "segment_post sd p l t a nxt swapped fees out"
proof -
  have other: "usub ONE_IN_HUNDREDTH_PIPS fee = Some (1000000 - fee)" "0 < 1000000 - fee"
    using fee by (simp_all add: MAX_LP_FEE_def ONE_IN_HUNDREDTH_PIPS_def usub_def)
  obtain amf where amf: "mul_div_floor a (1000000 - fee) 1000000 = Some amf" "amf \<le> a"
    "\<And>req. req \<le> amf \<Longrightarrow> req + div_ceil (req * fee) (1000000 - fee) \<le> a"
    using fee_split [OF fee a] by metis
  obtain req where req: "input_amount_delta_ceil sd p t l = Some req" "req \<le> l * 2 ^ 64" "in_exact sd p t l \<le> real req"
    using input_delta_ok [OF p t pt l(2)] .
  show thesis
  proof (cases "req \<le> amf")
    case True
    define fees where "fees = div_ceil (req * fee) (1000000 - fee)"
    have fees: "fees \<le> req" "req + fees \<le> a" using fee_le_input [OF fee] amf(3) [OF True] by (simp_all add: fees_def)
    obtain out where out: "output_amount_delta_floor sd p t l = Some out" "out \<le> l * 2 ^ 64" "real out \<le> out_exact sd p t l"
      using output_delta_ok [OF p t pt l(2)] .
    have "mul_div_ceil req fee (1000000 - fee) = Some fees"
      using other(2) fees a by (simp add: fees_def)
    then have "ro_swap_amounts sd fee p l t a = Some (t, req, fees, out)"
      using True other amf(1) req(1) out(1)
      by (simp add: ro_swap_amounts_def ONE_IN_HUNDREDTH_PIPS_def del: mul_div_ceil_Some mul_div_floor_Some usub_Some)
    moreover have "fees \<le> l * 2 ^ 66" using fees(1) req(2) by simp
    ultimately show thesis using that fees out req pt by (simp add: segment_post_def)
  next
    case False
    then have less: "amf < req" by simp
    obtain n r where n: "next_sqrt_price_from_input_amount sd p l amf = Some n" "n \<noteq> t" "ahead sd p n" "ahead sd n t"
      "input_amount_delta_ceil sd p n l = Some r" "r \<le> amf"
      using next_price_ok [OF p t l pt req(1) less] .
    note vn = ahead_valid [OF p t n(3,4)]
    obtain out where out: "output_amount_delta_floor sd p n l = Some out" "out \<le> l * 2 ^ 64" "real out \<le> out_exact sd p n l"
      using output_delta_ok [OF p vn n(3) l(2)] .
    have r: "in_exact sd p n l \<le> real r" using input_delta_ok [OF p vn n(3) l(2)] n(5) by force
    have "r \<le> a" using n(6) amf(2) by simp
    then have "ro_swap_amounts sd fee p l t a = Some (n, r, a - r, out)"
      using False other amf(1) req(1) out(1) n
      by (simp add: ro_swap_amounts_def ONE_IN_HUNDREDTH_PIPS_def usub_def
          del: mul_div_ceil_Some mul_div_floor_Some usub_Some)
    moreover have "a \<le> 2 * req" using input_le_twice [OF fee amf(1)] False by simp
    then have "a - r \<le> l * 2 ^ 66" using req(2) by simp
    ultimately show thesis using that n out r \<open>r \<le> a\<close> by (simp add: segment_post_def)
  qed
qed

end
