(* ===== verification/Range_Solvency.thy ===== *)
theory Range_Solvency
  imports Range_Math
begin

text \<open>
  The invariant of the range order pool of \<open>range_orders.rs\<close> and the contract of \<open>swap\<close>. The
  map of ticks is the sum of the positions, the current liquidity is that of the positions in
  range, the price lies between the current tick and the next, and the fee growth inside every
  position is not below what it was when the position was last collected. Under the invariant
  a swap never panics, and what the pool owes to its positions, principal and fees, changes by
  no more than the swap pays in and pays out.
\<close>

section \<open>The liquidity of the positions\<close>

text \<open>
  What the positions add up to: the liquidity that starts or ends at a tick, its change when
  the price moves up across the tick, and the liquidity that is in range at a tick.
\<close>

definition gross_at :: "'lp ro_positions_map \<Rightarrow> tick \<Rightarrow> nat" where
  "gross_at ps t = bt_sum (\<lambda>(lp, lo, up) p. if lo = t \<or> up = t then rp_liquidity p else 0) ps"

definition net_at :: "'lp ro_positions_map \<Rightarrow> tick \<Rightarrow> int" where
  "net_at ps t = bt_sum (\<lambda>(lp, lo, up) p. (if lo = t then int (rp_liquidity p) else 0) -
                                         (if up = t then int (rp_liquidity p) else 0)) ps"

definition active_at :: "'lp ro_positions_map \<Rightarrow> tick \<Rightarrow> nat" where
  "active_at ps t = bt_sum (\<lambda>(lp, lo, up) p. if lo \<le> t \<and> t < up then rp_liquidity p else 0) ps"

definition position_keys_ok :: "'lp ro_positions_map \<Rightarrow> bool" where
  "position_keys_ok ps \<longleftrightarrow> (\<forall>((lp, lo, up), p) \<in> set ps.
     lo < up \<and> MIN_TICK \<le> lo \<and> up \<le> MAX_TICK \<and> 0 < rp_liquidity p)"

lemma gross_at_0_iff:
  assumes "position_keys_ok ps"
  shows "gross_at ps t = 0 \<longleftrightarrow> (\<forall>((lp, lo, up), p) \<in> set ps. lo \<noteq> t \<and> up \<noteq> t)"
  using assms by (induction ps) (auto simp: gross_at_def position_keys_ok_def split: if_splits)

lemma active_at_step:
  assumes "position_keys_ok ps"
  shows "int (active_at ps t) = int (active_at ps (t - 1)) + net_at ps t"
  using assms by (induction ps) (auto simp: active_at_def net_at_def position_keys_ok_def)

lemma active_at_const:
  assumes "position_keys_ok ps" "s \<le> t" "\<And>u. s < u \<Longrightarrow> u \<le> t \<Longrightarrow> gross_at ps u = 0"
  shows "active_at ps s = active_at ps t"
proof -
  have "\<not> (s < lo \<and> lo \<le> t) \<and> \<not> (s < up \<and> up \<le> t)" if "((lp, lo, up), p) \<in> set ps" for lp lo up p
    using assms(3) [of lo] assms(3) [of up] that gross_at_0_iff [OF assms(1)] by fastforce
  then show ?thesis unfolding active_at_def using assms(2)
    by (intro bt_sum_cong) (auto, (smt (verit))+)
qed

lemma net_at_bounds: "\<bar>net_at ps t\<bar> \<le> int (gross_at ps t)"
  by (induction ps) (auto simp: net_at_def gross_at_def)

lemma active_at_outside:
  assumes "position_keys_ok ps"
  shows "active_at ps (MIN_TICK - 1) = 0" "active_at ps MAX_TICK = 0"
  using assms by (induction ps) (auto simp: active_at_def position_keys_ok_def split: if_splits)

text \<open>The bound on the liquidity of every tick bounds the liquidity in range.\<close>

lemma active_at_le_gross:
  assumes "position_keys_ok ps"
  shows "active_at ps t \<le> (\<Sum>s \<in> {MIN_TICK..MAX_TICK}. gross_at ps s)"
  using assms
proof (induction ps)
  case (Cons e ps)
  obtain lp lo up p where e: "e = ((lp, lo, up), p)" by (metis surj_pair)
  have lo: "lo \<in> {MIN_TICK..MAX_TICK}" using Cons.prems by (auto simp: position_keys_ok_def e)
  have "(\<Sum>s \<in> {MIN_TICK..MAX_TICK}. gross_at (e # ps) s)
      = (\<Sum>s \<in> {MIN_TICK..MAX_TICK}. (if lo = s \<or> up = s then rp_liquidity p else 0)) + (\<Sum>s \<in> {MIN_TICK..MAX_TICK}. gross_at ps s)"
    by (simp add: gross_at_def e sum.distrib)
  moreover have "(if lo = lo \<or> up = lo then rp_liquidity p else 0)
      \<le> (\<Sum>s \<in> {MIN_TICK..MAX_TICK}. (if lo = s \<or> up = s then rp_liquidity p else 0))"
    by (rule member_le_sum [OF lo]) simp_all
  moreover have "active_at ps t \<le> (\<Sum>s \<in> {MIN_TICK..MAX_TICK}. gross_at ps s)"
    using Cons by (simp add: position_keys_ok_def)
  moreover have "active_at (e # ps) t \<le> rp_liquidity p + active_at ps t" by (simp add: active_at_def e)
  ultimately show ?case by simp
qed (simp add: active_at_def)

lemma MAX_TICK_GROSS_LIQUIDITY_bound: "nat (1 + MAX_TICK - MIN_TICK) * MAX_TICK_GROSS_LIQUIDITY \<le> 2 ^ 128 - 1"
  by (simp add: MAX_TICK_GROSS_LIQUIDITY_def umax_def)

lemma active_at_bound:
  assumes "position_keys_ok ps" "\<And>s. gross_at ps s \<le> MAX_TICK_GROSS_LIQUIDITY"
  shows "active_at ps t < 2 ^ 128"
proof -
  have "(\<Sum>s \<in> {MIN_TICK..MAX_TICK}. gross_at ps s) \<le> card {MIN_TICK..MAX_TICK} * MAX_TICK_GROSS_LIQUIDITY"
    using sum_bounded_above [of "{MIN_TICK..MAX_TICK}" "gross_at ps"] assms(2) by simp
  also have "card {MIN_TICK..MAX_TICK} = nat (1 + MAX_TICK - MIN_TICK)" by (simp add: algebra_simps)
  finally show ?thesis
    using active_at_le_gross [OF assms(1), of t] MAX_TICK_GROSS_LIQUIDITY_bound by simp
qed

section \<open>The invariant of the pool\<close>

definition tick_price :: "tick \<Rightarrow> sqrt_price" where
  "tick_price t = the (sqrt_price_at_tick t)"

text \<open>
  The current price lies between the current tick and the next one. Both ends are included:
  the price stays on a tick that a swap has just crossed.
\<close>

definition ro_price_inv :: "'lp range_pool \<Rightarrow> bool" where
  "ro_price_inv st \<longleftrightarrow> is_sqrt_price_valid (ro_sqrt_price st) \<and>
     MIN_TICK - 1 \<le> ro_tick st \<and> ro_tick st \<le> MAX_TICK \<and>
     (MIN_TICK \<le> ro_tick st \<longrightarrow> tick_price (ro_tick st) \<le> ro_sqrt_price st) \<and>
     (ro_tick st < MAX_TICK \<longrightarrow> ro_sqrt_price st \<le> tick_price (ro_tick st + 1))"

text \<open>The map of ticks is the sum of the positions.\<close>

definition ro_map_inv :: "liquidity_map \<Rightarrow> 'lp::linorder ro_positions_map \<Rightarrow> bool" where
  "ro_map_inv m ps \<longleftrightarrow> bt_wf m \<and> bt_wf ps \<and> position_keys_ok ps \<and>
     bt_get m MIN_TICK \<noteq> None \<and> bt_get m MAX_TICK \<noteq> None \<and>
     (\<forall>t. gross_at ps t \<le> MAX_TICK_GROSS_LIQUIDITY) \<and>
     (\<forall>t. case bt_get m t of None \<Rightarrow> gross_at ps t = 0
         | Some d \<Rightarrow> is_tick_valid t \<and> td_liquidity_gross d = gross_at ps t \<and> td_liquidity_delta d = net_at ps t)"

text \<open>The fee growth inside a range, as the source computes it but without the underflow.\<close>

definition outside_at :: "liquidity_map \<Rightarrow> tick \<Rightarrow> pairs \<Rightarrow> int" where
  "outside_at m t side = (case bt_get m t of None \<Rightarrow> 0 | Some d \<Rightarrow> int (pp_index (td_fee_growth_outside d) side))"

definition inside_growth :: "int \<Rightarrow> tick \<Rightarrow> tick \<Rightarrow> int \<Rightarrow> tick \<Rightarrow> int \<Rightarrow> int" where
  "inside_growth g ct lo olo up oup =
     g - (if ct < lo then g - olo else olo) - (if ct < up then oup else g - oup)"

definition ro_inside :: "'lp range_pool \<Rightarrow> tick \<Rightarrow> tick \<Rightarrow> pairs \<Rightarrow> int" where
  "ro_inside st lo up side = inside_growth (int (pp_index (ro_global_fee_growth st) side)) (ro_tick st)
     lo (outside_at (ro_liquidity_map st) lo side) up (outside_at (ro_liquidity_map st) up side)"

definition ro_growth_inv :: "'lp::linorder range_pool \<Rightarrow> bool" where
  "ro_growth_inv st \<longleftrightarrow> (\<forall>side. pp_index (ro_global_fee_growth st) side < 2 ^ 256 \<and>
     (\<forall>t. outside_at (ro_liquidity_map st) t side \<le> int (pp_index (ro_global_fee_growth st) side)) \<and>
     (\<forall>lp lo up p. bt_get (ro_positions st) (lp, lo, up) = Some p \<longrightarrow>
        int (pp_index (rp_last_fee_growth_inside p) side) \<le> ro_inside st lo up side))"

definition ro_inv :: "'lp::linorder range_pool \<Rightarrow> bool" where
  "ro_inv st \<longleftrightarrow> ro_fee_hundredth_pips st \<le> MAX_LP_FEE \<and> ro_price_inv st \<and>
     ro_map_inv (ro_liquidity_map st) (ro_positions st) \<and>
     ro_current_liquidity st = active_at (ro_positions st) (ro_tick st) \<and> ro_growth_inv st"

lemma ro_map_invD:
  assumes "ro_map_inv m ps"
  shows "bt_wf m" "bt_wf ps" "position_keys_ok ps" "bt_get m MIN_TICK \<noteq> None" "bt_get m MAX_TICK \<noteq> None"
    "gross_at ps t \<le> MAX_TICK_GROSS_LIQUIDITY" "bt_get m t = None \<Longrightarrow> gross_at ps t = 0"
    "bt_get m t = Some d \<Longrightarrow> is_tick_valid t \<and> td_liquidity_gross d = gross_at ps t \<and> td_liquidity_delta d = net_at ps t"
proof -
  have all: "case bt_get m t of None \<Rightarrow> gross_at ps t = 0
      | Some d \<Rightarrow> is_tick_valid t \<and> td_liquidity_gross d = gross_at ps t \<and> td_liquidity_delta d = net_at ps t"
    using assms by (simp add: ro_map_inv_def)
  show "bt_get m t = None \<Longrightarrow> gross_at ps t = 0" using all by simp
  show "bt_get m t = Some d \<Longrightarrow> is_tick_valid t \<and> td_liquidity_gross d = gross_at ps t \<and> td_liquidity_delta d = net_at ps t"
    using all by simp
qed (use assms in \<open>simp_all add: ro_map_inv_def\<close>)

lemma ro_invD:
  assumes "ro_inv st"
  shows "ro_fee_hundredth_pips st \<le> MAX_LP_FEE" "ro_price_inv st" "ro_map_inv (ro_liquidity_map st) (ro_positions st)"
    "ro_current_liquidity st = active_at (ro_positions st) (ro_tick st)" "ro_growth_inv st"
  using assms by (auto simp: ro_inv_def)

lemma ro_growth_invD:
  assumes "ro_growth_inv st"
  shows "pp_index (ro_global_fee_growth st) side < 2 ^ 256"
    "outside_at (ro_liquidity_map st) t side \<le> int (pp_index (ro_global_fee_growth st) side)"
    "bt_get (ro_positions st) (lp, lo, up) = Some p \<Longrightarrow>
        int (pp_index (rp_last_fee_growth_inside p) side) \<le> ro_inside st lo up side"
  using assms by (auto simp: ro_growth_inv_def)

lemma position_keysD:
  assumes "position_keys_ok ps" "bt_wf ps" "bt_get ps (lp, lo, up) = Some p"
  shows "lo < up" "MIN_TICK \<le> lo" "up \<le> MAX_TICK" "0 < rp_liquidity p" "is_tick_valid lo" "is_tick_valid up"
  using assms bt_get_mem [OF assms(2)] by (auto simp: position_keys_ok_def is_tick_valid_def)

lemma tick_price_eq: "is_tick_valid t \<Longrightarrow> sqrt_price_at_tick t = Some (tick_price t)"
  using sqrt_price_at_tick_valid by (fastforce simp: tick_price_def)

lemma tick_price_valid: "is_tick_valid t \<Longrightarrow> is_sqrt_price_valid (tick_price t)"
  using sqrt_price_at_tick_valid by (fastforce simp: tick_price_def is_sqrt_price_valid_def)

lemma tick_price_mono: "is_tick_valid s \<Longrightarrow> is_tick_valid t \<Longrightarrow> s \<le> t \<Longrightarrow> tick_price s \<le> tick_price t"
  using sqrt_price_at_tick_mono [OF _ tick_price_eq tick_price_eq] by blast

lemma tick_price_strict: "is_tick_valid s \<Longrightarrow> is_tick_valid t \<Longrightarrow> s < t \<Longrightarrow> tick_price s < tick_price t"
  using sqrt_price_at_tick_strict_mono tick_price_eq by metis

section \<open>The next tick of a swap\<close>

text \<open>No position starts or ends strictly between the current tick and the tick that a swap moves to.\<close>

lemma bt_wf_filter: "bt_wf m \<Longrightarrow> bt_wf (filter P m)"
  unfolding bt_wf_def by (metis sorted_wrt_filter sorted_wrt_map)

lemma ro_swap_entry_ok:
  assumes inv: "ro_inv st"
  shows "\<exists>r. ro_swap_entry sd limit st a = Some r"
proof -
  note M = ro_map_invD [OF ro_invD(3) [OF inv]]
  have P: "MIN_TICK - 1 \<le> ro_tick st" "ro_tick st \<le> MAX_TICK" using ro_invD(2) [OF inv] by (auto simp: ro_price_inv_def)
  have "\<exists>r. next_liquidity_delta sd (ro_tick st) (ro_liquidity_map st) = Some r"
  proof (cases sd)
    case BaseToQuote
    obtain d where d: "bt_get (ro_liquidity_map st) MIN_TICK = Some d" using M(4) by auto
    then have "(MIN_TICK, d) \<in> set (ro_liquidity_map st)" using bt_get_mem [OF M(1)] by simp
    then have "bt_upto (ro_tick st) (ro_liquidity_map st) \<noteq> []" if "MIN_TICK \<le> ro_tick st"
      using that by (auto simp: bt_upto_def filter_empty_conv)
    then show ?thesis using BaseToQuote P d by (auto simp: bt_last_def iconv_def MIN_TICK_def)
  next
    case QuoteToBase
    obtain d where d: "bt_get (ro_liquidity_map st) MAX_TICK = Some d" using M(5) by auto
    then have "(MAX_TICK, d) \<in> set (ro_liquidity_map st)" using bt_get_mem [OF M(1)] by simp
    then have "bt_from (ro_tick st + 1) (ro_liquidity_map st) \<noteq> []" if "ro_tick st < MAX_TICK"
      using that by (auto simp: bt_from_def filter_empty_conv intro!: bexI [of _ "(MAX_TICK, d)"])
    then show ?thesis using QuoteToBase P d
      by (cases "ro_tick st < MAX_TICK") (auto simp: bt_first_def iconv_def MAX_TICK_def MIN_TICK_def split: list.splits)
  qed
  then show ?thesis by (auto simp: ro_swap_entry_def)
qed

lemma ro_swap_entry_next:
  assumes inv: "ro_inv st" and entry: "ro_swap_entry sd limit st a = Some (Some (t, d))"
  shows "bt_get (ro_liquidity_map st) t = Some d" "is_tick_valid t"
    "sd = BaseToQuote \<Longrightarrow> t < u \<Longrightarrow> u \<le> ro_tick st \<Longrightarrow> bt_get (ro_liquidity_map st) u = None"
    "sd = QuoteToBase \<Longrightarrow> ro_tick st < u \<Longrightarrow> u < t \<Longrightarrow> bt_get (ro_liquidity_map st) u = None"
proof -
  note M = ro_map_invD [OF ro_invD(3) [OF inv]]
  note E = ro_swap_entry_SomeD [OF entry]
  show get: "bt_get (ro_liquidity_map st) t = Some d" using E(2) bt_get_mem [OF M(1)] by simp
  then show "is_tick_valid t" using M(8) by blast
  have next_delta: "next_liquidity_delta sd (ro_tick st) (ro_liquidity_map st) = Some (Some (t, d))"
    using entry by (simp add: ro_swap_entry_def split: if_splits)
  show "bt_get (ro_liquidity_map st) u = None" if "sd = BaseToQuote" "t < u" "u \<le> ro_tick st"
  proof (rule ccontr)
    assume "bt_get (ro_liquidity_map st) u \<noteq> None"
    then have "u \<in> fst ` set (bt_upto (ro_tick st) (ro_liquidity_map st))"
      using that bt_get_mem [OF M(1)] by (force simp: bt_upto_def)
    moreover have "bt_last (bt_upto (ro_tick st) (ro_liquidity_map st)) = Some (t, d)"
      using next_delta that(1) by (auto split: bind_splits if_splits)
    ultimately have "u \<le> t"
      using bt_last_greatest [OF bt_wf_filter [OF M(1)]] by (simp add: bt_upto_def)
    then show False using that(2) by simp
  qed
  show "bt_get (ro_liquidity_map st) u = None" if "sd = QuoteToBase" "ro_tick st < u" "u < t"
  proof (rule ccontr)
    assume "bt_get (ro_liquidity_map st) u \<noteq> None"
    then have "u \<in> fst ` set (bt_from (ro_tick st + 1) (ro_liquidity_map st))"
      using that bt_get_mem [OF M(1)] by (force simp: bt_from_def)
    moreover have "bt_first (bt_from (ro_tick st + 1) (ro_liquidity_map st)) = Some (t, d)"
      using next_delta that(1) by (auto split: bind_splits if_splits)
    ultimately have "t \<le> u"
      using bt_first_least [OF bt_wf_filter [OF M(1)]] by (simp add: bt_from_def)
    then show False using that(3) by simp
  qed
qed

text \<open>The price of the next tick lies ahead of the current price.\<close>

lemma ro_swap_entry_ahead:
  assumes inv: "ro_inv st" and entry: "ro_swap_entry sd limit st a = Some (Some (t, d))"
  shows "ahead sd (ro_sqrt_price st) (tick_price t)"
proof -
  note E = ro_swap_entry_SomeD [OF entry] and N = ro_swap_entry_next [OF inv entry]
  have P: "MIN_TICK \<le> ro_tick st \<longrightarrow> tick_price (ro_tick st) \<le> ro_sqrt_price st"
      "ro_tick st < MAX_TICK \<longrightarrow> ro_sqrt_price st \<le> tick_price (ro_tick st + 1)"
      "MIN_TICK - 1 \<le> ro_tick st" "ro_tick st \<le> MAX_TICK"
    using ro_invD(2) [OF inv] by (auto simp: ro_price_inv_def)
  show ?thesis
  proof (cases sd)
    case BaseToQuote
    then have "t \<le> ro_tick st" "MIN_TICK \<le> ro_tick st" using E(3,5) by simp_all
    then show ?thesis using tick_price_mono [OF N(2), of "ro_tick st"] P BaseToQuote by (simp add: is_tick_valid_def)
  next
    case QuoteToBase
    then have "ro_tick st + 1 \<le> t" "ro_tick st < MAX_TICK" using E(3,6) by simp_all
    then show ?thesis using tick_price_mono [OF _ N(2), of "ro_tick st + 1"] P QuoteToBase by (simp add: is_tick_valid_def)
  qed
qed

section \<open>Moving the current tick\<close>

text \<open>
  The side of each tick that the price is on decides the fee growth inside a range. It is the
  same before and after a move that crosses no tick of the map, and crossing a tick turns its
  outside growth around.
\<close>

definition same_sides :: "liquidity_map \<Rightarrow> tick \<Rightarrow> tick \<Rightarrow> bool" where
  "same_sides m ct ct' \<longleftrightarrow> (\<forall>u. bt_get m u \<noteq> None \<longrightarrow> (ct < u \<longleftrightarrow> ct' < u))"

definition cross_sides :: "liquidity_map \<Rightarrow> tick \<Rightarrow> tick \<Rightarrow> tick \<Rightarrow> bool" where
  "cross_sides m t ct ct' \<longleftrightarrow> (ct < t \<longleftrightarrow> \<not> ct' < t) \<and> (\<forall>u. u \<noteq> t \<longrightarrow> bt_get m u \<noteq> None \<longrightarrow> (ct < u \<longleftrightarrow> ct' < u))"

lemma position_ticks:
  assumes inv: "ro_map_inv m ps" and pos: "bt_get ps (lp, lo, up) = Some p"
  shows "bt_get m lo \<noteq> None" "bt_get m up \<noteq> None"
proof -
  note M = ro_map_invD [OF inv]
  have "((lp, lo, up), p) \<in> set ps" using pos bt_get_mem [OF M(2)] by simp
  then have "gross_at ps lo \<noteq> 0" "gross_at ps up \<noteq> 0" using gross_at_0_iff [OF M(3)] by fastforce+
  then show "bt_get m lo \<noteq> None" "bt_get m up \<noteq> None" 
    using M(7) [of lo] M(7) [of up] by auto
qed

lemma active_at_same_sides:
  assumes inv: "ro_map_inv m ps" and sides: "same_sides m ct ct'"
  shows "active_at ps ct' = active_at ps ct"
  unfolding active_at_def
proof (rule bt_sum_cong, clarify)
  fix lp lo up p assume "((lp, lo, up), p) \<in> set ps"
  then have "bt_get ps (lp, lo, up) = Some p" using bt_get_mem [OF ro_map_invD(2) [OF inv]] by blast
  from position_ticks [OF inv this] have "(ct < lo \<longleftrightarrow> ct' < lo)" "(ct < up \<longleftrightarrow> ct' < up)"
    using sides by (simp_all add: same_sides_def)
  then show "(if lo \<le> ct' \<and> ct' < up then rp_liquidity p else 0) = (if lo \<le> ct \<and> ct < up then rp_liquidity p else 0)"
    by (auto simp: not_less [symmetric])
qed

lemma inside_growth_flip:
  assumes "ct < t \<longleftrightarrow> \<not> ct' < t" "lo \<noteq> up" "lo \<noteq> t \<Longrightarrow> ct < lo \<longleftrightarrow> ct' < lo" "up \<noteq> t \<Longrightarrow> ct < up \<longleftrightarrow> ct' < up"
  shows "inside_growth g ct' lo (if lo = t then g - olo else olo) up (if up = t then g - oup else oup)
    = inside_growth g ct lo olo up oup"
  using assms by (auto simp: inside_growth_def)

lemma inside_growth_add:
  assumes "lo < up"
  shows "inside_growth (g + x) ct lo olo up oup = inside_growth g ct lo olo up oup + (if lo \<le> ct \<and> ct < up then x else 0)"
  using assms by (auto simp: inside_growth_def)

text \<open>A move of the price that stops before the next tick.\<close>

lemma ro_move_between:
  assumes inv: "ro_inv st" and entry: "ro_swap_entry sd limit st a = Some (Some (t, d))"
    and n: "ahead sd (ro_sqrt_price st) n" "ahead sd n (tick_price t)" "n \<noteq> tick_price t" "n \<noteq> ro_sqrt_price st"
  obtains t' where "tick_at_sqrt_price n = Some t'" "same_sides (ro_liquidity_map st) (ro_tick st) t'"
    "is_tick_valid t'" "tick_price t' \<le> n" "t' < MAX_TICK \<longrightarrow> n \<le> tick_price (t' + 1)"
proof -
  note E = ro_swap_entry_SomeD [OF entry] and N = ro_swap_entry_next [OF inv entry]
  have P: "MIN_TICK \<le> ro_tick st \<longrightarrow> tick_price (ro_tick st) \<le> ro_sqrt_price st"
      "ro_tick st < MAX_TICK \<longrightarrow> ro_sqrt_price st \<le> tick_price (ro_tick st + 1)"
      "MIN_TICK - 1 \<le> ro_tick st" "ro_tick st \<le> MAX_TICK" "is_sqrt_price_valid (ro_sqrt_price st)"
    using ro_invD(2) [OF inv] by (auto simp: ro_price_inv_def)
  have vn: "is_sqrt_price_valid n" using ahead_valid [OF P(5) tick_price_valid [OF N(2)] n(1,2)] .
  obtain t' where t': "tick_at_sqrt_price n = Some t'" "is_tick_valid t'" "tick_price t' \<le> n"
    "t' < MAX_TICK \<Longrightarrow> n < tick_price (t' + 1)"
    using tick_at_sqrt_price_spec [OF vn] by (auto simp: greatest_tick_below_def tick_price_def)
  have lo: "s \<le> t'" if "is_tick_valid s" "tick_price s \<le> n" for s
  proof (rule ccontr)
    assume "\<not> s \<le> t'"
    then have "t' + 1 \<le> s" "t' < MAX_TICK" using that(1) by (simp_all add: is_tick_valid_def)
    then have "n < tick_price s"
      using t'(2,4) tick_price_mono [OF _ that(1), of "t' + 1"] by (fastforce simp: is_tick_valid_def)
    then show False using that(2) by simp
  qed
  have hi: "t' < s" if "is_tick_valid s" "n < tick_price s" for s
    using tick_price_mono [OF that(1) t'(2)] that(2) t'(3) by fastforce
  have "same_sides (ro_liquidity_map st) (ro_tick st) t'"
  proof (cases sd)
    case BaseToQuote
    have "t \<le> t'" using lo [OF N(2)] n BaseToQuote by simp
    moreover have "n < ro_sqrt_price st" using n BaseToQuote by simp
    then have "t' \<le> ro_tick st"
      using hi [of "ro_tick st + 1"] P t'(2) by (cases "ro_tick st < MAX_TICK") (auto simp: is_tick_valid_def)
    ultimately show ?thesis using N(3) [OF BaseToQuote] unfolding same_sides_def by (metis linorder_not_less order_less_le_trans order_le_less_trans)
  next
    case QuoteToBase
    have "t' < t" using hi [OF N(2)] n QuoteToBase by simp
    moreover have "ro_tick st \<le> t'"
      using lo [of "ro_tick st"] P n(1) t'(2) QuoteToBase by (cases "MIN_TICK \<le> ro_tick st") (auto simp: is_tick_valid_def)
    ultimately show ?thesis using N(4) [OF QuoteToBase] unfolding same_sides_def by (metis linorder_not_less order_less_le_trans order_le_less_trans)
  qed
  with t' show thesis using that by (simp add: less_imp_le)
qed

text \<open>A move onto the next tick.\<close>

lemma ro_move_across:
  assumes inv: "ro_inv st" and entry: "ro_swap_entry sd limit st a = Some (Some (t, d))"
  obtains t' where "current_tick_after_crossing_tick sd t = Some t'" "cross_sides (ro_liquidity_map st) t (ro_tick st) t'"
    "MIN_TICK - 1 \<le> t'" "t' \<le> MAX_TICK" "MIN_TICK \<le> t' \<longrightarrow> tick_price t' \<le> tick_price t"
    "t' < MAX_TICK \<longrightarrow> tick_price t \<le> tick_price (t' + 1)"
    "int (active_at (ro_positions st) t') =
       int (active_at (ro_positions st) (ro_tick st)) + (if sd = BaseToQuote then - net_at (ro_positions st) t else net_at (ro_positions st) t)"
proof -
  note E = ro_swap_entry_SomeD [OF entry] and N = ro_swap_entry_next [OF inv entry]
  note M = ro_map_invD [OF ro_invD(3) [OF inv]]
  have v: "MIN_TICK \<le> t" "t \<le> MAX_TICK" using N(2) by (simp_all add: is_tick_valid_def)
  note step = active_at_step [OF M(3), of t]
  show thesis
  proof (cases sd)
    case BaseToQuote
    have le: "t \<le> ro_tick st" using E(5) BaseToQuote by simp
    have "cross_sides (ro_liquidity_map st) t (ro_tick st) (t - 1)"
      unfolding cross_sides_def using le N(3) [OF BaseToQuote] by (smt (verit))
    moreover have "active_at (ro_positions st) t = active_at (ro_positions st) (ro_tick st)"
      using active_at_const [OF M(3) le] M(7) [OF N(3) [OF BaseToQuote]] by simp
    moreover have "tick_price (t - 1) \<le> tick_price t" if "MIN_TICK \<le> t - 1"
      using tick_price_mono [OF _ N(2), of "t - 1"] that v by (simp add: is_tick_valid_def)
    ultimately show thesis using that [of "t - 1"] BaseToQuote v step by (simp add: MIN_TICK_def MAX_TICK_def)
  next
    case QuoteToBase
    have less: "ro_tick st < t" using E(6) QuoteToBase by simp
    have "cross_sides (ro_liquidity_map st) t (ro_tick st) t"
      unfolding cross_sides_def using less N(4) [OF QuoteToBase] by (smt (verit))
    moreover have "active_at (ro_positions st) (ro_tick st) = active_at (ro_positions st) (t - 1)"
      using less M(7) [OF N(4) [OF QuoteToBase]] by (intro active_at_const [OF M(3)]) auto
    moreover have "tick_price t \<le> tick_price (t + 1)" if "t < MAX_TICK"
      using tick_price_mono [OF N(2), of "t + 1"] that v by (simp add: is_tick_valid_def)
    ultimately show thesis using that [of t] QuoteToBase v step by simp
  qed
qed

section \<open>What the pool owes\<close>

text \<open>
  The exact value of a position at a price, in each of the two assets, and the fees that a
  position has earned since it was last collected.
\<close>

definition clamp :: "sqrt_price \<Rightarrow> tick \<Rightarrow> tick \<Rightarrow> sqrt_price" where
  "clamp p lo up = max (tick_price lo) (min p (tick_price up))"

fun position_value :: "sqrt_price \<Rightarrow> pairs \<Rightarrow> tick \<Rightarrow> tick \<Rightarrow> liquidity \<Rightarrow> real" where
  "position_value p Base lo up l = base_exact (clamp p lo up) (tick_price up) l"
| "position_value p Quote lo up l = quote_exact (tick_price lo) (clamp p lo up) l"

definition ro_value :: "'lp ro_positions_map \<Rightarrow> sqrt_price \<Rightarrow> pairs \<Rightarrow> real" where
  "ro_value ps p side = bt_sum (\<lambda>(lp, lo, up) pos. position_value p side lo up (rp_liquidity pos)) ps"

definition ro_earned :: "'lp range_pool \<Rightarrow> pairs \<Rightarrow> tick \<Rightarrow> tick \<Rightarrow> ro_position \<Rightarrow> real" where
  "ro_earned st side lo up pos = real (rp_liquidity pos) *
     real_of_int (ro_inside st lo up side - int (pp_index (rp_last_fee_growth_inside pos) side)) / 2 ^ 128"

definition ro_pending :: "'lp range_pool \<Rightarrow> pairs \<Rightarrow> real" where
  "ro_pending st side = bt_sum (\<lambda>(lp, lo, up) pos. ro_earned st side lo up pos) (ro_positions st)"

definition ro_worth :: "'lp range_pool \<Rightarrow> pairs \<Rightarrow> real" where
  "ro_worth st side = ro_value (ro_positions st) (ro_sqrt_price st) side + ro_pending st side"

text \<open>The ticks of the map around a segment of a swap.\<close>

lemma segment_keys:
  assumes inv: "ro_inv st" and entry: "ro_swap_entry sd limit st a = Some (Some (t, d))"
    and n: "ahead sd (ro_sqrt_price st) n" "ahead sd n (tick_price t)" and u: "bt_get (ro_liquidity_map st) u \<noteq> None"
  shows "u \<le> ro_tick st \<Longrightarrow> tick_price u \<le> ro_sqrt_price st \<and> tick_price u \<le> n"
    and "ro_tick st < u \<Longrightarrow> ro_sqrt_price st \<le> tick_price u \<and> n \<le> tick_price u"
proof -
  note E = ro_swap_entry_SomeD [OF entry] and N = ro_swap_entry_next [OF inv entry]
  have P: "MIN_TICK \<le> ro_tick st \<longrightarrow> tick_price (ro_tick st) \<le> ro_sqrt_price st"
      "ro_tick st < MAX_TICK \<longrightarrow> ro_sqrt_price st \<le> tick_price (ro_tick st + 1)"
      "MIN_TICK - 1 \<le> ro_tick st" "ro_tick st \<le> MAX_TICK"
    using ro_invD(2) [OF inv] by (auto simp: ro_price_inv_def)
  have v: "is_tick_valid u" using u ro_map_invD(8) [OF ro_invD(3) [OF inv]] by auto
  have below: "tick_price u \<le> ro_sqrt_price st" if "u \<le> ro_tick st"
    using tick_price_mono [OF v, of "ro_tick st"] that P v by (fastforce simp: is_tick_valid_def)
  have above: "ro_sqrt_price st \<le> tick_price u" if "ro_tick st < u"
    using tick_price_mono [OF _ v, of "ro_tick st + 1"] that P v by (fastforce simp: is_tick_valid_def)
  have down: "tick_price u \<le> tick_price t" if "sd = BaseToQuote" "u \<le> ro_tick st"
    using N(3) [OF that(1), of u] u that(2) tick_price_mono [OF v N(2)] by fastforce
  have up: "tick_price t \<le> tick_price u" if "sd = QuoteToBase" "ro_tick st < u"
    using N(4) [OF that(1), of u] u that(2) tick_price_mono [OF N(2) v] by fastforce
  show "u \<le> ro_tick st \<Longrightarrow> tick_price u \<le> ro_sqrt_price st \<and> tick_price u \<le> n"
    using below down n by (cases sd) fastforce+
  show "ro_tick st < u \<Longrightarrow> ro_sqrt_price st \<le> tick_price u \<and> n \<le> tick_price u"
    using above up n by (cases sd) fastforce+
qed

lemma position_value_move:
  assumes "tick_price lo \<le> tick_price up"
    and "lo \<le> ct \<Longrightarrow> tick_price lo \<le> p \<and> tick_price lo \<le> n" "ct < lo \<Longrightarrow> p \<le> tick_price lo \<and> n \<le> tick_price lo"
    and "up \<le> ct \<Longrightarrow> tick_price up \<le> p \<and> tick_price up \<le> n" "ct < up \<Longrightarrow> p \<le> tick_price up \<and> n \<le> tick_price up"
  shows "position_value n Base lo up l = position_value p Base lo up l + (if lo \<le> ct \<and> ct < up then base_exact n p l else 0)"
    "position_value n Quote lo up l = position_value p Quote lo up l + (if lo \<le> ct \<and> ct < up then quote_exact p n l else 0)"
proof -
  have "(lo \<le> ct \<and> ct < up \<longrightarrow> clamp n lo up = n \<and> clamp p lo up = p) \<and>
        (\<not> (lo \<le> ct \<and> ct < up) \<longrightarrow> clamp n lo up = clamp p lo up)"
    using assms by (auto simp: clamp_def max_def min_def not_le not_less split: if_splits)
  then show "position_value n Base lo up l = position_value p Base lo up l + (if lo \<le> ct \<and> ct < up then base_exact n p l else 0)"
    "position_value n Quote lo up l = position_value p Quote lo up l + (if lo \<le> ct \<and> ct < up then quote_exact p n l else 0)"
    by (auto simp: base_exact_def quote_exact_def algebra_simps)
qed

lemma active_sum:
  "bt_sum (\<lambda>(lp, lo, up) pos. if lo \<le> ct \<and> ct < up then real (rp_liquidity pos) * c else 0) ps = real (active_at ps ct) * c"
  by (induction ps) (auto simp: active_at_def algebra_simps)

lemma ro_value_move:
  assumes inv: "ro_inv st" and entry: "ro_swap_entry sd limit st a = Some (Some (t, d))"
    and n: "ahead sd (ro_sqrt_price st) n" "ahead sd n (tick_price t)"
  shows "ro_value (ro_positions st) n Base
      = ro_value (ro_positions st) (ro_sqrt_price st) Base + base_exact n (ro_sqrt_price st) (ro_current_liquidity st)"
    "ro_value (ro_positions st) n Quote
      = ro_value (ro_positions st) (ro_sqrt_price st) Quote + quote_exact (ro_sqrt_price st) n (ro_current_liquidity st)"
proof -
  note M = ro_map_invD [OF ro_invD(3) [OF inv]]
  let ?p = "ro_sqrt_price st" and ?ct = "ro_tick st"
  have *: "position_value n Base lo up (rp_liquidity pos) = position_value ?p Base lo up (rp_liquidity pos) +
        (if lo \<le> ?ct \<and> ?ct < up then base_exact n ?p (rp_liquidity pos) else 0) \<and>
      position_value n Quote lo up (rp_liquidity pos) = position_value ?p Quote lo up (rp_liquidity pos) +
        (if lo \<le> ?ct \<and> ?ct < up then quote_exact ?p n (rp_liquidity pos) else 0)"
    if "((lp, lo, up), pos) \<in> set (ro_positions st)" for lp lo up pos
  proof -
    have pos: "bt_get (ro_positions st) (lp, lo, up) = Some pos" using that bt_get_mem [OF M(2)] by simp
    note K = position_keysD [OF M(3,2) pos] and T = position_ticks [OF ro_invD(3) [OF inv] pos]
    have "tick_price lo \<le> tick_price up" using tick_price_mono [OF K(5,6)] K(1) by simp
    from position_value_move [OF this] show ?thesis
      using segment_keys [OF inv entry n T(1)] segment_keys [OF inv entry n T(2)] by blast
  qed
  have "ro_value (ro_positions st) n Base = bt_sum (\<lambda>(lp, lo, up) pos. position_value ?p Base lo up (rp_liquidity pos) +
      (if lo \<le> ?ct \<and> ?ct < up then real (rp_liquidity pos) * (2 ^ 96 / real n - 2 ^ 96 / real ?p) else 0)) (ro_positions st)"
    unfolding ro_value_def using * by (intro bt_sum_cong) (force simp: base_exact_def)
  also have "\<dots> = ro_value (ro_positions st) ?p Base + base_exact n ?p (ro_current_liquidity st)"
    by (simp add: case_prod_unfold bt_sum_add ro_value_def ro_invD(4) [OF inv] base_exact_def
        active_sum [unfolded case_prod_unfold])
  finally show "ro_value (ro_positions st) n Base = ro_value (ro_positions st) ?p Base + base_exact n ?p (ro_current_liquidity st)" .
  have "ro_value (ro_positions st) n Quote = bt_sum (\<lambda>(lp, lo, up) pos. position_value ?p Quote lo up (rp_liquidity pos) +
      (if lo \<le> ?ct \<and> ?ct < up then real (rp_liquidity pos) * (real n / 2 ^ 96 - real ?p / 2 ^ 96) else 0)) (ro_positions st)"
    unfolding ro_value_def using * by (intro bt_sum_cong) (force simp: quote_exact_def)
  also have "\<dots> = ro_value (ro_positions st) ?p Quote + quote_exact ?p n (ro_current_liquidity st)"
    by (simp add: case_prod_unfold bt_sum_add ro_value_def ro_invD(4) [OF inv] quote_exact_def
        active_sum [unfolded case_prod_unfold])
  finally show "ro_value (ro_positions st) n Quote = ro_value (ro_positions st) ?p Quote + quote_exact ?p n (ro_current_liquidity st)" .
qed

text \<open>In the terms of the direction of the swap.\<close>

lemma ro_value_swap:
  assumes inv: "ro_inv st" and entry: "ro_swap_entry sd limit st a = Some (Some (t, d))"
    and n: "ahead sd (ro_sqrt_price st) n" "ahead sd n (tick_price t)"
  shows "ro_value (ro_positions st) n (input_side sd) = ro_value (ro_positions st) (ro_sqrt_price st) (input_side sd) +
      in_exact sd (ro_sqrt_price st) n (ro_current_liquidity st)"
    "ro_value (ro_positions st) n (not_pair (input_side sd)) = ro_value (ro_positions st) (ro_sqrt_price st) (not_pair (input_side sd)) -
      out_exact sd (ro_sqrt_price st) n (ro_current_liquidity st)"
  using ro_value_move [OF assms] by (cases sd; simp add: base_exact_def quote_exact_def algebra_simps)+

section \<open>One segment of a swap\<close>

definition with_growth :: "pairs \<Rightarrow> nat \<Rightarrow> 'lp range_pool \<Rightarrow> 'lp range_pool" where
  "with_growth side g st = st\<lparr>ro_global_fee_growth := pp_set side g (ro_global_fee_growth st)\<rparr>"

lemma with_growth_positions [simp]: "ro_positions (with_growth side g st) = ro_positions st"
  by (simp add: with_growth_def)

lemma with_growth_inside:
  assumes "pp_index (ro_global_fee_growth st) side \<le> g" "lo < up"
  shows "ro_inside (with_growth side g st) lo up side' = ro_inside st lo up side' +
    (if side' = side \<and> lo \<le> ro_tick st \<and> ro_tick st < up then int (g - pp_index (ro_global_fee_growth st) side) else 0)"
proof -
  obtain x where g: "g = pp_index (ro_global_fee_growth st) side + x" using assms(1) le_Suc_ex by blast
  show ?thesis by (simp add: g ro_inside_def with_growth_def inside_growth_add [OF assms(2)])
qed

lemma with_growth_earned:
  assumes "pp_index (ro_global_fee_growth st) side \<le> g" "lo < up"
  shows "ro_earned (with_growth side g st) side' lo up pos = ro_earned st side' lo up pos +
    (if lo \<le> ro_tick st \<and> ro_tick st < up
     then real (rp_liquidity pos) * (if side' = side then real (g - pp_index (ro_global_fee_growth st) side) / 2 ^ 128 else 0)
     else 0)"
proof -
  have "(l :: real) * (i + x - la) / c = l * (i - la) / c + l * (x / c)" for l i x la c
    by (simp add: ring_distribs add_divide_distrib diff_divide_distrib)
  then show ?thesis unfolding ro_earned_def with_growth_inside [OF assms] by simp
qed

lemma with_growth_inv:
  assumes inv: "ro_inv st" and g: "pp_index (ro_global_fee_growth st) side \<le> g" "g < 2 ^ 256"
  shows "ro_inv (with_growth side g st)"
    "ro_pending (with_growth side g st) side' = ro_pending st side' +
       (if side' = side then real (ro_current_liquidity st) * (real (g - pp_index (ro_global_fee_growth st) side) / 2 ^ 128) else 0)"
proof -
  note M = ro_map_invD [OF ro_invD(3) [OF inv]] and G = ro_growth_invD [OF ro_invD(5) [OF inv]]
  let ?x = "g - pp_index (ro_global_fee_growth st) side"
  have lt: "lo < up" if "((lp, lo, up), pos) \<in> set (ro_positions st)" for lp lo up pos
    using that M(3) by (auto simp: position_keys_ok_def)
  have "ro_growth_inv (with_growth side g st)"
    unfolding ro_growth_inv_def
  proof (intro allI conjI impI)
    fix s t
    show "pp_index (ro_global_fee_growth (with_growth side g st)) s < 2 ^ 256"
      using G(1) g(2) by (simp add: with_growth_def)
    show "outside_at (ro_liquidity_map (with_growth side g st)) t s \<le> int (pp_index (ro_global_fee_growth (with_growth side g st)) s)"
      using G(2) [of t s] g(1) by (auto simp: with_growth_def)
    fix lp lo up p assume p: "bt_get (ro_positions (with_growth side g st)) (lp, lo, up) = Some p"
    then have p': "bt_get (ro_positions st) (lp, lo, up) = Some p" by (simp add: with_growth_def)
    have "ro_inside st lo up s \<le> ro_inside (with_growth side g st) lo up s"
      using with_growth_inside [OF g(1) position_keysD(1) [OF M(3,2) p'], of s] by simp
    then show "int (pp_index (rp_last_fee_growth_inside p) s) \<le> ro_inside (with_growth side g st) lo up s"
      using G(3) [OF p', of s] by simp
  qed
  then show "ro_inv (with_growth side g st)"
    using inv by (auto simp: ro_inv_def ro_price_inv_def with_growth_def)
  have "ro_pending (with_growth side g st) side' = bt_sum (\<lambda>(lp, lo, up) pos. ro_earned st side' lo up pos +
      (if lo \<le> ro_tick st \<and> ro_tick st < up then real (rp_liquidity pos) * (if side' = side then real ?x / 2 ^ 128 else 0) else 0))
      (ro_positions st)"
    unfolding ro_pending_def with_growth_positions
    using with_growth_earned [OF g(1) lt] by (intro bt_sum_cong) force
  also have "\<dots> = ro_pending st side' + real (ro_current_liquidity st) * (if side' = side then real ?x / 2 ^ 128 else 0)"
    by (simp add: case_prod_unfold bt_sum_add ro_pending_def ro_invD(4) [OF inv] active_sum [unfolded case_prod_unfold])
  finally show "ro_pending (with_growth side g st) side' = ro_pending st side' +
       (if side' = side then real (ro_current_liquidity st) * (real ?x / 2 ^ 128) else 0)" by simp
qed

lemma ro_totals [simp]:
  "ro_inv (st\<lparr>ro_total_swap_inputs := x\<rparr>) = ro_inv st" "ro_pending (st\<lparr>ro_total_swap_inputs := x\<rparr>) = ro_pending st"
  "ro_inv (st\<lparr>ro_total_fees_earned := x\<rparr>) = ro_inv st" "ro_pending (st\<lparr>ro_total_fees_earned := x\<rparr>) = ro_pending st"
  "ro_inv (st\<lparr>ro_total_swap_outputs := x\<rparr>) = ro_inv st" "ro_pending (st\<lparr>ro_total_swap_outputs := x\<rparr>) = ro_pending st"
  by (simp_all add: ro_inv_def ro_price_inv_def ro_growth_inv_def ro_inside_def ro_pending_def ro_earned_def fun_eq_iff)

definition same_liquidity :: "'lp range_pool \<Rightarrow> 'lp range_pool \<Rightarrow> bool" where
  "same_liquidity st st' \<longleftrightarrow> ro_sqrt_price st' = ro_sqrt_price st \<and> ro_tick st' = ro_tick st \<and>
     ro_liquidity_map st' = ro_liquidity_map st \<and> ro_positions st' = ro_positions st \<and>
     ro_current_liquidity st' = ro_current_liquidity st"

lemma ro_current_liquidity_bound:
  assumes "ro_inv st"
  shows "ro_current_liquidity st < 2 ^ 128"
proof -
  note M = ro_map_invD [OF ro_invD(3) [OF assms]]
  show ?thesis using active_at_bound [OF M(3,6)] by (simp add: ro_invD(4) [OF assms])
qed

lemma ro_segment_ok:
  assumes inv: "ro_inv st" and a: "a < 2 ^ 256" and tot: "tot + 2 ^ 192 < 2 ^ 256"
    and t: "is_sqrt_price_valid t" "ahead sd (ro_sqrt_price st) t"
  obtains nxt st1 a1 out where "ro_swap_segment sd t (st, a, tot) = Some (nxt, st1, a1, tot + out)"
    "ro_inv st1" "same_liquidity st st1" "ahead sd (ro_sqrt_price st) nxt" "ahead sd nxt t" "nxt = t \<or> a1 = 0" "a1 \<le> a" "out < 2 ^ 192"
    "in_exact sd (ro_sqrt_price st) nxt (ro_current_liquidity st) + ro_pending st1 (input_side sd)
       \<le> ro_pending st (input_side sd) + (real a - real a1)"
    "real out \<le> out_exact sd (ro_sqrt_price st) nxt (ro_current_liquidity st)"
    "ro_pending st1 (not_pair (input_side sd)) = ro_pending st (not_pair (input_side sd))"
proof (cases "ro_current_liquidity st = 0")
  case True
  have "in_exact sd p q 0 = 0" "out_exact sd p q 0 = 0" for p q
    by (cases sd; simp add: base_exact_def quote_exact_def)+
  then show thesis
    using that [of t st a 0] True inv t(2) by (simp add: ro_swap_segment_def same_liquidity_def)
next
  case False
  let ?p = "ro_sqrt_price st" and ?l = "ro_current_liquidity st" and ?G = "pp_index (ro_global_fee_growth st) (input_side sd)"
  have l: "0 < ?l" "?l < 2 ^ 128" using False ro_current_liquidity_bound [OF inv] by simp_all
  have p: "is_sqrt_price_valid ?p" using ro_invD(2) [OF inv] by (simp add: ro_price_inv_def)
  obtain nxt swapped fees out where am: "ro_swap_amounts sd (ro_fee_hundredth_pips st) ?p ?l t a = Some (nxt, swapped, fees, out)"
    and post: "segment_post sd ?p ?l t a nxt swapped fees out"
    using ro_swap_amounts_ok [OF p t(1) l t(2) ro_invD(1) [OF inv] a] .
  define growth where "growth = fees * 2 ^ 128 div ?l"
  define g where "g = usat_add 256 ?G growth"
  have "fees * 2 ^ 128 \<le> (2 ^ 66 * 2 ^ 128) * ?l" using post by (simp add: segment_post_def)
  then have gr: "growth \<le> 2 ^ 66 * 2 ^ 128" 
    unfolding growth_def using l(1) by (metis div_le_mono nonzero_mult_div_cancel_right less_numeral_extra(3))
  have shl: "ushl 256 (Suc 0) 128 = 2 ^ 128" by (simp add: ushl_exact)
  have mdf: "mul_div_floor fees (2 ^ 128) ?l = Some growth" using l(1) gr by (simp add: growth_def)
  have G: "?G < 2 ^ 256" using ro_growth_invD(1) [OF ro_invD(5) [OF inv]] .
  have out: "out < 2 ^ 192" using post l(2) by (simp add: segment_post_def)
  define st1 where "st1 = with_growth (input_side sd) g (st\<lparr>ro_total_swap_inputs := pp_set (input_side sd)
       (usat_add 256 (pp_index (ro_total_swap_inputs st) (input_side sd)) swapped) (ro_total_swap_inputs st)\<rparr>
     \<lparr>ro_total_fees_earned := pp_set (input_side sd)
       (usat_add 256 (pp_index (ro_total_fees_earned st) (input_side sd)) fees) (ro_total_fees_earned st)\<rparr>)"
  have "ro_swap_segment sd t (st, a, tot) = Some (nxt, st1, a - (swapped + fees), tot + out)"
    using False am post a tot out mdf
    by (simp add: ro_swap_segment_def segment_post_def Let_def uadd_def usub_def shl st1_def with_growth_def g_def
        del: mul_div_floor_Some)
  moreover note W = with_growth_inv [of "st\<lparr>ro_total_swap_inputs := x\<rparr>\<lparr>ro_total_fees_earned := y\<rparr>" for x y, simplified, OF inv]
  have g: "?G \<le> g" "g < 2 ^ 256" using usat_add_ge [OF G] usat_add_less by (simp_all only: g_def)
  have "ro_inv st1" using W(1) g by (simp add: st1_def)
  moreover have "real ?l * (real (g - ?G) / 2 ^ 128) \<le> real fees"
  proof -
    have "g - ?G \<le> growth" using usat_add_le [of 256 ?G growth] unfolding g_def by linarith
    then have "?l * (g - ?G) \<le> ?l * growth" by (rule mult_le_mono2)
    also have "\<dots> \<le> fees * 2 ^ 128" by (simp add: growth_def)
    finally have "real (?l * (g - ?G)) \<le> real (fees * 2 ^ 128)" by (rule of_nat_mono)
    then show ?thesis by (simp add: field_simps)
  qed
  then have "in_exact sd ?p nxt ?l + ro_pending st1 (input_side sd)
       \<le> ro_pending st (input_side sd) + (real a - real (a - (swapped + fees)))"
    using W(2) [of "input_side sd" g] g post by (simp add: st1_def segment_post_def of_nat_diff)
  moreover have "ro_pending st1 (not_pair (input_side sd)) = ro_pending st (not_pair (input_side sd))"
    using W(2) [of "input_side sd" g] g by (cases sd) (simp_all add: st1_def)
  ultimately show thesis using that [of nxt st1 "a - (swapped + fees)" out] post out
    by (auto simp: segment_post_def st1_def with_growth_def same_liquidity_def)
qed

section \<open>The move of the price\<close>

text \<open>A state that differs only in the price, the tick and the map, with the same growth inside every position.\<close>

lemma ro_inv_moved:
  assumes inv: "ro_inv st"
    and st': "ro_fee_hundredth_pips st' = ro_fee_hundredth_pips st" "ro_positions st' = ro_positions st"
      "ro_global_fee_growth st' = ro_global_fee_growth st"
    and price: "ro_price_inv st'" and map_inv: "ro_map_inv (ro_liquidity_map st') (ro_positions st)"
    and l: "ro_current_liquidity st' = active_at (ro_positions st) (ro_tick st')"
    and outside: "\<And>t side. outside_at (ro_liquidity_map st') t side \<le> int (pp_index (ro_global_fee_growth st) side)"
    and inside: "\<And>lp lo up p side. bt_get (ro_positions st) (lp, lo, up) = Some p \<Longrightarrow> ro_inside st' lo up side = ro_inside st lo up side"
  shows "ro_inv st'" "ro_pending st' = ro_pending st"
proof -
  note G = ro_growth_invD [OF ro_invD(5) [OF inv]]
  have "ro_growth_inv st'"
    unfolding ro_growth_inv_def st' using G(1,3) outside inside by fastforce
  then show "ro_inv st'" using ro_invD(1) [OF inv] st' price map_inv l by (simp add: ro_inv_def)
  have wf: "bt_wf (ro_positions st)" using ro_map_invD(2) [OF ro_invD(3) [OF inv]] .
  show "ro_pending st' = ro_pending st"
    unfolding ro_pending_def st' fun_eq_iff
  proof (intro allI bt_sum_cong)
    fix side k v assume "(k, v) \<in> set (ro_positions st)"
    then have "bt_get (ro_positions st) k = Some v" using bt_get_mem [OF wf] by simp
    then show "(case k of (lp, lo, up) \<Rightarrow> \<lambda>pos. ro_earned st' side lo up pos) v = (case k of (lp, lo, up) \<Rightarrow> \<lambda>pos. ro_earned st side lo up pos) v"
      using inside by (cases k) (simp add: ro_earned_def)
  qed
qed

lemma ro_map_inv_flip:
  assumes inv: "ro_map_inv m ps" and d: "bt_get m t = Some d"
    and d': "td_liquidity_gross d' = td_liquidity_gross d" "td_liquidity_delta d' = td_liquidity_delta d"
  shows "ro_map_inv (bt_insert t d' m) ps"
proof -
  note M = ro_map_invD [OF inv]
  have "case bt_get (bt_insert t d' m) u of None \<Rightarrow> gross_at ps u = 0
      | Some d \<Rightarrow> is_tick_valid u \<and> td_liquidity_gross d = gross_at ps u \<and> td_liquidity_delta d = net_at ps u" for u
    using M(8) [OF d] d' M(7,8) [of u] by (cases "bt_get m u") (auto simp: bt_get_insert)
  then show ?thesis using M(1-6) by (simp add: ro_map_inv_def bt_wf_insert bt_get_insert)
qed

lemma net_bound:
  assumes "ro_map_inv m ps"
  shows "\<bar>net_at ps t\<bar> < 2 ^ 127"
proof -
  have "int (gross_at ps t) \<le> int MAX_TICK_GROSS_LIQUIDITY" using ro_map_invD(6) [OF assms] by simp
  also have "\<dots> < 2 ^ 127" by (simp add: MAX_TICK_GROSS_LIQUIDITY_def umax_def MAX_TICK_def MIN_TICK_def)
  finally show ?thesis using net_at_bounds [of ps t] by linarith
qed

lemma ro_move_stay:
  assumes inv: "ro_inv st" and entry: "ro_swap_entry sd limit st a = Some (Some (t, d))"
    and n: "ahead sd (ro_sqrt_price st) n" "ahead sd n (tick_price t)" "n \<noteq> tick_price t"
  shows "\<exists>st'. ro_swap_move sd t d (tick_price t) n st = Some st' \<and> ro_inv st' \<and> ro_pending st' = ro_pending st"
proof (cases "n = ro_sqrt_price st")
  case True
  then show ?thesis using n inv by (auto simp: ro_swap_move_def ahead_def)
next
  case False
  obtain t' where t': "tick_at_sqrt_price n = Some t'" "same_sides (ro_liquidity_map st) (ro_tick st) t'"
    "is_tick_valid t'" "tick_price t' \<le> n" "t' < MAX_TICK \<longrightarrow> n \<le> tick_price (t' + 1)"
    using ro_move_between [OF inv entry n False] .
  let ?st = "st\<lparr>ro_sqrt_price := n, ro_tick := t'\<rparr>"
  have "is_sqrt_price_valid n"
    using ahead_valid [OF _ tick_price_valid n(1,2)] ro_invD(2) [OF inv] ro_swap_entry_next(2) [OF inv entry]
    by (simp add: ro_price_inv_def)
  then have price: "ro_price_inv ?st" using t' by (simp add: ro_price_inv_def is_tick_valid_def)
  have inside: "ro_inside ?st lo up side = ro_inside st lo up side" if "bt_get (ro_positions st) (lp, lo, up) = Some p" for lp lo up p side
    using position_ticks [OF ro_invD(3) [OF inv] that] t'(2)
    by (auto simp: ro_inside_def inside_growth_def same_sides_def)
  have "ro_inv ?st \<and> ro_pending ?st = ro_pending st"
    by (intro conjI ro_inv_moved [OF inv _ _ _ price])
       (use inside ro_invD [OF inv] active_at_same_sides [OF ro_invD(3) [OF inv] t'(2)]
          ro_growth_invD(2) [OF ro_invD(5) [OF inv]] in \<open>simp_all\<close>)
  then show ?thesis using n False t'(1) by (auto simp: ro_swap_move_def ahead_def)
qed

lemma ro_move_cross:
  assumes inv: "ro_inv st" and entry: "ro_swap_entry sd limit st a = Some (Some (t, d))"
  shows "\<exists>st'. ro_swap_move sd t d (tick_price t) (tick_price t) st = Some st' \<and> ro_inv st' \<and> ro_pending st' = ro_pending st"
proof -
  note N = ro_swap_entry_next [OF inv entry] and G = ro_growth_invD [OF ro_invD(5) [OF inv]]
  note mi = ro_invD(3) [OF inv]
  let ?G = "\<lambda>side. pp_index (ro_global_fee_growth st) side" and ?o = "\<lambda>side. pp_index (td_fee_growth_outside d) side"
  obtain t' where t': "current_tick_after_crossing_tick sd t = Some t'" "cross_sides (ro_liquidity_map st) t (ro_tick st) t'"
    "MIN_TICK - 1 \<le> t'" "t' \<le> MAX_TICK" "MIN_TICK \<le> t' \<longrightarrow> tick_price t' \<le> tick_price t"
    "t' < MAX_TICK \<longrightarrow> tick_price t \<le> tick_price (t' + 1)"
    "int (active_at (ro_positions st) t') = int (active_at (ro_positions st) (ro_tick st)) +
       (if sd = BaseToQuote then - net_at (ro_positions st) t else net_at (ro_positions st) t)"
    using ro_move_across [OF inv entry] .
  have le: "?o side \<le> ?G side" for side using G(2) [of t side] N(1) by (simp add: outside_at_def)
  define d' where "d' = d\<lparr>td_fee_growth_outside := \<lparr>base = ?G Base - ?o Base, quote = ?G Quote - ?o Quote\<rparr>\<rparr>"
  let ?st = "st\<lparr>ro_liquidity_map := bt_insert t d' (ro_liquidity_map st), ro_sqrt_price := tick_price t, ro_tick := t',
    ro_current_liquidity := active_at (ro_positions st) t'\<rparr>"
  have delta: "td_liquidity_delta d = net_at (ro_positions st) t" using ro_map_invD(8) [OF mi N(1)] by simp
  have "\<exists>x. liquidity_delta_on_crossing_tick sd d' = Some x \<and>
      uadd_signed 128 (ro_current_liquidity st) x = Some (active_at (ro_positions st) t')"
    using t'(7) net_bound [OF mi, of t] active_at_bound [OF ro_map_invD(3,6) [OF mi], of t'] delta ro_invD(4) [OF inv]
    by (cases sd) (auto simp: d'_def abs_less_iff)
  then have move: "ro_swap_move sd t d (tick_price t) (tick_price t) st = Some ?st"
    using le [of Base] le [of Quote] t'(1)
    by (auto simp: ro_swap_move_def pp_map_with_pairM_def usub_def d'_def simp del: uadd_signed_Some)
  have out: "outside_at (bt_insert t d' (ro_liquidity_map st)) u side
      = (if u = t then int (?G side) - outside_at (ro_liquidity_map st) t side else outside_at (ro_liquidity_map st) u side)" for u side
    using N(1) le [of side] by (cases side) (auto simp: outside_at_def d'_def of_nat_diff)
  have inside: "ro_inside ?st lo up side = ro_inside st lo up side" if p: "bt_get (ro_positions st) (lp, lo, up) = Some p" for lp lo up p side
  proof -
    have "lo \<noteq> up" using position_keysD(1) [OF ro_map_invD(3,2) [OF mi] p] by simp
    with t'(2) position_ticks [OF mi p] show ?thesis
      using inside_growth_flip [of "ro_tick st" t t' lo up "int (?G side)" "outside_at (ro_liquidity_map st) lo side"
          "outside_at (ro_liquidity_map st) up side"]
      by (auto simp: ro_inside_def out cross_sides_def)
  qed
  have "ro_price_inv ?st" using t' tick_price_valid [OF N(2)] by (simp add: ro_price_inv_def)
  moreover have "ro_map_inv (ro_liquidity_map ?st) (ro_positions st)"
    using ro_map_inv_flip [OF mi N(1), of d'] by (simp add: d'_def)
  moreover have "outside_at (ro_liquidity_map ?st) u side \<le> int (?G side)" for u side
    using G(2) [of u side] by (simp add: out) (simp add: outside_at_def split: option.splits)
  ultimately have "ro_inv ?st \<and> ro_pending ?st = ro_pending st"
    using ro_inv_moved [OF inv, of ?st] inside by simp
  with move show ?thesis by blast
qed

section \<open>The swap\<close>

text \<open>
  What a swap does to the pool: the invariant is kept, the positions are not touched, the price
  moves ahead but not past the limit, and what the pool owes grows by at most what was paid in
  and shrinks by at least what was paid out.
\<close>

definition ro_swap_post ::
    "direction \<Rightarrow> sqrt_price option \<Rightarrow> 'lp::linorder range_pool \<Rightarrow> amount \<Rightarrow> 'lp range_pool \<Rightarrow> amount \<Rightarrow> amount \<Rightarrow> bool" where
  "ro_swap_post sd limit st a st' a' out \<longleftrightarrow> ro_inv st' \<and> a' \<le> a \<and> ro_positions st' = ro_positions st \<and>
     ro_fee_hundredth_pips st' = ro_fee_hundredth_pips st \<and>
     ahead sd (ro_sqrt_price st) (ro_sqrt_price st') \<and>
     (\<forall>l. limit = Some l \<longrightarrow> ahead sd (ro_sqrt_price st) l \<longrightarrow> ahead sd (ro_sqrt_price st') l) \<and>
     ro_worth st' (input_side sd) \<le> ro_worth st (input_side sd) + (real a - real a') \<and>
     ro_worth st' (not_pair (input_side sd)) \<le> ro_worth st (not_pair (input_side sd)) - real out"

lemma ro_swap_post_refl: "ro_inv st \<Longrightarrow> ro_swap_post sd limit st a st a 0"
  by (simp add: ro_swap_post_def)

lemma ro_swap_post_trans:
  "ro_swap_post sd limit st a st1 a1 out1 \<Longrightarrow> ro_swap_post sd limit st1 a1 st2 a2 out2 \<Longrightarrow>
     ro_swap_post sd limit st a st2 a2 (out1 + out2)"
  by (auto simp: ro_swap_post_def intro: ahead_trans)

lemma ro_swap_target_ok:
  assumes inv: "ro_inv st" and entry: "ro_swap_entry sd limit st a = Some (Some (t, d))"
  defines "target \<equiv> ro_swap_target sd limit (tick_price t)"
  shows "ahead sd (ro_sqrt_price st) target" "ahead sd target (tick_price t)" "is_sqrt_price_valid target"
    "\<And>l. limit = Some l \<Longrightarrow> ahead sd target l"
proof -
  note A = ro_swap_entry_ahead [OF inv entry] and L = ro_swap_entry_SomeD(4) [OF entry]
  show 1: "ahead sd (ro_sqrt_price st) target" "ahead sd target (tick_price t)" "\<And>l. limit = Some l \<Longrightarrow> ahead sd target l"
    using A L by (cases limit; cases sd; auto simp: target_def ro_swap_target_def ahead_def)+
  show "is_sqrt_price_valid target"
    using ahead_valid [OF _ tick_price_valid 1(1,2)] ro_swap_entry_next(2) [OF inv entry] ro_invD(2) [OF inv]
    by (simp add: ro_price_inv_def)
qed

lemma ro_swap_entry_cong:
  "ro_sqrt_price st' = ro_sqrt_price st \<Longrightarrow> ro_tick st' = ro_tick st \<Longrightarrow> ro_liquidity_map st' = ro_liquidity_map st \<Longrightarrow>
     ro_swap_entry sd limit st' a = ro_swap_entry sd limit st a"
  by (cases limit) (simp_all add: ro_swap_entry_def)

lemma ro_swap_move_fee:
  "ro_swap_move sd t d p n st = Some st' \<Longrightarrow> ro_fee_hundredth_pips st' = ro_fee_hundredth_pips st"
  by (auto simp: ro_swap_move_def Let_def split: if_splits bind_splits)

lemma ro_swap_step_ok:
  assumes inv: "ro_inv st" and a: "a < 2 ^ 256" and tot: "tot + 2 ^ 192 < 2 ^ 256"
    and entry: "ro_swap_entry sd limit st a = Some (Some (t, d))"
  obtains st' a' out where "ro_swap_step sd limit (t, d) (st, a, tot) = Some (st', a', tot + out)"
    "ro_swap_post sd limit st a st' a' out" "out < 2 ^ 192"
proof -
  note T = ro_swap_target_ok [OF inv entry] and N = ro_swap_entry_next [OF inv entry]
  obtain nxt st1 a1 out where
    seg: "ro_swap_segment sd (ro_swap_target sd limit (tick_price t)) (st, a, tot) = Some (nxt, st1, a1, tot + out)"
    and st1: "ro_inv st1" "same_liquidity st st1"
    and nxt: "ahead sd (ro_sqrt_price st) nxt" "ahead sd nxt (ro_swap_target sd limit (tick_price t))"
    and a1: "a1 \<le> a" and out: "out < 2 ^ 192"
    and worth: "in_exact sd (ro_sqrt_price st) nxt (ro_current_liquidity st) + ro_pending st1 (input_side sd)
       \<le> ro_pending st (input_side sd) + (real a - real a1)"
    "real out \<le> out_exact sd (ro_sqrt_price st) nxt (ro_current_liquidity st)"
    "ro_pending st1 (not_pair (input_side sd)) = ro_pending st (not_pair (input_side sd))"
    using ro_segment_ok [OF inv a tot T(3,1)] .
  have entry1: "ro_swap_entry sd limit st1 a = Some (Some (t, d))"
    using entry ro_swap_entry_cong [of st1 st] st1(2) by (simp add: same_liquidity_def)
  have n: "ahead sd (ro_sqrt_price st1) nxt" "ahead sd nxt (tick_price t)"
    using nxt ahead_trans [OF nxt(2) T(2)] st1(2) by (simp_all add: same_liquidity_def)
  obtain st' where move: "ro_swap_move sd t d (tick_price t) nxt st1 = Some st'" "ro_inv st'" "ro_pending st' = ro_pending st1"
    using ro_move_stay [OF st1(1) entry1 n] ro_move_cross [OF st1(1) entry1] by metis
  have same: "ro_sqrt_price st' = nxt" "ro_positions st' = ro_positions st" "ro_fee_hundredth_pips st' = ro_fee_hundredth_pips st"
    using ro_swap_move_facts [OF move(1)] ro_swap_segment_stops(5,7) [OF seg] ro_swap_move_fee [OF move(1)] by simp_all
  have "ro_swap_post sd limit st a st' a1 out"
    using move(2,3) a1 same nxt(1) ahead_trans [OF nxt(2) T(4)] worth
      ro_value_swap [OF inv entry nxt(1) ahead_trans [OF nxt(2) T(2)]]
    by (simp add: ro_swap_post_def ro_worth_def)
  moreover have "ro_swap_step sd limit (t, d) (st, a, tot) = Some (st', a1, tot + out)"
    using seg move(1) tick_price_eq [OF N(2)] by (simp add: ro_swap_step_def)
  ultimately show thesis using that out by blast
qed

lemma ticks_ahead_bound:
  assumes "ro_inv st"
  shows "ro_swap_measure sd limit (st, a, tot) \<le> 2 ^ 21"
  using ro_invD(2) [OF assms]
  by (cases sd) (auto simp: ro_swap_measure_def ro_price_inv_def MIN_TICK_def MAX_TICK_def)

lemma ro_swap_loop_ok:
  fixes st :: "'lp::linorder range_pool"
  assumes "ro_inv st" "a < 2 ^ 256" "tot + 2 ^ 192 * ro_swap_measure sd limit (st, a, tot) < 2 ^ 256"
  shows "\<exists>st' a' out. ro_swap_loop sd limit (st, a, tot) = Some (st', a', tot + out) \<and>
    ro_swap_post sd limit st a st' a' out \<and> ro_swap_entry sd limit st' a' = Some None"
  using assms
proof (induction sd limit "(st, a, tot)" arbitrary: st a tot rule: ro_swap_loop.induct)
  case (1 sd limit st a tot)
  obtain r where r: "ro_swap_entry sd limit st a = Some r" using ro_swap_entry_ok [OF "1.prems"(1)] by blast
  show ?case
  proof (cases r)
    case None
    then show ?thesis using r ro_swap_post_refl [OF "1.prems"(1)] by (auto simp: ro_swap_loop.simps [of sd limit st])
  next
    case (Some e)
    obtain t d where e: "e = (t, d)" by (cases e)
    have entry: "ro_swap_entry sd limit st a = Some (Some (t, d))" using r Some e by simp
    have "1 \<le> ro_swap_measure sd limit (st, a, tot)"
      using ro_swap_entry_SomeD(1,4) [OF entry] by (simp add: ro_swap_measure_def)
    then have "2 ^ 192 * 1 \<le> 2 ^ 192 * ro_swap_measure sd limit (st, a, tot)" by (rule mult_le_mono2)
    then have tot: "tot + 2 ^ 192 < 2 ^ 256" using "1.prems"(3) by linarith
    obtain st1 a1 out where step: "ro_swap_step sd limit (t, d) (st, a, tot) = Some (st1, a1, tot + out)"
      and post: "ro_swap_post sd limit st a st1 a1 out" and out: "out < 2 ^ 192"
      using ro_swap_step_ok [OF "1.prems"(1,2) tot entry] .
    have "Suc (ro_swap_measure sd limit (st1, a1, tot + out)) \<le> ro_swap_measure sd limit (st, a, tot)"
      using ro_swap_step_progress [OF entry step] by simp
    then have "2 ^ 192 * Suc (ro_swap_measure sd limit (st1, a1, tot + out)) \<le> 2 ^ 192 * ro_swap_measure sd limit (st, a, tot)"
      by (rule mult_le_mono2)
    then have tot1: "tot + out + 2 ^ 192 * ro_swap_measure sd limit (st1, a1, tot + out) < 2 ^ 256"
      using "1.prems"(3) out by simp
    have a1: "ro_inv st1" "a1 < 2 ^ 256" using post "1.prems"(2) by (auto simp: ro_swap_post_def)
    obtain st' a' out' where IH: "ro_swap_loop sd limit (st1, a1, tot + out) = Some (st', a', tot + out + out')"
      "ro_swap_post sd limit st1 a1 st' a' out'" "ro_swap_entry sd limit st' a' = Some None"
      using "1.hyps" [OF r Some step [folded e] a1 tot1] by auto
    have "ro_swap_loop sd limit (st, a, tot) = Some (st', a', tot + (out + out'))"
      using IH(1) entry step by (simp add: ro_swap_loop.simps [of sd limit st] add.assoc)
    then show ?thesis using ro_swap_post_trans [OF post IH(2)] IH(3) by blast
  qed
qed

lemma ro_swap_ok:
  fixes st :: "'lp::linorder range_pool"
  assumes inv: "ro_inv st" and a: "a < 2 ^ 256"
  shows "\<exists>out a' st'. ro_swap sd a limit st = Some (out, a', st') \<and> ro_swap_post sd limit st a st' a' out \<and>
    ro_swap_entry sd limit st' a' = Some None"
proof -
  have "(2 ^ 192 :: nat) * ro_swap_measure sd limit (st, a, 0) \<le> 2 ^ 192 * 2 ^ 21"
    by (rule mult_le_mono2 [OF ticks_ahead_bound [OF inv]])
  then have "0 + 2 ^ 192 * ro_swap_measure sd limit (st, a, 0) < 2 ^ 256" by simp
  from ro_swap_loop_ok [OF inv a this] obtain st' a' out where
    loop: "ro_swap_loop sd limit (st, a, 0) = Some (st', a', 0 + out)" "ro_swap_post sd limit st a st' a' out"
      "ro_swap_entry sd limit st' a' = Some None" by blast
  have "ro_worth (st'\<lparr>ro_total_swap_outputs := x\<rparr>) = ro_worth st'" for x
    by (simp add: ro_worth_def fun_eq_iff)
  moreover have "ro_swap_entry sd limit (st'\<lparr>ro_total_swap_outputs := x\<rparr>) a' = ro_swap_entry sd limit st' a'" for x
    by (rule ro_swap_entry_cong) simp_all
  ultimately show ?thesis using loop by (simp add: ro_swap_def ro_swap_post_def)
qed

end
