(* ===== verification/Range_Positions.thy ===== *)
theory Range_Positions
  imports Range_Solvency
begin

text \<open>
  The position operations of the range order pool: the amounts a range of liquidity is worth, the fees a
  position collects, and the effect of minting, burning and collecting on the invariant and the worth of
  the pool.
\<close>

section \<open>The amounts of a range\<close>

lemma position_value_linear:
  "position_value p side lo up (l + l') = position_value p side lo up l + position_value p side lo up l'"
  "position_value p side lo up 0 = 0"
  by (cases side; simp add: base_exact_def quote_exact_def distrib_right)+

lemma base_exact_nonneg: "0 < p \<Longrightarrow> p \<le> q \<Longrightarrow> 0 \<le> base_exact p q l"
  by (simp add: base_exact_def divide_left_mono)

lemma quote_exact_nonneg: "p \<le> q \<Longrightarrow> 0 \<le> quote_exact p q l"
  by (simp add: quote_exact_def divide_right_mono)

lemma position_value_nonneg:
  assumes "is_tick_valid lo" "is_tick_valid up" "lo < up"
  shows "0 \<le> position_value p side lo up l"
proof -
  have "tick_price lo \<le> tick_price up" "0 < tick_price lo"
    using tick_price_mono [OF assms(1,2)] assms(3) valid_price_bounds(3) [OF tick_price_valid [OF assms(1)]] by simp_all
  then have "tick_price lo \<le> clamp p lo up" "clamp p lo up \<le> tick_price up" "0 < clamp p lo up" by (auto simp: clamp_def)
  then show ?thesis by (cases side) (simp_all add: base_exact_nonneg quote_exact_nonneg)
qed

definition range_ok :: "tick \<Rightarrow> tick \<Rightarrow> bool" where
  "range_ok lo up \<longleftrightarrow> lo < up \<and> MIN_TICK \<le> lo \<and> up \<le> MAX_TICK"

lemma validate_position_range_eq [simp]:
  "validate_position_range lo up = (if range_ok lo up then Inr () else Inl RoInvalidTickRange)"
  by (simp add: validate_position_range_def range_ok_def)

lemma range_okD: "range_ok lo up \<Longrightarrow> is_tick_valid lo" "range_ok lo up \<Longrightarrow> is_tick_valid up" "range_ok lo up \<Longrightarrow> lo < up"
  by (auto simp: range_ok_def is_tick_valid_def)

text \<open>Where the current price is clamped to in a range.\<close>

lemma ro_clamp:
  assumes price: "ro_price_inv st" and r: "range_ok lo up"
  shows "ro_tick st < lo \<Longrightarrow> clamp (ro_sqrt_price st) lo up = tick_price lo"
    "lo \<le> ro_tick st \<Longrightarrow> ro_tick st < up \<Longrightarrow> clamp (ro_sqrt_price st) lo up = ro_sqrt_price st \<and>
       tick_price lo \<le> ro_sqrt_price st \<and> ro_sqrt_price st \<le> tick_price up"
    "up \<le> ro_tick st \<Longrightarrow> clamp (ro_sqrt_price st) lo up = tick_price up"
proof -
  note V = range_okD [OF r]
  have P: "MIN_TICK \<le> ro_tick st \<longrightarrow> tick_price (ro_tick st) \<le> ro_sqrt_price st"
      "ro_tick st < MAX_TICK \<longrightarrow> ro_sqrt_price st \<le> tick_price (ro_tick st + 1)"
      "MIN_TICK - 1 \<le> ro_tick st" "ro_tick st \<le> MAX_TICK"
    using price by (auto simp: ro_price_inv_def)
  have lu: "tick_price lo \<le> tick_price up" using tick_price_mono [OF V(1,2)] V(3) by simp
  have below: "tick_price u \<le> ro_sqrt_price st" if "is_tick_valid u" "u \<le> ro_tick st" for u
    using tick_price_mono [OF that(1), of "ro_tick st"] that P by (fastforce simp: is_tick_valid_def)
  have above: "ro_sqrt_price st \<le> tick_price u" if "is_tick_valid u" "ro_tick st < u" for u
    using tick_price_mono [OF _ that(1), of "ro_tick st + 1"] that P by (fastforce simp: is_tick_valid_def)
  show "ro_tick st < lo \<Longrightarrow> clamp (ro_sqrt_price st) lo up = tick_price lo"
    using above [OF V(1)] lu by (simp add: clamp_def)
  show "lo \<le> ro_tick st \<Longrightarrow> ro_tick st < up \<Longrightarrow> clamp (ro_sqrt_price st) lo up = ro_sqrt_price st \<and>
       tick_price lo \<le> ro_sqrt_price st \<and> ro_sqrt_price st \<le> tick_price up"
    using below [OF V(1)] above [OF V(2)] by (simp add: clamp_def)
  show "up \<le> ro_tick st \<Longrightarrow> clamp (ro_sqrt_price st) lo up = tick_price up"
    using below [OF V(2)] lu by (simp add: clamp_def)
qed

text \<open>One amount, rounded in the direction asked for.\<close>

lemma zero_delta_ok:
  assumes "is_sqrt_price_valid p" "is_sqrt_price_valid q" "p \<le> q" "l < 2 ^ 128"
  shows "\<exists>z. (if up then zero_amount_delta_ceil else zero_amount_delta_floor) p q l = Some z \<and> z \<le> l * 2 ^ 64 \<and>
    (if up then base_exact p q l \<le> real z else real z \<le> base_exact p q l)"
proof -
  have a: "ahead BaseToQuote q p" "ahead QuoteToBase p q" using assms(3) by simp_all
  obtain r s where "input_amount_delta_ceil BaseToQuote q p l = Some r" "r \<le> l * 2 ^ 64" "in_exact BaseToQuote q p l \<le> real r"
    "output_amount_delta_floor QuoteToBase p q l = Some s" "s \<le> l * 2 ^ 64" "real s \<le> out_exact QuoteToBase p q l"
    using input_delta_ok [OF assms(2,1) a(1) assms(4)] output_delta_ok [OF assms(1,2) a(2) assms(4)] by metis
  then show ?thesis by (cases up) auto
qed

lemma one_delta_ok:
  assumes "is_sqrt_price_valid p" "is_sqrt_price_valid q" "p \<le> q" "l < 2 ^ 128"
  shows "\<exists>z. (if up then one_amount_delta_ceil else one_amount_delta_floor) p q l = Some z \<and> z \<le> l * 2 ^ 64 \<and>
    (if up then quote_exact p q l \<le> real z else real z \<le> quote_exact p q l)"
proof -
  have a: "ahead QuoteToBase p q" "ahead BaseToQuote q p" using assms(3) by simp_all
  obtain r s where "input_amount_delta_ceil QuoteToBase p q l = Some r" "r \<le> l * 2 ^ 64" "in_exact QuoteToBase p q l \<le> real r"
    "output_amount_delta_floor BaseToQuote q p l = Some s" "s \<le> l * 2 ^ 64" "real s \<le> out_exact BaseToQuote q p l"
    using input_delta_ok [OF assms(1,2) a(1) assms(4)] output_delta_ok [OF assms(2,1) a(2) assms(4)] by metis
  then show ?thesis by (cases up) auto
qed

definition rounds :: "bool \<Rightarrow> amount pool_pairs_map \<Rightarrow> (pairs \<Rightarrow> real) \<Rightarrow> bool" where
  "rounds up am v \<longleftrightarrow> (\<forall>side. if up then v side \<le> real (pp_index am side) else real (pp_index am side) \<le> v side)"

lemma all_pairs: "(\<forall>side. P side) \<longleftrightarrow> P Base \<and> P Quote"
  by (metis pairs.exhaust)

lemma inner_liquidity_to_amounts_ok:
  assumes price: "ro_price_inv st" and r: "range_ok lo up" and l: "l < 2 ^ 128"
  shows "\<exists>am. inner_liquidity_to_amounts round_up st l lo up = Some (am, if lo \<le> ro_tick st \<and> ro_tick st < up then l else 0) \<and>
    rounds round_up am (\<lambda>side. position_value (ro_sqrt_price st) side lo up l) \<and>
    (\<forall>side. pp_index am side \<le> l * 2 ^ 64)"
proof -
  note V = range_okD [OF r] and C = ro_clamp [OF price r]
  note T = tick_price_eq [OF V(1)] tick_price_eq [OF V(2)] tick_price_valid [OF V(1)] tick_price_valid [OF V(2)]
  have lu: "tick_price lo \<le> tick_price up" using tick_price_mono [OF V(1,2)] V(3) by simp
  have p: "is_sqrt_price_valid (ro_sqrt_price st)" using price by (simp add: ro_price_inv_def)
  consider "ro_tick st < lo" | "lo \<le> ro_tick st" "ro_tick st < up" | "up \<le> ro_tick st" by linarith
  then show ?thesis
  proof cases
    case 1
    then show ?thesis using zero_delta_ok [OF T(3,4) lu l, of round_up] C(1) V(3) T(1,2)
      by (auto simp: inner_liquidity_to_amounts_def Let_def rounds_def all_pairs quote_exact_def)
  next
    case 2
    note C2 = C(2) [OF 2]
    obtain z where z: "(if round_up then zero_amount_delta_ceil else zero_amount_delta_floor) (ro_sqrt_price st) (tick_price up) l = Some z"
      "z \<le> l * 2 ^ 64" "if round_up then base_exact (ro_sqrt_price st) (tick_price up) l \<le> real z else real z \<le> base_exact (ro_sqrt_price st) (tick_price up) l"
      using zero_delta_ok [OF p T(4) _ l, of round_up] C2 by blast
    obtain n where n: "(if round_up then one_amount_delta_ceil else one_amount_delta_floor) (tick_price lo) (ro_sqrt_price st) l = Some n"
      "n \<le> l * 2 ^ 64" "if round_up then quote_exact (tick_price lo) (ro_sqrt_price st) l \<le> real n else real n \<le> quote_exact (tick_price lo) (ro_sqrt_price st) l"
      using one_delta_ok [OF T(3) p _ l, of round_up] C2 by blast
    show ?thesis using z n C2 2 T(1,2)
      by (simp add: inner_liquidity_to_amounts_def rounds_def all_pairs)
  next
    case 3
    then show ?thesis using one_delta_ok [OF T(3,4) lu l, of round_up] C(3) V(3) T(1,2)
      by (auto simp: inner_liquidity_to_amounts_def Let_def rounds_def all_pairs base_exact_def)
  qed
qed

section \<open>Collecting fees\<close>

text \<open>The fee growth inside a range between two given ticks.\<close>

definition delta_inside :: "'lp range_pool \<Rightarrow> tick \<Rightarrow> tick_delta \<Rightarrow> tick \<Rightarrow> tick_delta \<Rightarrow> pairs \<Rightarrow> int" where
  "delta_inside st lo ld up ud side = inside_growth (int (pp_index (ro_global_fee_growth st) side)) (ro_tick st)
     lo (int (pp_index (td_fee_growth_outside ld) side)) up (int (pp_index (td_fee_growth_outside ud) side))"

definition outside_ok :: "'lp range_pool \<Rightarrow> tick_delta \<Rightarrow> bool" where
  "outside_ok st d \<longleftrightarrow> (\<forall>side. pp_index (td_fee_growth_outside d) side \<le> pp_index (ro_global_fee_growth st) side)"

lemma fee_growth_inside_eq:
  assumes "outside_ok st ld" "outside_ok st ud"
  shows "fee_growth_inside st lo ld up ud side =
    (if 0 \<le> delta_inside st lo ld up ud side then Some (nat (delta_inside st lo ld up ud side)) else None)"
proof -
  have "pp_index (td_fee_growth_outside ld) side \<le> pp_index (ro_global_fee_growth st) side"
    "pp_index (td_fee_growth_outside ud) side \<le> pp_index (ro_global_fee_growth st) side"
    using assms by (simp_all add: outside_ok_def)
  then show ?thesis
    by (cases "ro_tick st < lo"; cases "ro_tick st < up")
      (auto simp: fee_growth_inside_def delta_inside_def inside_growth_def usub_def nat_diff_distrib of_nat_diff)
qed

lemma delta_inside_bound:
  assumes "outside_ok st ld" "outside_ok st ud" "lo < up"
  shows "delta_inside st lo ld up ud side \<le> int (pp_index (ro_global_fee_growth st) side)"
proof -
  have "pp_index (td_fee_growth_outside ld) side \<le> pp_index (ro_global_fee_growth st) side"
    "pp_index (td_fee_growth_outside ud) side \<le> pp_index (ro_global_fee_growth st) side"
    using assms by (simp_all add: outside_ok_def)
  then show ?thesis using assms(3) by (simp add: delta_inside_def inside_growth_def)
qed

definition inside_map :: "'lp range_pool \<Rightarrow> tick \<Rightarrow> tick_delta \<Rightarrow> tick \<Rightarrow> tick_delta \<Rightarrow> nat pool_pairs_map" where
  "inside_map st lo ld up ud = \<lparr>base = nat (delta_inside st lo ld up ud Base), quote = nat (delta_inside st lo ld up ud Quote)\<rparr>"

lemma ro_collect_fees_ok:
  assumes ok: "outside_ok st ld" "outside_ok st ud" and lu: "lo < up"
    and g: "\<forall>side. pp_index (ro_global_fee_growth st) side < 2 ^ 256"
    and last: "\<forall>side. int (pp_index (rp_last_fee_growth_inside pos) side) \<le> delta_inside st lo ld up ud side"
    and l: "rp_liquidity pos < 2 ^ 128"
  shows "\<exists>c acc. ro_collect_fees st lo ld up ud pos =
      Some (c, pos\<lparr>rp_accumulative_fees := acc, rp_last_fee_growth_inside := inside_map st lo ld up ud\<rparr>) \<and>
    (\<forall>side. real (pp_index (rc_fees c) side) \<le> real (rp_liquidity pos) *
       real_of_int (delta_inside st lo ld up ud side - int (pp_index (rp_last_fee_growth_inside pos) side)) / 2 ^ 128)"
proof -
  define x where "x side = nat (delta_inside st lo ld up ud side) - pp_index (rp_last_fee_growth_inside pos) side" for side
  have pos: "0 \<le> delta_inside st lo ld up ud side" for side using last [rule_format, of side] by simp
  have le: "pp_index (rp_last_fee_growth_inside pos) side \<le> nat (delta_inside st lo ld up ud side)" for side
    using last [rule_format, of side] by simp
  have x: "int (x side) = delta_inside st lo ld up ud side - int (pp_index (rp_last_fee_growth_inside pos) side)" for side
    using le [of side] pos [of side] by (simp add: x_def of_nat_diff)
  have lt: "x side < 2 ^ 256" for side
    using delta_inside_bound [OF ok lu, of side] g [rule_format, of side] by (simp add: x_def)
  define fee where "fee side = x side * rp_liquidity pos div 2 ^ 128" for side
  have "x side * rp_liquidity pos \<le> x side * 2 ^ 128" for side using l by simp
  then have "fee side \<le> x side" for side unfolding fee_def by (metis div_le_mono nonzero_mult_div_cancel_right power_not_zero zero_neq_numeral)
  then have fee: "fee side < 2 ^ 256" for side using lt [of side] by (rule le_less_trans)
  have shl: "ushl 512 (Suc 0) 128 = 2 ^ 128" by (simp add: ushl_exact)
  have sub: "usub (nat (delta_inside st lo ld up ud side)) (pp_index (rp_last_fee_growth_inside pos) side) = Some (x side)" for side
    using le [of side] by (simp add: x_def)
  have md: "mul_div_floor (x side) (rp_liquidity pos) (2 ^ 128) = Some (fee side)" for side
    using fee [of side] by (simp add: fee_def)
  have "real (fee side) \<le> real (x side * rp_liquidity pos) / real (2 ^ 128)" for side
    unfolding fee_def by (rule frac_floor) simp
  then have "real (fee side) \<le> real (rp_liquidity pos) * real_of_int (int (x side)) / 2 ^ 128" for side
    by (simp add: mult.commute)
  then have fees: "\<forall>side. real (pp_index \<lparr>base = fee Base, quote = fee Quote\<rparr> side) \<le> real (rp_liquidity pos) *
      real_of_int (delta_inside st lo ld up ud side - int (pp_index (rp_last_fee_growth_inside pos) side)) / 2 ^ 128"
    by (simp only: all_pairs pp_index.simps pool_pairs_map.simps x [symmetric])
  have "ro_collect_fees st lo ld up ud pos = Some
      (\<lparr>rc_fees = \<lparr>base = fee Base, quote = fee Quote\<rparr>,
        rc_accumulative_fees = pp_map_with_pair (\<lambda>side acc. usat_add 256 acc (pp_index \<lparr>base = fee Base, quote = fee Quote\<rparr> side)) (rp_accumulative_fees pos),
        rc_original_sqrt_price = rp_original_sqrt_price pos\<rparr>,
       pos\<lparr>rp_accumulative_fees := pp_map_with_pair (\<lambda>side acc. usat_add 256 acc (pp_index \<lparr>base = fee Base, quote = fee Quote\<rparr> side)) (rp_accumulative_fees pos),
           rp_last_fee_growth_inside := inside_map st lo ld up ud\<rparr>)"
    using pos sub [of Base] sub [of Quote] md [of Base] md [of Quote] shl
    by (simp add: ro_collect_fees_def pp_map_with_pairM_def fee_growth_inside_eq [OF ok] inside_map_def Let_def
        del: usub_Some mul_div_floor_Some)
  with fees show ?thesis by auto
qed

section \<open>The effect of an update of one position\<close>

definition liq :: "ro_position option \<Rightarrow> liquidity" where
  "liq opt = (case opt of None \<Rightarrow> 0 | Some p \<Rightarrow> rp_liquidity p)"

lemma liq_simps [simp]: "liq None = 0" "liq (Some p) = rp_liquidity p"
  by (simp_all add: liq_def)

lemma position_put:
  assumes "bt_wf ps"
  shows "int (gross_at (bt_put (lp, lo, up) opt ps) t) = int (gross_at ps t) +
      (if lo = t \<or> up = t then int (liq opt) - int (liq (bt_get ps (lp, lo, up))) else 0)"
    "net_at (bt_put (lp, lo, up) opt ps) t = net_at ps t +
      (if lo = t then int (liq opt) - int (liq (bt_get ps (lp, lo, up))) else 0) -
      (if up = t then int (liq opt) - int (liq (bt_get ps (lp, lo, up))) else 0)"
    "int (active_at (bt_put (lp, lo, up) opt ps) t) = int (active_at ps t) +
      (if lo \<le> t \<and> t < up then int (liq opt) - int (liq (bt_get ps (lp, lo, up))) else 0)"
  by (auto simp: gross_at_def net_at_def active_at_def of_nat_bt_sum bt_sum_put [OF assms refl] split: option.splits)

lemma position_keys_put:
  assumes "bt_wf ps" "position_keys_ok ps" "range_ok lo up" "\<And>p. opt = Some p \<Longrightarrow> 0 < rp_liquidity p"
  shows "position_keys_ok (bt_put (lp, lo, up) opt ps)"
proof -
  have "(\<forall>((lp, lo, up), p) \<in> set ps. lo < up \<and> MIN_TICK \<le> lo \<and> up \<le> MAX_TICK \<and> 0 < rp_liquidity p)"
    using assms(2) by (simp add: position_keys_ok_def)
  then show ?thesis
    using assms(3,4) by (cases opt) (auto simp: position_keys_ok_def bt_put_def set_bt_insert [OF assms(1)] set_bt_remove range_ok_def)
qed

definition tick_matches :: "'lp ro_positions_map \<Rightarrow> liquidity_map \<Rightarrow> tick \<Rightarrow> bool" where
  "tick_matches ps m t \<longleftrightarrow> (case bt_get m t of
     None \<Rightarrow> t \<noteq> MIN_TICK \<and> t \<noteq> MAX_TICK \<and> gross_at ps t = 0
   | Some d \<Rightarrow> td_liquidity_gross d = gross_at ps t \<and> td_liquidity_delta d = net_at ps t)"

lemma ro_map_inv_put:
  assumes inv: "ro_map_inv m ps" and r: "range_ok lo up" and p: "\<And>p. opt = Some p \<Longrightarrow> 0 < rp_liquidity p"
    and ps': "ps' = bt_put (lp, lo, up) opt ps"
    and wf: "bt_wf m'" and other: "\<And>t. t \<noteq> lo \<Longrightarrow> t \<noteq> up \<Longrightarrow> bt_get m' t = bt_get m t"
    and ends: "tick_matches ps' m' lo" "tick_matches ps' m' up"
    and bound: "gross_at ps' lo \<le> MAX_TICK_GROSS_LIQUIDITY" "gross_at ps' up \<le> MAX_TICK_GROSS_LIQUIDITY"
  shows "ro_map_inv m' ps'"
proof -
  note M = ro_map_invD [OF inv]
  have same: "gross_at ps' t = gross_at ps t \<and> net_at ps' t = net_at ps t" if "t \<noteq> lo" "t \<noteq> up" for t
    using position_put(1,2) [OF M(2), of lp lo up opt t] that ps' by auto
  have "bt_get m' t \<noteq> None" if "t = MIN_TICK \<or> t = MAX_TICK" for t
    using that ends other [of t] M(4,5) by (cases "t = lo \<or> t = up") (auto simp: tick_matches_def split: option.splits)
  moreover have "gross_at ps' t \<le> MAX_TICK_GROSS_LIQUIDITY" for t
    using bound same [of t] M(6) [of t] by (cases "t = lo \<or> t = up") auto
  moreover have "case bt_get m' t of None \<Rightarrow> gross_at ps' t = 0
     | Some d \<Rightarrow> is_tick_valid t \<and> td_liquidity_gross d = gross_at ps' t \<and> td_liquidity_delta d = net_at ps' t" for t
  proof (cases "t = lo \<or> t = up")
    case True
    then show ?thesis using ends range_okD(1,2) [OF r] by (auto simp: tick_matches_def split: option.splits)
  next
    case False
    then show ?thesis using other [of t] same [of t] M(7,8) [of t] by (auto split: option.splits)
  qed
  ultimately show ?thesis
    using wf ps' position_keys_put [OF M(2,3) r p] bt_wf_put [OF M(2)] by (auto simp: ro_map_inv_def)
qed

definition position_worth :: "'lp range_pool \<Rightarrow> tick \<Rightarrow> tick \<Rightarrow> ro_position option \<Rightarrow> pairs \<Rightarrow> real" where
  "position_worth st lo up opt side = (case opt of None \<Rightarrow> 0
     | Some p \<Rightarrow> position_value (ro_sqrt_price st) side lo up (rp_liquidity p) + ro_earned st side lo up p)"

lemma ro_worth_eq: "ro_worth st side = bt_sum (\<lambda>(lp, lo, up) p. position_worth st lo up (Some p) side) (ro_positions st)"
  unfolding ro_worth_def ro_value_def ro_pending_def bt_sum_add [symmetric]
  by (rule bt_sum_cong) (auto simp: position_worth_def)

lemma ro_inv_put:
  fixes st :: "'lp::linorder range_pool"
  assumes inv: "ro_inv st" and r: "range_ok lo up"
    and st': "ro_fee_hundredth_pips st' = ro_fee_hundredth_pips st" "ro_sqrt_price st' = ro_sqrt_price st"
      "ro_tick st' = ro_tick st" "ro_global_fee_growth st' = ro_global_fee_growth st"
      "ro_positions st' = bt_put (lp, lo, up) opt (ro_positions st)"
    and map_inv: "ro_map_inv (ro_liquidity_map st') (ro_positions st')"
    and l: "ro_current_liquidity st' = active_at (ro_positions st') (ro_tick st)"
    and kept: "\<And>t side. bt_get (ro_liquidity_map st) t \<noteq> None \<Longrightarrow> bt_get (ro_liquidity_map st') t \<noteq> None \<Longrightarrow>
      outside_at (ro_liquidity_map st') t side = outside_at (ro_liquidity_map st) t side"
    and outside: "\<And>t side. outside_at (ro_liquidity_map st') t side \<le> int (pp_index (ro_global_fee_growth st) side)"
    and last: "\<And>p side. opt = Some p \<Longrightarrow> int (pp_index (rp_last_fee_growth_inside p) side) = ro_inside st' lo up side"
  shows "ro_inv st'"
    "ro_worth st' side = ro_worth st side - position_worth st lo up (bt_get (ro_positions st) (lp, lo, up)) side +
       position_value (ro_sqrt_price st) side lo up (liq opt)"
proof -
  note I = ro_invD [OF inv] and M = ro_map_invD [OF ro_invD(3) [OF inv]] and G = ro_growth_invD [OF ro_invD(5) [OF inv]]
  have get: "bt_get (ro_positions st') k = (if k = (lp, lo, up) then opt else bt_get (ro_positions st) k)" for k
    by (simp add: st' bt_get_put)
  have inside: "ro_inside st' lo' up' side = ro_inside st lo' up' side"
    if "(lp', lo', up') \<noteq> (lp, lo, up)" "bt_get (ro_positions st) (lp', lo', up') = Some p" for lp' lo' up' p side
  proof -
    have "bt_get (ro_positions st') (lp', lo', up') = Some p" using that get by auto
    note T = position_ticks [OF map_inv this] position_ticks [OF I(3) that(2)]
    show ?thesis by (simp add: ro_inside_def st' kept [OF T(3,1)] kept [OF T(4,2)])
  qed
  have "int (pp_index (rp_last_fee_growth_inside p) side) \<le> ro_inside st' lo' up' side"
    if "bt_get (ro_positions st') (lp', lo', up') = Some p" for lp' lo' up' p side
    using that inside [of lp' lo' up' p side] G(3) [of lp' lo' up' p side] last [of p side] get [of "(lp', lo', up')"] by (auto split: if_splits)
  then have "ro_growth_inv st'" using G(1) outside by (simp add: ro_growth_inv_def st'(4))
  moreover have "ro_price_inv st'" using I(2) st' by (simp add: ro_price_inv_def)
  ultimately show "ro_inv st'" using I(1) map_inv l st' by (simp add: ro_inv_def)
  have same: "position_worth st' lo' up' (Some p) side = position_worth st lo' up' (Some p) side"
    if "(lp', lo', up') \<noteq> (lp, lo, up)" "bt_get (ro_positions st) (lp', lo', up') = Some p" for lp' lo' up' p
    using inside [OF that] by (simp add: position_worth_def st' ro_earned_def)
  have new: "position_worth st' lo up opt side = position_value (ro_sqrt_price st) side lo up (liq opt)"
    using last [of _ side] by (cases opt) (simp_all add: position_worth_def st' ro_earned_def position_value_linear(2))
  have "ro_worth st' side = ro_worth st side -
     (case bt_get (ro_positions st) (lp, lo, up) of None \<Rightarrow> 0 | Some w \<Rightarrow> position_worth st lo up (Some w) side) +
     (case opt of None \<Rightarrow> 0 | Some v \<Rightarrow> position_worth st' lo up (Some v) side)"
    unfolding ro_worth_eq st'(5)
    by (subst bt_sum_put [OF M(2), where f = "\<lambda>(lp, lo, up) p. position_worth st lo up (Some p) side"])
      (use same in \<open>auto split: option.splits\<close>)
  moreover have case_worth: "(case o' of None \<Rightarrow> 0 | Some w \<Rightarrow> position_worth s lo up (Some w) side) = position_worth s lo up o' side"
    for o' and s :: "'lp range_pool"
    by (cases o') (simp_all add: position_worth_def)
  ultimately show "ro_worth st' side = ro_worth st side - position_worth st lo up (bt_get (ro_positions st) (lp, lo, up)) side +
       position_value (ro_sqrt_price st) side lo up (liq opt)" by (simp only: case_worth new)
qed

section \<open>Collecting\<close>

text \<open>
  The effect of an operation on the pool: the invariant is kept and what the pool owes grows by at most
  what the operation pays in, less what it pays out.
\<close>

definition ro_effect :: "(pairs \<Rightarrow> nat) \<Rightarrow> (pairs \<Rightarrow> nat) \<Rightarrow> 'lp::linorder range_pool \<Rightarrow> 'lp range_pool \<Rightarrow> bool" where
  "ro_effect paid_in paid_out st st' \<longleftrightarrow> ro_inv st' \<and>
     (\<forall>side. ro_worth st' side \<le> ro_worth st side + real (paid_in side) - real (paid_out side))"

lemma ro_effectD:
  assumes "ro_effect paid_in paid_out st st'"
  shows "ro_inv st'" "ro_worth st' side \<le> ro_worth st side + real (paid_in side) - real (paid_out side)"
  using assms by (simp_all add: ro_effect_def)

lemma position_le_gross:
  assumes "bt_wf ps" "bt_get ps (lp, lo, up) = Some p"
  shows "rp_liquidity p \<le> gross_at ps lo" "rp_liquidity p \<le> gross_at ps up"
  using position_put(1) [OF assms(1), of lp lo up None lo] position_put(1) [OF assms(1), of lp lo up None up] assms(2)
  by (simp_all add: zle_iff_zadd)

lemma gross_max: "MAX_TICK_GROSS_LIQUIDITY < 2 ^ 127" "MAX_TICK_GROSS_LIQUIDITY < 2 ^ 128" "4 * MAX_TICK_GROSS_LIQUIDITY < 2 ^ 127"
  by (simp_all add: MAX_TICK_GROSS_LIQUIDITY_def MAX_TICK_def MIN_TICK_def umax_def)

text \<open>What is needed to collect the fees of a position.\<close>

definition can_collect :: "'lp range_pool \<Rightarrow> tick \<Rightarrow> tick_delta \<Rightarrow> tick \<Rightarrow> tick_delta \<Rightarrow> ro_position \<Rightarrow> bool" where
  "can_collect st lo ld up ud pos \<longleftrightarrow> outside_ok st ld \<and> outside_ok st ud \<and> lo < up \<and>
     (\<forall>side. pp_index (ro_global_fee_growth st) side < 2 ^ 256) \<and>
     (\<forall>side. int (pp_index (rp_last_fee_growth_inside pos) side) \<le> delta_inside st lo ld up ud side) \<and>
     rp_liquidity pos < 2 ^ 128"

definition fees_within :: "'lp range_pool \<Rightarrow> tick \<Rightarrow> tick_delta \<Rightarrow> tick \<Rightarrow> tick_delta \<Rightarrow> ro_position \<Rightarrow> ro_collected \<Rightarrow> bool" where
  "fees_within st lo ld up ud pos c \<longleftrightarrow> (\<forall>side. real (pp_index (rc_fees c) side) \<le> real (rp_liquidity pos) *
       real_of_int (delta_inside st lo ld up ud side - int (pp_index (rp_last_fee_growth_inside pos) side)) / 2 ^ 128)"

lemma ro_collect_fees_can:
  assumes "can_collect st lo ld up ud pos"
  obtains c acc where "ro_collect_fees st lo ld up ud pos =
      Some (c, pos\<lparr>rp_accumulative_fees := acc, rp_last_fee_growth_inside := inside_map st lo ld up ud\<rparr>)"
    "fees_within st lo ld up ud pos c"
  using assms ro_collect_fees_ok [of st ld ud lo up pos] unfolding can_collect_def fees_within_def by blast

lemma set_liquidity_can:
  assumes "can_collect st lo ld up ud pos"
  obtains c pos' where "set_liquidity st l lo ld up ud pos = Some (c, ro_info pos', pos')"
    "rp_liquidity pos' = l" "rp_last_fee_growth_inside pos' = inside_map st lo ld up ud"
    "fees_within st lo ld up ud pos c"
proof -
  obtain c acc where c: "ro_collect_fees st lo ld up ud pos =
      Some (c, pos\<lparr>rp_accumulative_fees := acc, rp_last_fee_growth_inside := inside_map st lo ld up ud\<rparr>)"
    "fees_within st lo ld up ud pos c"
    using ro_collect_fees_can [OF assms] .
  then show thesis using that by (cases "rp_liquidity pos = l") (simp_all add: set_liquidity_def Let_def)
qed

lemma inside_map_int:
  assumes "can_collect st lo ld up ud pos"
  shows "int (pp_index (inside_map st lo ld up ud) side) = delta_inside st lo ld up ud side"
proof -
  have "int (pp_index (rp_last_fee_growth_inside pos) side) \<le> delta_inside st lo ld up ud side"
    using assms by (simp add: can_collect_def)
  then show ?thesis by (cases side) (simp_all add: inside_map_def)
qed

lemma outside_at_Some:
  "bt_get m t = Some d \<Longrightarrow> outside_at m t side = int (pp_index (td_fee_growth_outside d) side)"
  by (simp add: outside_at_def)

lemma delta_inside_cong:
  assumes "bt_get (ro_liquidity_map st) lo = Some d" "td_fee_growth_outside ld = td_fee_growth_outside d"
    "bt_get (ro_liquidity_map st) up = Some e" "td_fee_growth_outside ud = td_fee_growth_outside e"
  shows "delta_inside st lo ld up ud = ro_inside st lo up"
  using assms by (simp add: fun_eq_iff delta_inside_def ro_inside_def outside_at_Some)

lemma outside_ok_get:
  assumes "ro_growth_inv st" "bt_get (ro_liquidity_map st) t = Some d" "td_fee_growth_outside d' = td_fee_growth_outside d"
  shows "outside_ok st d'"
  using ro_growth_invD(2) [OF assms(1), of t] assms(2,3) by (simp add: outside_ok_def outside_at_Some)

lemma can_collect_existing:
  assumes inv: "ro_inv st" and pos: "bt_get (ro_positions st) (lp, lo, up) = Some p"
    and lo: "bt_get (ro_liquidity_map st) lo = Some d" "td_fee_growth_outside ld = td_fee_growth_outside d"
    and up: "bt_get (ro_liquidity_map st) up = Some e" "td_fee_growth_outside ud = td_fee_growth_outside e"
  shows "can_collect st lo ld up ud p"
proof -
  note M = ro_map_invD [OF ro_invD(3) [OF inv]] and G = ro_invD(5) [OF inv]
  have "rp_liquidity p < 2 ^ 128" using position_le_gross(1) [OF M(2) pos] M(6) [of lo] gross_max(2) by simp
  then show ?thesis
    using position_keysD(1) [OF M(3,2) pos] outside_ok_get [OF G lo] outside_ok_get [OF G up]
      ro_growth_invD(1,3) [OF G] pos
    by (auto simp: can_collect_def delta_inside_cong [OF lo up])
qed

lemma position_worth_Some:
  "position_worth st lo up (Some p) side = position_value (ro_sqrt_price st) side lo up (rp_liquidity p) + ro_earned st side lo up p"
  by (simp add: position_worth_def)

lemma ro_map_inv_same:
  assumes inv: "ro_map_inv m ps" and r: "range_ok lo up" and pos: "bt_get ps (lp, lo, up) = Some p"
    and l: "rp_liquidity p' = rp_liquidity p"
  shows "ro_map_inv m (bt_put (lp, lo, up) (Some p') ps)" "active_at (bt_put (lp, lo, up) (Some p') ps) t = active_at ps t"
proof -
  note M = ro_map_invD [OF inv] and K = position_keysD [OF ro_map_invD(3,2) [OF inv] pos]
  have same: "gross_at (bt_put (lp, lo, up) (Some p') ps) t = gross_at ps t" "net_at (bt_put (lp, lo, up) (Some p') ps) t = net_at ps t"
     "active_at (bt_put (lp, lo, up) (Some p') ps) t = active_at ps t" for t
    using position_put [OF M(2), of lp lo up "Some p'" t, unfolded pos liq_simps l diff_self if_cancel] by simp_all
  show "active_at (bt_put (lp, lo, up) (Some p') ps) t = active_at ps t" by (rule same)
  have "tick_matches (bt_put (lp, lo, up) (Some p') ps) m t" if "bt_get m t \<noteq> None" for t
    using that M(8) [of t] by (auto simp: tick_matches_def same)
  with position_ticks [OF inv pos] show "ro_map_inv m (bt_put (lp, lo, up) (Some p') ps)"
    using M(1,6) K(4) l by (intro ro_map_inv_put [OF inv r _ refl]) (auto simp: same)
qed

lemma ro_collect_ok:
  fixes st :: "'lp::linorder range_pool"
  assumes inv: "ro_inv st" and r: "range_ok lo up" and pos: "bt_get (ro_positions st) (lp, lo, up) = Some p"
  shows "\<exists>c p' st'. (ro_collect lp lo up st :: ('e ro_position_error + ro_collected \<times> ro_position_info \<times> 'lp range_pool) option) = Some (Inr (c, ro_info p', st')) \<and>
    ro_effect (\<lambda>_. 0) (pp_index (rc_fees c)) st st' \<and> rp_liquidity p' = rp_liquidity p \<and>
    ro_positions st' = bt_insert (lp, lo, up) p' (ro_positions st)"
proof -
  note I = ro_invD [OF inv] and M = ro_map_invD [OF ro_invD(3) [OF inv]]
  obtain d e where d: "bt_get (ro_liquidity_map st) lo = Some d" and e: "bt_get (ro_liquidity_map st) up = Some e"
    using position_ticks [OF I(3) pos] by auto
  have can: "can_collect st lo d up e p" using can_collect_existing [OF inv pos d refl e refl] .
  note ins = delta_inside_cong [OF d refl e refl]
  obtain c acc where c: "ro_collect_fees st lo d up e p =
      Some (c, p\<lparr>rp_accumulative_fees := acc, rp_last_fee_growth_inside := inside_map st lo d up e\<rparr>)"
    "fees_within st lo d up e p c"
    using ro_collect_fees_can [OF can] .
  define p' where "p' = p\<lparr>rp_accumulative_fees := acc, rp_last_fee_growth_inside := inside_map st lo d up e\<rparr>"
  define st' where "st' = st\<lparr>ro_positions := bt_insert (lp, lo, up) p' (ro_positions st)\<rparr>"
  have st': "ro_positions st' = bt_put (lp, lo, up) (Some p') (ro_positions st)" "ro_liquidity_map st' = ro_liquidity_map st"
      "ro_sqrt_price st' = ro_sqrt_price st" "ro_tick st' = ro_tick st" "ro_global_fee_growth st' = ro_global_fee_growth st"
      "ro_fee_hundredth_pips st' = ro_fee_hundredth_pips st" "ro_current_liquidity st' = ro_current_liquidity st"
    by (simp_all add: st'_def bt_put_def)
  have l: "rp_liquidity p' = rp_liquidity p" by (simp add: p'_def)
  note same = ro_map_inv_same [OF I(3) r pos l]
  have last: "int (pp_index (rp_last_fee_growth_inside p') side) = ro_inside st' lo up side" for side
    using inside_map_int [OF can, of side] by (simp add: p'_def ins ro_inside_def st')
  note put = ro_inv_put [OF inv r st'(6,3,4,5,1)]
  have "ro_inv st'" using same I(4) ro_growth_invD(2) [OF I(5)] last by (intro put(1)) (auto simp: st')
  moreover have "ro_worth st' side = ro_worth st side - position_worth st lo up (bt_get (ro_positions st) (lp, lo, up)) side +
       position_value (ro_sqrt_price st) side lo up (liq (Some p'))" for side
    using same I(4) ro_growth_invD(2) [OF I(5)] last by (intro put(2)) (auto simp: st')
  ultimately have "ro_effect (\<lambda>_. 0) (pp_index (rc_fees c)) st st'"
    using c(2) by (simp add: fees_within_def ro_effect_def pos l position_worth_Some ro_earned_def ins)
  moreover have "(ro_collect lp lo up st :: ('e ro_position_error + ro_collected \<times> ro_position_info \<times> 'lp range_pool) option) = Some (Inr (c, ro_info p', st'))"
    using position_keysD(4) [OF M(3,2) pos] r by (simp add: ro_collect_def pos d e c(1) st'_def p'_def)
  ultimately show ?thesis using l by (auto simp: st'_def)
qed

section \<open>Burning\<close>

lemma to_liquidity_ok:
  assumes "p < q"
  shows "\<exists>z. zero_amount_to_liquidity p q am = Some z" "\<exists>z. one_amount_to_liquidity p q am = Some z"
  using assms by (simp_all add: zero_amount_to_liquidity_def one_amount_to_liquidity_def udiv_def usub_def)

lemma inner_amounts_to_liquidity_ok:
  assumes r: "range_ok lo up"
  shows "\<exists>l \<le> MAX_TICK_GROSS_LIQUIDITY. inner_amounts_to_liquidity st lo up am = Some l"
proof -
  note V = range_okD [OF r]
  note T = tick_price_eq [OF V(1)] tick_price_eq [OF V(2)] tick_price_strict [OF V]
  define raw where "raw = (if ro_sqrt_price st \<le> tick_price lo then zero_amount_to_liquidity (tick_price lo) (tick_price up) am
    else if ro_sqrt_price st < tick_price up
    then do { z \<leftarrow> zero_amount_to_liquidity (ro_sqrt_price st) (tick_price up) am;
              n \<leftarrow> one_amount_to_liquidity (tick_price lo) (ro_sqrt_price st) am;
              Some (min z n) }
    else one_amount_to_liquidity (tick_price lo) (tick_price up) am)"
  have "\<exists>l. raw = Some l"
    using to_liquidity_ok(1) [OF T(3), of am] to_liquidity_ok(2) [OF T(3), of am]
      to_liquidity_ok(1) [of "ro_sqrt_price st" "tick_price up" am] to_liquidity_ok(2) [of "tick_price lo" "ro_sqrt_price st" am]
    unfolding raw_def by (cases "ro_sqrt_price st \<le> tick_price lo"; cases "ro_sqrt_price st < tick_price up") auto
  then obtain l where "raw = Some l" ..
  then have "inner_amounts_to_liquidity st lo up am =
      Some (case uconv 128 l of Some l' \<Rightarrow> min l' MAX_TICK_GROSS_LIQUIDITY | None \<Rightarrow> MAX_TICK_GROSS_LIQUIDITY)"
    unfolding inner_amounts_to_liquidity_def T raw_def [symmetric] bind.simps by (simp add: raw_def [symmetric])
  then show ?thesis by (auto split: option.splits)
qed

lemma size_as_liquidity_ok:
  assumes price: "ro_price_inv st" and r: "range_ok lo up"
  shows "\<exists>opt. size_as_liquidity st lo up sz = Some opt"
proof (cases sz)
  case (SizeAmount maximum minimum)
  obtain l where l: "l \<le> MAX_TICK_GROSS_LIQUIDITY" "inner_amounts_to_liquidity st lo up maximum = Some l"
    using inner_amounts_to_liquidity_ok [OF r] by blast
  have "l < 2 ^ 128" using l(1) gross_max(2) by simp
  from inner_liquidity_to_amounts_ok [OF price r this, of False] show ?thesis
    using SizeAmount l(2) by (auto simp: size_as_liquidity_def)
qed (simp add: size_as_liquidity_def)

lemma ro_put_tick_eq:
  assumes "td_liquidity_gross d = 0 \<Longrightarrow> rp_liquidity p = 0" "bt_get (ro_liquidity_map st) t \<noteq> None"
  shows "ro_put_tick keep t d p st =
    Some (st\<lparr>ro_liquidity_map := bt_put t (if td_liquidity_gross d = 0 \<and> t \<noteq> keep then None else Some d) (ro_liquidity_map st)\<rparr>)"
  using assms by (auto simp: ro_put_tick_def bt_put_def)

definition burnt :: "liquidity \<Rightarrow> int \<Rightarrow> tick_delta \<Rightarrow> tick_delta" where
  "burnt b x d = d\<lparr>td_liquidity_gross := td_liquidity_gross d - b, td_liquidity_delta := td_liquidity_delta d + x\<rparr>"

lemma burnt_simps [simp]:
  "td_liquidity_gross (burnt b x d) = td_liquidity_gross d - b" "td_liquidity_delta (burnt b x d) = td_liquidity_delta d + x"
  "td_fee_growth_outside (burnt b x d) = td_fee_growth_outside d"
  by (simp_all add: burnt_def)

text \<open>The map of ticks after a burn.\<close>

definition burn_map :: "liquidity \<Rightarrow> tick \<Rightarrow> tick_delta \<Rightarrow> tick \<Rightarrow> tick_delta \<Rightarrow> liquidity_map \<Rightarrow> liquidity_map" where
  "burn_map b lo d up e m =
     bt_put up (if td_liquidity_gross e - b = 0 \<and> up \<noteq> MAX_TICK then None else Some (burnt b (int b) e))
       (bt_put lo (if td_liquidity_gross d - b = 0 \<and> lo \<noteq> MIN_TICK then None else Some (burnt b (- int b) d)) m)"

lemma burn_map_inv:
  assumes inv: "ro_map_inv m ps" and r: "range_ok lo up" and pos: "bt_get ps (lp, lo, up) = Some p" and b: "b \<le> rp_liquidity p"
    and d: "bt_get m lo = Some d" and e: "bt_get m up = Some e"
    and opt: "liq opt = rp_liquidity p - b" "\<And>q. opt = Some q \<Longrightarrow> 0 < rp_liquidity q"
  shows "ro_map_inv (burn_map b lo d up e m) (bt_put (lp, lo, up) opt ps)"
    "int (active_at (bt_put (lp, lo, up) opt ps) t) = int (active_at ps t) - (if lo \<le> t \<and> t < up then int b else 0)"
proof -
  note M = ro_map_invD [OF inv] and V = range_okD [OF r]
  have x: "int (liq opt) - int (liq (bt_get ps (lp, lo, up))) = - int b" using b by (simp add: opt(1) pos of_nat_diff)
  note put = position_put [OF M(2), of lp lo up opt, unfolded x]
  show "int (active_at (bt_put (lp, lo, up) opt ps) t) = int (active_at ps t) - (if lo \<le> t \<and> t < up then int b else 0)"
    by (simp add: put(3))
  have le: "b \<le> gross_at ps lo" "b \<le> gross_at ps up"
    using b position_le_gross [OF M(2) pos] by simp_all
  have D: "td_liquidity_gross d = gross_at ps lo" "td_liquidity_delta d = net_at ps lo"
      "td_liquidity_gross e = gross_at ps up" "td_liquidity_delta e = net_at ps up"
    using M(8) [OF d] M(8) [OF e] by simp_all
  have g: "gross_at (bt_put (lp, lo, up) opt ps) lo = gross_at ps lo - b" "gross_at (bt_put (lp, lo, up) opt ps) up = gross_at ps up - b"
    using put(1) [of lo] put(1) [of up] le by simp_all
  have n: "net_at (bt_put (lp, lo, up) opt ps) lo = net_at ps lo - int b" "net_at (bt_put (lp, lo, up) opt ps) up = net_at ps up + int b"
    using put(2) [of lo] put(2) [of up] V(3) by simp_all
  have get: "bt_get (burn_map b lo d up e m) t =
      (if t = up then (if td_liquidity_gross e - b = 0 \<and> up \<noteq> MAX_TICK then None else Some (burnt b (int b) e))
       else if t = lo then (if td_liquidity_gross d - b = 0 \<and> lo \<noteq> MIN_TICK then None else Some (burnt b (- int b) d))
       else bt_get m t)" for t
    by (simp add: burn_map_def bt_get_put)
  have "tick_matches (bt_put (lp, lo, up) opt ps) (burn_map b lo d up e m) lo"
    "tick_matches (bt_put (lp, lo, up) opt ps) (burn_map b lo d up e m) up"
    using r by (simp_all add: tick_matches_def get D g n range_ok_def)
  moreover have "bt_wf (burn_map b lo d up e m)" using M(1) by (simp add: burn_map_def bt_wf_put)
  ultimately show "ro_map_inv (burn_map b lo d up e m) (bt_put (lp, lo, up) opt ps)"
    using M(6) [of lo] M(6) [of up] opt(2)
    by (intro ro_map_inv_put [OF inv r _ refl]) (auto simp: get g)
qed

lemma ro_burn_from_eq:
  fixes st :: "'lp::linorder range_pool"
  assumes inv: "ro_inv st" and r: "range_ok lo up" and pos: "bt_get (ro_positions st) (lp, lo, up) = Some p"
    and b: "b \<le> rp_liquidity p"
    and d: "bt_get (ro_liquidity_map st) lo = Some d" and e: "bt_get (ro_liquidity_map st) up = Some e"
    and set_l: "set_liquidity st (rp_liquidity p - b) lo (burnt b (- int b) d) up (burnt b (int b) e) p = Some (c, i, p')"
    and l: "rp_liquidity p' = rp_liquidity p - b"
    and am: "inner_liquidity_to_amounts False st b lo up = Some (am, x)" and x: "x \<le> ro_current_liquidity st"
  shows "ro_burn_from st lp lo up b p = Some (Inr (am, b, c, i,
    st\<lparr>ro_current_liquidity := ro_current_liquidity st - x, ro_liquidity_map := burn_map b lo d up e (ro_liquidity_map st),
       ro_positions := bt_put (lp, lo, up) (if rp_liquidity p' = 0 then None else Some p') (ro_positions st)\<rparr>))"
proof -
  note M = ro_map_invD [OF ro_invD(3) [OF inv]] and V = range_okD [OF r]
  have le: "b \<le> gross_at (ro_positions st) lo" "b \<le> gross_at (ro_positions st) up"
      "gross_at (ro_positions st) lo - b = 0 \<Longrightarrow> rp_liquidity p' = 0" "gross_at (ro_positions st) up - b = 0 \<Longrightarrow> rp_liquidity p' = 0"
    using b l position_le_gross [OF M(2) pos] by simp_all
  have D: "td_liquidity_gross d = gross_at (ro_positions st) lo" "td_liquidity_delta d = net_at (ro_positions st) lo"
      "td_liquidity_gross e = gross_at (ro_positions st) up" "td_liquidity_delta e = net_at (ro_positions st) up"
    using M(8) [OF d] M(8) [OF e] by simp_all
  have ic: "iconv 128 (net_at (ro_positions st) lo - int b) = Some (net_at (ro_positions st) lo - int b)"
      "iconv 128 (net_at (ro_positions st) up + int b) = Some (net_at (ro_positions st) up + int b)"
    using abs_le_D1 [OF net_at_bounds, of "ro_positions st" lo] abs_le_D2 [OF net_at_bounds, of "ro_positions st" lo]
      abs_le_D1 [OF net_at_bounds, of "ro_positions st" up] abs_le_D2 [OF net_at_bounds, of "ro_positions st" up]
      le(1,2) M(6) [of lo] M(6) [of up] gross_max(3)
    by simp_all
  have burnt: "d\<lparr>td_liquidity_gross := gross_at (ro_positions st) lo - b, td_liquidity_delta := net_at (ro_positions st) lo - int b\<rparr> = burnt b (- int b) d"
    "e\<lparr>td_liquidity_gross := gross_at (ro_positions st) up - b, td_liquidity_delta := net_at (ro_positions st) up + int b\<rparr> = burnt b (int b) e"
    by (simp_all add: burnt_def D)
  define st1 where "st1 = st\<lparr>ro_current_liquidity := ro_current_liquidity st - x,
    ro_liquidity_map := bt_put lo (if gross_at (ro_positions st) lo - b = 0 \<and> lo \<noteq> MIN_TICK then None else Some (burnt b (- int b) d)) (ro_liquidity_map st)\<rparr>"
  have put1: "ro_put_tick MIN_TICK lo (burnt b (- int b) d) p' (st\<lparr>ro_current_liquidity := ro_current_liquidity st - x\<rparr>) = Some st1"
    using le(3) d by (subst ro_put_tick_eq) (auto simp: st1_def D)
  have put2: "ro_put_tick MAX_TICK up (burnt b (int b) e) p' st1 =
      Some (st1\<lparr>ro_liquidity_map := burn_map b lo d up e (ro_liquidity_map st)\<rparr>)"
    using le(4) e V(3) by (subst ro_put_tick_eq) (auto simp: st1_def D burn_map_def bt_get_put)
  show ?thesis
    using le(1,2) b x
    by (simp add: ro_burn_from_def Let_def d e D ic burnt set_l am put1 put2 usub_def del: iconv_Some usub_Some)
      (simp add: st1_def bt_put_def)
qed

lemma burn_map_outside:
  assumes "bt_get m lo = Some d" "bt_get m up = Some e"
  shows "bt_get (burn_map b lo d up e m) t \<noteq> None \<Longrightarrow> outside_at (burn_map b lo d up e m) t side = outside_at m t side"
    "bt_get (burn_map b lo d up e m) t = None \<Longrightarrow> outside_at (burn_map b lo d up e m) t side = 0"
proof -
  have "bt_get (burn_map b lo d up e m) t =
      (if t = up then (if td_liquidity_gross e - b = 0 \<and> up \<noteq> MAX_TICK then None else Some (burnt b (int b) e))
       else if t = lo then (if td_liquidity_gross d - b = 0 \<and> lo \<noteq> MIN_TICK then None else Some (burnt b (- int b) d))
       else bt_get m t)"
    by (simp add: burn_map_def bt_get_put)
  then show "bt_get (burn_map b lo d up e m) t \<noteq> None \<Longrightarrow> outside_at (burn_map b lo d up e m) t side = outside_at m t side"
    using assms by (auto simp: outside_at_def split: if_splits)
qed (simp add: outside_at_def)

lemma position_value_diff:
  "b \<le> l \<Longrightarrow> position_value p side lo up (l - b) = position_value p side lo up l - position_value p side lo up b"
  using position_value_linear(1) [of p side lo up "l - b" b] by simp

lemma ro_burn_from_ok:
  fixes st :: "'lp::linorder range_pool"
  assumes inv: "ro_inv st" and r: "range_ok lo up" and pos: "bt_get (ro_positions st) (lp, lo, up) = Some p"
    and b: "b \<le> rp_liquidity p"
  shows "\<exists>am c i st'. ro_burn_from st lp lo up b p = Some (Inr (am, b, c, i, st')) \<and>
    rounds False am (\<lambda>side. position_value (ro_sqrt_price st) side lo up b) \<and>
    ro_effect (\<lambda>_. 0) (\<lambda>side. pp_index am side + pp_index (rc_fees c) side) st st'"
proof -
  note I = ro_invD [OF inv] and M = ro_map_invD [OF ro_invD(3) [OF inv]]
  obtain d e where d: "bt_get (ro_liquidity_map st) lo = Some d" and e: "bt_get (ro_liquidity_map st) up = Some e"
    using position_ticks [OF I(3) pos] by auto
  have can: "can_collect st lo (burnt b (- int b) d) up (burnt b (int b) e) p"
    using can_collect_existing [OF inv pos d _ e] by simp
  have ins: "delta_inside st lo (burnt b (- int b) d) up (burnt b (int b) e) = ro_inside st lo up"
    using delta_inside_cong [OF d _ e] by simp
  obtain c p' where c: "set_liquidity st (rp_liquidity p - b) lo (burnt b (- int b) d) up (burnt b (int b) e) p = Some (c, ro_info p', p')"
    "rp_liquidity p' = rp_liquidity p - b" "rp_last_fee_growth_inside p' = inside_map st lo (burnt b (- int b) d) up (burnt b (int b) e)"
    "fees_within st lo (burnt b (- int b) d) up (burnt b (int b) e) p c"
    using set_liquidity_can [OF can] .
  have "b < 2 ^ 128" using b can by (simp add: can_collect_def)
  then obtain am where am: "inner_liquidity_to_amounts False st b lo up = Some (am, if lo \<le> ro_tick st \<and> ro_tick st < up then b else 0)"
    "rounds False am (\<lambda>side. position_value (ro_sqrt_price st) side lo up b)"
    using inner_liquidity_to_amounts_ok [OF I(2) r, of b False] by blast
  define opt where "opt = (if rp_liquidity p' = 0 then None else Some p')"
  have opt: "liq opt = rp_liquidity p - b" "\<And>q. opt = Some q \<Longrightarrow> 0 < rp_liquidity q" "\<And>q. opt = Some q \<Longrightarrow> q = p' \<and> b < rp_liquidity p"
    using c(2) by (auto simp: opt_def split: if_splits)
  note new = burn_map_inv [OF I(3) r pos b d e opt(1,2)]
  have x: "(if lo \<le> ro_tick st \<and> ro_tick st < up then b else 0) \<le> ro_current_liquidity st"
    using new(2) [of "ro_tick st"] I(4) by (auto split: if_splits)
  define st' where "st' = st\<lparr>ro_current_liquidity := ro_current_liquidity st - (if lo \<le> ro_tick st \<and> ro_tick st < up then b else 0),
    ro_liquidity_map := burn_map b lo d up e (ro_liquidity_map st), ro_positions := bt_put (lp, lo, up) opt (ro_positions st)\<rparr>"
  have run: "ro_burn_from st lp lo up b p = Some (Inr (am, b, c, ro_info p', st'))"
    using ro_burn_from_eq [OF inv r pos b d e c(1,2) am(1) x] by (simp add: st'_def opt_def)
  have st': "ro_positions st' = bt_put (lp, lo, up) opt (ro_positions st)" "ro_liquidity_map st' = burn_map b lo d up e (ro_liquidity_map st)"
      "ro_sqrt_price st' = ro_sqrt_price st" "ro_tick st' = ro_tick st" "ro_global_fee_growth st' = ro_global_fee_growth st"
      "ro_fee_hundredth_pips st' = ro_fee_hundredth_pips st"
    by (simp_all add: st'_def)
  have l: "ro_current_liquidity st' = active_at (ro_positions st') (ro_tick st)"
    using new(2) [of "ro_tick st"] I(4) by (auto simp: st'_def split: if_splits)
  note O = burn_map_outside [OF d e, of b]
  have out: "outside_at (ro_liquidity_map st') t side \<le> int (pp_index (ro_global_fee_growth st) side)" for t side
    using O(1,2) [of t side] ro_growth_invD(2) [OF I(5), of t side] unfolding st' by (metis of_nat_0_le_iff)
  have last: "int (pp_index (rp_last_fee_growth_inside q) side) = ro_inside st' lo up side" if "opt = Some q" for q side
  proof -
    have "bt_get (ro_positions st') (lp, lo, up) = Some q" using that by (simp add: st' bt_get_put)
    note T = position_ticks [OF new(1) [folded st'(1)] this]
    show ?thesis using opt(3) [OF that] inside_map_int [OF can, of side] O(1) [OF T(1)] O(1) [OF T(2)]
      by (simp add: c(3) ins ro_inside_def st')
  qed
  note hyps = new(1) [folded st'(1,2)] l O(1) [folded st'(2)] out last
  have "ro_inv st'" by (rule ro_inv_put(1) [OF inv r st'(6,3,4,5,1) hyps])
  moreover have "ro_worth st' side \<le> ro_worth st side + real 0 - real (pp_index am side + pp_index (rc_fees c) side)" for side
  proof -
    have "real (pp_index (rc_fees c) side) \<le> ro_earned st side lo up p"
      using c(4) by (simp only: fees_within_def ins ro_earned_def)
    moreover have "real (pp_index am side) \<le> position_value (ro_sqrt_price st) side lo up b" using am(2) by (simp add: rounds_def)
    ultimately show ?thesis
      using ro_inv_put(2) [OF inv r st'(6,3,4,5,1) hyps, of side]
      by (simp add: pos opt(1) position_worth_Some position_value_diff [OF b])
  qed
  ultimately have "ro_effect (\<lambda>_. 0) (\<lambda>side. pp_index am side + pp_index (rc_fees c) side) st st'"
    by (simp only: ro_effect_def) blast
  with run am(2) show ?thesis by blast
qed

lemma ro_collect_and_burn_ok:
  fixes st :: "'lp::linorder range_pool"
  assumes inv: "ro_inv st"
  shows "(\<exists>e. ro_collect_and_burn lp lo up sz st = Some (Inl e)) \<or>
    (\<exists>am b c i st'. ro_collect_and_burn lp lo up sz st = Some (Inr (am, b, c, i, st')) \<and>
       rounds False am (\<lambda>side. position_value (ro_sqrt_price st) side lo up b) \<and>
       ro_effect (\<lambda>_. 0) (\<lambda>side. pp_index am side + pp_index (rc_fees c) side) st st')"
proof -
  note M = ro_map_invD [OF ro_invD(3) [OF inv]]
  consider "\<not> range_ok lo up" | "range_ok lo up" "bt_get (ro_positions st) (lp, lo, up) = None"
    | p where "range_ok lo up" "bt_get (ro_positions st) (lp, lo, up) = Some p" by fastforce
  then show ?thesis
  proof cases
    case 3
    obtain opt where sz: "size_as_liquidity st lo up sz = Some opt" using size_as_liquidity_ok [OF ro_invD(2) [OF inv] 3(1)] by blast
    have l: "rp_liquidity p \<noteq> 0" using position_keysD(4) [OF M(3,2) 3(2)] by simp
    show ?thesis
    proof (cases opt)
      case None
      then show ?thesis using 3 sz l by (simp add: ro_collect_and_burn_def)
    next
      case (Some x)
      then have "ro_collect_and_burn lp lo up sz st = ro_burn_from st lp lo up (min (rp_liquidity p) x) p"
        using 3 sz l by (simp add: ro_collect_and_burn_def)
      then show ?thesis using ro_burn_from_ok [OF inv 3, of "min (rp_liquidity p) x"] by auto
    qed
  qed (simp_all add: ro_collect_and_burn_def)
qed

section \<open>Minting\<close>

text \<open>The tick of one end of a range as \<open>collect_and_mint\<close> finds or creates it.\<close>

definition mint_tick :: "'lp range_pool \<Rightarrow> tick \<Rightarrow> tick_delta" where
  "mint_tick st t = (case bt_get (ro_liquidity_map st) t of
     Some d \<Rightarrow> d
   | None \<Rightarrow> \<lparr>td_liquidity_delta = 0, td_liquidity_gross = 0,
              td_fee_growth_outside = (if t \<le> ro_tick st then ro_global_fee_growth st else pp_zero)\<rparr>)"

definition minted :: "liquidity \<Rightarrow> int \<Rightarrow> tick_delta \<Rightarrow> tick_delta" where
  "minted m x d = d\<lparr>td_liquidity_gross := td_liquidity_gross d + m, td_liquidity_delta := td_liquidity_delta d + x\<rparr>"

lemma minted_simps [simp]:
  "td_liquidity_gross (minted m x d) = td_liquidity_gross d + m" "td_liquidity_delta (minted m x d) = td_liquidity_delta d + x"
  "td_fee_growth_outside (minted m x d) = td_fee_growth_outside d"
  by (simp_all add: minted_def)

lemma mint_tick_inv:
  assumes "ro_inv st"
  shows "td_liquidity_gross (mint_tick st t) = gross_at (ro_positions st) t"
    "td_liquidity_delta (mint_tick st t) = net_at (ro_positions st) t" "outside_ok st (mint_tick st t)"
proof -
  note M = ro_map_invD [OF ro_invD(3) [OF assms]] and G = ro_growth_invD(2) [OF ro_invD(5) [OF assms], of t]
  have "td_liquidity_gross (mint_tick st t) = gross_at (ro_positions st) t \<and>
    td_liquidity_delta (mint_tick st t) = net_at (ro_positions st) t \<and> outside_ok st (mint_tick st t)"
  proof (cases "bt_get (ro_liquidity_map st) t")
    case None
    then show ?thesis using M(7) [OF None] net_at_bounds [of "ro_positions st" t]
      by (simp add: mint_tick_def outside_ok_def all_pairs)
  next
    case (Some d)
    then show ?thesis using M(8) [OF Some] G by (simp add: mint_tick_def outside_ok_def outside_at_Some)
  qed
  then show "td_liquidity_gross (mint_tick st t) = gross_at (ro_positions st) t"
    "td_liquidity_delta (mint_tick st t) = net_at (ro_positions st) t" "outside_ok st (mint_tick st t)" by simp_all
qed

definition mint_map :: "'lp range_pool \<Rightarrow> tick \<Rightarrow> tick \<Rightarrow> liquidity \<Rightarrow> liquidity_map" where
  "mint_map st lo up m = bt_insert up (minted m (- int m) (mint_tick st up))
     (bt_insert lo (minted m (int m) (mint_tick st lo)) (ro_liquidity_map st))"

lemma bt_get_mint_map:
  "bt_get (mint_map st lo up m) t = (if t = up then Some (minted m (- int m) (mint_tick st up))
     else if t = lo then Some (minted m (int m) (mint_tick st lo)) else bt_get (ro_liquidity_map st) t)"
  by (simp add: mint_map_def bt_get_insert)

lemma mint_map_outside:
  assumes "ro_inv st"
  shows "bt_get (ro_liquidity_map st) t \<noteq> None \<Longrightarrow> outside_at (mint_map st lo up m) t side = outside_at (ro_liquidity_map st) t side"
    "outside_at (mint_map st lo up m) t side \<le> int (pp_index (ro_global_fee_growth st) side)"
proof -
  show "bt_get (ro_liquidity_map st) t \<noteq> None \<Longrightarrow> outside_at (mint_map st lo up m) t side = outside_at (ro_liquidity_map st) t side"
    by (auto simp: outside_at_def bt_get_mint_map mint_tick_def)
  show "outside_at (mint_map st lo up m) t side \<le> int (pp_index (ro_global_fee_growth st) side)"
    using mint_tick_inv(3) [OF assms, of t] ro_growth_invD(2) [OF ro_invD(5) [OF assms], of t side]
    by (auto simp: outside_at_def bt_get_mint_map outside_ok_def)
qed

lemma mint_map_inv:
  fixes st :: "'lp::linorder range_pool"
  assumes inv: "ro_inv st" and r: "range_ok lo up"
    and room: "gross_at (ro_positions st) lo + m \<le> MAX_TICK_GROSS_LIQUIDITY" "gross_at (ro_positions st) up + m \<le> MAX_TICK_GROSS_LIQUIDITY"
    and p': "rp_liquidity p' = liq (bt_get (ro_positions st) (lp, lo, up)) + m" "0 < rp_liquidity p'"
  shows "ro_map_inv (mint_map st lo up m) (bt_put (lp, lo, up) (Some p') (ro_positions st))"
    "int (active_at (bt_put (lp, lo, up) (Some p') (ro_positions st)) t) =
       int (active_at (ro_positions st) t) + (if lo \<le> t \<and> t < up then int m else 0)"
proof -
  note I = ro_invD [OF inv] and M = ro_map_invD [OF ro_invD(3) [OF inv]] and V = range_okD [OF r]
  have x: "int (liq (Some p')) - int (liq (bt_get (ro_positions st) (lp, lo, up))) = int m" by (simp add: p'(1))
  note put = position_put [OF M(2), of lp lo up "Some p'", unfolded x]
  show "int (active_at (bt_put (lp, lo, up) (Some p') (ro_positions st)) t) =
       int (active_at (ro_positions st) t) + (if lo \<le> t \<and> t < up then int m else 0)"
    by (simp add: put(3))
  have g: "gross_at (bt_put (lp, lo, up) (Some p') (ro_positions st)) lo = gross_at (ro_positions st) lo + m"
      "gross_at (bt_put (lp, lo, up) (Some p') (ro_positions st)) up = gross_at (ro_positions st) up + m"
    using put(1) [of lo] put(1) [of up] by simp_all
  have n: "net_at (bt_put (lp, lo, up) (Some p') (ro_positions st)) lo = net_at (ro_positions st) lo + int m"
      "net_at (bt_put (lp, lo, up) (Some p') (ro_positions st)) up = net_at (ro_positions st) up - int m"
    using put(2) [of lo] put(2) [of up] V(3) by simp_all
  have "bt_wf (mint_map st lo up m)" using M(1) by (simp add: mint_map_def bt_wf_insert)
  moreover have "tick_matches (bt_put (lp, lo, up) (Some p') (ro_positions st)) (mint_map st lo up m) lo"
    "tick_matches (bt_put (lp, lo, up) (Some p') (ro_positions st)) (mint_map st lo up m) up"
    using V(3) by (simp_all add: tick_matches_def bt_get_mint_map g n mint_tick_inv [OF inv])
  ultimately show "ro_map_inv (mint_map st lo up m) (bt_put (lp, lo, up) (Some p') (ro_positions st))"
    using room p'(2) by (intro ro_map_inv_put [OF I(3) r _ refl]) (auto simp: g bt_get_mint_map)
qed

lemma ro_mint_into_eq:
  fixes st :: "'lp::linorder range_pool" and try_debit :: "amount pool_pairs_map \<Rightarrow> 'e + 't"
  assumes inv: "ro_inv st" and r: "range_ok lo up"
    and room: "gross_at (ro_positions st) lo + m \<le> MAX_TICK_GROSS_LIQUIDITY" "gross_at (ro_positions st) up + m \<le> MAX_TICK_GROSS_LIQUIDITY"
    and l: "rp_liquidity p + m < 2 ^ 128"
    and set_l: "set_liquidity st (rp_liquidity p + m) lo (minted m (int m) (mint_tick st lo)) up (minted m (- int m) (mint_tick st up)) p = Some (c, i, p')"
    and am: "inner_liquidity_to_amounts True st m lo up = Some (am, x)" and x: "ro_current_liquidity st + x < 2 ^ 128"
  shows "ro_mint_into st lp lo up m p try_debit = Some (case try_debit am of
      Inl err \<Rightarrow> Inl (RoOther (RoCallbackFailed err))
    | Inr t \<Rightarrow> Inr (t, m, c, i, st\<lparr>ro_current_liquidity := ro_current_liquidity st + x,
        ro_positions := bt_put (lp, lo, up) (Some p') (ro_positions st), ro_liquidity_map := mint_map st lo up m\<rparr>))"
proof -
  have upd: "tick_delta_with_updated_gross_liquidity st m t (bt_get (ro_liquidity_map st) t) =
      do { g \<leftarrow> uadd 128 (td_liquidity_gross (mint_tick st t)) m; Some ((mint_tick st t)\<lparr>td_liquidity_gross := g\<rparr>) }" for t
    by (simp add: tick_delta_with_updated_gross_liquidity_def mint_tick_def Let_def)
  have g: "uadd 128 (gross_at (ro_positions st) lo) m = Some (gross_at (ro_positions st) lo + m)"
      "uadd 128 (gross_at (ro_positions st) up) m = Some (gross_at (ro_positions st) up + m)"
    using room gross_max(2) by simp_all
  have ic: "iconv 128 (net_at (ro_positions st) lo + int m) = Some (net_at (ro_positions st) lo + int m)"
      "iconv 128 (net_at (ro_positions st) up - int m) = Some (net_at (ro_positions st) up - int m)"
    using abs_le_D1 [OF net_at_bounds, of "ro_positions st" lo] abs_le_D2 [OF net_at_bounds, of "ro_positions st" lo]
      abs_le_D1 [OF net_at_bounds, of "ro_positions st" up] abs_le_D2 [OF net_at_bounds, of "ro_positions st" up]
      room gross_max(3)
    by simp_all
  have minted: "(mint_tick st lo)\<lparr>td_liquidity_gross := gross_at (ro_positions st) lo + m, td_liquidity_delta := net_at (ro_positions st) lo + int m\<rparr> =
      minted m (int m) (mint_tick st lo)"
    "(mint_tick st up)\<lparr>td_liquidity_gross := gross_at (ro_positions st) up + m, td_liquidity_delta := net_at (ro_positions st) up - int m\<rparr> =
      minted m (- int m) (mint_tick st up)"
    by (simp_all add: minted_def mint_tick_inv [OF inv])
  have add: "uadd 128 (rp_liquidity p) m = Some (rp_liquidity p + m)" "uadd 128 (ro_current_liquidity st) x = Some (ro_current_liquidity st + x)"
    using l x by simp_all
  show ?thesis
    by (cases "try_debit am")
      (simp_all add: ro_mint_into_def Let_def upd mint_tick_inv [OF inv] g ic minted add set_l am mint_map_def bt_put_def del: iconv_Some uadd_Some)
qed

text \<open>The position that \<open>collect_and_mint\<close> starts from, and the fee growth it computes for the range.\<close>

definition mint_position :: "'lp::linorder range_pool \<Rightarrow> 'lp \<Rightarrow> tick \<Rightarrow> tick \<Rightarrow> ro_position" where
  "mint_position st lp lo up = (case bt_get (ro_positions st) (lp, lo, up) of
     Some p \<Rightarrow> p
   | None \<Rightarrow> \<lparr>rp_liquidity = 0, rp_last_fee_growth_inside = pp_zero, rp_accumulative_fees = pp_zero,
              rp_original_sqrt_price = ro_sqrt_price st\<rparr>)"

definition mint_inside :: "'lp range_pool \<Rightarrow> tick \<Rightarrow> tick \<Rightarrow> pairs \<Rightarrow> int" where
  "mint_inside st lo up = delta_inside st lo (mint_tick st lo) up (mint_tick st up)"

lemma delta_inside_minted [simp]:
  "delta_inside st lo (minted m x ld) up (minted m' y ud) = delta_inside st lo ld up ud"
  by (simp add: delta_inside_def fun_eq_iff)

lemma outside_ok_minted [simp]: "outside_ok st (minted m x d) = outside_ok st d"
  by (simp add: outside_ok_def)

lemma mint_inside_existing:
  assumes "ro_inv st" "bt_get (ro_positions st) (lp, lo, up) = Some p"
  shows "mint_inside st lo up = ro_inside st lo up"
proof -
  obtain d e where "bt_get (ro_liquidity_map st) lo = Some d" "bt_get (ro_liquidity_map st) up = Some e"
    using position_ticks [OF ro_invD(3) [OF assms(1)] assms(2)] by auto
  then show ?thesis using delta_inside_cong [of st lo d d up e e] by (simp add: mint_inside_def mint_tick_def)
qed

lemma mint_liquidity:
  assumes inv: "ro_inv st"
  shows "rp_liquidity (mint_position st lp lo up) = liq (bt_get (ro_positions st) (lp, lo, up))"
    "rp_liquidity (mint_position st lp lo up) \<le> gross_at (ro_positions st) lo"
  using position_le_gross(1) [OF ro_map_invD(2) [OF ro_invD(3) [OF inv]], of lp lo up]
  by (auto simp: mint_position_def split: option.splits)

lemma can_collect_mint:
  assumes inv: "ro_inv st" and r: "range_ok lo up"
    and new: "bt_get (ro_positions st) (lp, lo, up) = None \<Longrightarrow> \<forall>side. 0 \<le> mint_inside st lo up side"
  shows "can_collect st lo (minted m x (mint_tick st lo)) up (minted m y (mint_tick st up)) (mint_position st lp lo up)"
proof -
  note M = ro_map_invD [OF ro_invD(3) [OF inv]] and G = ro_growth_invD [OF ro_invD(5) [OF inv]]
  have "int (pp_index (rp_last_fee_growth_inside (mint_position st lp lo up)) side) \<le> mint_inside st lo up side" for side
  proof (cases "bt_get (ro_positions st) (lp, lo, up)")
    case None
    then show ?thesis using new by (cases side) (simp_all add: mint_position_def)
  next
    case (Some p)
    then show ?thesis using G(3) [OF Some, of side] mint_inside_existing [OF inv Some] by (simp add: mint_position_def)
  qed
  moreover have "rp_liquidity (mint_position st lp lo up) < 2 ^ 128"
    using mint_liquidity(2) [OF inv, of lp lo up] M(6) [of lo] gross_max(2) by simp
  ultimately show ?thesis
    using G(1) range_okD(3) [OF r] mint_tick_inv(3) [OF inv] by (simp add: can_collect_def mint_inside_def)
qed

lemma mint_earned:
  assumes inv: "ro_inv st" and c: "fees_within st lo (minted m x (mint_tick st lo)) up (minted m y (mint_tick st up)) (mint_position st lp lo up) c"
  shows "real (pp_index (rc_fees c) side) + position_value (ro_sqrt_price st) side lo up (liq (bt_get (ro_positions st) (lp, lo, up)))
    \<le> position_worth st lo up (bt_get (ro_positions st) (lp, lo, up)) side"
proof -
  have c': "real (pp_index (rc_fees c) side) \<le> real (rp_liquidity (mint_position st lp lo up)) *
      real_of_int (mint_inside st lo up side - int (pp_index (rp_last_fee_growth_inside (mint_position st lp lo up)) side)) / 2 ^ 128"
    using c by (simp only: fees_within_def delta_inside_minted mint_inside_def)
  show ?thesis
  proof (cases "bt_get (ro_positions st) (lp, lo, up)")
    case None
    then show ?thesis using c' by (simp add: mint_position_def position_worth_def position_value_linear(2))
  next
    case (Some p)
    then show ?thesis using c' mint_inside_existing [OF inv Some]
      by (simp add: mint_position_def position_worth_Some ro_earned_def)
  qed
qed

definition minted_into :: "'lp::linorder \<Rightarrow> tick \<Rightarrow> tick \<Rightarrow> liquidity \<Rightarrow> 'lp range_pool \<Rightarrow> 'lp range_pool \<Rightarrow> bool" where
  "minted_into lp lo up m st st' \<longleftrightarrow> range_ok lo up \<and> ro_sqrt_price st' = ro_sqrt_price st \<and>
     (\<exists>p. bt_get (ro_positions st') (lp, lo, up) = Some p \<and> m \<le> rp_liquidity p)"

lemma ro_mint_into_ok:
  fixes st :: "'lp::linorder range_pool" and try_debit :: "amount pool_pairs_map \<Rightarrow> 'e + 't"
  assumes inv: "ro_inv st" and r: "range_ok lo up"
    and room: "gross_at (ro_positions st) lo + m \<le> MAX_TICK_GROSS_LIQUIDITY" "gross_at (ro_positions st) up + m \<le> MAX_TICK_GROSS_LIQUIDITY"
    and some: "bt_get (ro_positions st) (lp, lo, up) \<noteq> None \<or> m \<noteq> 0"
    and new: "bt_get (ro_positions st) (lp, lo, up) = None \<Longrightarrow> \<forall>side. 0 \<le> mint_inside st lo up side"
  shows "\<exists>am c i st'. ro_mint_into st lp lo up m (mint_position st lp lo up) try_debit = Some (case try_debit am of
        Inl err \<Rightarrow> Inl (RoOther (RoCallbackFailed err)) | Inr t \<Rightarrow> Inr (t, m, c, i, st')) \<and>
    rounds True am (\<lambda>side. position_value (ro_sqrt_price st) side lo up m) \<and>
    ro_effect (pp_index am) (pp_index (rc_fees c)) st st' \<and> minted_into lp lo up m st st'"
proof -
  note I = ro_invD [OF inv] and M = ro_map_invD [OF ro_invD(3) [OF inv]] and L = mint_liquidity [OF inv, of lp lo up]
  let ?p = "mint_position st lp lo up" and ?l = "minted m (int m) (mint_tick st lo)" and ?u = "minted m (- int m) (mint_tick st up)"
  have can: "can_collect st lo ?l up ?u ?p" by (rule can_collect_mint [OF inv r new])
  obtain c p' where c: "set_liquidity st (rp_liquidity ?p + m) lo ?l up ?u ?p = Some (c, ro_info p', p')"
    "rp_liquidity p' = rp_liquidity ?p + m" "rp_last_fee_growth_inside p' = inside_map st lo ?l up ?u" "fees_within st lo ?l up ?u ?p c"
    using set_liquidity_can [OF can] .
  have small: "m < 2 ^ 128" "rp_liquidity ?p + m < 2 ^ 128" using room(1) gross_max(2) L(2) by simp_all
  obtain am where am: "inner_liquidity_to_amounts True st m lo up = Some (am, if lo \<le> ro_tick st \<and> ro_tick st < up then m else 0)"
    "rounds True am (\<lambda>side. position_value (ro_sqrt_price st) side lo up m)"
    using inner_liquidity_to_amounts_ok [OF I(2) r small(1), of True] by blast
  have pos: "0 < rp_liquidity p'" "rp_liquidity p' = liq (bt_get (ro_positions st) (lp, lo, up)) + m"
    using some position_keysD(4) [OF M(3,2), of lp lo up] c(2) L(1) by (auto simp: liq_def split: option.splits)
  note new = mint_map_inv [OF inv r room pos(2,1)]
  have l: "ro_current_liquidity st + (if lo \<le> ro_tick st \<and> ro_tick st < up then m else 0) =
      active_at (bt_put (lp, lo, up) (Some p') (ro_positions st)) (ro_tick st)"
    using new(2) [of "ro_tick st"] I(4) by (auto split: if_splits)
  note MI = ro_map_invD [OF new(1)]
  have x: "ro_current_liquidity st + (if lo \<le> ro_tick st \<and> ro_tick st < up then m else 0) < 2 ^ 128"
    unfolding l by (rule active_at_bound [OF MI(3) MI(6)])
  define st' where "st' = st\<lparr>ro_current_liquidity := ro_current_liquidity st + (if lo \<le> ro_tick st \<and> ro_tick st < up then m else 0),
    ro_positions := bt_put (lp, lo, up) (Some p') (ro_positions st), ro_liquidity_map := mint_map st lo up m\<rparr>"
  have st': "ro_positions st' = bt_put (lp, lo, up) (Some p') (ro_positions st)" "ro_liquidity_map st' = mint_map st lo up m"
      "ro_sqrt_price st' = ro_sqrt_price st" "ro_tick st' = ro_tick st" "ro_global_fee_growth st' = ro_global_fee_growth st"
      "ro_fee_hundredth_pips st' = ro_fee_hundredth_pips st" "ro_current_liquidity st' = active_at (ro_positions st') (ro_tick st)"
    using l by (simp_all add: st'_def)
  note O = mint_map_outside [OF inv, where lo = lo and up = up and m = m]
  have ends: "outside_at (mint_map st lo up m) lo side = int (pp_index (td_fee_growth_outside (mint_tick st lo)) side)"
      "outside_at (mint_map st lo up m) up side = int (pp_index (td_fee_growth_outside (mint_tick st up)) side)" for side
    using range_okD(3) [OF r] by (simp_all add: outside_at_def bt_get_mint_map)
  have last: "int (pp_index (rp_last_fee_growth_inside q) side) = ro_inside st' lo up side" if "Some p' = Some q" for q side
  proof -
    have q: "q = p'" using that by simp
    show ?thesis using inside_map_int [OF can, of side] ends [of side] by (simp add: q c(3) ro_inside_def st' delta_inside_def)
  qed
  note put = ro_inv_put [OF inv r st'(6,3,4,5,1) new(1) [folded st'(1,2)] st'(7) O(1) [folded st'(2)] O(2) [folded st'(2)] last]
  have "ro_worth st' side \<le> ro_worth st side + real (pp_index am side) - real (pp_index (rc_fees c) side)" for side
    using put(2) [of side] mint_earned [OF inv c(4), of side] am(2)
    by (simp add: c(2) L(1) position_value_linear(1) rounds_def all_pairs) (cases side; simp)
  then have "ro_effect (pp_index am) (pp_index (rc_fees c)) st st'" using put(1) by (simp add: ro_effect_def)
  moreover have "ro_mint_into st lp lo up m ?p try_debit = Some (case try_debit am of
        Inl err \<Rightarrow> Inl (RoOther (RoCallbackFailed err)) | Inr t \<Rightarrow> Inr (t, m, c, ro_info p', st'))"
    using ro_mint_into_eq [OF inv r room small(2) c(1) am(1) x, of lp try_debit] by (simp only: st'_def)
  moreover have "minted_into lp lo up m st st'" using r by (simp add: minted_into_def st' bt_get_put c(2))
  ultimately show ?thesis using am(2) by blast
qed

text \<open>\<open>collect_and_mint\<close> panics exactly when it creates a position for whose range the fee growth is below zero.\<close>

definition mint_underflows :: "'lp::linorder \<Rightarrow> tick \<Rightarrow> tick \<Rightarrow> 'lp range_pool \<Rightarrow> bool" where
  "mint_underflows lp lo up st \<longleftrightarrow> bt_get (ro_positions st) (lp, lo, up) = None \<and>
     (mint_inside st lo up Base < 0 \<or> mint_inside st lo up Quote < 0)"

definition mint_fits :: "tick \<Rightarrow> tick \<Rightarrow> liquidity \<Rightarrow> 'lp range_pool \<Rightarrow> bool" where
  "mint_fits lo up m st \<longleftrightarrow> gross_at (ro_positions st) lo + m \<le> MAX_TICK_GROSS_LIQUIDITY \<and>
     gross_at (ro_positions st) up + m \<le> MAX_TICK_GROSS_LIQUIDITY"

lemma mint_room:
  assumes inv: "ro_inv st"
  shows "usub MAX_TICK_GROSS_LIQUIDITY (fold max (map td_liquidity_gross (List.map_filter id
      [bt_get (ro_liquidity_map st) lo, bt_get (ro_liquidity_map st) up])) 0) =
    Some (MAX_TICK_GROSS_LIQUIDITY - max (gross_at (ro_positions st) lo) (gross_at (ro_positions st) up))"
proof -
  note M = ro_map_invD [OF ro_invD(3) [OF inv]]
  have opt: "(case bt_get (ro_liquidity_map st) t of None \<Rightarrow> 0 | Some d \<Rightarrow> td_liquidity_gross d) = gross_at (ro_positions st) t" for t
    using M(7,8) [of t] by (auto split: option.splits)
  have "fold max (map td_liquidity_gross (List.map_filter id [a, b])) 0 =
      max (case a of None \<Rightarrow> 0 | Some d \<Rightarrow> td_liquidity_gross d) (case b of None \<Rightarrow> 0 | Some d \<Rightarrow> td_liquidity_gross d)" for a b
    by (cases a; cases b) (simp_all add: List.map_filter_simps max.commute)
  note eq = this [of "bt_get (ro_liquidity_map st) lo" "bt_get (ro_liquidity_map st) up", unfolded opt]
  show ?thesis unfolding eq using M(6) [of lo] M(6) [of up] by simp
qed

lemma mint_fits_iff:
  assumes inv: "ro_inv st"
  shows "m > MAX_TICK_GROSS_LIQUIDITY - max (gross_at (ro_positions st) lo) (gross_at (ro_positions st) up) \<longleftrightarrow> \<not> mint_fits lo up m st"
  using ro_map_invD(6) [OF ro_invD(3) [OF inv], of lo] ro_map_invD(6) [OF ro_invD(3) [OF inv], of up]
  by (auto simp: mint_fits_def max_def)

lemma ro_collect_and_mint_eq:
  fixes st :: "'lp::linorder range_pool"
  assumes inv: "ro_inv st" and r: "range_ok lo up"
  shows "ro_collect_and_mint lp lo up sz try_debit st = do {
    opt \<leftarrow> size_as_liquidity st lo up sz;
    (case opt of None \<Rightarrow> Some (Inl (RoOther RoMintAssetRatioUnachieveable))
     | Some m \<Rightarrow> (if \<not> mint_fits lo up m st then Some (Inl (RoOther RoMaximumGrossLiquidity))
         else if bt_get (ro_positions st) (lp, lo, up) = None \<and> m = 0 then Some (Inl RoNonExistent)
         else ro_mint_into st lp lo up m (mint_position st lp lo up) try_debit)) }"
  unfolding ro_collect_and_mint_def validate_position_range_eq mint_room [OF inv] mint_position_def
  by (cases "size_as_liquidity st lo up sz") (auto simp: r mint_fits_iff [OF inv] Let_def split: option.splits)

lemma ro_collect_and_mint_ok:
  fixes st :: "'lp::linorder range_pool" and try_debit :: "amount pool_pairs_map \<Rightarrow> 'e + 't"
  assumes inv: "ro_inv st" and safe: "\<not> mint_underflows lp lo up st"
  shows "(\<exists>e. ro_collect_and_mint lp lo up sz try_debit st = Some (Inl e)) \<or>
    (\<exists>am t m c i st'. try_debit am = Inr t \<and> ro_collect_and_mint lp lo up sz try_debit st = Some (Inr (t, m, c, i, st')) \<and>
       rounds True am (\<lambda>side. position_value (ro_sqrt_price st) side lo up m) \<and>
       ro_effect (pp_index am) (pp_index (rc_fees c)) st st' \<and> minted_into lp lo up m st st')"
proof (cases "range_ok lo up")
  case r: True
  have new: "bt_get (ro_positions st) (lp, lo, up) = None \<Longrightarrow> \<forall>side. 0 \<le> mint_inside st lo up side"
    using safe by (auto simp: mint_underflows_def all_pairs)
  obtain opt where sz: "size_as_liquidity st lo up sz = Some opt" using size_as_liquidity_ok [OF ro_invD(2) [OF inv] r] by blast
  show ?thesis
  proof (cases "\<exists>m. opt = Some m \<and> mint_fits lo up m st \<and> (bt_get (ro_positions st) (lp, lo, up) \<noteq> None \<or> m \<noteq> 0)")
    case True
    then obtain m where m: "opt = Some m" "mint_fits lo up m st" "bt_get (ro_positions st) (lp, lo, up) \<noteq> None \<or> m \<noteq> 0" by blast
    have run: "ro_collect_and_mint lp lo up sz try_debit st = ro_mint_into st lp lo up m (mint_position st lp lo up) try_debit"
      using m by (auto simp: ro_collect_and_mint_eq [OF inv r] sz)
    obtain am c i st' where ok: "ro_mint_into st lp lo up m (mint_position st lp lo up) try_debit = Some (case try_debit am of
        Inl err \<Rightarrow> Inl (RoOther (RoCallbackFailed err)) | Inr t \<Rightarrow> Inr (t, m, c, i, st'))"
      "rounds True am (\<lambda>side. position_value (ro_sqrt_price st) side lo up m)" "ro_effect (pp_index am) (pp_index (rc_fees c)) st st'"
      "minted_into lp lo up m st st'"
      using ro_mint_into_ok [OF inv r _ _ m(3) new, of try_debit] m(2) unfolding mint_fits_def by blast
    show ?thesis using ok run by (cases "try_debit am") auto
  next
    case False
    then show ?thesis by (auto simp: ro_collect_and_mint_eq [OF inv r] sz split: option.splits)
  qed
qed (simp add: ro_collect_and_mint_def)

lemma ro_mint_into_underflow:
  assumes inv: "ro_inv st" and under: "mint_underflows lp lo up st"
  shows "ro_mint_into st lp lo up m p try_debit = None"
proof -
  have upd: "tick_delta_with_updated_gross_liquidity st m t (bt_get (ro_liquidity_map st) t) = Some d \<Longrightarrow>
      td_fee_growth_outside d = td_fee_growth_outside (mint_tick st t)" for t d
    by (cases "bt_get (ro_liquidity_map st) t")
      (auto simp: tick_delta_with_updated_gross_liquidity_def mint_tick_def Let_def split: bind_splits if_splits)
  have "set_liquidity st l lo d up e p = None"
    if "td_fee_growth_outside d = td_fee_growth_outside (mint_tick st lo)" "td_fee_growth_outside e = td_fee_growth_outside (mint_tick st up)" for l d e
  proof -
    have ok: "outside_ok st d" "outside_ok st e" "delta_inside st lo d up e = mint_inside st lo up"
      using that mint_tick_inv(3) [OF inv, of lo] mint_tick_inv(3) [OF inv, of up]
      by (auto simp: outside_ok_def mint_inside_def delta_inside_def fun_eq_iff)
    then have "pp_map_with_pairM (\<lambda>side _. fee_growth_inside st lo d up e side) \<lparr>base = (), quote = ()\<rparr> = None"
      using under by (auto simp: pp_map_with_pairM_def fee_growth_inside_eq [OF ok(1,2)] ok(3) mint_underflows_def split: bind_splits)
    then show ?thesis by (simp add: set_liquidity_def ro_collect_fees_def)
  qed
  then show ?thesis using upd by (force simp: ro_mint_into_def Let_def split: bind_splits)
qed

end
