(* ===== verification/Range_Ledger.thy ===== *)
theory Range_Ledger
  imports Range_Positions
begin

text \<open>
  The range order pool as a transition system: creation, fees, the read-only methods, and the steps that the
  calls of \<open>PoolState\<close> of \<open>range_orders.rs\<close> make, with what they pay in and out. The theorems at the end
  say that the pool is solvent and consistent in every reachable state, which calls can panic and how
  amounts are rounded.
\<close>

section \<open>Creation and fees\<close>

lemma tick_of_price:
  assumes "is_sqrt_price_valid p"
  obtains t where "tick_at_sqrt_price p = Some t" "is_tick_valid t" "tick_price t \<le> p" "t < MAX_TICK \<longrightarrow> p \<le> tick_price (t + 1)"
  using tick_at_sqrt_price_spec [OF assms] unfolding greatest_tick_below_def tick_price_def by fastforce

lemma ro_new_ok:
  "ro_new fee p = Some (if \<not> ro_validate_fees fee then Inl RoNewInvalidFeeAmount
     else if \<not> is_sqrt_price_valid p then Inl RoNewInvalidInitialPrice
     else Inr \<lparr>ro_fee_hundredth_pips = fee, ro_sqrt_price = p, ro_tick = the (tick_at_sqrt_price p), ro_current_liquidity = 0,
       ro_global_fee_growth = pp_zero, ro_liquidity_map = [(MIN_TICK, empty_tick_delta), (MAX_TICK, empty_tick_delta)],
       ro_positions = [], ro_total_fees_earned = pp_zero, ro_total_swap_inputs = pp_zero, ro_total_swap_outputs = pp_zero\<rparr>)"
proof (cases "is_sqrt_price_valid p")
  case True
  then obtain t where "tick_at_sqrt_price p = Some t" using tick_of_price by blast
  then show ?thesis by (simp add: ro_new_def)
qed (simp add: ro_new_def)

lemma ro_new_inv:
  assumes "ro_new fee p = Some (Inr st)"
  shows "ro_inv st" "ro_worth st side = 0"
proof -
  have fee: "fee \<le> MAX_LP_FEE" and p: "is_sqrt_price_valid p"
    using assms by (auto simp: ro_new_ok ro_validate_fees_def split: if_splits)
  obtain t where t: "tick_at_sqrt_price p = Some t" "is_tick_valid t" "tick_price t \<le> p" "t < MAX_TICK \<longrightarrow> p \<le> tick_price (t + 1)"
    using tick_of_price [OF p] .
  have st: "st = \<lparr>ro_fee_hundredth_pips = fee, ro_sqrt_price = p, ro_tick = t, ro_current_liquidity = 0,
       ro_global_fee_growth = pp_zero, ro_liquidity_map = [(MIN_TICK, empty_tick_delta), (MAX_TICK, empty_tick_delta)],
       ro_positions = [], ro_total_fees_earned = pp_zero, ro_total_swap_inputs = pp_zero, ro_total_swap_outputs = pp_zero\<rparr>"
    using assms p fee t(1) by (simp add: ro_new_ok ro_validate_fees_def)
  have ticks: "MIN_TICK < MAX_TICK" by (simp add: MIN_TICK_def MAX_TICK_def)
  have get: "bt_get [(MIN_TICK, empty_tick_delta), (MAX_TICK, empty_tick_delta)] u =
      (if u = MIN_TICK \<or> u = MAX_TICK then Some empty_tick_delta else None)" for u
    by (simp add: bt_get_def)
  have "ro_map_inv (ro_liquidity_map st) (ro_positions st)"
    using ticks by (auto simp: st ro_map_inv_def get position_keys_ok_def gross_at_def net_at_def bt_wf_Cons empty_tick_delta_def is_tick_valid_def)
  moreover have "ro_price_inv st" using p t by (simp add: st ro_price_inv_def is_tick_valid_def)
  moreover have "ro_growth_inv st"
    by (auto simp: st ro_growth_inv_def all_pairs outside_at_def get empty_tick_delta_def bt_get_def split: option.splits)
  ultimately show "ro_inv st" using fee by (simp add: ro_inv_def st active_at_def)
  show "ro_worth st side = 0" by (simp add: ro_worth_eq st)
qed

lemma ro_set_fees_ok:
  "ro_inv st \<Longrightarrow> ro_set_fees fee st = Inr st' \<Longrightarrow> ro_effect (\<lambda>_. 0) (\<lambda>_. 0) st st'"
  by (auto simp: ro_set_fees_def ro_validate_fees_def ro_effect_def ro_inv_def ro_price_inv_def ro_growth_inv_def ro_inside_def
      ro_worth_def ro_pending_def ro_earned_def split: if_splits)

lemma ro_effect_refl: "ro_inv st \<Longrightarrow> ro_effect (\<lambda>_. 0) (\<lambda>_. 0) st st"
  by (simp add: ro_effect_def)

lemma ro_effect_trans:
  assumes "ro_effect i o' st st1" "ro_effect j q st1 st2"
  shows "ro_effect (\<lambda>side. i side + j side) (\<lambda>side. o' side + q side) st st2"
proof -
  have "ro_worth st2 side \<le> ro_worth st side + real (i side + j side) - real (o' side + q side)" for side
    using ro_effectD(2) [OF assms(1), of side] ro_effectD(2) [OF assms(2), of side] by simp
  then show ?thesis using ro_effectD(1) [OF assms(2)] by (simp add: ro_effect_def)
qed

section \<open>Collecting from every position\<close>

definition ro_paid_list :: "(('lp \<times> tick \<times> tick) \<times> ro_collected \<times> ro_position_info) list \<Rightarrow> pairs \<Rightarrow> nat" where
  "ro_paid_list xs side = (\<Sum>(k, c, i) \<leftarrow> xs. pp_index (rc_fees c) side)"

lemma ro_paid_list_Cons:
  "ro_paid_list ((k, c, i) # xs) = (\<lambda>side. pp_index (rc_fees c) side + ro_paid_list xs side)"
  by (simp add: ro_paid_list_def fun_eq_iff)

lemma position_range:
  assumes "ro_inv st" "bt_get (ro_positions st) (lp, lo, up) = Some p"
  shows "range_ok lo up"
  using position_keysD [OF ro_map_invD(3,2) [OF ro_invD(3) [OF assms(1)]] assms(2)] by (simp add: range_ok_def)

lemma ro_collect_all_loop:
  fixes st :: "'lp::linorder range_pool"
  assumes "ro_inv st" "\<forall>k \<in> set ks. bt_get (ro_positions st) k \<noteq> None"
  shows "\<exists>xs st'. foldM (\<lambda>(lp, lower_tick, upper_tick) (acc, st).
         do { r \<leftarrow> (ro_collect lp lower_tick upper_tick st ::
                  (unit ro_position_error + ro_collected \<times> ro_position_info \<times> 'lp range_pool) option);
              (case r of Inl _ \<Rightarrow> None
               | Inr (c, i, st') \<Rightarrow> Some (acc @ [((lp, lower_tick, upper_tick), c, i)], st')) }) ks (acc, st)
      = Some (acc @ xs, st') \<and> ro_effect (\<lambda>_. 0) (ro_paid_list xs) st st' \<and> map fst xs = ks"
  using assms
proof (induction ks arbitrary: st acc)
  case Nil
  then show ?case using ro_effect_refl by (fastforce simp: ro_paid_list_def)
next
  case (Cons k ks)
  obtain lp lo up where k: "k = (lp, lo, up)" by (cases k)
  then obtain p where p: "bt_get (ro_positions st) (lp, lo, up) = Some p" using Cons.prems(2) by auto
  obtain c p' st1 where c: "(ro_collect lp lo up st :: (unit ro_position_error + ro_collected \<times> ro_position_info \<times> 'lp range_pool) option)
       = Some (Inr (c, ro_info p', st1))" "ro_effect (\<lambda>_. 0) (pp_index (rc_fees c)) st st1"
      "ro_positions st1 = bt_insert (lp, lo, up) p' (ro_positions st)"
    using ro_collect_ok [OF Cons.prems(1) position_range [OF Cons.prems(1) p] p, where ?'e = unit] by blast
  have "\<forall>k \<in> set ks. bt_get (ro_positions st1) k \<noteq> None" using Cons.prems(2) by (simp add: c(3) bt_get_insert)
  from Cons.IH [OF ro_effectD(1) [OF c(2)] this, of "acc @ [((lp, lo, up), c, ro_info p')]"] obtain xs st' where
    xs: "foldM (\<lambda>(lp, lower_tick, upper_tick) (acc, st).
         do { r \<leftarrow> (ro_collect lp lower_tick upper_tick st ::
                  (unit ro_position_error + ro_collected \<times> ro_position_info \<times> 'lp range_pool) option);
              (case r of Inl _ \<Rightarrow> None
               | Inr (c, i, st') \<Rightarrow> Some (acc @ [((lp, lower_tick, upper_tick), c, i)], st')) }) ks (acc @ [((lp, lo, up), c, ro_info p')], st1)
      = Some ((acc @ [((lp, lo, up), c, ro_info p')]) @ xs, st')" "ro_effect (\<lambda>_. 0) (ro_paid_list xs) st1 st'" "map fst xs = ks"
    by blast
  have "ro_effect (\<lambda>_. 0) (ro_paid_list (((lp, lo, up), c, ro_info p') # xs)) st st'"
    using ro_effect_trans [OF c(2) xs(2)] by (simp add: ro_paid_list_Cons)
  then show ?case using c(1) xs(1,3) k by (intro exI [of _ "((lp, lo, up), c, ro_info p') # xs"] exI [of _ st']) simp
qed

lemma ro_collect_all_ok:
  assumes "ro_inv st"
  shows "\<exists>xs st'. ro_collect_all st = Some (xs, st') \<and> ro_effect (\<lambda>_. 0) (ro_paid_list xs) st st' \<and> map fst xs = map fst (ro_positions st)"
proof -
  have "\<forall>k \<in> set (map fst (ro_positions st)). bt_get (ro_positions st) k \<noteq> None" by (simp add: bt_get_None_iff)
  from ro_collect_all_loop [OF assms this, of "[]"] show ?thesis by (simp add: ro_collect_all_def)
qed

section \<open>The read-only methods\<close>

lemma ro_fees_of:
  assumes inv: "ro_inv st" and pos: "bt_get (ro_positions st) (lp, lo, up) = Some p"
  obtains d e c p' where "bt_get (ro_liquidity_map st) lo = Some d" "bt_get (ro_liquidity_map st) up = Some e"
    "ro_collect_fees st lo d up e p = Some (c, p')" "rp_liquidity p \<noteq> 0"
proof -
  obtain d e where d: "bt_get (ro_liquidity_map st) lo = Some d" and e: "bt_get (ro_liquidity_map st) up = Some e"
    using position_ticks [OF ro_invD(3) [OF inv] pos] by auto
  obtain c p' where "ro_collect_fees st lo d up e p = Some (c, p')"
    using ro_collect_fees_can [OF can_collect_existing [OF inv pos d refl e refl]] by metis
  then show thesis
    using that d e position_keysD(4) [OF ro_map_invD(3,2) [OF ro_invD(3) [OF inv]] pos] by blast
qed

lemma ro_positions_list_ok:
  assumes inv: "ro_inv st"
  shows "ro_positions_list st \<noteq> None"
proof -
  have "\<exists>y. (do { lower_delta \<leftarrow> bt_get (ro_liquidity_map st) lo; upper_delta \<leftarrow> bt_get (ro_liquidity_map st) up;
            (c, position') \<leftarrow> ro_collect_fees st lo lower_delta up upper_delta p;
            Some (lp, lo, up, c, ro_info position') }) = Some y" if "((lp, lo, up), p) \<in> set (ro_positions st)" for lp lo up p
  proof -
    have "bt_get (ro_positions st) (lp, lo, up) = Some p" using that bt_get_mem [OF ro_map_invD(2) [OF ro_invD(3) [OF inv]]] by blast
    then obtain d e c p' where "bt_get (ro_liquidity_map st) lo = Some d" "bt_get (ro_liquidity_map st) up = Some e"
      "ro_collect_fees st lo d up e p = Some (c, p')" "rp_liquidity p \<noteq> 0" by (rule ro_fees_of [OF inv])
    then show ?thesis by simp
  qed
  then have "\<exists>ys. ro_positions_list st = Some ys" unfolding ro_positions_list_def by (intro mapM_SomeI) auto
  then show ?thesis by simp
qed

lemma ro_position_of_collect:
  fixes st :: "'lp::linorder range_pool"
  assumes inv: "ro_inv st"
  shows "(ro_position_of lp lo up st :: ('e ro_position_error + ro_collected \<times> ro_position_info) option) =
    map_option (map_sum id (\<lambda>(c, i, st'). (c, i))) (ro_collect lp lo up st)"
proof (cases "range_ok lo up")
  case True
  show ?thesis
  proof (cases "bt_get (ro_positions st) (lp, lo, up)")
    case (Some p)
    then obtain d e c p' where "bt_get (ro_liquidity_map st) lo = Some d" "bt_get (ro_liquidity_map st) up = Some e"
      "ro_collect_fees st lo d up e p = Some (c, p')" "rp_liquidity p \<noteq> 0" by (rule ro_fees_of [OF inv])
    then show ?thesis using True Some by (simp add: ro_position_of_def ro_collect_def)
  qed (simp add: True ro_position_of_def ro_collect_def)
qed (simp add: ro_position_of_def ro_collect_def)

section \<open>The histogram of the liquidity\<close>

text \<open>
  A part of the map of ticks above a tick \<open>s\<close>, with every tick of a position that lies between \<open>s\<close> and
  the ticks of the part.
\<close>

definition map_above :: "'lp ro_positions_map \<Rightarrow> tick \<Rightarrow> tick \<Rightarrow> liquidity_map \<Rightarrow> bool" where
  "map_above ps s hi m \<longleftrightarrow> bt_wf m \<and> (\<forall>(t, d) \<in> set m. s < t \<and> t < hi \<and> td_liquidity_delta d = net_at ps t) \<and>
     (\<forall>u. s < u \<longrightarrow> u < hi \<longrightarrow> gross_at ps u \<noteq> 0 \<longrightarrow> u \<in> fst ` set m)"

lemma map_above_Cons:
  assumes "map_above ps s hi ((t, d) # m)"
  shows "s < t" "t < hi" "td_liquidity_delta d = net_at ps t" "map_above ps t hi m" "\<And>u. s < u \<Longrightarrow> u < t \<Longrightarrow> gross_at ps u = 0"
proof -
  have wf: "bt_wf m" "\<forall>k \<in> fst ` set m. t < k" using assms by (simp_all add: map_above_def bt_wf_Cons)
  show "s < t" "t < hi" "td_liquidity_delta d = net_at ps t" using assms by (simp_all add: map_above_def)
  have keys: "u \<in> insert t (fst ` set m)" if "s < u" "u < hi" "gross_at ps u \<noteq> 0" for u
    using that assms by (simp add: map_above_def)
  have entries: "t' < hi \<and> td_liquidity_delta d' = net_at ps t'" if "(t', d') \<in> set m" for t' d'
    using that assms by (auto simp: map_above_def)
  have "t < t'" if "(t', d') \<in> set m" for t' d' using that wf(2) by force
  moreover have "u \<in> fst ` set m" if "t < u" "u < hi" "gross_at ps u \<noteq> 0" for u
    using keys [of u] that \<open>s < t\<close> by auto
  ultimately show "map_above ps t hi m" using wf(1) entries by (auto simp: map_above_def)
  show "gross_at ps u = 0" if "s < u" "u < t" for u
    using keys [of u] that wf(2) \<open>t < hi\<close> by (cases "gross_at ps u = 0") auto
qed

lemma add_net:
  assumes keys: "position_keys_ok ps" and gross: "\<And>s. gross_at ps s \<le> MAX_TICK_GROSS_LIQUIDITY"
    and s: "s < t" "\<And>u. s < u \<Longrightarrow> u < t \<Longrightarrow> gross_at ps u = 0"
  shows "uadd_signed 128 (active_at ps s) (net_at ps t) = Some (active_at ps t)"
proof -
  have "active_at ps s = active_at ps (t - 1)" using s by (intro active_at_const [OF keys]) auto
  then have "int (active_at ps t) = int (active_at ps s) + net_at ps t" using active_at_step [OF keys, of t] by simp
  moreover have "active_at ps t < 2 ^ 128" by (rule active_at_bound [OF keys gross])
  ultimately show ?thesis by simp
qed

lemma liquidity_loop:
  assumes keys: "position_keys_ok ps" and gross: "\<And>s. gross_at ps s \<le> MAX_TICK_GROSS_LIQUIDITY"
    and m: "map_above ps s hi m"
  shows "\<exists>l. foldM (\<lambda>(t, d) (l, acc).
         do { delta \<leftarrow> liquidity_delta_on_crossing_tick QuoteToBase d;
              l' \<leftarrow> uadd_signed 128 l delta;
              Some (l', acc @ [(t, l')]) }) m (active_at ps s, acc) = Some (l, acc @ map (\<lambda>(t, d). (t, active_at ps t)) m)"
  using m
proof (induction m arbitrary: s acc)
  case (Cons e m)
  obtain t d where e: "e = (t, d)" by (cases e)
  note A = map_above_Cons [OF Cons.prems [unfolded e]]
  show ?case
    using add_net [OF keys gross A(1,5)] Cons.IH [OF A(4), of "acc @ [(t, active_at ps t)]"]
    by (simp add: e A(3) del: uadd_signed_Some)
qed simp

lemma map_above_range:
  assumes inv: "ro_map_inv m ps" and lo: "\<And>u. u \<in> fst ` set m \<Longrightarrow> P u \<longleftrightarrow> s < u \<and> u < hi"
  shows "map_above ps s hi (filter (\<lambda>(k, v). P k) m)"
proof -
  note M = ro_map_invD [OF inv]
  have "s < t \<and> t < hi \<and> td_liquidity_delta d = net_at ps t" if "(t, d) \<in> set m" "P t" for t d
    using that lo [of t] M(8) [of t d] bt_get_mem [OF M(1), of t d] by force
  moreover have "u \<in> fst ` set (filter (\<lambda>(k, v). P k) m)" if "s < u" "u < hi" "gross_at ps u \<noteq> 0" for u
  proof -
    have "u \<in> fst ` set m" using M(7) [of u] that(3) by (auto simp: bt_get_None_iff)
    then show ?thesis using lo [of u] that by force
  qed
  ultimately show ?thesis using bt_wf_filter [OF M(1)] by (auto simp: map_above_def)
qed

lemma ro_liquidity_ok:
  assumes inv: "ro_inv st"
  shows "ro_liquidity st = Some (map (\<lambda>(t, d). (t, active_at (ro_positions st) t)) (ro_liquidity_map st))"
proof -
  note M = ro_map_invD [OF ro_invD(3) [OF inv]]
  have valid: "is_tick_valid u" if "u \<in> fst ` set (ro_liquidity_map st)" for u
    using that M(8) [of u] bt_get_mem [OF M(1), of u] by force
  have "map_above (ro_positions st) (MIN_TICK - 1) (MAX_TICK + 1) (filter (\<lambda>(k, v). is_tick_valid k) (ro_liquidity_map st))"
    by (rule map_above_range [OF ro_invD(3) [OF inv]]) (auto simp: is_tick_valid_def)
  moreover have "filter (\<lambda>(k, v). is_tick_valid k) (ro_liquidity_map st) = ro_liquidity_map st"
    using valid by (force simp: filter_id_conv)
  ultimately have above: "map_above (ro_positions st) (MIN_TICK - 1) (MAX_TICK + 1) (ro_liquidity_map st)" by simp
  show ?thesis
    using liquidity_loop [OF M(3,6) above, of "[]"] unfolding ro_liquidity_def active_at_outside(1) [OF M(3)] by auto
qed

section \<open>The depth between two ticks\<close>

lemma below_loop:
  assumes keys: "position_keys_ok ps" and gross: "\<And>s. gross_at ps s \<le> MAX_TICK_GROSS_LIQUIDITY"
    and m: "map_above ps s hi m" and hi: "s < hi"
  shows "foldM (\<lambda>(_, d) l. uadd_signed 128 l (td_liquidity_delta d)) m (active_at ps s) = Some (active_at ps (hi - 1))"
  using m hi
proof (induction m arbitrary: s)
  case Nil
  then show ?case using active_at_const [OF keys, of s "hi - 1"] by (force simp: map_above_def)
next
  case (Cons e m)
  obtain t d where e: "e = (t, d)" by (cases e)
  note A = map_above_Cons [OF Cons.prems(1) [unfolded e]]
  show ?case
    using add_net [OF keys gross A(1,5)] Cons.IH [OF A(4,2)] by (simp add: e A(3) del: uadd_signed_Some)
qed

lemma inner_amounts_bounded:
  assumes price: "ro_price_inv st" and v: "is_tick_valid lo" "is_tick_valid up" "lo \<le> up" and l: "l < 2 ^ 128"
  obtains am x where "inner_liquidity_to_amounts False st l lo up = Some (am, x)" "\<forall>side. pp_index am side \<le> 2 ^ 192"
proof (cases "lo = up")
  case True
  note T = tick_price_eq [OF v(2)] tick_price_valid [OF v(2)]
  obtain z n where zn: "zero_amount_delta_floor (tick_price up) (tick_price up) l = Some z" "z \<le> l * 2 ^ 64"
     "one_amount_delta_floor (tick_price up) (tick_price up) l = Some n" "n \<le> l * 2 ^ 64"
    using zero_delta_ok [OF T(2,2) order.refl l, of False] one_delta_ok [OF T(2,2) order.refl l, of False] by auto
  have "pp_index \<lparr>base = z, quote = 0\<rparr> side \<le> 2 ^ 192" "pp_index \<lparr>base = 0, quote = n\<rparr> side \<le> 2 ^ 192" for side
    using zn(2,4) l by (cases side; simp)+
  then show thesis
    using that zn(1,3) T(1) True
    by (cases "ro_tick st < lo") (simp_all add: inner_liquidity_to_amounts_def Let_def)
next
  case False
  have r: "range_ok lo up" using v False by (simp add: range_ok_def is_tick_valid_def)
  obtain am x where am: "inner_liquidity_to_amounts False st l lo up = Some (am, x)" "\<forall>side. pp_index am side \<le> l * 2 ^ 64"
    using inner_liquidity_to_amounts_ok [OF price r l, of False] by blast
  have "pp_index am side \<le> 2 ^ 192" for side using am(2) l order.trans [of "pp_index am side" "l * 2 ^ 64" "2 ^ 192"] by simp
  then show thesis using that am(1) by blast
qed

lemma pp_add_ok:
  assumes "\<And>side. pp_index m side + pp_index n side < 2 ^ 256"
  obtains r where "pp_add m n = Some r" "\<forall>side. pp_index r side = pp_index m side + pp_index n side"
proof -
  have "pp_add m n = Some \<lparr>base = base m + base n, quote = quote m + quote n\<rparr>"
    using assms [of Base] assms [of Quote] by (simp add: pp_add_def uadd_def)
  moreover have "pp_index \<lparr>base = base m + base n, quote = quote m + quote n\<rparr> side = pp_index m side + pp_index n side" for side
    by (cases side) simp_all
  ultimately show thesis using that by blast
qed

definition depth_step :: "'lp range_pool \<Rightarrow> tick \<times> int \<Rightarrow> liquidity \<times> tick \<times> amount pool_pairs_map \<Rightarrow>
    (liquidity \<times> tick \<times> amount pool_pairs_map) option" where
  "depth_step st = (\<lambda>(t, liquidity_delta) (l, previous_tick, assets).
     do { l' \<leftarrow> uadd_signed 128 l liquidity_delta;
          (amounts, _) \<leftarrow> inner_liquidity_to_amounts False st l previous_tick t;
          assets' \<leftarrow> pp_add assets amounts;
          Some (l', t, assets') })"

lemma depth_step_ok:
  assumes price: "ro_price_inv st" and v: "is_tick_valid prev" "is_tick_valid t" "prev \<le> t" and l: "l < 2 ^ 128"
    and l': "uadd_signed 128 l delta = Some l'" and small: "\<And>side. pp_index assets side + 2 ^ 192 < 2 ^ 256"
  obtains assets' where "depth_step st (t, delta) (l, prev, assets) = Some (l', t, assets')"
    "\<forall>side. pp_index assets' side \<le> pp_index assets side + 2 ^ 192"
proof -
  obtain am x where am: "inner_liquidity_to_amounts False st l prev t = Some (am, x)" "\<forall>side. pp_index am side \<le> 2 ^ 192"
    by (rule inner_amounts_bounded [OF price v l])
  have "pp_index assets side + pp_index am side < 2 ^ 256" for side using am(2) small [of side] by (metis add_le_cancel_left le_less_trans)
  then obtain r where r: "pp_add assets am = Some r" "\<forall>side. pp_index r side = pp_index assets side + pp_index am side"
    by (rule pp_add_ok)
  have "depth_step st (t, delta) (l, prev, assets) = Some (l', t, r)"
    unfolding depth_step_def prod.case l' am(1) r(1) bind.bind_lunit by simp
  moreover have "pp_index r side \<le> pp_index assets side + 2 ^ 192" for side using r(2) am(2) by simp
  ultimately show thesis using that by blast
qed

lemma depth_loop:
  assumes price: "ro_price_inv st"
    and keys: "position_keys_ok ps" and gross: "\<And>s. gross_at ps s \<le> MAX_TICK_GROSS_LIQUIDITY"
    and m: "map_above ps s hi m" and prev: "is_tick_valid prev" "prev \<le> s + 1" "prev \<le> hi" and hi: "is_tick_valid hi"
    and small: "\<And>side. pp_index assets side + (length m + 1) * 2 ^ 192 < 2 ^ 256"
  shows "\<exists>r. foldM (depth_step st) (map (\<lambda>(t, d). (t, td_liquidity_delta d)) m @ [(hi, 0)]) (active_at ps s, prev, assets) = Some r"
  using m prev small
proof (induction m arbitrary: s prev assets)
  case Nil
  have l: "active_at ps s < 2 ^ 128" by (rule active_at_bound [OF keys gross])
  have z: "uadd_signed 128 (active_at ps s) 0 = Some (active_at ps s)" using l by simp
  have lim: "pp_index assets side + 2 ^ 192 < 2 ^ 256" for side using Nil.prems(5) [of side] by simp
  obtain assets' where "depth_step st (hi, 0) (active_at ps s, prev, assets) = Some (active_at ps s, hi, assets')"
    using depth_step_ok [OF price Nil.prems(2) hi Nil.prems(4) l z lim] by blast
  then show ?case by simp
next
  case (Cons e m)
  obtain t d where e: "e = (t, d)" by (cases e)
  note A = map_above_Cons [OF Cons.prems(1) [unfolded e]]
  have l: "active_at ps s < 2 ^ 128" by (rule active_at_bound [OF keys gross])
  have t: "is_tick_valid t" "prev \<le> t" using Cons.prems(2,3) A(1,2) hi by (auto simp: is_tick_valid_def)
  have lim: "pp_index assets side + 2 ^ 192 < 2 ^ 256" for side using Cons.prems(5) [of side] by simp
  obtain assets' where step: "depth_step st (t, net_at ps t) (active_at ps s, prev, assets) = Some (active_at ps t, t, assets')"
    "\<forall>side. pp_index assets' side \<le> pp_index assets side + 2 ^ 192"
    using depth_step_ok [OF price Cons.prems(2) t l add_net [OF keys gross A(1,5)] lim] by blast
  have "pp_index assets' side + (length m + 1) * 2 ^ 192 < 2 ^ 256" for side
    using spec [OF step(2), of side] Cons.prems(5) [of side] by simp
  from Cons.IH [OF A(4) t(1) _ _ this] show ?case using A(2) step(1) by (simp add: e A(3))
qed

lemma map_length_bound:
  assumes "bt_wf m" "\<And>t. t \<in> fst ` set m \<Longrightarrow> is_tick_valid t"
  shows "length m \<le> 2 ^ 21"
proof -
  have "length m = card (fst ` set m)" using bt_wf_distinct [OF assms(1)] by (metis distinct_card length_map set_map)
  also have "\<dots> \<le> card {MIN_TICK..MAX_TICK}" using assms(2) by (intro card_mono) (force simp: is_tick_valid_def)+
  also have "\<dots> \<le> 2 ^ 21" by (simp add: MIN_TICK_def MAX_TICK_def)
  finally show ?thesis .
qed

lemma ro_depth_ok:
  assumes inv: "ro_inv st"
  shows "ro_depth lo up st \<noteq> None"
proof (cases "is_tick_valid lo \<and> is_tick_valid up \<and> lo \<le> up")
  case True
  note I = ro_invD [OF inv] and M = ro_map_invD [OF ro_invD(3) [OF inv]]
  have valid: "is_tick_valid u" if "u \<in> fst ` set (ro_liquidity_map st)" for u
    using that M(8) [of u] bt_get_mem [OF M(1), of u] by force
  have below: "map_above (ro_positions st) (MIN_TICK - 1) lo (bt_below lo (ro_liquidity_map st))"
    unfolding bt_below_def using valid by (intro map_above_range [OF I(3)]) (force simp: is_tick_valid_def)
  have range: "map_above (ro_positions st) (lo - 1) up (bt_range lo up (ro_liquidity_map st))"
    unfolding bt_range_def by (intro map_above_range [OF I(3)]) auto
  have "foldM (\<lambda>(_, d) l. uadd_signed 128 l (td_liquidity_delta d)) (bt_below lo (ro_liquidity_map st)) 0 =
      Some (active_at (ro_positions st) (lo - 1))"
    using below_loop [OF M(3,6) below] True by (simp add: active_at_outside(1) [OF M(3)] is_tick_valid_def)
  moreover have "length (bt_range lo up (ro_liquidity_map st)) \<le> 2 ^ 21"
    by (intro map_length_bound bt_wf_range M(1)) (auto simp: bt_range_def intro: valid)
  then have "pp_index pp_zero side + (length (bt_range lo up (ro_liquidity_map st)) + 1) * 2 ^ 192 < 2 ^ 256" for side
    by (cases side) simp_all
  then have "\<exists>r. foldM (depth_step st) (map (\<lambda>(t, d). (t, td_liquidity_delta d)) (bt_range lo up (ro_liquidity_map st)) @ [(up, 0)])
      (active_at (ro_positions st) (lo - 1), lo, pp_zero) = Some r"
    using True by (intro depth_loop [OF I(2) M(3,6) range]) auto
  ultimately show ?thesis using True by (auto simp: ro_depth_def depth_step_def [symmetric])
qed (auto simp: ro_depth_def)

section \<open>A mint by amounts debits at most the maximum\<close>

lemma zero_within:
  assumes "zero_amount_to_liquidity p q am = Some z" "l \<le> z" "zero_amount_delta_ceil p q l = Some a"
  shows "a \<le> base am"
proof -
  have pq: "p < q" and z: "z = usat_mul 512 (base am) (p * q) div (q - p) div 2 ^ 96"
    using assms(1) by (auto simp: zero_amount_to_liquidity_def ushr_eq SQRT_PRICE_FRACTIONAL_BITS_def split: bind_splits)
  have a: "0 < p" "a = div_ceil (ushl 256 l 96 * (q - p)) (q * p)"
    using assms(3) by (auto simp: zero_amount_delta_ceil_def SQRT_PRICE_FRACTIONAL_BITS_def split: bind_splits)
  have "ushl 256 l 96 \<le> l * 2 ^ 96" by (simp add: ushl_eq mod_less_eq_dividend)
  then have "ushl 256 l 96 * (q - p) \<le> l * 2 ^ 96 * (q - p)" by (rule mult_le_mono1)
  also have "\<dots> \<le> z * 2 ^ 96 * (q - p)" using assms(2) by simp
  also have "\<dots> \<le> usat_mul 512 (base am) (p * q) div (q - p) * (q - p)" unfolding z by (intro mult_le_mono1) simp
  also have "\<dots> \<le> usat_mul 512 (base am) (p * q)" by simp
  also have "\<dots> \<le> base am * (q * p)" by (simp add: usat_mul_def mult.commute)
  finally show ?thesis unfolding a(2) using a(1) pq by (simp add: div_ceil_le_iff)
qed

lemma one_within:
  assumes "one_amount_to_liquidity p q am = Some z" "l \<le> z" "one_amount_delta_ceil p q l = Some a"
  shows "a \<le> quote am"
proof -
  have pq: "p < q" and z: "z = quote am * 2 ^ 96 div (q - p)"
    using assms(1) by (auto simp: one_amount_to_liquidity_def ushl_exact SQRT_PRICE_FRACTIONAL_BITS_def split: bind_splits)
  have a: "a = div_ceil (l * (q - p)) (2 ^ 96)"
    using assms(3) by (auto simp: one_amount_delta_ceil_def ushl_exact SQRT_PRICE_FRACTIONAL_BITS_def split: bind_splits)
  have "l * (q - p) \<le> z * (q - p)" using assms(2) by simp
  also have "\<dots> \<le> quote am * 2 ^ 96" unfolding z by simp
  finally show ?thesis unfolding a by (simp add: div_ceil_le_iff)
qed

lemma no_amount:
  "zero_amount_delta_ceil p p l = Some a \<Longrightarrow> a = 0" "one_amount_delta_ceil p p l = Some b \<Longrightarrow> b = 0"
  by (auto simp: zero_amount_delta_ceil_def one_amount_delta_ceil_def div_ceil_def split: bind_splits)

lemma amounts_within:
  assumes price: "ro_price_inv st" and r: "range_ok lo up"
    and l: "inner_amounts_to_liquidity st lo up maximum = Some l" and am: "inner_liquidity_to_amounts True st l lo up = Some (am, x)"
  shows "base am \<le> base maximum \<and> quote am \<le> quote maximum"
proof -
  note V = range_okD [OF r] and C = ro_clamp [OF price r]
  note T = tick_price_eq [OF V(1)] tick_price_eq [OF V(2)]
  have lt: "tick_price lo < tick_price up" using tick_price_strict [OF V(1,2)] V(3) .
  have cap: "(case uconv 128 z of Some l' \<Rightarrow> min l' MAX_TICK_GROSS_LIQUIDITY | None \<Rightarrow> MAX_TICK_GROSS_LIQUIDITY) \<le> z" for z
    using gross_max(2) by (simp add: uconv_def)
  define raw where "raw = (if ro_sqrt_price st \<le> tick_price lo then zero_amount_to_liquidity (tick_price lo) (tick_price up) maximum
      else if ro_sqrt_price st < tick_price up
      then do { z \<leftarrow> zero_amount_to_liquidity (ro_sqrt_price st) (tick_price up) maximum;
                n \<leftarrow> one_amount_to_liquidity (tick_price lo) (ro_sqrt_price st) maximum;
                Some (min z n) }
      else one_amount_to_liquidity (tick_price lo) (tick_price up) maximum)"
  have "do { z \<leftarrow> raw; Some (case uconv 128 z of Some l' \<Rightarrow> min l' MAX_TICK_GROSS_LIQUIDITY | None \<Rightarrow> MAX_TICK_GROSS_LIQUIDITY) } = Some l"
    using l unfolding inner_amounts_to_liquidity_def T raw_def by simp
  then obtain z where z: "raw = Some z" "l \<le> z" using cap by (cases raw) auto
  consider "ro_tick st < lo" | "lo \<le> ro_tick st" "ro_tick st < up" | "up \<le> ro_tick st" by linarith
  then show ?thesis
  proof cases
    case 1
    then have "ro_sqrt_price st \<le> tick_price lo" using C(1) lt by (simp add: clamp_def max_def min_def split: if_splits)
    then show ?thesis using z [unfolded raw_def] am 1 T zero_within [of "tick_price lo" "tick_price up" maximum z l]
      by (auto simp: inner_liquidity_to_amounts_def split: bind_splits)
  next
    case 2
    note P = C(2) [OF 2]
    obtain a b where ab: "zero_amount_delta_ceil (ro_sqrt_price st) (tick_price up) l = Some a"
      "one_amount_delta_ceil (tick_price lo) (ro_sqrt_price st) l = Some b" "am = \<lparr>base = a, quote = b\<rparr>"
      using am 2 T by (auto simp: inner_liquidity_to_amounts_def split: bind_splits)
    consider "ro_sqrt_price st = tick_price lo" | "ro_sqrt_price st = tick_price up"
      | "tick_price lo < ro_sqrt_price st" "ro_sqrt_price st < tick_price up" using P by linarith
    then show ?thesis
    proof cases
      case 1
      then show ?thesis using z [unfolded raw_def] ab zero_within [of "tick_price lo" "tick_price up" maximum z l a] by (auto dest: no_amount)
    next
      case 2
      then show ?thesis using z [unfolded raw_def] ab lt one_within [of "tick_price lo" "tick_price up" maximum z l b] by (auto dest: no_amount)
    next
      case 3
      then obtain x y where "zero_amount_to_liquidity (ro_sqrt_price st) (tick_price up) maximum = Some x"
        "one_amount_to_liquidity (tick_price lo) (ro_sqrt_price st) maximum = Some y" "l \<le> x" "l \<le> y"
        using z by (auto simp: raw_def split: bind_splits)
      then show ?thesis using zero_within [OF _ _ ab(1)] one_within [OF _ _ ab(2)] ab(3) by simp
    qed
  next
    case 3
    then have "tick_price up \<le> ro_sqrt_price st" using C(3) lt by (simp add: clamp_def max_def min_def split: if_splits)
    then show ?thesis using z [unfolded raw_def] am 3 T V(3) lt one_within [of "tick_price lo" "tick_price up" maximum z l]
      by (auto simp: inner_liquidity_to_amounts_def split: bind_splits)
  qed
qed

lemma ro_collect_and_mint_amounts:
  assumes "ro_collect_and_mint lp lo up sz try_debit st = Some (Inr (t, m, c, i, st'))"
  obtains am x where "size_as_liquidity st lo up sz = Some (Some m)" "inner_liquidity_to_amounts True st m lo up = Some (am, x)"
    "try_debit am = Inr t" "range_ok lo up"
proof -
  have r: "range_ok lo up" using assms by (auto simp: ro_collect_and_mint_def split: if_splits)
  obtain m' p where m': "size_as_liquidity st lo up sz = Some (Some m')"
    and into: "ro_mint_into st lp lo up m' p try_debit = Some (Inr (t, m, c, i, st'))"
    using assms r by (auto simp: ro_collect_and_mint_def Let_def split: bind_splits option.splits if_splits)
  have "\<exists>am x. inner_liquidity_to_amounts True st m' lo up = Some (am, x) \<and> try_debit am = Inr t \<and> m = m'"
    using into by (auto simp: ro_mint_into_def Let_def split: bind_splits sum.splits)
  then show thesis using that m' r by blast
qed

lemma minted_no_underflow:
  assumes inv: "ro_inv st" and run: "ro_collect_and_mint lp lo up sz try_debit st = Some (Inr r)"
  shows "\<not> mint_underflows lp lo up st"
proof
  assume "mint_underflows lp lo up st"
  from ro_mint_into_underflow [OF inv this, of _ _ try_debit] run show False
    by (auto simp: ro_collect_and_mint_def Let_def split: bind_splits option.splits if_splits)
qed

section \<open>The range order pool as a transition system\<close>

text \<open>What was paid into the pool and out of it, per asset.\<close>

record ro_flows =
  rf_in :: "pairs \<Rightarrow> nat"
  rf_out :: "pairs \<Rightarrow> nat"

definition ro_no_flows :: ro_flows where
  "ro_no_flows = \<lparr>rf_in = \<lambda>_. 0, rf_out = \<lambda>_. 0\<rparr>"

definition ro_flow :: "(pairs \<Rightarrow> nat) \<Rightarrow> (pairs \<Rightarrow> nat) \<Rightarrow> ro_flows \<Rightarrow> ro_flows" where
  "ro_flow i x fl = \<lparr>rf_in = \<lambda>side. rf_in fl side + i side, rf_out = \<lambda>side. rf_out fl side + x side\<rparr>"

definition one_side :: "pairs \<Rightarrow> nat \<Rightarrow> pairs \<Rightarrow> nat" where
  "one_side side x side' = (if side' = side then x else 0)"

text \<open>
  A step is one successful call of a method that changes the state. The callback of a mint is any
  function that hands back the amounts it debited.
\<close>

inductive ro_step :: "'lp::linorder range_pool \<Rightarrow> ro_flows \<Rightarrow> 'lp range_pool \<Rightarrow> ro_flows \<Rightarrow> bool" where
  ro_step_collect:
    "(ro_collect lp lo up st :: (unit ro_position_error + _) option) = Some (Inr (c, i, st')) \<Longrightarrow>
     ro_step st fl st' (ro_flow (\<lambda>_. 0) (pp_index (rc_fees c)) fl)"
| ro_step_mint:
    "(\<And>am am'. (try_debit am :: unit + _) = Inr am' \<Longrightarrow> am' = am) \<Longrightarrow>
     ro_collect_and_mint lp lo up sz try_debit st = Some (Inr (am, m, c, i, st')) \<Longrightarrow>
     ro_step st fl st' (ro_flow (pp_index am) (pp_index (rc_fees c)) fl)"
| ro_step_burn:
    "ro_collect_and_burn lp lo up sz st = Some (Inr (am, b, c, i, st')) \<Longrightarrow>
     ro_step st fl st' (ro_flow (\<lambda>_. 0) (\<lambda>side. pp_index am side + pp_index (rc_fees c) side) fl)"
| ro_step_swap:
    "a < 2 ^ 256 \<Longrightarrow> ro_swap sd a limit st = Some (out, a', st') \<Longrightarrow>
     ro_step st fl st' (ro_flow (one_side (input_side sd) (a - a')) (one_side (not_pair (input_side sd)) out) fl)"
| ro_step_collect_all:
    "ro_collect_all st = Some (xs, st') \<Longrightarrow> ro_step st fl st' (ro_flow (\<lambda>_. 0) (ro_paid_list xs) fl)"
| ro_step_set_fees:
    "ro_set_fees fee st = Inr st' \<Longrightarrow> ro_step st fl st' fl"

inductive ro_reachable :: "'lp::linorder range_pool \<Rightarrow> ro_flows \<Rightarrow> bool" where
  ro_reach_new: "ro_new fee p = Some (Inr st) \<Longrightarrow> ro_reachable st ro_no_flows"
| ro_reach_step: "ro_reachable st fl \<Longrightarrow> ro_step st fl st' fl' \<Longrightarrow> ro_reachable st' fl'"

definition ro_ledger_inv :: "'lp::linorder range_pool \<Rightarrow> ro_flows \<Rightarrow> bool" where
  "ro_ledger_inv st fl \<longleftrightarrow> ro_inv st \<and> (\<forall>side. real (rf_out fl side) + ro_worth st side \<le> real (rf_in fl side))"

lemma ro_ledger_effect:
  assumes inv: "ro_ledger_inv st fl" and eff: "ro_effect i x st st'"
  shows "ro_ledger_inv st' (ro_flow i x fl)"
proof -
  have "real (rf_out (ro_flow i x fl) side) + ro_worth st' side \<le> real (rf_in (ro_flow i x fl) side)" for side
  proof -
    have "real (rf_out fl side) + ro_worth st side \<le> real (rf_in fl side)" using inv by (simp add: ro_ledger_inv_def)
    then show ?thesis using ro_effectD(2) [OF eff, of side] by (simp add: ro_flow_def)
  qed
  then show ?thesis using ro_effectD(1) [OF eff] by (simp add: ro_ledger_inv_def)
qed

lemma ro_flow_none: "ro_flow (\<lambda>_. 0) (\<lambda>_. 0) fl = fl"
  by (simp add: ro_flow_def)

lemma ro_swap_effect:
  assumes "ro_swap_post sd limit st a st' a' out"
  shows "ro_effect (one_side (input_side sd) (a - a')) (one_side (not_pair (input_side sd)) out) st st'"
  using assms by (cases sd) (auto simp: ro_swap_post_def ro_effect_def all_pairs one_side_def of_nat_diff)

lemma ro_step_ledger:
  fixes st :: "'lp::linorder range_pool"
  assumes "ro_step st fl st' fl'" and inv: "ro_ledger_inv st fl"
  shows "ro_ledger_inv st' fl'"
proof -
  have I: "ro_inv st" using inv by (simp add: ro_ledger_inv_def)
  from assms(1) show ?thesis
  proof cases
    case (ro_step_collect lp lo up c i)
    have r: "range_ok lo up" "bt_get (ro_positions st) (lp, lo, up) \<noteq> None"
      using ro_step_collect(2) by (auto simp: ro_collect_def split: if_splits option.splits)
    then obtain p where "bt_get (ro_positions st) (lp, lo, up) = Some p" by blast
    from ro_collect_ok [OF I r(1) this, where ?'e = unit] have "ro_effect (\<lambda>_. 0) (pp_index (rc_fees c)) st st'"
      using ro_step_collect(2) by auto
    then show ?thesis unfolding ro_step_collect(1) by (rule ro_ledger_effect [OF inv])
  next
    case (ro_step_mint td lp lo up sz am m c i)
    from ro_collect_and_mint_ok [OF I minted_no_underflow [OF I ro_step_mint(3)], of sz td] ro_step_mint(2,3) have "ro_effect (pp_index am) (pp_index (rc_fees c)) st st'"
      by fastforce
    then show ?thesis unfolding ro_step_mint(1) by (rule ro_ledger_effect [OF inv])
  next
    case (ro_step_burn lp lo up sz am b c i)
    from ro_collect_and_burn_ok [OF I, of lp lo up sz] ro_step_burn(2)
    have "ro_effect (\<lambda>_. 0) (\<lambda>side. pp_index am side + pp_index (rc_fees c) side) st st'" by auto
    then show ?thesis unfolding ro_step_burn(1) by (rule ro_ledger_effect [OF inv])
  next
    case (ro_step_swap a sd limit out a')
    from ro_swap_ok [OF I ro_step_swap(2), of sd limit] ro_step_swap(3) have "ro_swap_post sd limit st a st' a' out" by auto
    then show ?thesis unfolding ro_step_swap(1) by (intro ro_ledger_effect [OF inv] ro_swap_effect)
  next
    case (ro_step_collect_all xs)
    from ro_collect_all_ok [OF I] ro_step_collect_all(2) have "ro_effect (\<lambda>_. 0) (ro_paid_list xs) st st'" by auto
    then show ?thesis unfolding ro_step_collect_all(1) by (rule ro_ledger_effect [OF inv])
  next
    case (ro_step_set_fees fee)
    from ro_ledger_effect [OF inv ro_set_fees_ok [OF I ro_step_set_fees(2)]] show ?thesis
      by (simp add: ro_step_set_fees(1) ro_flow_none)
  qed
qed

lemma ro_reachable_ledger: "ro_reachable st fl \<Longrightarrow> ro_ledger_inv st fl"
proof (induction rule: ro_reachable.induct)
  case (ro_reach_new fee p st)
  then show ?case using ro_new_inv [OF ro_reach_new] by (simp add: ro_ledger_inv_def ro_no_flows_def)
qed (rule ro_step_ledger)

lemma ro_reachable_inv: "ro_reachable st fl \<Longrightarrow> ro_inv st"
  using ro_reachable_ledger ro_ledger_inv_def by blast

lemma ro_worth_nonneg:
  assumes inv: "ro_inv st"
  shows "0 \<le> ro_worth st side"
proof -
  note M = ro_map_invD [OF ro_invD(3) [OF inv]] and G = ro_growth_invD(3) [OF ro_invD(5) [OF inv]]
  have "0 \<le> position_worth st lo up (Some p) side" if "((lp, lo, up), p) \<in> set (ro_positions st)" for lp lo up p
  proof -
    have get: "bt_get (ro_positions st) (lp, lo, up) = Some p" using that bt_get_mem [OF M(2)] by blast
    note K = position_keysD [OF M(3,2) get]
    have "0 \<le> real_of_int (ro_inside st lo up side - int (pp_index (rp_last_fee_growth_inside p) side))" using G [OF get, of side] by simp
    then have "0 \<le> ro_earned st side lo up p" unfolding ro_earned_def by (intro divide_nonneg_pos mult_nonneg_nonneg) simp_all
    then show ?thesis using position_value_nonneg [OF K(5,6,1)] by (simp add: position_worth_Some)
  qed
  then show ?thesis unfolding ro_worth_eq by (intro bt_sum_nonneg) auto
qed

section \<open>A run of three calls\<close>

definition ro_ex_tick :: "int \<Rightarrow> nat \<Rightarrow> tick_delta" where
  "ro_ex_tick x g = \<lparr>td_liquidity_delta = x, td_liquidity_gross = g, td_fee_growth_outside = pp_zero\<rparr>"

definition ro_ex_pool :: "nat \<Rightarrow> nat \<Rightarrow> nat \<Rightarrow> liquidity_map \<Rightarrow> nat ro_positions_map \<Rightarrow> nat range_pool" where
  "ro_ex_pool l g f m ps = \<lparr>ro_fee_hundredth_pips = 1, ro_sqrt_price = 2 ^ 96, ro_tick = 0, ro_current_liquidity = l,
     ro_global_fee_growth = \<lparr>base = 0, quote = g\<rparr>, ro_liquidity_map = m, ro_positions = ps,
     ro_total_fees_earned = \<lparr>base = 0, quote = f\<rparr>, ro_total_swap_inputs = pp_zero, ro_total_swap_outputs = pp_zero\<rparr>"

definition ro_ex_ps :: "nat ro_positions_map" where
  "ro_ex_ps = [((1, 0, MAX_TICK), \<lparr>rp_liquidity = 1, rp_last_fee_growth_inside = pp_zero,
     rp_accumulative_fees = pp_zero, rp_original_sqrt_price = 2 ^ 96\<rparr>)]"

definition ro_ex_map :: liquidity_map where
  "ro_ex_map = [(MIN_TICK, ro_ex_tick 0 0), (0, ro_ex_tick 1 1), (MAX_TICK, ro_ex_tick (- 1) 1)]"

definition ro_ex0 :: "nat range_pool" where
  "ro_ex0 = ro_ex_pool 0 0 0 [(MIN_TICK, ro_ex_tick 0 0), (MAX_TICK, ro_ex_tick 0 0)] []"

definition ro_ex1 :: "nat range_pool" where
  "ro_ex1 = ro_ex_pool 1 0 0 ro_ex_map ro_ex_ps"

definition ro_ex2 :: "nat range_pool" where
  "ro_ex2 = ro_ex_pool 1 (2 ^ 128) 1 ro_ex_map ro_ex_ps"

lemmas ro_ex_defs = ro_ex0_def ro_ex1_def ro_ex2_def ro_ex_pool_def ro_ex_ps_def ro_ex_map_def ro_ex_tick_def

lemma ro_ex_price: "sqrt_price_at_tick 0 = Some (2 ^ 96)" "is_tick_valid 0" "is_sqrt_price_valid (2 ^ 96)" "tick_at_sqrt_price (2 ^ 96) = Some 0"
proof -
  show p: "sqrt_price_at_tick 0 = Some (2 ^ 96)" and v: "is_tick_valid 0" "is_sqrt_price_valid (2 ^ 96)"
    by (simp_all add: sqrt_price_at_tick_def is_tick_valid_def MIN_TICK_def MAX_TICK_def tick_bit_constants_def handle_tick_bit_def
        is_sqrt_price_valid_def MIN_SQRT_PRICE_def MAX_SQRT_PRICE_def checked_simps)
  show "tick_at_sqrt_price (2 ^ 96) = Some 0" using tick_at_sqrt_price_at_tick [OF v(1)] p by auto
qed

lemma ro_ex_new: "ro_new 1 (2 ^ 96) = Some (Inr ro_ex0)"
  using ro_ex_price by (simp add: ro_new_ok ro_validate_fees_def MAX_LP_FEE_def ONE_IN_HUNDREDTH_PIPS_def ro_ex_defs empty_tick_delta_def)

lemmas ro_ex_eval = ro_ex_defs MAX_TICK_def MIN_TICK_def MAX_SQRT_PRICE_def MAX_TICK_GROSS_LIQUIDITY_def SQRT_PRICE_FRACTIONAL_BITS_def
  pp_map_with_pairM_def pp_map_with_pair_def mul_div_floor_def mul_div_ceil_def mul_div_def umax_def usat_add_def Let_def checked_simps

lemma ro_ex_mint:
  "ro_collect_and_mint 1 0 MAX_TICK (SizeLiquidity 1) Inr ro_ex0 =
     Some (Inr (\<lparr>base = 1, quote = 0\<rparr>, 1, \<lparr>rc_fees = pp_zero, rc_accumulative_fees = pp_zero, rc_original_sqrt_price = 2 ^ 96\<rparr>,
       \<lparr>rpi_liquidity = 1\<rparr>, ro_ex1))"
  using ro_ex_price sqrt_price_at_max_tick
  by (simp add: ro_collect_and_mint_def range_ok_def size_as_liquidity_def List.map_filter_def ro_mint_into_def
      tick_delta_with_updated_gross_liquidity_def set_liquidity_def ro_collect_fees_def fee_growth_inside_def
      inner_liquidity_to_amounts_def zero_amount_delta_ceil_def one_amount_delta_ceil_def ro_info_def ro_ex_eval)

lemma ro_ex_mint_amount:
  "ro_collect_and_mint 1 0 MAX_TICK (SizeAmount \<lparr>base = 1, quote = 0\<rparr> \<lparr>base = 0, quote = 0\<rparr>) Inr ro_ex0 =
     Some (Inr (\<lparr>base = 1, quote = 0\<rparr>, 1, \<lparr>rc_fees = pp_zero, rc_accumulative_fees = pp_zero, rc_original_sqrt_price = 2 ^ 96\<rparr>,
       \<lparr>rpi_liquidity = 1\<rparr>, ro_ex1))"
  using ro_ex_price sqrt_price_at_max_tick
  by (simp add: ro_collect_and_mint_def range_ok_def size_as_liquidity_def List.map_filter_def ro_mint_into_def
      tick_delta_with_updated_gross_liquidity_def set_liquidity_def ro_collect_fees_def fee_growth_inside_def
      inner_amounts_to_liquidity_def zero_amount_to_liquidity_def
      inner_liquidity_to_amounts_def zero_amount_delta_ceil_def one_amount_delta_ceil_def
      zero_amount_delta_floor_def one_amount_delta_floor_def ro_info_def usat_mul_def ro_ex_eval)

lemma ro_ex_swap: "ro_swap QuoteToBase 1 None ro_ex1 = Some (0, 0, ro_ex2)"
  using ro_ex_price sqrt_price_at_max_tick
  by (simp add: ro_swap_def ro_swap_loop.simps ro_swap_entry_def bt_from_def bt_first_def ro_swap_step_def ro_swap_target_def
      ro_swap_segment_def ro_swap_amounts_def one_amount_delta_ceil_def zero_amount_delta_floor_def ro_swap_move_def
      ONE_IN_HUNDREDTH_PIPS_def ro_ex_eval)

lemma ro_ex_reachable:
  "ro_reachable ro_ex0 ro_no_flows" "ro_reachable ro_ex1 (ro_flow (one_side Base 1) (\<lambda>_. 0) ro_no_flows)"
  "ro_reachable ro_ex2 (ro_flow (one_side Quote 1) (\<lambda>_. 0) (ro_flow (one_side Base 1) (\<lambda>_. 0) ro_no_flows))"
proof -
  have index: "pp_index m side = (if side = Base then base m else quote m)" for side and m :: "nat pool_pairs_map" by (cases side) simp_all
  have sides: "pp_index \<lparr>base = Suc 0, quote = 0\<rparr> = one_side Base (Suc 0)" "pp_index pp_zero = (\<lambda>_. 0)" "one_side side 0 = (\<lambda>_. 0)" for side
    by (simp_all add: fun_eq_iff one_side_def index)
  show 0: "ro_reachable ro_ex0 ro_no_flows" using ro_ex_new by (rule ro_reach_new)
  show 1: "ro_reachable ro_ex1 (ro_flow (one_side Base 1) (\<lambda>_. 0) ro_no_flows)"
    using ro_reach_step [OF 0 ro_step_mint [OF _ ro_ex_mint]] by (simp add: sides)
  show "ro_reachable ro_ex2 (ro_flow (one_side Quote 1) (\<lambda>_. 0) (ro_flow (one_side Base 1) (\<lambda>_. 0) ro_no_flows))"
    using ro_reach_step [OF 1 ro_step_swap [OF _ ro_ex_swap]] by (simp add: sides)
qed

section \<open>Properties\<close>

text \<open>
  C10. Solvency of the range orders: in every state that calls of the pool can reach, and for
  each of the two assets, what was paid out to providers and swappers together with what the positions
  are still owed, principal and fees, is not more than what was paid in.
\<close>

theorem range_pool_solvent:
  assumes "ro_reachable st fl"
  shows "real (rf_out fl side) + ro_worth st side \<le> real (rf_in fl side) \<and> 0 \<le> ro_worth st side \<and> rf_out fl side \<le> rf_in fl side"
proof -
  have "real (rf_out fl side) + ro_worth st side \<le> real (rf_in fl side)"
    using ro_reachable_ledger [OF assms] by (simp add: ro_ledger_inv_def)
  then show ?thesis using ro_worth_nonneg [OF ro_reachable_inv [OF assms], of side] by simp
qed

theorem range_pool_solvent_witness:
  "ro_worth ro_ex2 Quote \<le> 1 \<and> 0 \<le> ro_worth ro_ex2 Quote"
  using range_pool_solvent [OF ro_ex_reachable(3), of Quote] by (simp add: ro_flow_def ro_no_flows_def one_side_def)

text \<open>
  C12. The state of a reachable pool is consistent: the current liquidity is the sum of the positions whose
  range contains the current tick, every tick of the map carries the gross and the net liquidity of the positions that
  start or end there, \<open>MIN_TICK\<close> and \<open>MAX_TICK\<close> are in the map, every tick with a position is in it, and
  the current price lies between the current tick and the next one.
\<close>

theorem range_pool_invariant:
  assumes "ro_reachable st fl"
  shows "ro_current_liquidity st = active_at (ro_positions st) (ro_tick st) \<and> ro_current_liquidity st < 2 ^ 128 \<and>
    (\<forall>t d. bt_get (ro_liquidity_map st) t = Some d \<longrightarrow>
       td_liquidity_gross d = gross_at (ro_positions st) t \<and> td_liquidity_delta d = net_at (ro_positions st) t) \<and>
    (\<forall>t. gross_at (ro_positions st) t \<noteq> 0 \<or> t = MIN_TICK \<or> t = MAX_TICK \<longrightarrow> bt_get (ro_liquidity_map st) t \<noteq> None) \<and>
    is_sqrt_price_valid (ro_sqrt_price st) \<and>
    (MIN_TICK \<le> ro_tick st \<longrightarrow> tick_price (ro_tick st) \<le> ro_sqrt_price st) \<and>
    (ro_tick st < MAX_TICK \<longrightarrow> ro_sqrt_price st \<le> tick_price (ro_tick st + 1))"
proof -
  note inv = ro_reachable_inv [OF assms]
  note I = ro_invD [OF inv] and M = ro_map_invD [OF ro_invD(3) [OF inv]]
  have "bt_get (ro_liquidity_map st) t \<noteq> None" if "gross_at (ro_positions st) t \<noteq> 0 \<or> t = MIN_TICK \<or> t = MAX_TICK" for t
    using that M(4,5) M(7) [of t] by metis
  moreover have "td_liquidity_gross d = gross_at (ro_positions st) t \<and> td_liquidity_delta d = net_at (ro_positions st) t"
    if "bt_get (ro_liquidity_map st) t = Some d" for t d using M(8) [OF that] by simp
  ultimately show ?thesis using I(2,4) ro_current_liquidity_bound [OF inv] by (simp add: ro_price_inv_def)
qed

theorem range_pool_invariant_witness:
  "ro_current_liquidity ro_ex2 = active_at ro_ex_ps 0 \<and> tick_price 0 \<le> 2 ^ 96"
  using range_pool_invariant [OF ro_ex_reachable(3)] by (simp add: ro_ex2_def ro_ex_pool_def MIN_TICK_def)

text \<open>
  C11. A swap against the range orders always returns, without a panic, and stops only for one of three
  reasons: the input is used up, the price limit is reached, or there is no tick left in its direction. It leaves the
  positions alone.
\<close>

theorem range_swap_returns:
  fixes st :: "'lp::linorder range_pool"
  assumes "ro_reachable st fl" "a < 2 ^ 256"
  shows "\<exists>out a' (st' :: 'lp range_pool). ro_swap sd a limit st = Some (out, a', st') \<and> a' \<le> a \<and>
    ro_positions st' = ro_positions st \<and>
    (a' = 0 \<or> (\<exists>l. limit = Some l \<and> \<not> sqrt_price_op_more_than sd l (ro_sqrt_price st')) \<or> ro_current_sqrt_price sd st' = None)"
proof -
  obtain out a' and st' :: "'lp range_pool" where run: "ro_swap sd a limit st = Some (out, a', st')"
    "ro_swap_post sd limit st a st' a' out" "ro_swap_entry sd limit st' a' = Some None"
    using ro_swap_ok [OF ro_reachable_inv [OF assms(1)] assms(2), of sd limit] by blast
  have "a' = 0 \<or> (\<exists>l. limit = Some l \<and> \<not> sqrt_price_op_more_than sd l (ro_sqrt_price st')) \<or> ro_current_sqrt_price sd st' = None"
    using run(3) by (cases sd) (auto simp: ro_swap_entry_def ro_current_sqrt_price_def split: if_splits option.splits bind_splits)
  then show ?thesis using run(1,2) by (auto simp: ro_swap_post_def)
qed

theorem range_swap_returns_witness:
  "\<exists>out a' (st' :: nat range_pool). ro_swap BaseToQuote 1000 (Some (2 ^ 90)) ro_ex2 = Some (out, a', st') \<and> a' \<le> 1000"
  using range_swap_returns [OF ro_ex_reachable(3), of 1000 BaseToQuote "Some (2 ^ 90)"] by fastforce

text \<open>
  C28. A swap moves the price in its own direction only, and never past a price limit that is not already
  behind the price.
\<close>

theorem range_swap_respects_limit:
  fixes st :: "'lp::linorder range_pool"
  assumes "ro_reachable st fl" "a < 2 ^ 256" "ro_swap sd a limit st = Some (out, a', st')"
  shows "\<not> sqrt_price_op_more_than sd (ro_sqrt_price st) (ro_sqrt_price st') \<and>
    (\<forall>l. limit = Some l \<longrightarrow> \<not> sqrt_price_op_more_than sd (ro_sqrt_price st) l \<longrightarrow> \<not> sqrt_price_op_more_than sd (ro_sqrt_price st') l)"
proof -
  have "ro_swap_post sd limit st a st' a' out"
    using ro_swap_ok [OF ro_reachable_inv [OF assms(1)] assms(2), of sd limit] assms(3) by auto
  then show ?thesis by (cases sd) (auto simp: ro_swap_post_def)
qed

theorem range_swap_respects_limit_witness:
  "\<not> sqrt_price_op_more_than QuoteToBase (ro_sqrt_price ro_ex1) (ro_sqrt_price ro_ex2)"
  using range_swap_respects_limit [OF ro_ex_reachable(2) _ ro_ex_swap] by simp

text \<open>
  C23. Apart from minting, no method of the range order pool panics in a reachable state: collecting,
  burning, swapping, reading positions, liquidity or depth, collecting everything and changing the fee all return. A
  mint into a position that exists does not panic either.
\<close>

theorem range_pool_never_panics:
  fixes st :: "'lp::linorder range_pool" and try_debit :: "amount pool_pairs_map \<Rightarrow> 'e + 't"
  assumes "ro_reachable st fl" "a < 2 ^ 256"
  shows "(ro_collect lp lo up st :: (unit ro_position_error + _) option) \<noteq> None \<and> ro_collect_and_burn lp lo up sz st \<noteq> None \<and>
    ro_swap sd a limit st \<noteq> None \<and> (ro_position_of lp lo up st :: (unit ro_position_error + _) option) \<noteq> None \<and>
    ro_positions_list st \<noteq> None \<and> ro_liquidity st \<noteq> None \<and> ro_depth lo up st \<noteq> None \<and> ro_collect_all st \<noteq> None \<and>
    required_asset_ratio b st lo up \<noteq> None \<and> liquidity_to_amounts b st l lo up \<noteq> None \<and>
    (bt_get (ro_positions st) (lp, lo, up) \<noteq> None \<longrightarrow> ro_collect_and_mint lp lo up sz try_debit st \<noteq> None)"
proof -
  note inv = ro_reachable_inv [OF assms(1)]
  have col: "(ro_collect lp lo up st :: (unit ro_position_error + ro_collected \<times> ro_position_info \<times> 'lp range_pool) option) \<noteq> None"
    using ro_collect_ok [OF inv, of lo up lp, where ?'e = unit]
    by (cases "range_ok lo up"; cases "bt_get (ro_positions st) (lp, lo, up)") (auto simp: ro_collect_def)
  then have "(ro_position_of lp lo up st :: (unit ro_position_error + ro_collected \<times> ro_position_info) option) \<noteq> None"
    by (simp add: ro_position_of_collect [OF inv])
  moreover have "ro_collect_and_burn lp lo up sz st \<noteq> None" using ro_collect_and_burn_ok [OF inv, of lp lo up sz] by auto
  moreover have "ro_swap sd a limit st \<noteq> None" using ro_swap_ok [OF inv assms(2), of sd limit] by auto
  moreover have "ro_collect_and_mint lp lo up sz try_debit st \<noteq> None" if "bt_get (ro_positions st) (lp, lo, up) \<noteq> None"
    using ro_collect_and_mint_ok [OF inv, of lp lo up sz try_debit] that by (auto simp: mint_underflows_def)
  moreover have inner: "\<exists>r. inner_liquidity_to_amounts b st x lo up = Some r" if "range_ok lo up" "x \<le> MAX_TICK_GROSS_LIQUIDITY" for x
    using inner_liquidity_to_amounts_ok [OF ro_invD(2) [OF inv] that(1), of x b] that(2) gross_max(2) by auto
  have "required_asset_ratio b st lo up \<noteq> None"
    using inner [OF _ order.refl] by (cases "range_ok lo up") (auto simp: required_asset_ratio_def)
  moreover have "liquidity_to_amounts b st l lo up \<noteq> None"
    using inner [of l] by (cases "range_ok lo up"; cases "l \<le> MAX_TICK_GROSS_LIQUIDITY") (auto simp: liquidity_to_amounts_def)
  ultimately show ?thesis
    using col ro_positions_list_ok [OF inv] ro_liquidity_ok [OF inv] ro_depth_ok [OF inv, of lo up] ro_collect_all_ok [OF inv] by auto
qed

theorem range_pool_never_panics_witness:
  "ro_collect_and_burn 1 0 MAX_TICK (SizeLiquidity 5) ro_ex2 \<noteq> None \<and> ro_depth (- 100) 100 ro_ex2 \<noteq> None"
proof -
  have "(1 :: nat) < 2 ^ 256" by simp
  then show ?thesis
    using range_pool_never_panics [OF ro_ex_reachable(3), of 1 1 0 MAX_TICK "SizeLiquidity 5"]
      range_pool_never_panics [OF ro_ex_reachable(3), of 1 1 "- 100" 100] by blast
qed

text \<open>
  C25. Exactly when \<open>collect_and_mint\<close> panics, for a mint sized by a liquidity or by amounts: the size
  gives some liquidity that is not zero and fits into the ticks of a valid range, the position is new, and
  the fee growth that the source computes for its range is below zero for one of the assets.
\<close>

theorem range_mint_panics_iff:
  fixes st :: "'lp::linorder range_pool" and try_debit :: "amount pool_pairs_map \<Rightarrow> 'e + 't"
  assumes "ro_reachable st fl"
  shows "ro_collect_and_mint lp lo up sz try_debit st = None \<longleftrightarrow>
    range_ok lo up \<and> mint_underflows lp lo up st \<and>
    (\<exists>m. size_as_liquidity st lo up sz = Some (Some m) \<and> m \<noteq> 0 \<and> mint_fits lo up m st)"
proof (cases "range_ok lo up \<and> mint_underflows lp lo up st")
  case True
  note inv = ro_reachable_inv [OF assms]
  have none: "bt_get (ro_positions st) (lp, lo, up) = None" using True by (simp add: mint_underflows_def)
  obtain opt where opt: "size_as_liquidity st lo up sz = Some opt"
    using size_as_liquidity_ok [OF ro_invD(2) [OF inv]] True by blast
  show ?thesis using True none opt ro_mint_into_underflow [OF inv, of lp lo up _ _ try_debit]
    by (cases opt) (simp_all add: ro_collect_and_mint_eq [OF inv])
next
  case False
  show ?thesis
  proof (cases "range_ok lo up")
    case True
    then show ?thesis
      using False ro_collect_and_mint_ok [OF ro_reachable_inv [OF assms], of lp lo up sz try_debit] by auto
  qed (simp add: ro_collect_and_mint_def)
qed

lemma ro_ex_underflows: "range_ok (- 1) 0" "mint_fits (- 1) 0 1 ro_ex2" "mint_underflows 2 (- 1) 0 ro_ex2" "mint_fits (- 1) 0 2000149 ro_ex2"
  by (simp_all add: range_ok_def mint_fits_def gross_at_def mint_underflows_def mint_inside_def delta_inside_def inside_growth_def
      mint_tick_def ro_ex_eval)

lemma ro_ex_tick_below: "sqrt_price_at_tick (- 1) = Some 79224201403219477170569942574"
  by (simp add: sqrt_price_at_tick_def is_tick_valid_def MIN_TICK_def MAX_TICK_def tick_bit_constants_def
      handle_tick_bit_def bit_Suc_0_iff checked_simps)

lemma ro_ex_size: "size_as_liquidity ro_ex2 (- 1) 0 (SizeAmount \<lparr>base = 0, quote = 100\<rparr> pp_zero) = Some (Some 2000149)"
  using ro_ex_price
  by (simp add: size_as_liquidity_def inner_amounts_to_liquidity_def inner_liquidity_to_amounts_def ro_ex_tick_below
      one_amount_to_liquidity_def one_amount_delta_floor_def usat_mul_def uconv_def ro_ex_eval)

theorem range_mint_panics_iff_witness:
  "ro_collect_and_mint 2 (- 1) 0 (SizeLiquidity 1) (Inr :: amount pool_pairs_map \<Rightarrow> unit + amount pool_pairs_map) ro_ex2 = None \<and>
   ro_collect_and_mint 2 (- 1) 0 (SizeAmount \<lparr>base = 0, quote = 100\<rparr> pp_zero)
     (Inr :: amount pool_pairs_map \<Rightarrow> unit + amount pool_pairs_map) ro_ex2 = None \<and>
   ro_collect_and_mint 2 (- 1) 0 (SizeLiquidity 0) (Inr :: amount pool_pairs_map \<Rightarrow> unit + amount pool_pairs_map) ro_ex2 \<noteq> None"
proof -
  have "size_as_liquidity ro_ex2 (- 1) 0 (SizeLiquidity m) = Some (Some m)" for m by (simp add: size_as_liquidity_def)
  then show ?thesis
    unfolding range_mint_panics_iff [OF ro_ex_reachable(3)] using ro_ex_underflows ro_ex_size by auto
qed

text \<open>
  C24. The panic is reached by three calls on a new pool: a mint above the price, a swap of 1 and a
  mint just below the price, between a tick that is new and a tick that the first mint created.
\<close>

theorem range_mint_can_panic:
  "\<exists>(st0 :: nat range_pool) st1 st2 am c i out rest.
     ro_new 1 (2 ^ 96) = Some (Inr st0) \<and>
     ro_collect_and_mint 1 0 MAX_TICK (SizeLiquidity 1) (Inr :: amount pool_pairs_map \<Rightarrow> unit + amount pool_pairs_map) st0
       = Some (Inr (am, 1, c, i, st1)) \<and>
     ro_swap QuoteToBase 1 None st1 = Some (out, rest, st2) \<and>
     ro_collect_and_mint 2 (- 1) 0 (SizeLiquidity 1) (Inr :: amount pool_pairs_map \<Rightarrow> unit + amount pool_pairs_map) st2 = None"
proof -
  note inv = ro_reachable_inv [OF ro_ex_reachable(3)]
  have "bt_get (ro_positions ro_ex2) (2, - 1, 0) = None" using ro_ex_underflows(3) by (simp add: mint_underflows_def)
  then have "ro_collect_and_mint 2 (- 1) 0 (SizeLiquidity 1) (Inr :: amount pool_pairs_map \<Rightarrow> unit + amount pool_pairs_map) ro_ex2 = None"
    using ro_ex_underflows ro_mint_into_underflow [OF inv ro_ex_underflows(3)]
    by (simp add: ro_collect_and_mint_eq [OF inv] size_as_liquidity_def)
  then show ?thesis using ro_ex_new ro_ex_mint ro_ex_swap by blast
qed

text \<open>
  C26. Rounding favours the pool: burning the liquidity that was just minted is possible and returns, in
  each asset, at most the amount that the mint required.
\<close>

theorem range_mint_burn_rounding:
  fixes st :: "'lp::linorder range_pool"
  assumes "ro_reachable st fl"
    and mint: "ro_collect_and_mint lp lo up sz (Inr :: amount pool_pairs_map \<Rightarrow> unit + amount pool_pairs_map) st = Some (Inr (am, m, c, i, st'))"
  shows "\<exists>am' c' i' (st'' :: 'lp range_pool). ro_collect_and_burn lp lo up (SizeLiquidity m) st' = Some (Inr (am', m, c', i', st'')) \<and>
    base am' \<le> base am \<and> quote am' \<le> quote am"
proof -
  note inv = ro_reachable_inv [OF assms(1)]
  from ro_collect_and_mint_ok [OF inv minted_no_underflow [OF inv mint], of sz "Inr :: amount pool_pairs_map \<Rightarrow> unit + amount pool_pairs_map"] mint
  have up: "rounds True am (\<lambda>side. position_value (ro_sqrt_price st) side lo up m)" and inv': "ro_inv st'" and into: "minted_into lp lo up m st st'"
    by (auto simp: ro_effect_def)
  obtain p where p: "bt_get (ro_positions st') (lp, lo, up) = Some p" "m \<le> rp_liquidity p"
    and same: "range_ok lo up" "ro_sqrt_price st' = ro_sqrt_price st" using into by (auto simp: minted_into_def)
  obtain am' c' i' and st'' :: "'lp range_pool" where burn: "ro_burn_from st' lp lo up m p = Some (Inr (am', m, c', i', st''))"
    "rounds False am' (\<lambda>side. position_value (ro_sqrt_price st') side lo up m)"
    using ro_burn_from_ok [OF inv' same(1) p] by blast
  have "rp_liquidity p \<noteq> 0" using position_keysD(4) [OF ro_map_invD(3,2) [OF ro_invD(3) [OF inv']] p(1)] by simp
  then have "ro_collect_and_burn lp lo up (SizeLiquidity m) st' = Some (Inr (am', m, c', i', st''))"
    using p burn(1) same(1) by (simp add: ro_collect_and_burn_def size_as_liquidity_def min_absorb2)
  moreover have "base am' \<le> base am" "quote am' \<le> quote am"
    using up burn(2) same(2) by (auto simp: rounds_def all_pairs dest: order.trans)
  ultimately show ?thesis by blast
qed

theorem range_mint_burn_rounding_witness:
  "\<exists>am' c' i' (st'' :: nat range_pool). ro_collect_and_burn 1 0 MAX_TICK (SizeLiquidity 1) ro_ex1 = Some (Inr (am', 1, c', i', st'')) \<and>
    base am' \<le> 1 \<and> quote am' = 0"
  using range_mint_burn_rounding [OF ro_ex_reachable(1) ro_ex_mint] by fastforce

text \<open>
  C27. A mint that is sized by amounts debits, in each asset, at most the given maximum and at least the
  given minimum.
\<close>

theorem range_mint_within_limits:
  fixes st :: "'lp::linorder range_pool" and try_debit :: "amount pool_pairs_map \<Rightarrow> 'e + 't"
  assumes "ro_reachable st fl"
    and mint: "ro_collect_and_mint lp lo up (SizeAmount maximum minimum) try_debit st = Some (Inr (t, m, c, i, st'))"
  shows "\<exists>am. try_debit am = Inr t \<and> base am \<le> base maximum \<and> quote am \<le> quote maximum \<and>
    base minimum \<le> base am \<and> quote minimum \<le> quote am"
proof -
  obtain am x where am: "size_as_liquidity st lo up (SizeAmount maximum minimum) = Some (Some m)"
    "inner_liquidity_to_amounts True st m lo up = Some (am, x)" "try_debit am = Inr t" "range_ok lo up"
    using ro_collect_and_mint_amounts [OF mint] .
  note price = ro_invD(2) [OF ro_reachable_inv [OF assms(1)]]
  obtain low y where l: "inner_amounts_to_liquidity st lo up maximum = Some m" "inner_liquidity_to_amounts False st m lo up = Some (low, y)"
    "base minimum \<le> base low" "quote minimum \<le> quote low"
    using am(1) by (auto simp: size_as_liquidity_def split: bind_splits if_splits)
  have "m < 2 ^ 128" using inner_amounts_to_liquidity_ok [OF am(4), of st maximum] l(1) gross_max(2) by auto
  from inner_liquidity_to_amounts_ok [OF price am(4) this, of True] inner_liquidity_to_amounts_ok [OF price am(4) this, of False]
  have "rounds True am (\<lambda>side. position_value (ro_sqrt_price st) side lo up m)" "rounds False low (\<lambda>side. position_value (ro_sqrt_price st) side lo up m)"
    using am(2) l(2) by auto
  then have "base low \<le> base am" "quote low \<le> quote am" by (auto simp: rounds_def all_pairs dest: order.trans)
  then show ?thesis using amounts_within [OF price am(4) l(1) am(2)] l(3,4) am(3) by auto
qed

theorem range_mint_within_limits_witness:
  "\<exists>am m c i st'. ro_collect_and_mint 1 0 MAX_TICK (SizeAmount \<lparr>base = 1, quote = 0\<rparr> \<lparr>base = 0, quote = 0\<rparr>)
       (Inr :: amount pool_pairs_map \<Rightarrow> unit + amount pool_pairs_map) ro_ex0 = Some (Inr (am, m, c, i, st')) \<and>
     am = \<lparr>base = 1, quote = 0\<rparr> \<and> base am \<le> 1 \<and> quote am \<le> 0"
  using range_mint_within_limits [OF ro_ex_reachable(1) ro_ex_mint_amount [where ?'a = unit]] ro_ex_mint_amount [where ?'a = unit]
  by auto

text \<open>
  \<open>position\<close> reports exactly what \<open>collect\<close> would return, errors included.
\<close>

theorem range_position_is_collect:
  fixes st :: "'lp::linorder range_pool"
  assumes "ro_reachable st fl"
  shows "(ro_position_of lp lo up st :: ('e ro_position_error + ro_collected \<times> ro_position_info) option) =
    map_option (map_sum id (\<lambda>(c, i, st'). (c, i))) (ro_collect lp lo up st)"
  by (rule ro_position_of_collect [OF ro_reachable_inv [OF assms]])

theorem range_position_is_collect_witness:
  "(ro_position_of 1 0 MAX_TICK ro_ex2 :: (unit ro_position_error + ro_collected \<times> ro_position_info) option) =
    map_option (map_sum id (\<lambda>(c, i, st'). (c, i))) (ro_collect 1 0 MAX_TICK ro_ex2)"
  by (rule range_position_is_collect [OF ro_ex_reachable(3)])

text \<open>
  \<open>liquidity\<close> is the histogram it is documented to be: one entry per tick of the map, with the liquidity of
  the positions in range from that tick on; the first entry is for \<open>MIN_TICK\<close>, and the last is for \<open>MAX_TICK\<close> with
  no liquidity.
\<close>

theorem range_liquidity_histogram:
  assumes "ro_reachable st fl"
  shows "ro_liquidity st = Some (map (\<lambda>(t, d). (t, active_at (ro_positions st) t)) (ro_liquidity_map st)) \<and>
    fst (hd (ro_liquidity_map st)) = MIN_TICK \<and> fst (last (ro_liquidity_map st)) = MAX_TICK \<and>
    active_at (ro_positions st) MAX_TICK = 0"
proof -
  note inv = ro_reachable_inv [OF assms]
  note M = ro_map_invD [OF ro_invD(3) [OF inv]]
  have valid: "MIN_TICK \<le> u \<and> u \<le> MAX_TICK" if "u \<in> fst ` set (ro_liquidity_map st)" for u
    using that M(8) [of u] bt_get_mem [OF M(1), of u] by (force simp: is_tick_valid_def)
  have keys: "MIN_TICK \<in> fst ` set (ro_liquidity_map st)" "MAX_TICK \<in> fst ` set (ro_liquidity_map st)"
    using M(4,5) by (auto simp: bt_get_None_iff)
  have ends: "fst (hd m) = MIN_TICK \<and> fst (last m) = MAX_TICK"
    if "sorted_wrt (<) (map fst m)" "\<forall>u \<in> set (map fst m). MIN_TICK \<le> u \<and> u \<le> MAX_TICK" "MIN_TICK \<in> set (map fst m)" "MAX_TICK \<in> set (map fst m)"
    for m :: liquidity_map
  proof -
    have ne: "m \<noteq> []" using that(3) by auto
    have "hd (map fst m) \<le> MIN_TICK" using that(1,3) ne by (cases m) force+
    moreover have "MAX_TICK \<le> last (map fst m)" using that(1,4) ne by (cases m rule: rev_cases) (force simp: sorted_wrt_append)+
    moreover have "hd (map fst m) \<in> set (map fst m)" "last (map fst m) \<in> set (map fst m)"
      using ne by (auto simp: hd_map last_map)
    ultimately show ?thesis using that(2) ne by (metis hd_map last_map order.antisym)
  qed
  have "fst (hd (ro_liquidity_map st)) = MIN_TICK \<and> fst (last (ro_liquidity_map st)) = MAX_TICK"
    using M(1) valid keys by (intro ends) (auto simp: bt_wf_def)
  then show ?thesis using ro_liquidity_ok [OF inv] active_at_outside(2) [OF M(3)] by simp
qed

theorem range_liquidity_histogram_witness:
  "ro_liquidity ro_ex2 = Some [(MIN_TICK, 0), (0, 1), (MAX_TICK, 0)]"
  using range_liquidity_histogram [OF ro_ex_reachable(3)]
  by (simp add: ro_ex2_def ro_ex_pool_def ro_ex_map_def ro_ex_ps_def active_at_def MIN_TICK_def MAX_TICK_def)

end
