(* ===== verification/Amm_Pool.thy ===== *)
theory Amm_Pool
  imports Limit_Ledger Range_Ledger
begin

text \<open>
  Model of \<open>state-chain/amm/src/lib.rs\<close>: the pool that combines the limit orders and the range orders of a
  pair of assets. A swap trades with whichever of the two has the better price; every other method
  passes its call on to one of them.
\<close>

section \<open>State and errors\<close>

record 'lp pool_state =
  limit_orders :: "'lp limit_pool"
  range_orders :: "'lp range_pool"

datatype pool_new_error = NewLimitOrders lo_new_error | NewRangeOrders ro_new_error

definition pool_new :: "(nat \<Rightarrow> nat) \<Rightarrow> nat \<Rightarrow> price \<Rightarrow> (pool_new_error + 'lp pool_state) option" where
  "pool_new isqrt fee_hundredth_pips initial_range_order_price =
     (case lo_new fee_hundredth_pips of
        Inl e \<Rightarrow> Some (Inl (NewLimitOrders e))
      | Inr lo \<Rightarrow>
          do { r \<leftarrow> ro_new fee_hundredth_pips (price_to_sqrt_price isqrt initial_range_order_price);
               (case r of
                  Inl e \<Rightarrow> Some (Inl (NewRangeOrders e))
                | Inr ro \<Rightarrow> Some (Inr \<lparr>limit_orders = lo, range_orders = ro\<rparr>)) })"

section \<open>Prices\<close>

definition inner_current_sqrt_price :: "direction \<Rightarrow> 'lp pool_state \<Rightarrow> sqrt_price option" where
  "inner_current_sqrt_price sd st =
     (case (lo_current_sqrt_price sd (limit_orders st), ro_current_sqrt_price sd (range_orders st)) of
        (Some limit_order_sqrt_price, Some range_order_sqrt_price) \<Rightarrow>
          (if sqrt_price_op_more_than sd limit_order_sqrt_price range_order_sqrt_price
           then Some range_order_sqrt_price else Some limit_order_sqrt_price)
      | (Some limit_order_sqrt_price, None) \<Rightarrow> Some limit_order_sqrt_price
      | (None, Some range_order_sqrt_price) \<Rightarrow> Some range_order_sqrt_price
      | (None, None) \<Rightarrow> None)"

definition pool_current_sqrt_price :: "side \<Rightarrow> 'lp pool_state \<Rightarrow> sqrt_price option" where
  "pool_current_sqrt_price order st =
     (case to_sold_pair order of
        Base \<Rightarrow> inner_current_sqrt_price BaseToQuote st
      | Quote \<Rightarrow> inner_current_sqrt_price QuoteToBase st)"

text \<open>The outer option is the panic of a conversion, the inner one the \<open>Option\<close> of the source.\<close>

definition pool_current_price :: "side \<Rightarrow> 'lp pool_state \<Rightarrow> (price \<times> sqrt_price \<times> tick) option option" where
  "pool_current_price order st =
     (case pool_current_sqrt_price order st of
        None \<Rightarrow> Some None
      | Some sqrt_price \<Rightarrow>
          do { p \<leftarrow> sqrt_price_to_price sqrt_price;
               t \<leftarrow> tick_at_sqrt_price sqrt_price;
               Some (Some (p, sqrt_price, t)) })"

definition current_range_order_pool_price :: "'lp pool_state \<Rightarrow> sqrt_price" where
  "current_range_order_pool_price st = raw_current_sqrt_price (range_orders st)"

definition swap_sqrt_price :: "(nat \<Rightarrow> nat) \<Rightarrow> side \<Rightarrow> amount \<Rightarrow> amount \<Rightarrow> sqrt_price option" where
  "swap_sqrt_price isqrt order input_amount output_amount =
     (case to_sold_pair order of
        Base \<Rightarrow> bounded_sqrt_price isqrt output_amount input_amount
      | Quote \<Rightarrow> bounded_sqrt_price isqrt input_amount output_amount)"

definition inner_worst_price :: "side \<Rightarrow> sqrt_price" where
  "inner_worst_price order =
     (case to_sold_pair order of
        Quote \<Rightarrow> worst_sqrt_price QuoteToBase
      | Base \<Rightarrow> worst_sqrt_price BaseToQuote)"

text \<open>The \<open>scan\<close> of a range of the given length: each element is made from the one before.\<close>

fun scan_prices :: "(sqrt_price \<Rightarrow> sqrt_price option) \<Rightarrow> nat \<Rightarrow> sqrt_price \<Rightarrow> sqrt_price list option" where
  "scan_prices f 0 p = Some []"
| "scan_prices f (Suc n) p = do { q \<leftarrow> f p; qs \<leftarrow> scan_prices f n q; Some (q # qs) }"

definition logarithm_sqrt_price_sequence ::
    "(nat \<Rightarrow> nat) \<Rightarrow> side \<Rightarrow> nat \<Rightarrow> 'lp pool_state \<Rightarrow> sqrt_price list option" where
  "logarithm_sqrt_price_sequence isqrt order count st =
     (let worst = inner_worst_price order
      in case opt_filter (\<lambda>current. current \<noteq> worst) (pool_current_sqrt_price order st) of
           None \<Rightarrow> Some []
         | Some current \<Rightarrow>
             (if worst < current
              then do { steps \<leftarrow> (if count > 1
                          then do { x \<leftarrow> udiv current worst;
                                    root \<leftarrow> nth_root_of_integer_as_fixed_point isqrt x count;
                                    scan_prices (\<lambda>p. mul_div_floor p (ushl 256 1 128) root) (count - 1) current }
                          else Some []);
                        Some (steps @ [worst]) }
              else do { steps \<leftarrow> (if count > 1
                          then do { x \<leftarrow> udiv worst current;
                                    root \<leftarrow> nth_root_of_integer_as_fixed_point isqrt x count;
                                    scan_prices (\<lambda>p. mul_div_floor p root (ushl 256 1 128)) (count - 1) current }
                          else Some []);
                        Some (steps @ [worst]) }))"

definition relative_sqrt_price :: "side \<Rightarrow> sqrt_price \<Rightarrow> tick \<Rightarrow> sqrt_price option option" where
  "relative_sqrt_price order sqrt_price delta =
     (if is_sqrt_price_valid sqrt_price
      then map_option Some (case order of
             Buy \<Rightarrow> increase_sqrt_price QuoteToBase sqrt_price delta
           | Sell \<Rightarrow> increase_sqrt_price BaseToQuote sqrt_price delta)
      else Some None)"

section \<open>Swap\<close>

text \<open>
  The prices that a swap can trade at: the price of the best limit order unless it is past the price limit, and the
  price of the range orders unless it is at the price limit or past it.
\<close>

definition swap_limit_price :: "direction \<Rightarrow> sqrt_price option \<Rightarrow> 'lp pool_state \<Rightarrow> sqrt_price option" where
  "swap_limit_price sd sqrt_price_limit st =
     opt_filter (\<lambda>sqrt_price. case sqrt_price_limit of None \<Rightarrow> True
         | Some limit \<Rightarrow> \<not> sqrt_price_op_more_than sd sqrt_price limit)
       (lo_current_sqrt_price sd (limit_orders st))"

definition swap_range_price :: "direction \<Rightarrow> sqrt_price option \<Rightarrow> 'lp pool_state \<Rightarrow> sqrt_price option" where
  "swap_range_price sd sqrt_price_limit st =
     opt_filter (\<lambda>sqrt_price. case sqrt_price_limit of None \<Rightarrow> True
         | Some limit \<Rightarrow> sqrt_price_op_more_than sd limit sqrt_price)
       (ro_current_sqrt_price sd (range_orders st))"

definition swap_with_limit_orders ::
    "direction \<Rightarrow> amount \<Rightarrow> sqrt_price option \<Rightarrow> 'lp pool_state \<Rightarrow> (amount \<times> amount \<times> 'lp pool_state) option" where
  "swap_with_limit_orders sd a limit st =
     do { (output_amount, remaining_amount, lo) \<leftarrow> lo_swap sd a limit (limit_orders st);
          Some (output_amount, remaining_amount, st\<lparr>limit_orders := lo\<rparr>) }"

definition swap_with_range_orders ::
    "direction \<Rightarrow> amount \<Rightarrow> sqrt_price option \<Rightarrow> 'lp pool_state \<Rightarrow> (amount \<times> amount \<times> 'lp pool_state) option" where
  "swap_with_range_orders sd a limit st =
     do { (output_amount, remaining_amount, ro) \<leftarrow> ro_swap sd a limit (range_orders st);
          Some (output_amount, remaining_amount, st\<lparr>range_orders := ro\<rparr>) }"

text \<open>One round of the loop of \<open>inner_swap\<close>; the inner \<open>None\<close> is its \<open>break\<close>.\<close>

definition inner_swap_round ::
    "direction \<Rightarrow> sqrt_price option \<Rightarrow> amount \<Rightarrow> 'lp pool_state \<Rightarrow> (amount \<times> amount \<times> 'lp pool_state) option option" where
  "inner_swap_round sd sqrt_price_limit a st =
     (case (swap_limit_price sd sqrt_price_limit st, swap_range_price sd sqrt_price_limit st) of
        (Some limit_order_sqrt_price, Some range_order_sqrt_price) \<Rightarrow>
          (if sqrt_price_op_more_than sd limit_order_sqrt_price range_order_sqrt_price
           then map_option Some (swap_with_range_orders sd a (Some limit_order_sqrt_price) st)
           else map_option Some (swap_with_limit_orders sd a (Some range_order_sqrt_price) st))
      | (Some _, None) \<Rightarrow> map_option Some (swap_with_limit_orders sd a sqrt_price_limit st)
      | (None, Some _) \<Rightarrow> map_option Some (swap_with_range_orders sd a sqrt_price_limit st)
      | (None, None) \<Rightarrow> Some None)"

text \<open>
  Termination, in every state: a swap with limit orders that leaves input consumes a limit order pool, and after a
  swap with range orders that leaves input the range orders are no longer the better offer.
\<close>

lemma lo_swap_loop_exit:
  "lo_swap_loop sd limit s = Some (st', a', tot') \<Longrightarrow> lo_swap_entry sd limit st' a' = None"
  by (induction sd limit s rule: lo_swap_loop.induct) (subst (asm) lo_swap_loop.simps, auto split: option.splits)

lemma lo_swap_loop_length:
  "lo_swap_loop sd limit (st, a, tot) = Some (st', a', tot') \<Longrightarrow> a' = 0 \<or> length (pools_of sd st') \<le> length (pools_of sd st)"
proof (induction sd limit "(st, a, tot)" arbitrary: st a tot rule: lo_swap_loop.induct)
  case (1 sd limit st a tot)
  show ?case
  proof (cases "lo_swap_entry sd limit st a")
    case (Some e)
    then obtain st1 a1 tot1 where step: "lo_swap_step sd e (st, a, tot) = Some (st1, a1, tot1)"
      and rest: "lo_swap_loop sd limit (st1, a1, tot1) = Some (st', a', tot')"
      using 1(2) by (subst (asm) lo_swap_loop.simps) (auto split: option.splits)
    have "a' = 0 \<or> length (pools_of sd st') \<le> length (pools_of sd st1)" using 1(1) [OF Some step] rest by blast
    moreover have "a1 = 0 \<Longrightarrow> a' = 0" using rest by (subst (asm) lo_swap_loop.simps) (simp add: lo_swap_entry_def)
    ultimately show ?thesis using lo_swap_step_progress [OF Some step] by auto
  qed (use 1(2) in \<open>subst (asm) lo_swap_loop.simps, simp\<close>)
qed

lemma lo_swap_progress:
  assumes entry: "lo_swap_entry sd limit st a \<noteq> None" and swap: "lo_swap sd a limit st = Some (out, a', st')"
  shows "a' = 0 \<or> length (pools_of sd st') < length (pools_of sd st)"
proof -
  obtain e where e: "lo_swap_entry sd limit st a = Some e" using entry by blast
  obtain st2 where loop: "lo_swap_loop sd limit (st, a, 0) = Some (st2, a', out)" and st': "pools_of sd st' = pools_of sd st2"
    using swap by (auto simp: lo_swap_def split: bind_splits)
  obtain st1 a1 tot1 where step: "lo_swap_step sd e (st, a, 0) = Some (st1, a1, tot1)"
    and rest: "lo_swap_loop sd limit (st1, a1, tot1) = Some (st2, a', out)"
    using loop e by (subst (asm) lo_swap_loop.simps) (auto split: option.splits)
  have "a1 = 0 \<Longrightarrow> a' = 0" using rest by (subst (asm) lo_swap_loop.simps) (simp add: lo_swap_entry_def)
  then show ?thesis using lo_swap_loop_length [OF rest] lo_swap_step_progress [OF e step] st' by auto
qed

lemma ro_swap_loop_exit:
  "ro_swap_loop sd limit s = Some (st', a', tot') \<Longrightarrow> ro_swap_entry sd limit st' a' = Some None"
  by (induction sd limit s rule: ro_swap_loop.induct) (subst (asm) ro_swap_loop.simps, auto split: option.splits)

lemma ro_swap_exit:
  assumes "ro_swap sd a limit st = Some (out, a', st')"
  shows "a' = 0 \<or> ro_current_sqrt_price sd st' = None \<or> (\<exists>l. limit = Some l \<and> \<not> sqrt_price_op_more_than sd l (ro_sqrt_price st'))"
proof -
  obtain st1 where "ro_swap_loop sd limit (st, a, 0) = Some (st1, a', out)" "ro_tick st' = ro_tick st1" "ro_sqrt_price st' = ro_sqrt_price st1"
    using assms by (auto simp: ro_swap_def split: bind_splits)
  with ro_swap_loop_exit [of sd limit "(st, a, 0)" st1 a' out] show ?thesis
    by (cases sd) (auto simp: ro_swap_entry_def ro_current_sqrt_price_def split: if_splits option.splits bind_splits)
qed

definition range_ahead :: "direction \<Rightarrow> sqrt_price option \<Rightarrow> 'lp pool_state \<Rightarrow> bool" where
  "range_ahead sd limit st = (case (swap_limit_price sd limit st, swap_range_price sd limit st) of
     (Some l, Some r) \<Rightarrow> sqrt_price_op_more_than sd l r | (None, Some r) \<Rightarrow> True | _ \<Rightarrow> False)"

definition inner_swap_measure :: "direction \<Rightarrow> sqrt_price option \<Rightarrow> amount \<Rightarrow> 'lp pool_state \<Rightarrow> nat" where
  "inner_swap_measure sd limit a st = (if a = 0 then 0 else
     Suc (2 * length (pools_of sd (limit_orders st)) + (if range_ahead sd limit st then 1 else 0)))"

lemma swap_range_price_Some:
  "swap_range_price sd limit st = Some r \<Longrightarrow> r = ro_sqrt_price (range_orders st) \<and> ro_current_sqrt_price sd (range_orders st) \<noteq> None \<and>
     (\<forall>l. limit = Some l \<longrightarrow> sqrt_price_op_more_than sd l r)"
  by (auto simp: swap_range_price_def ro_current_sqrt_price_def split: if_splits)

lemma swap_limit_price_Some:
  assumes "swap_limit_price sd limit st = Some l" "a \<noteq> 0"
  shows "lo_swap_entry sd limit (limit_orders st) a \<noteq> None" "\<not> sqrt_price_op_more_than sd l r \<Longrightarrow> lo_swap_entry sd (Some r) (limit_orders st) a \<noteq> None"
  using assms by (auto simp: swap_limit_price_def lo_current_sqrt_price_def lo_swap_entry_def opt_filter_def split: option.splits if_splits)

lemma inner_swap_round_progress:
  assumes a: "a \<noteq> 0" and round: "inner_swap_round sd limit a st = Some (Some (out, a', st'))"
  shows "inner_swap_measure sd limit a' st' < inner_swap_measure sd limit a st"
proof (cases "a' = 0")
  case False
  have limit: "length (pools_of sd (limit_orders st')) < length (pools_of sd (limit_orders st))"
    if "swap_with_limit_orders sd a l st = Some (out, a', st')" "lo_swap_entry sd l (limit_orders st) a \<noteq> None" for l
    using that False lo_swap_progress [OF that(2)] by (auto simp: swap_with_limit_orders_def split: bind_splits)
  have range: "limit_orders st' = limit_orders st \<and> (\<forall>r. ro_current_sqrt_price sd (range_orders st') = Some r \<longrightarrow>
        (\<exists>x. l = Some x \<and> \<not> sqrt_price_op_more_than sd x r))"
    if "swap_with_range_orders sd a l st = Some (out, a', st')" for l
    using that False ro_swap_exit [of sd a l "range_orders st"]
    by (auto simp: swap_with_range_orders_def ro_current_sqrt_price_def split: bind_splits if_splits)
  show ?thesis
  proof (cases "swap_limit_price sd limit st")
    case None
    then obtain r where r: "swap_range_price sd limit st = Some r" "swap_with_range_orders sd a limit st = Some (out, a', st')"
      using round by (auto simp: inner_swap_round_def split: option.splits)
    have "swap_range_price sd limit st' = None" "limit_orders st' = limit_orders st"
      using range [OF r(2)] by (auto simp: swap_range_price_def opt_filter_def split: option.splits)
    then show ?thesis using a None r(1) by (auto simp: inner_swap_measure_def range_ahead_def split: option.splits)
  next
    case (Some l)
    show ?thesis
    proof (cases "\<exists>r. swap_range_price sd limit st = Some r \<and> sqrt_price_op_more_than sd l r")
      case True
      then obtain r where r: "swap_range_price sd limit st = Some r" "sqrt_price_op_more_than sd l r" by blast
      have "swap_with_range_orders sd a (Some l) st = Some (out, a', st')"
        using round r Some by (simp add: inner_swap_round_def)
      note R = range [OF this]
      have "swap_limit_price sd limit st' = Some l" using Some R by (simp add: swap_limit_price_def)
      moreover have "\<not> sqrt_price_op_more_than sd l r'" if "swap_range_price sd limit st' = Some r'" for r'
        using R that by (auto simp: swap_range_price_def)
      ultimately show ?thesis using a R r Some by (auto simp: inner_swap_measure_def range_ahead_def split: option.splits)
    next
      case False
      then obtain y where y: "swap_with_limit_orders sd a y st = Some (out, a', st')" "lo_swap_entry sd y (limit_orders st) a \<noteq> None"
        using round Some swap_limit_price_Some [OF Some a] by (auto simp: inner_swap_round_def split: option.splits if_splits)
      show ?thesis using limit [OF y] a by (auto simp: inner_swap_measure_def)
    qed
  qed
qed (use a in \<open>simp add: inner_swap_measure_def\<close>)

function inner_swap_loop ::
    "direction \<Rightarrow> sqrt_price option \<Rightarrow> amount \<times> amount \<times> 'lp pool_state \<Rightarrow> (amount \<times> amount \<times> 'lp pool_state) option" where
  "inner_swap_loop sd limit (total_output_amount, a, st) =
     (if a = 0 then Some (total_output_amount, a, st)
      else (case inner_swap_round sd limit a st of
              None \<Rightarrow> None
            | Some None \<Rightarrow> Some (total_output_amount, a, st)
            | Some (Some (output_amount, remaining_amount, st')) \<Rightarrow>
                inner_swap_loop sd limit (usat_add 256 total_output_amount output_amount, remaining_amount, st')))"
  by pat_completeness auto
termination
  by (relation "measure (\<lambda>(sd, limit, tot, a, st). inner_swap_measure sd limit a st)") (auto intro: inner_swap_round_progress)

declare inner_swap_loop.simps [simp del]

definition inner_swap :: "direction \<Rightarrow> amount \<Rightarrow> sqrt_price option \<Rightarrow> 'lp pool_state \<Rightarrow> (amount \<times> amount \<times> 'lp pool_state) option" where
  "inner_swap sd a sqrt_price_limit st = inner_swap_loop sd sqrt_price_limit (0, a, st)"

definition pool_swap :: "side \<Rightarrow> amount \<Rightarrow> sqrt_price option \<Rightarrow> 'lp pool_state \<Rightarrow> (amount \<times> amount \<times> 'lp pool_state) option" where
  "pool_swap order sold_amount sqrt_price_limit st =
     (case to_sold_pair order of
        Base \<Rightarrow> inner_swap BaseToQuote sold_amount sqrt_price_limit st
      | Quote \<Rightarrow> inner_swap QuoteToBase sold_amount sqrt_price_limit st)"

section \<open>Orders\<close>

definition collect_and_mint_limit_order ::
    "'lp::linorder \<Rightarrow> side \<Rightarrow> tick \<Rightarrow> amount \<Rightarrow> 'lp pool_state \<Rightarrow>
     (lo_mint_error lo_position_error + lo_collected \<times> lo_position_info \<times> 'lp pool_state) option" where
  "collect_and_mint_limit_order lp order t sold_amount st =
     do { r \<leftarrow> (case to_sold_pair order of
            Base \<Rightarrow> lo_collect_and_mint QuoteToBase lp t sold_amount (limit_orders st)
          | Quote \<Rightarrow> lo_collect_and_mint BaseToQuote lp t sold_amount (limit_orders st));
          Some (map_sum id (\<lambda>(c, i, lo). (c, i, st\<lparr>limit_orders := lo\<rparr>)) r) }"

definition collect_and_burn_limit_order ::
    "'lp::linorder \<Rightarrow> side \<Rightarrow> tick \<Rightarrow> amount \<Rightarrow> 'lp pool_state \<Rightarrow>
     ('e lo_position_error + amount \<times> lo_collected \<times> lo_position_info \<times> 'lp pool_state) option" where
  "collect_and_burn_limit_order lp order t sold_amount st =
     do { r \<leftarrow> (case to_sold_pair order of
            Base \<Rightarrow> lo_collect_and_burn QuoteToBase lp t sold_amount (limit_orders st)
          | Quote \<Rightarrow> lo_collect_and_burn BaseToQuote lp t sold_amount (limit_orders st));
          Some (map_sum id (\<lambda>(a, c, i, lo). (a, c, i, st\<lparr>limit_orders := lo\<rparr>)) r) }"

text \<open>A \<open>Range<Tick>\<close> is the pair of its start and its end.\<close>

definition collect_and_mint_range_order ::
    "'lp::linorder \<Rightarrow> tick \<times> tick \<Rightarrow> ro_size \<Rightarrow> (amount pool_pairs_map \<Rightarrow> 'e + 't) \<Rightarrow> 'lp pool_state \<Rightarrow>
     ('e ro_mint_error ro_position_error + 't \<times> liquidity \<times> ro_collected \<times> ro_position_info \<times> 'lp pool_state) option" where
  "collect_and_mint_range_order lp tick_range sz try_debit st =
     do { r \<leftarrow> ro_collect_and_mint lp (fst tick_range) (snd tick_range) sz try_debit (range_orders st);
          Some (map_sum id (\<lambda>(t, l, c, i, ro). (t, l, c, i, st\<lparr>range_orders := ro\<rparr>)) r) }"

definition collect_and_burn_range_order ::
    "'lp::linorder \<Rightarrow> tick \<times> tick \<Rightarrow> ro_size \<Rightarrow> 'lp pool_state \<Rightarrow>
     (ro_burn_error ro_position_error + amount pool_pairs_map \<times> liquidity \<times> ro_collected \<times> ro_position_info \<times> 'lp pool_state) option" where
  "collect_and_burn_range_order lp tick_range sz st =
     do { r \<leftarrow> ro_collect_and_burn lp (fst tick_range) (snd tick_range) sz (range_orders st);
          Some (map_sum id (\<lambda>(am, l, c, i, ro). (am, l, c, i, st\<lparr>range_orders := ro\<rparr>)) r) }"

definition range_order_liquidity_value ::
    "tick \<times> tick \<Rightarrow> liquidity \<Rightarrow> 'lp pool_state \<Rightarrow> (ro_amounts_error + amount pool_pairs_map) option" where
  "range_order_liquidity_value tick_range l st =
     liquidity_to_amounts True (range_orders st) l (fst tick_range) (snd tick_range)"

definition required_asset_ratio_for_range_order ::
    "tick \<times> tick \<Rightarrow> 'lp pool_state \<Rightarrow> (ro_asset_ratio_error + amount pool_pairs_map) option" where
  "required_asset_ratio_for_range_order tick_range st =
     required_asset_ratio False (range_orders st) (fst tick_range) (snd tick_range)"

definition range_order ::
    "'lp::linorder \<Rightarrow> tick \<times> tick \<Rightarrow> 'lp pool_state \<Rightarrow> ('e ro_position_error + ro_collected \<times> ro_position_info) option" where
  "range_order lp tick_range st = ro_position_of lp (fst tick_range) (snd tick_range) (range_orders st)"

definition range_orders_list ::
    "'lp pool_state \<Rightarrow> ('lp \<times> (tick \<times> tick) \<times> ro_collected \<times> ro_position_info) list option" where
  "range_orders_list st =
     map_option (map (\<lambda>(lp, lower_tick, upper_tick, collected, position_info).
       (lp, (lower_tick, upper_tick), collected, position_info))) (ro_positions_list (range_orders st))"

definition limit_order ::
    "'lp::linorder \<Rightarrow> side \<Rightarrow> tick \<Rightarrow> 'lp pool_state \<Rightarrow> ('e lo_position_error + lo_collected \<times> lo_position_info) option" where
  "limit_order lp order t st =
     (case order of
        Sell \<Rightarrow> lo_position_of QuoteToBase lp t (limit_orders st)
      | Buy \<Rightarrow> lo_position_of BaseToQuote lp t (limit_orders st))"

definition limit_orders_list :: "side \<Rightarrow> 'lp::linorder pool_state \<Rightarrow> 'lp lo_collected_position list option" where
  "limit_orders_list order st =
     (case order of
        Sell \<Rightarrow> lo_positions_list QuoteToBase (limit_orders st)
      | Buy \<Rightarrow> lo_positions_list BaseToQuote (limit_orders st))"

definition limit_order_fee :: "'lp pool_state \<Rightarrow> nat" where
  "limit_order_fee st = lo_fee_hundredth_pips (limit_orders st)"

definition range_order_fee :: "'lp pool_state \<Rightarrow> nat" where
  "range_order_fee st = ro_fee_hundredth_pips (range_orders st)"

definition range_order_total_fees_earned :: "'lp pool_state \<Rightarrow> amount pool_pairs_map" where
  "range_order_total_fees_earned st = ro_total_fees_earned (range_orders st)"

definition limit_order_total_fees_earned :: "'lp pool_state \<Rightarrow> amount pool_pairs_map" where
  "limit_order_total_fees_earned st = lo_total_fees_earned (limit_orders st)"

definition range_order_swap_inputs :: "'lp pool_state \<Rightarrow> amount pool_pairs_map" where
  "range_order_swap_inputs st = ro_total_swap_inputs (range_orders st)"

definition limit_order_swap_inputs :: "'lp pool_state \<Rightarrow> amount pool_pairs_map" where
  "limit_order_swap_inputs st = lo_total_swap_inputs (limit_orders st)"

definition limit_order_liquidity :: "side \<Rightarrow> 'lp pool_state \<Rightarrow> (tick \<times> amount) list option" where
  "limit_order_liquidity order st =
     (case order of
        Sell \<Rightarrow> lo_liquidity QuoteToBase (limit_orders st)
      | Buy \<Rightarrow> lo_liquidity BaseToQuote (limit_orders st))"

definition range_order_liquidity :: "'lp pool_state \<Rightarrow> (tick \<times> liquidity) list option" where
  "range_order_liquidity st = ro_liquidity (range_orders st)"

text \<open>
  The first component is the \<open>Option<Price>\<close> of the source. Prices and square root prices are both \<open>U256\<close> there, and
  \<open>limit_order_depth\<close> returns the square root price as it is.
\<close>

definition limit_order_depth ::
    "tick \<times> tick \<Rightarrow> 'lp pool_state \<Rightarrow> (lo_depth_error + (price option \<times> amount) pool_pairs_map) option" where
  "limit_order_depth tick_range st =
     do { b \<leftarrow> lo_depth QuoteToBase (fst tick_range) (snd tick_range) (limit_orders st);
          (case b of
             Inl e \<Rightarrow> Some (Inl e)
           | Inr base_depth \<Rightarrow>
               do { q \<leftarrow> lo_depth BaseToQuote (fst tick_range) (snd tick_range) (limit_orders st);
                    (case q of
                       Inl e \<Rightarrow> Some (Inl e)
                     | Inr quote_depth \<Rightarrow> Some (Inr
                         \<lparr>base = (lo_current_sqrt_price QuoteToBase (limit_orders st), base_depth),
                          quote = (lo_current_sqrt_price BaseToQuote (limit_orders st), quote_depth)\<rparr>)) }) }"

definition optional_price :: "sqrt_price option \<Rightarrow> price option option" where
  "optional_price x = (case x of None \<Rightarrow> Some None | Some p \<Rightarrow> map_option Some (sqrt_price_to_price p))"

definition range_order_depth ::
    "tick \<times> tick \<Rightarrow> 'lp pool_state \<Rightarrow> (ro_depth_error + (price option \<times> amount) pool_pairs_map) option" where
  "range_order_depth tick_range st =
     do { d \<leftarrow> ro_depth (fst tick_range) (snd tick_range) (range_orders st);
          (case d of
             Inl e \<Rightarrow> Some (Inl e)
           | Inr assets \<Rightarrow>
               do { b \<leftarrow> optional_price (ro_current_sqrt_price QuoteToBase (range_orders st));
                    q \<leftarrow> optional_price (ro_current_sqrt_price BaseToQuote (range_orders st));
                    Some (Inr \<lparr>base = (b, pp_index assets Base), quote = (q, pp_index assets Quote)\<rparr>) }) }"

text \<open>
  \<open>set_fees\<close> changes the range orders before it knows whether the limit orders accept the fee, so its model
  returns the state with errors too.
\<close>

definition pool_set_fees ::
    "nat \<Rightarrow> 'lp::linorder pool_state \<Rightarrow> ((set_fees_error + 'lp lo_collected_position list pool_pairs_map) \<times> 'lp pool_state) option" where
  "pool_set_fees fee st =
     (case ro_set_fees fee (range_orders st) of
        Inl e \<Rightarrow> Some (Inl e, st)
      | Inr ro \<Rightarrow>
          (let st1 = st\<lparr>range_orders := ro\<rparr>
           in do { r \<leftarrow> lo_set_fees fee (limit_orders st1);
                   Some (case r of
                           Inl e \<Rightarrow> (Inl e, st1)
                         | Inr (collected, lo) \<Rightarrow> (Inr collected, st1\<lparr>limit_orders := lo\<rparr>)) }))"

definition collect_all_range_orders ::
    "'lp::linorder pool_state \<Rightarrow> (('lp \<times> (tick \<times> tick) \<times> ro_collected \<times> ro_position_info) list \<times> 'lp pool_state) option" where
  "collect_all_range_orders st =
     do { (xs, ro) \<leftarrow> ro_collect_all (range_orders st);
          Some (map (\<lambda>((lp, lower_tick, upper_tick), collected, position_info).
                  (lp, (lower_tick, upper_tick), collected, position_info)) xs, st\<lparr>range_orders := ro\<rparr>) }"

definition collect_all_limit_orders ::
    "'lp::linorder pool_state \<Rightarrow> ('lp lo_collected_position list pool_pairs_map \<times> 'lp pool_state) option" where
  "collect_all_limit_orders st =
     do { (m, lo) \<leftarrow> lo_collect_all (limit_orders st); Some (m, st\<lparr>limit_orders := lo\<rparr>) }"

definition pool_validate_fees :: "nat \<Rightarrow> bool" where
  "pool_validate_fees fee \<longleftrightarrow> lo_validate_fees fee \<and> ro_validate_fees fee"

end
