(* ===== verification/Pool_Ledger.thy ===== *)
theory Pool_Ledger
  imports Amm_Pool
begin

text \<open>
  The combined pool of \<open>lib.rs\<close> as a transition system. Each of its runs splits into a run of its limit orders and a
  run of its range orders, so that the solvency of the whole pool follows from that of the two halves.
\<close>

section \<open>The pool as a transition system\<close>

abbreviation pool_pays :: "pairs \<Rightarrow> nat \<Rightarrow> nat \<Rightarrow> pairs \<Rightarrow> nat" where
  "pool_pays sold x y \<equiv> (\<lambda>s. one_side sold x s + one_side (not_pair sold) y s)"

text \<open>
  A step is one successful call of a method that changes the state, with what it pays into the pool and out of it.
\<close>

inductive pool_step :: "'lp::linorder pool_state \<Rightarrow> ro_flows \<Rightarrow> 'lp pool_state \<Rightarrow> ro_flows \<Rightarrow> bool" where
  pool_step_swap:
    "a < 2 ^ 256 \<Longrightarrow> pool_swap order a limit st = Some (out, a', st') \<Longrightarrow>
     pool_step st fl st' (ro_flow (one_side (to_sold_pair order) (a - a')) (one_side (not_pair (to_sold_pair order)) out) fl)"
| pool_step_mint_limit:
    "collect_and_mint_limit_order lp order t a st = Some (Inr (c, i, st')) \<Longrightarrow>
     pool_step st fl st' (ro_flow (one_side (to_sold_pair order) a) (one_side (not_pair (to_sold_pair order)) (lo_payout c)) fl)"
| pool_step_burn_limit:
    "(collect_and_burn_limit_order lp order t a st :: (unit lo_position_error + _) option) = Some (Inr (amt, c, i, st')) \<Longrightarrow>
     pool_step st fl st' (ro_flow (\<lambda>_. 0) (pool_pays (to_sold_pair order) amt (lo_payout c)) fl)"
| pool_step_mint_range:
    "(\<And>am am'. (try_debit am :: unit + _) = Inr am' \<Longrightarrow> am' = am) \<Longrightarrow>
     collect_and_mint_range_order lp tick_range sz try_debit st = Some (Inr (am, m, c, i, st')) \<Longrightarrow>
     pool_step st fl st' (ro_flow (pp_index am) (pp_index (rc_fees c)) fl)"
| pool_step_burn_range:
    "collect_and_burn_range_order lp tick_range sz st = Some (Inr (am, b, c, i, st')) \<Longrightarrow>
     pool_step st fl st' (ro_flow (\<lambda>_. 0) (\<lambda>s. pp_index am s + pp_index (rc_fees c) s) fl)"
| pool_step_set_fees:
    "pool_set_fees fee st = Some (Inr m, st') \<Longrightarrow>
     pool_step st fl st' (ro_flow (\<lambda>_. 0) (pool_pays Base (lo_paid_list (quote m)) (lo_paid_list (base m))) fl)"
| pool_step_collect_range:
    "collect_all_range_orders st = Some (xs, st') \<Longrightarrow>
     pool_step st fl st' (ro_flow (\<lambda>_. 0) (\<lambda>s. \<Sum>(lp, r, c, i) \<leftarrow> xs. pp_index (rc_fees c) s) fl)"
| pool_step_collect_limit:
    "collect_all_limit_orders st = Some (m, st') \<Longrightarrow>
     pool_step st fl st' (ro_flow (\<lambda>_. 0) (pool_pays Base (lo_paid_list (quote m)) (lo_paid_list (base m))) fl)"

inductive pool_reachable :: "'lp::linorder pool_state \<Rightarrow> ro_flows \<Rightarrow> bool" where
  pool_reach_new: "pool_new isqrt fee p = Some (Inr st) \<Longrightarrow> pool_reachable st ro_no_flows"
| pool_reach_step: "pool_reachable st fl \<Longrightarrow> pool_step st fl st' fl' \<Longrightarrow> pool_reachable st' fl'"

section \<open>The two halves of a run\<close>

text \<open>The direction whose limit orders sell an asset, and the direction whose swaps pay with it.\<close>

fun seller :: "pairs \<Rightarrow> direction" where
  "seller Base = QuoteToBase"
| "seller Quote = BaseToQuote"

fun payer :: "pairs \<Rightarrow> direction" where
  "payer Base = BaseToQuote"
| "payer Quote = QuoteToBase"

definition pool_in :: "lo_flows \<Rightarrow> ro_flows \<Rightarrow> pairs \<Rightarrow> nat" where
  "pool_in fl1 fl2 s = rf_in fl2 s + lf_deposited fl1 (seller s) + lf_paid_in fl1 (payer s)"

definition pool_out :: "lo_flows \<Rightarrow> ro_flows \<Rightarrow> pairs \<Rightarrow> nat" where
  "pool_out fl1 fl2 s = rf_out fl2 s + lf_withdrawn fl1 (seller s) + lf_collected fl1 (payer s)"

lemma pool_sides [simp]:
  "seller s = sd \<longleftrightarrow> s = sold_side sd" "payer s = sd \<longleftrightarrow> s = input_side sd"
  "sd = seller s \<longleftrightarrow> s = sold_side sd" "sd = payer s \<longleftrightarrow> s = input_side sd"
  by (cases s; cases sd; simp)+

lemma not_pair_twice [simp]: "not_pair (not_pair s) = s"
  by (cases s) simp_all

lemma pool_in_flow:
  "pool_in (lo_flow sd d w p c fl1) fl2 s = pool_in fl1 fl2 s + one_side (sold_side sd) d s + one_side (input_side sd) p s"
  "pool_in fl1 (ro_flow i x fl2) s = pool_in fl1 fl2 s + i s"
  "pool_out (lo_flow sd d w p c fl1) fl2 s = pool_out fl1 fl2 s + one_side (sold_side sd) w s + one_side (input_side sd) c s"
  "pool_out fl1 (ro_flow i x fl2) s = pool_out fl1 fl2 s + x s"
  by (simp_all add: pool_in_def pool_out_def one_side_def ro_flow_def)

lemma one_side_0 [simp]: "one_side s 0 = (\<lambda>_. 0)"
  by (simp add: one_side_def fun_eq_iff)

text \<open>
  A run of the pool, split into a run of the limit orders and a run of the range orders that together moved the
  same assets into the pool, and at least as much out of it.
\<close>

definition pool_split :: "'lp::linorder pool_state \<Rightarrow> ro_flows \<Rightarrow> lo_flows \<Rightarrow> ro_flows \<Rightarrow> bool" where
  "pool_split st fl fl1 fl2 \<longleftrightarrow> lo_reachable (limit_orders st) fl1 \<and> ro_reachable (range_orders st) fl2 \<and>
     (\<forall>s. rf_in fl s = pool_in fl1 fl2 s \<and> rf_out fl s \<le> pool_out fl1 fl2 s)"

lemma pool_split_limit:
  assumes "pool_split st fl fl1 fl2" "lo_step (limit_orders st) fl1 lo (lo_flow sd d w p c fl1)"
    and "\<And>s. i s = one_side (sold_side sd) d s + one_side (input_side sd) p s"
    and "\<And>s. x s \<le> one_side (sold_side sd) w s + one_side (input_side sd) c s"
  shows "pool_split (st\<lparr>limit_orders := lo\<rparr>) (ro_flow i x fl) (lo_flow sd d w p c fl1) fl2"
proof -
  have "lo_reachable lo (lo_flow sd d w p c fl1)" using assms(1) reach_step [OF _ assms(2)] by (simp add: pool_split_def)
  moreover have "rf_out fl s + x s \<le> pool_out (lo_flow sd d w p c fl1) fl2 s" for s
    using assms(1) add_mono [OF _ assms(4), of "rf_out fl s" "pool_out fl1 fl2 s" s] by (simp add: pool_split_def pool_in_flow add.assoc)
  ultimately show ?thesis using assms(1,3) by (simp add: pool_split_def pool_in_flow) (simp add: ro_flow_def add.assoc)
qed

lemma pool_split_range:
  assumes "pool_split st fl fl1 fl2" "ro_step (range_orders st) fl2 ro (ro_flow i x fl2)"
  shows "pool_split (st\<lparr>range_orders := ro\<rparr>) (ro_flow i x fl) fl1 (ro_flow i x fl2)"
proof -
  have "ro_reachable ro (ro_flow i x fl2)" using assms(1) ro_reach_step [OF _ assms(2)] by (simp add: pool_split_def)
  then show ?thesis using assms(1) by (simp add: pool_split_def pool_in_flow) (simp add: ro_flow_def)
qed

lemma swap_round_split:
  assumes split: "pool_split st fl fl1 fl2" and a: "a < 2 ^ 256"
    and round: "inner_swap_round sd limit a st = Some (Some (out, a', st'))"
  shows "a' \<le> a \<and> (\<exists>fl1' fl2'. pool_split st' (ro_flow (one_side (input_side sd) (a - a')) (one_side (sold_side sd) out) fl) fl1' fl2')"
proof -
  have reach: "lo_reachable (limit_orders st) fl1" "ro_reachable (range_orders st) fl2" using split by (simp_all add: pool_split_def)
  consider l where "swap_with_limit_orders sd a l st = Some (out, a', st')" | l where "swap_with_range_orders sd a l st = Some (out, a', st')"
    using round by (auto simp: inner_swap_round_def split: option.splits if_splits)
  then show ?thesis
  proof cases
    case 1
    then obtain lo where lo: "lo_swap sd a l (limit_orders st) = Some (out, a', lo)" "st' = st\<lparr>limit_orders := lo\<rparr>"
      by (auto simp: swap_with_limit_orders_def split: bind_splits)
    have "a' \<le> a" using lo_swap_ok [OF lo_reachable_inv [OF reach(1)] a, of sd l] lo(1) by simp
    moreover have "pool_split st' (ro_flow (one_side (input_side sd) (a - a')) (one_side (sold_side sd) out) fl) (lo_flow sd 0 out (a - a') 0 fl1) fl2"
      unfolding lo(2) using pool_split_limit [OF split step_swap [OF a lo(1)]] by simp
    ultimately show ?thesis by blast
  next
    case 2
    then obtain ro where ro: "ro_swap sd a l (range_orders st) = Some (out, a', ro)" "st' = st\<lparr>range_orders := ro\<rparr>"
      by (auto simp: swap_with_range_orders_def split: bind_splits)
    have "a' \<le> a" using ro_swap_ok [OF ro_reachable_inv [OF reach(2)] a, of sd l] ro(1) by (auto simp: ro_swap_post_def)
    moreover have "pool_split st' (ro_flow (one_side (input_side sd) (a - a')) (one_side (sold_side sd) out) fl)
        fl1 (ro_flow (one_side (input_side sd) (a - a')) (one_side (sold_side sd) out) fl2)"
      unfolding ro(2) using pool_split_range [OF split ro_step_swap [OF a ro(1)]] by simp
    ultimately show ?thesis by blast
  qed
qed

lemma ro_flow_add: "ro_flow i x (ro_flow j y fl) = ro_flow (\<lambda>s. j s + i s) (\<lambda>s. y s + x s) fl"
  by (simp add: ro_flow_def add.assoc)

lemma one_side_add: "one_side s x s' + one_side s y s' = one_side s (x + y) s'"
  by (simp add: one_side_def)

lemma pool_split_mono:
  assumes "pool_split st (ro_flow i x fl) fl1 fl2" "\<And>s. y s \<le> x s"
  shows "pool_split st (ro_flow i y fl) fl1 fl2"
proof -
  have "rf_out fl s + y s \<le> pool_out fl1 fl2 s" for s
  proof -
    have "rf_out fl s + x s \<le> pool_out fl1 fl2 s" using assms(1) by (simp add: pool_split_def ro_flow_def)
    then show ?thesis using assms(2) [of s] by linarith
  qed
  then show ?thesis using assms(1) by (simp add: pool_split_def ro_flow_def)
qed

text \<open>
  The rounds of the loop of \<open>inner_swap\<close> from one state to another, and a round that panics: it swaps with the limit
  orders, up to the price of the range orders or the limit of the swap, and one of the trades overflows.
\<close>

inductive pool_swap_run ::
    "direction \<Rightarrow> sqrt_price option \<Rightarrow> amount \<times> 'lp pool_state \<Rightarrow> amount \<times> 'lp pool_state \<Rightarrow> bool" for sd limit where
  swap_run_refl: "pool_swap_run sd limit s s"
| swap_run_round: "a \<noteq> 0 \<Longrightarrow> inner_swap_round sd limit a st = Some (Some (out, a1, st1)) \<Longrightarrow>
    pool_swap_run sd limit (a1, st1) s \<Longrightarrow> pool_swap_run sd limit (a, st) s"

definition limit_round_overflows :: "direction \<Rightarrow> sqrt_price option \<Rightarrow> amount \<Rightarrow> 'lp::linorder pool_state \<Rightarrow> bool" where
  "limit_round_overflows sd limit a st \<longleftrightarrow> a \<noteq> 0 \<and> swap_limit_price sd limit st \<noteq> None \<and>
     (let l = (case swap_range_price sd limit st of Some r \<Rightarrow> Some r | None \<Rightarrow> limit)
      in lo_swap sd a l (limit_orders st) = None \<and>
         (\<exists>(lo :: 'lp limit_pool) a2 tot sp fp. lo_swap_run sd l (limit_orders st, a, 0) (lo, a2, tot) \<and>
            lo_swap_entry sd l lo a2 = Some (sp, fp) \<and> lo_swap_overflows sd (lo_fee_hundredth_pips (limit_orders st)) sp fp a2))"

lemma swap_round_panic:
  fixes st :: "'lp::linorder pool_state"
  assumes "lo_inv (limit_orders st)" "ro_inv (range_orders st)" "a < 2 ^ 256" "a \<noteq> 0" "inner_swap_round sd limit a st = None"
  shows "limit_round_overflows sd limit a st"
proof -
  have ro: "ro_swap sd a l (range_orders st) = None \<longleftrightarrow> False" for l using ro_swap_ok [OF assms(2,3), of sd l] by auto
  have "swap_limit_price sd limit st \<noteq> None"
    "lo_swap sd a (case swap_range_price sd limit st of Some r \<Rightarrow> Some r | None \<Rightarrow> limit) (limit_orders st) = None"
    using assms(5) by (auto simp: inner_swap_round_def swap_with_limit_orders_def swap_with_range_orders_def ro
        split: option.splits if_splits bind_splits)
  then show ?thesis
    using lo_swap_ok [OF assms(1,3), of sd "case swap_range_price sd limit st of Some r \<Rightarrow> Some r | None \<Rightarrow> limit"] assms(4)
    by (auto simp: limit_round_overflows_def Let_def)
qed

text \<open>The loop of \<open>inner_swap\<close>.\<close>

lemma inner_swap_loop_split:
  fixes st :: "'lp::linorder pool_state"
  assumes "pool_split st (ro_flow (one_side (input_side sd) (A - a)) (one_side (sold_side sd) tot) fl) fl1 fl2" "a \<le> A" "A < 2 ^ 256"
  shows "case inner_swap_loop sd limit (tot, a, st) of
      Some (tot', a', st') \<Rightarrow> a' \<le> a \<and>
        (\<exists>fl1' fl2'. pool_split st' (ro_flow (one_side (input_side sd) (A - a')) (one_side (sold_side sd) tot') fl) fl1' fl2') \<and>
        (a' = 0 \<or> swap_limit_price sd limit st' = None \<and> swap_range_price sd limit st' = None)
    | None \<Rightarrow> \<exists>a1 st1. pool_swap_run sd limit (a, st) (a1, st1) \<and> limit_round_overflows sd limit a1 st1"
  using assms
proof (induction sd limit "(tot, a, st)" arbitrary: tot a st fl1 fl2 rule: inner_swap_loop.induct)
  case (1 sd limit tot a st)
  note split0 = 1(2) and IH = 1(1) and le = 1(3) and A = 1(4)
  have a: "a < 2 ^ 256" using le A by simp
  have reach: "lo_reachable (limit_orders st) fl1" "ro_reachable (range_orders st) fl2" using split0 by (simp_all add: pool_split_def)
  consider "a = 0" | "a \<noteq> 0" "inner_swap_round sd limit a st = None" | "a \<noteq> 0" "inner_swap_round sd limit a st = Some None"
    | out a1 st1 where "a \<noteq> 0" "inner_swap_round sd limit a st = Some (Some (out, a1, st1))"
    by (metis option.exhaust prod_cases3)
  then show ?case
  proof cases
    case 1
    have "inner_swap_loop sd limit (tot, a, st) = Some (tot, a, st)" using 1 by (subst inner_swap_loop.simps) simp
    then show ?thesis using 1 split0 by auto
  next
    case 2
    have "limit_round_overflows sd limit a st"
      using swap_round_panic [OF lo_reachable_inv [OF reach(1)] ro_reachable_inv [OF reach(2)] a 2] .
    moreover have "inner_swap_loop sd limit (tot, a, st) = None" using 2 by (subst inner_swap_loop.simps) simp
    ultimately show ?thesis by (auto intro: swap_run_refl)
  next
    case 3
    have "swap_limit_price sd limit st = None \<and> swap_range_price sd limit st = None"
      using 3(2) by (auto simp: inner_swap_round_def split: option.splits if_splits)
    moreover have "inner_swap_loop sd limit (tot, a, st) = Some (tot, a, st)" using 3 by (subst inner_swap_loop.simps) simp
    ultimately show ?thesis using split0 by auto
  next
    case 4
    obtain fl1' fl2' where a1: "a1 \<le> a" and split: "pool_split st1 (ro_flow (one_side (input_side sd) (a - a1)) (one_side (sold_side sd) out)
        (ro_flow (one_side (input_side sd) (A - a)) (one_side (sold_side sd) tot) fl)) fl1' fl2'"
      using swap_round_split [OF split0 a 4(2)] by blast
    have "pool_split st1 (ro_flow (one_side (input_side sd) (A - a1)) (one_side (sold_side sd) (tot + out)) fl) fl1' fl2'"
      using split a1 le by (simp add: ro_flow_add one_side_add)
    then have "pool_split st1 (ro_flow (one_side (input_side sd) (A - a1)) (one_side (sold_side sd) (usat_add 256 tot out)) fl) fl1' fl2'"
      by (rule pool_split_mono) (simp add: one_side_def usat_add_def)
    note ih = IH [OF 4(1,2) refl refl refl this order.trans [OF a1 le] A]
    have "inner_swap_loop sd limit (tot, a, st) = inner_swap_loop sd limit (usat_add 256 tot out, a1, st1)"
      using 4 by (subst inner_swap_loop.simps) simp
    then show ?thesis using ih a1 swap_run_round [OF 4] by (auto split: option.splits)
  qed
qed

lemma pool_split_collected:
  assumes split: "pool_split st fl fl1 fl2"
    and step: "lo_step (limit_orders st) fl1 lo (lo_flow QuoteToBase 0 0 0 b (lo_flow BaseToQuote 0 0 0 q fl1))"
  shows "pool_split (st\<lparr>limit_orders := lo\<rparr>) (ro_flow (\<lambda>_. 0) (pool_pays Base q b) fl)
    (lo_flow QuoteToBase 0 0 0 b (lo_flow BaseToQuote 0 0 0 q fl1)) fl2"
proof -
  have "lo_reachable lo (lo_flow QuoteToBase 0 0 0 b (lo_flow BaseToQuote 0 0 0 q fl1))"
    using split reach_step [OF _ step] by (simp add: pool_split_def)
  then show ?thesis using split by (simp add: pool_split_def pool_in_flow) (simp add: ro_flow_def add.assoc)
qed

lemma pool_step_split:
  fixes st :: "'lp::linorder pool_state"
  assumes "pool_step st fl st' fl'" and split: "pool_split st fl fl1 fl2"
  shows "\<exists>fl1' fl2'. pool_split st' fl' fl1' fl2'"
  using assms(1)
proof cases
  case (pool_step_swap a order limit out a')
  have start: "pool_split st (ro_flow (one_side (input_side sd) (a - a)) (one_side (sold_side sd) 0) fl) fl1 fl2" for sd
    using split by (simp add: ro_flow_none)
  show ?thesis
    using inner_swap_loop_split [OF start order.refl pool_step_swap(2), of BaseToQuote limit]
      inner_swap_loop_split [OF start order.refl pool_step_swap(2), of QuoteToBase limit] pool_step_swap(3)
    by (cases order) (auto simp: pool_step_swap(1) pool_swap_def inner_swap_def)
next
  case (pool_step_mint_limit lp order t a c i)
  obtain sd lo where lo: "lo_collect_and_mint sd lp t a (limit_orders st) = Some (Inr (c, i, lo))" "st' = st\<lparr>limit_orders := lo\<rparr>"
      "sold_side sd = to_sold_pair order"
    using pool_step_mint_limit(2) by (cases order) (auto simp: collect_and_mint_limit_order_def map_sum_def split: bind_splits sum.splits)
  have "input_side sd = not_pair (to_sold_pair order)" using lo(3) by (cases sd; cases order) simp_all
  then show ?thesis
    using pool_split_limit [OF split step_mint [OF lo(1)], of "one_side (to_sold_pair order) a" "one_side (not_pair (to_sold_pair order)) (lo_payout c)"]
    by (auto simp: pool_step_mint_limit(1) lo(2,3))
next
  case (pool_step_burn_limit lp order t a amt c i)
  obtain sd lo where lo: "(lo_collect_and_burn sd lp t a (limit_orders st) :: (unit lo_position_error + _) option) = Some (Inr (amt, c, i, lo))"
      "st' = st\<lparr>limit_orders := lo\<rparr>" "sold_side sd = to_sold_pair order"
    using pool_step_burn_limit(2) by (cases order) (auto simp: collect_and_burn_limit_order_def map_sum_def split: bind_splits sum.splits)
  have "input_side sd = not_pair (to_sold_pair order)" using lo(3) by (cases sd; cases order) simp_all
  then show ?thesis
    using pool_split_limit [OF split step_burn [OF lo(1)], of "\<lambda>_. 0" "pool_pays (to_sold_pair order) amt (lo_payout c)"]
    by (auto simp: pool_step_burn_limit(1) lo(2,3))
next
  case (pool_step_mint_range try_debit lp tick_range sz am m c i)
  obtain ro where ro: "ro_collect_and_mint lp (fst tick_range) (snd tick_range) sz try_debit (range_orders st) = Some (Inr (am, m, c, i, ro))"
      "st' = st\<lparr>range_orders := ro\<rparr>"
    using pool_step_mint_range(3) by (auto simp: collect_and_mint_range_order_def map_sum_def split: bind_splits sum.splits)
  show ?thesis unfolding pool_step_mint_range(1) ro(2)
    using pool_split_range [OF split ro_step_mint [OF pool_step_mint_range(2) ro(1)]] by blast
next
  case (pool_step_burn_range lp tick_range sz am b c i)
  obtain ro where ro: "ro_collect_and_burn lp (fst tick_range) (snd tick_range) sz (range_orders st) = Some (Inr (am, b, c, i, ro))"
      "st' = st\<lparr>range_orders := ro\<rparr>"
    using pool_step_burn_range(2) by (auto simp: collect_and_burn_range_order_def map_sum_def split: bind_splits sum.splits)
  show ?thesis unfolding pool_step_burn_range(1) ro(2)
    using pool_split_range [OF split ro_step_burn [OF ro(1)]] by blast
next
  case (pool_step_set_fees fee m)
  obtain ro lo where ro: "ro_set_fees fee (range_orders st) = Inr ro" and lo: "lo_set_fees fee (limit_orders st) = Some (Inr (m, lo))"
      "st' = st\<lparr>range_orders := ro, limit_orders := lo\<rparr>"
    using pool_step_set_fees(2) by (auto simp: pool_set_fees_def Let_def split: bind_splits sum.splits prod.splits)
  have "ro_step (range_orders st) fl2 ro (ro_flow (\<lambda>_. 0) (\<lambda>_. 0) fl2)" unfolding ro_flow_none by (rule ro_step_set_fees [OF ro])
  from pool_split_range [OF split this] have "pool_split (st\<lparr>range_orders := ro\<rparr>) fl fl1 fl2" by (simp add: ro_flow_none)
  from pool_split_collected [OF this, of lo] step_set_fees [OF lo(1)] show ?thesis unfolding pool_step_set_fees(1) lo(2) by fastforce
next
  case (pool_step_collect_range xs)
  obtain ys ro where ro: "ro_collect_all (range_orders st) = Some (ys, ro)" "st' = st\<lparr>range_orders := ro\<rparr>"
      "xs = map (\<lambda>((lp, lower_tick, upper_tick), collected, position_info). (lp, (lower_tick, upper_tick), collected, position_info)) ys"
    using pool_step_collect_range(2) by (auto simp: collect_all_range_orders_def split: bind_splits)
  have "(\<lambda>s. \<Sum>(lp, r, c, i) \<leftarrow> xs. pp_index (rc_fees c) s) = ro_paid_list ys"
    unfolding ro(3) ro_paid_list_def by (rule ext, rule arg_cong [where f = sum_list]) auto
  then show ?thesis unfolding pool_step_collect_range(1) ro(2)
    using pool_split_range [OF split ro_step_collect_all [OF ro(1)]] by auto
next
  case (pool_step_collect_limit m)
  obtain lo where lo: "lo_collect_all (limit_orders st) = Some (m, lo)" "st' = st\<lparr>limit_orders := lo\<rparr>"
    using pool_step_collect_limit(2) by (auto simp: collect_all_limit_orders_def split: bind_splits)
  show ?thesis unfolding pool_step_collect_limit(1) lo(2)
    using pool_split_collected [OF split step_collect_all [OF lo(1)]] by blast
qed

lemma pool_reachable_split: "pool_reachable st fl \<Longrightarrow> \<exists>fl1 fl2. pool_split st fl fl1 fl2"
proof (induction rule: pool_reachable.induct)
  case (pool_reach_new isqrt fee p st)
  then have "lo_new fee = Inr (limit_orders st)" "ro_new fee (price_to_sqrt_price isqrt p) = Some (Inr (range_orders st))"
    by (auto simp: pool_new_def split: sum.splits bind_splits)
  then have "pool_split st ro_no_flows lo_no_flows ro_no_flows"
    unfolding pool_split_def by (auto simp: pool_in_def pool_out_def lo_no_flows_def ro_no_flows_def intro: reach_new [unfolded lo_no_flows_def] ro_reach_new [unfolded ro_no_flows_def])
  then show ?case by blast
next
  case (pool_reach_step st fl st' fl')
  then show ?case using pool_step_split by blast
qed

section \<open>The fees of the two halves\<close>

lemma ro_mint_fee: "ro_collect_and_mint lp lo up sz try_debit st = Some (Inr (t, m, c, i, st')) \<Longrightarrow>
    ro_fee_hundredth_pips st' = ro_fee_hundredth_pips st"
  by (auto simp: ro_collect_and_mint_def ro_mint_into_def Let_def split: bind_splits option.splits sum.splits if_splits)

lemma ro_put_tick_fee: "ro_put_tick keep t d p st = Some st' \<Longrightarrow> ro_fee_hundredth_pips st' = ro_fee_hundredth_pips st"
  by (auto simp: ro_put_tick_def split: bind_splits if_splits)

lemma ro_burn_fee: "ro_collect_and_burn lp lo up sz st = Some (Inr (am, m, c, i, st')) \<Longrightarrow>
    ro_fee_hundredth_pips st' = ro_fee_hundredth_pips st"
  by (auto simp: ro_collect_and_burn_def ro_burn_from_def Let_def dest!: ro_put_tick_fee
      split: bind_splits option.splits sum.splits if_splits)

lemma ro_collect_all_fee:
  assumes "ro_collect_all st = Some (xs, st')"
  shows "ro_fee_hundredth_pips st' = ro_fee_hundredth_pips st"
proof -
  have "ro_fee_hundredth_pips (snd (xs, st')) = ro_fee_hundredth_pips st"
    using assms unfolding ro_collect_all_def
    by (rule foldM_invariant [where I = "\<lambda>(acc, s). ro_fee_hundredth_pips s = ro_fee_hundredth_pips st", unfolded case_prod_beta])
      (auto simp: ro_collect_def split: bind_splits option.splits sum.splits if_splits)
  then show ?thesis by simp
qed

lemma swap_round_fees:
  assumes reach: "lo_reachable (limit_orders st) fl1" "ro_reachable (range_orders st) fl2" and a: "a < 2 ^ 256"
    and round: "inner_swap_round sd limit a st = Some (Some (out, a', st'))"
  shows "limit_order_fee st' = limit_order_fee st" "range_order_fee st' = range_order_fee st"
proof -
  have "lo_fee_hundredth_pips lo = lo_fee_hundredth_pips (limit_orders st)" if "lo_swap sd a l (limit_orders st) = Some (out, a', lo)" for l lo
    using lo_swap_ok [OF lo_reachable_inv [OF reach(1)] a, of sd l] that by (simp add: lo_effect_def)
  moreover have "ro_fee_hundredth_pips ro = ro_fee_hundredth_pips (range_orders st)" if "ro_swap sd a l (range_orders st) = Some (out, a', ro)" for l ro
    using ro_swap_ok [OF ro_reachable_inv [OF reach(2)] a, of sd l] that by (auto simp: ro_swap_post_def)
  ultimately show "limit_order_fee st' = limit_order_fee st" "range_order_fee st' = range_order_fee st"
    using round by (auto simp: inner_swap_round_def swap_with_limit_orders_def swap_with_range_orders_def limit_order_fee_def range_order_fee_def
        split: option.splits if_splits bind_splits)
qed

lemma inner_swap_loop_fees:
  assumes "pool_split st fl fl1 fl2" "a < 2 ^ 256" "inner_swap_loop sd limit (tot, a, st) = Some (tot', a', st')"
  shows "limit_order_fee st' = limit_order_fee st \<and> range_order_fee st' = range_order_fee st"
  using assms
proof (induction sd limit "(tot, a, st)" arbitrary: tot a st fl fl1 fl2 rule: inner_swap_loop.induct)
  case (1 sd limit tot a st)
  note run = 1(4) [unfolded inner_swap_loop.simps [of sd limit tot a st]]
  show ?case
  proof (cases "\<exists>out a1 st1. a \<noteq> 0 \<and> inner_swap_round sd limit a st = Some (Some (out, a1, st1))")
    case True
    then obtain out a1 st1 where round: "a \<noteq> 0" "inner_swap_round sd limit a st = Some (Some (out, a1, st1))" by blast
    obtain fl' fl1' fl2' where split: "a1 \<le> a" "pool_split st1 fl' fl1' fl2'" using swap_round_split [OF 1(2,3) round(2)] by blast
    have reach: "lo_reachable (limit_orders st) fl1" "ro_reachable (range_orders st) fl2" using 1(2) by (simp_all add: pool_split_def)
    have "inner_swap_loop sd limit (usat_add 256 tot out, a1, st1) = Some (tot', a', st')" using run round by simp
    from 1(1) [OF round refl refl refl split(2) le_less_trans [OF split(1) 1(3)] this] swap_round_fees [OF reach 1(3) round(2)]
    show ?thesis by simp
  next
    case False
    then show ?thesis using run by (auto split: if_splits option.splits)
  qed
qed

lemma pool_step_fees:
  fixes st :: "'lp::linorder pool_state"
  assumes "pool_step st fl st' fl'" and split: "pool_split st fl fl1 fl2" and eq: "limit_order_fee st = range_order_fee st"
  shows "limit_order_fee st' = range_order_fee st'"
proof -
  have reach: "lo_reachable (limit_orders st) fl1" using split by (simp add: pool_split_def)
  note inv = lo_reachable_inv [OF reach]
  note fee_defs = limit_order_fee_def range_order_fee_def
  from assms(1) show ?thesis
  proof cases
    case (pool_step_swap a order limit out a')
    then show ?thesis
      using inner_swap_loop_fees [OF split pool_step_swap(2), of _ limit 0 out a' st'] eq
      by (cases order) (auto simp: pool_swap_def inner_swap_def)
  next
    case (pool_step_mint_limit lp order t a c i)
    then show ?thesis
      using eq lo_collect_and_mint_ok [OF inv, of QuoteToBase lp t a] lo_collect_and_mint_ok [OF inv, of BaseToQuote lp t a]
      by (cases order) (auto simp: collect_and_mint_limit_order_def map_sum_def lo_effect_def fee_defs split: bind_splits sum.splits)
  next
    case (pool_step_burn_limit lp order t a amt c i)
    then show ?thesis
      using eq lo_collect_and_burn_ok [OF inv, of QuoteToBase lp t a, where ?'e = unit] lo_collect_and_burn_ok [OF inv, of BaseToQuote lp t a, where ?'e = unit]
      by (cases order) (auto simp: collect_and_burn_limit_order_def map_sum_def lo_effect_def fee_defs split: bind_splits sum.splits)
  next
    case (pool_step_mint_range try_debit lp tick_range sz am m c i)
    then show ?thesis
      using eq by (auto simp: collect_and_mint_range_order_def map_sum_def fee_defs dest: ro_mint_fee split: bind_splits sum.splits)
  next
    case (pool_step_burn_range lp tick_range sz am b c i)
    then show ?thesis
      using eq by (auto simp: collect_and_burn_range_order_def map_sum_def fee_defs dest: ro_burn_fee split: bind_splits sum.splits)
  next
    case (pool_step_set_fees fee m)
    then show ?thesis
      using lo_set_fees_ok [OF inv, of fee]
      by (auto simp: pool_set_fees_def ro_set_fees_def Let_def fee_defs split: bind_splits sum.splits prod.splits if_splits)
  next
    case (pool_step_collect_range xs)
    then show ?thesis
      using eq by (auto simp: collect_all_range_orders_def fee_defs dest: ro_collect_all_fee split: bind_splits)
  next
    case (pool_step_collect_limit m)
    then show ?thesis
      using eq lo_collect_all_ok [OF inv] by (auto simp: collect_all_limit_orders_def fee_defs split: bind_splits)
  qed
qed

lemma pool_reachable_fees: "pool_reachable st fl \<Longrightarrow> limit_order_fee st = range_order_fee st"
proof (induction rule: pool_reachable.induct)
  case (pool_reach_new isqrt fee p st)
  then show ?case
    by (auto simp: pool_new_def lo_new_def ro_new_ok limit_order_fee_def range_order_fee_def split: sum.splits bind_splits if_splits)
next
  case (pool_reach_step st fl st' fl')
  obtain fl1 fl2 where "pool_split st fl fl1 fl2" using pool_reachable_split [OF pool_reach_step(1)] by blast
  then show ?case using pool_step_fees [OF pool_reach_step(2)] pool_reach_step(3) by blast
qed

section \<open>A run of two calls\<close>

definition real_isqrt :: "nat \<Rightarrow> nat" where
  "real_isqrt n = nat \<lfloor>sqrt (real n)\<rfloor>"

lemma real_isqrt_spec: "integer_sqrt_spec real_isqrt"
proof -
  have "(real_isqrt n)\<^sup>2 \<le> n \<and> n < (Suc (real_isqrt n))\<^sup>2" for n
  proof -
    define k where "k = real_isqrt n"
    have k: "real k \<le> sqrt (real n)" "sqrt (real n) < real k + 1"
      by (auto simp: k_def real_isqrt_def of_nat_nat)
    have "(real k)\<^sup>2 \<le> (sqrt (real n))\<^sup>2" using k(1) by (intro power_mono) simp_all
    then have "real (k\<^sup>2) \<le> real n" by simp
    moreover have "(sqrt (real n))\<^sup>2 < (real k + 1)\<^sup>2" using k(2) by (intro power_strict_mono) simp_all
    then have "real n < real ((Suc k)\<^sup>2)" by (simp add: add.commute)
    ultimately show ?thesis unfolding k_def [symmetric] of_nat_le_iff of_nat_less_iff by blast
  qed
  then show ?thesis by (simp add: integer_sqrt_spec_def)
qed

lemma real_isqrt_square: "real_isqrt (k * k) = k"
  by (simp add: real_isqrt_def)

definition pool_ex_range :: "nat range_pool" where
  "pool_ex_range = ro_ex0\<lparr>ro_fee_hundredth_pips := 0\<rparr>"

definition pool_ex0 :: "nat pool_state" where
  "pool_ex0 = \<lparr>limit_orders = lo_ex0, range_orders = pool_ex_range\<rparr>"

definition pool_ex1 :: "nat pool_state" where
  "pool_ex1 = \<lparr>limit_orders = lo_ex1, range_orders = pool_ex_range\<rparr>"

lemma pool_ex_price: "price_to_sqrt_price real_isqrt (2 ^ 128) = 2 ^ 96"
proof -
  have "ushl 512 (2 ^ 128) PRICE_FRACTIONAL_BITS = 2 ^ 128 * (2 ^ 128 :: nat)" by (simp add: ushl_exact PRICE_FRACTIONAL_BITS_def)
  then show ?thesis
    unfolding price_to_sqrt_price_def Let_def
    by (simp only: real_isqrt_square) (simp add: PRICE_FRACTIONAL_BITS_def SQRT_PRICE_FRACTIONAL_BITS_def checked_simps MAX_SQRT_PRICE_def MIN_SQRT_PRICE_def)
qed

lemma pool_ex_new: "pool_new real_isqrt 0 (2 ^ 128) = Some (Inr pool_ex0)"
  using ro_ex_price lo_ex_new
  by (simp add: pool_new_def pool_ex_price [simplified] ro_new_ok ro_validate_fees_def pool_ex0_def pool_ex_range_def ro_ex_defs empty_tick_delta_def)

lemma pool_ex_mint: "collect_and_mint_limit_order 1 Sell 0 6 pool_ex0 = Some (Inr (lo_collected_default, \<lparr>lpi_amount = 6\<rparr>, pool_ex1))"
  by (simp add: collect_and_mint_limit_order_def pool_ex0_def pool_ex1_def lo_ex_mint1 [simplified])

lemma pool_ex_reachable:
  "pool_reachable pool_ex0 ro_no_flows" "pool_reachable pool_ex1 (ro_flow (one_side Base 6) (\<lambda>_. 0) ro_no_flows)"
proof -
  show 0: "pool_reachable pool_ex0 ro_no_flows" using pool_ex_new by (rule pool_reach_new)
  show "pool_reachable pool_ex1 (ro_flow (one_side Base 6) (\<lambda>_. 0) ro_no_flows)"
    using pool_reach_step [OF 0 pool_step_mint_limit [OF pool_ex_mint]] by (simp add: lo_collected_default_def)
qed

definition pool_ex2 :: "nat pool_state" where
  "pool_ex2 = \<lparr>limit_orders = lo_ex2, range_orders = pool_ex_range\<rparr>"

definition pool_ex3 :: "nat pool_state" where
  "pool_ex3 = \<lparr>limit_orders = lo_ex3, range_orders = pool_ex_range\<rparr>"

text \<open>With a limit at the price of the range orders only limit orders at that price take part.\<close>

lemma pool_ex_swap:
  "\<exists>st'. pool_swap Buy 7 (Some (2 ^ 96)) pool_ex1 = Some (6, 1, st')"
  "pool_swap Buy 1 (Some (2 ^ 96)) pool_ex1 = Some (0, 0, pool_ex2)"
  "pool_swap Buy 4 (Some (2 ^ 96)) pool_ex3 = None"
  by (simp_all add: pool_swap_def inner_swap_def inner_swap_loop.simps inner_swap_round_def swap_limit_price_def swap_range_price_def
      swap_with_limit_orders_def lo_current_sqrt_price_def ro_current_sqrt_price_def pool_ex1_def pool_ex2_def pool_ex3_def pool_ex_range_def
      ro_ex0_def ro_ex_pool_def lo_swap_def lo_swap_loop.simps lo_swap_entry_def lo_swap_step_def bt_first_def bt_remove_def opt_filter_def
      lo_ex1_def lo_ex2_def lo_ex3_def lo_ex_pool_def lo_ex_trade1 [simplified] lo_ex_trade2 lo_ex_trade3 usat_add_def umax_def)

lemma pool_ex_mint2: "collect_and_mint_limit_order 2 Sell 0 4 pool_ex2 = Some (Inr (lo_collected_default, \<lparr>lpi_amount = 4\<rparr>, pool_ex3))"
  by (simp add: collect_and_mint_limit_order_def pool_ex2_def pool_ex3_def lo_ex_mint2 [simplified])

lemma pool_ex3_reachable: "\<exists>fl. pool_reachable pool_ex3 fl"
proof -
  have "(1 :: nat) < 2 ^ 256" by simp
  from pool_reach_step [OF pool_reach_step [OF pool_ex_reachable(2) pool_step_swap [OF this pool_ex_swap(2)]] pool_step_mint_limit [OF pool_ex_mint2]]
  show ?thesis by blast
qed

section \<open>Properties\<close>

text \<open>
  C2. Every run of the pool is a run of its limit orders and a run of its range orders, side by
  side: both halves are in states that their own calls reach, what was paid into the pool is what was paid into the
  two halves, and no more was paid out of the pool than out of the halves.
\<close>

theorem pool_run_splits:
  assumes "pool_reachable st fl"
  shows "\<exists>fl1 fl2. lo_reachable (limit_orders st) fl1 \<and> ro_reachable (range_orders st) fl2 \<and>
    (\<forall>s. rf_in fl s = pool_in fl1 fl2 s \<and> rf_out fl s \<le> pool_out fl1 fl2 s)"
  using pool_reachable_split [OF assms] unfolding pool_split_def .

theorem pool_run_splits_witness:
  "\<exists>fl1 fl2. lo_reachable lo_ex1 fl1 \<and> ro_reachable pool_ex_range fl2 \<and> pool_in fl1 fl2 Base = 6"
proof -
  obtain fl1 fl2 where "lo_reachable (limit_orders pool_ex1) fl1" "ro_reachable (range_orders pool_ex1) fl2"
    "\<forall>s. rf_in (ro_flow (one_side Base 6) (\<lambda>_. 0) ro_no_flows) s = pool_in fl1 fl2 s"
    using pool_run_splits [OF pool_ex_reachable(2)] by blast
  moreover from this(3) have "pool_in fl1 fl2 Base = 6"
    by (metis (no_types, lifting) add_0 one_side_def ro_flow_def ro_flows.select_convs(1) ro_no_flows_def)
  ultimately show ?thesis by (auto simp: pool_ex1_def)
qed

text \<open>
  C1. Solvency of the whole pool: whatever sequence of mints, burns, swaps, collections and fee changes was
  made, no more of either asset has left the pool than was paid into it.
\<close>

theorem pool_solvent:
  assumes "pool_reachable st fl"
  shows "rf_out fl s \<le> rf_in fl s"
proof -
  obtain fl1 fl2 where split: "pool_split st fl fl1 fl2" using pool_reachable_split [OF assms] by blast
  have lo: "lo_ledger_inv (limit_orders st) fl1" and ro: "ro_ledger_inv (range_orders st) fl2"
    using split lo_reachable_ledger ro_reachable_ledger by (auto simp: pool_split_def)
  have "lf_withdrawn fl1 (seller s) \<le> lf_deposited fl1 (seller s)" using lo by (auto simp: lo_ledger_inv_def dest: spec [of _ "seller s"])
  moreover have "lf_collected fl1 (payer s) \<le> lf_paid_in fl1 (payer s)"
    using lo lo_owed_nonneg [of "limit_orders st" "payer s"] by (auto simp: lo_ledger_inv_def dest: spec [of _ "payer s"])
  moreover have "rf_out fl2 s \<le> rf_in fl2 s"
    using ro ro_worth_nonneg [of "range_orders st" s] by (auto simp: ro_ledger_inv_def dest: spec [of _ s])
  ultimately have "pool_out fl1 fl2 s \<le> pool_in fl1 fl2 s" by (simp add: pool_in_def pool_out_def)
  then show ?thesis using split by (auto simp: pool_split_def intro: order.trans)
qed

theorem pool_solvent_witness:
  "rf_out (ro_flow (one_side Base 6) (\<lambda>_. 0) ro_no_flows) Base \<le> rf_in (ro_flow (one_side Base 6) (\<lambda>_. 0) ro_no_flows) Base"
  by (rule pool_solvent [OF pool_ex_reachable(2)])

text \<open>
  C22. A swap against the whole pool ends for every input. It returns with the input used up or with neither
  limit orders nor range orders left within the price limit. Or it panics; then rounds of the swap lead from the
  pool to a state in which a round swaps with the limit orders and the new percentage of one of them overflows.
  The range orders never cause a panic.
\<close>

theorem pool_swap_returns:
  fixes st :: "'lp::linorder pool_state"
  assumes "pool_reachable st fl" "a < 2 ^ 256"
  shows "case pool_swap order a limit st of
      Some (out, a', st') \<Rightarrow> a' \<le> a \<and>
        (a' = 0 \<or> swap_limit_price (payer (to_sold_pair order)) limit st' = None \<and> swap_range_price (payer (to_sold_pair order)) limit st' = None)
    | None \<Rightarrow> \<exists>a1 st1. pool_swap_run (payer (to_sold_pair order)) limit (a, st) (a1, st1) \<and>
        limit_round_overflows (payer (to_sold_pair order)) limit a1 st1"
proof -
  obtain fl1 fl2 where "pool_split st fl fl1 fl2" using pool_reachable_split [OF assms(1)] by blast
  then have start: "pool_split st (ro_flow (one_side (input_side sd) (a - a)) (one_side (sold_side sd) 0) fl) fl1 fl2" for sd
    by (simp add: ro_flow_none)
  have run: "pool_swap order a limit st = inner_swap_loop (payer (to_sold_pair order)) limit (0, a, st)"
    by (cases order) (simp_all add: pool_swap_def inner_swap_def)
  show ?thesis unfolding run
    using inner_swap_loop_split [OF start order.refl assms(2), of "payer (to_sold_pair order)" limit] by (auto split: option.splits)
qed

text \<open>Both cases occur: a swap that buys the only order up to the limit, and the panic of the limit orders.\<close>

theorem pool_swap_returns_witness:
  "(\<exists>st'. pool_swap Buy 7 (Some (2 ^ 96)) pool_ex1 = Some (6, 1, st') \<and>
      swap_limit_price QuoteToBase (Some (2 ^ 96)) st' = None \<and> swap_range_price QuoteToBase (Some (2 ^ 96)) st' = None) \<and>
   pool_swap Buy 4 (Some (2 ^ 96)) pool_ex3 = None \<and>
   (\<exists>a1 st1. pool_swap_run QuoteToBase (Some (2 ^ 96)) (4, pool_ex3) (a1, st1) \<and>
      limit_round_overflows QuoteToBase (Some (2 ^ 96)) a1 st1)"
proof -
  have "(7 :: nat) < 2 ^ 256" "(4 :: nat) < 2 ^ 256" by simp_all
  obtain fl where "pool_reachable pool_ex3 fl" using pool_ex3_reachable by blast
  note ok = pool_swap_returns [OF pool_ex_reachable(2) \<open>7 < 2 ^ 256\<close>, of Buy "Some (2 ^ 96)"]
    pool_swap_returns [OF this \<open>4 < 2 ^ 256\<close>, of Buy "Some (2 ^ 96)"]
  obtain st' where st': "pool_swap Buy 7 (Some (2 ^ 96)) pool_ex1 = Some (6, 1, st')" using pool_ex_swap(1) by blast
  show ?thesis using ok pool_ex_swap(3) unfolding st' by auto
qed

text \<open>
  The limit orders and the range orders of a pool always charge the same fee, at most one half, although
  they store it separately and \<open>set_fees\<close> changes one before the other.
\<close>

theorem pool_fees_in_sync:
  assumes "pool_reachable st fl"
  shows "limit_order_fee st = range_order_fee st \<and> range_order_fee st \<le> MAX_LP_FEE"
proof -
  obtain fl1 fl2 where "pool_split st fl fl1 fl2" using pool_reachable_split [OF assms] by blast
  then have "ro_inv (range_orders st)" using ro_reachable_inv by (auto simp: pool_split_def)
  then show ?thesis using pool_reachable_fees [OF assms] ro_invD(1) by (auto simp: range_order_fee_def)
qed

theorem pool_fees_in_sync_witness: "limit_order_fee pool_ex1 = range_order_fee pool_ex1"
  using pool_fees_in_sync [OF pool_ex_reachable(2)] by simp

text \<open>
  C29. \<open>set_fees\<close> changes both halves or neither: it never panics on a reachable pool, and if it returns an
  error the pool is as it was.
\<close>

theorem pool_set_fees_atomic:
  fixes st :: "'lp::linorder pool_state"
  assumes "pool_reachable st fl"
  shows "\<exists>r (st' :: 'lp pool_state). pool_set_fees fee st = Some (r, st') \<and>
    (if pool_validate_fees fee then (\<exists>m. r = Inr m) \<and> limit_order_fee st' = fee \<and> range_order_fee st' = fee
     else r = Inl SetFeesInvalidFeeAmount \<and> st' = st)"
proof -
  obtain fl1 fl2 where "pool_split st fl fl1 fl2" using pool_reachable_split [OF assms] by blast
  then have "lo_inv (limit_orders st)" using lo_reachable_inv by (auto simp: pool_split_def)
  from lo_collect_all_ok [OF this] show ?thesis
    by (auto simp: pool_set_fees_def ro_set_fees_def ro_validate_fees_def lo_validate_fees_def pool_validate_fees_def Let_def
        limit_order_fee_def range_order_fee_def lo_set_fees_def split: sum.splits bind_splits)
qed

theorem pool_set_fees_atomic_witness:
  "\<exists>r (st' :: nat pool_state). pool_set_fees 600000 pool_ex1 = Some (r, st') \<and> r = Inl SetFeesInvalidFeeAmount \<and> st' = pool_ex1"
  using pool_set_fees_atomic [OF pool_ex_reachable(2), of 600000]
  by (simp add: pool_validate_fees_def lo_validate_fees_def MAX_LP_FEE_def ONE_IN_HUNDREDTH_PIPS_def)

lemma price_of_differs:
  assumes "0 < s" "s \<noteq> 2 ^ 64"
  shows "price_of s \<noteq> s"
proof
  assume "price_of s = s"
  then have "s * 2 ^ 64 \<le> s * s" "s * s < (s + 1) * 2 ^ 64"
    unfolding price_of_def using div_times_less_eq_dividend [of "s * s" "2 ^ 64"] dividend_less_div_times [of "2 ^ 64" "s * s"] by simp_all
  then have "2 ^ 64 \<le> s" using assms(1) by simp
  then obtain k where k: "s = 2 ^ 64 + k" using le_Suc_ex by blast
  then have "1 \<le> k" using assms(2) by (cases k) auto
  then have "s * (2 ^ 64 + 1) \<le> s * s" using k by (intro mult_left_mono) auto
  then have "s * 2 ^ 64 + s \<le> s * s" by (simp only: distrib_left mult_1_right)
  moreover have "s * s < s * 2 ^ 64 + 2 ^ 64" using \<open>s * s < (s + 1) * 2 ^ 64\<close> by (simp only: distrib_right mult_1_left)
  ultimately show False using \<open>2 ^ 64 \<le> s\<close> by linarith
qed

text \<open>
  C40. \<open>limit_order_depth\<close> and \<open>range_order_depth\<close> report prices in different units. On every pool and for every valid
  range of ticks both return without a panic. For each asset the first reports the square root price of the best limit
  orders as it is, the second the price of the range orders, which is the square of their square root price. So
  where both have the same square root price, the reported prices differ, unless it is \<open>2 ^ 64\<close>, the only one that equals its price.
\<close>

theorem limit_order_depth_not_a_price:
  fixes st :: "'lp::linorder pool_state"
  assumes "pool_reachable st fl" "is_tick_valid t0" "is_tick_valid t1" "t0 \<le> t1"
  shows "\<exists>d r. limit_order_depth (t0, t1) st = Some (Inr d) \<and> range_order_depth (t0, t1) st = Some (Inr r) \<and>
    (\<forall>sd. fst (pp_index d (sold_side sd)) = lo_current_sqrt_price sd (limit_orders st) \<and>
       fst (pp_index r (sold_side sd)) = map_option price_of (ro_current_sqrt_price sd (range_orders st)) \<and>
       (\<forall>s. s \<noteq> 2 ^ 64 \<and> lo_current_sqrt_price sd (limit_orders st) = Some s \<and> ro_current_sqrt_price sd (range_orders st) = Some s
          \<longrightarrow> fst (pp_index d (sold_side sd)) \<noteq> fst (pp_index r (sold_side sd))))"
proof -
  obtain fl1 fl2 where "pool_split st fl fl1 fl2" using pool_reachable_split [OF assms(1)] by blast
  then have inv: "lo_inv (limit_orders st)" "ro_inv (range_orders st)"
    using lo_reachable_inv ro_reachable_inv by (auto simp: pool_split_def)
  obtain b q where d: "limit_order_depth (t0, t1) st = Some (Inr \<lparr>base = (lo_current_sqrt_price QuoteToBase (limit_orders st), b),
      quote = (lo_current_sqrt_price BaseToQuote (limit_orders st), q)\<rparr>)"
    using lo_depth_ok [OF inv(1) tick_price_eq [OF assms(2)] tick_price_eq [OF assms(3)]] assms(4) by (simp add: limit_order_depth_def)
  have valid: "is_sqrt_price_valid (ro_sqrt_price (range_orders st))" using ro_invD(2) [OF inv(2)] by (simp add: ro_price_inv_def)
  then have pos: "0 < ro_sqrt_price (range_orders st)" by (simp add: is_sqrt_price_valid_def MIN_SQRT_PRICE_def)
  have opt: "optional_price (ro_current_sqrt_price sd (range_orders st)) = Some (map_option price_of (ro_current_sqrt_price sd (range_orders st)))" for sd
    using sqrt_price_to_price_Some(1) [OF valid] by (simp add: optional_price_def ro_current_sqrt_price_def price_of_def)
  obtain r where r: "ro_depth t0 t1 (range_orders st) = Some (Inr r)"
    using ro_depth_ok [OF inv(2), of t0 t1] assms(2-4) by (auto simp: ro_depth_def split: bind_splits)
  then have r': "range_order_depth (t0, t1) st = Some (Inr
      \<lparr>base = (map_option price_of (ro_current_sqrt_price QuoteToBase (range_orders st)), pp_index r Base),
       quote = (map_option price_of (ro_current_sqrt_price BaseToQuote (range_orders st)), pp_index r Quote)\<rparr>)"
    by (simp add: range_order_depth_def opt)
  have "s \<noteq> price_of s" if "s \<noteq> 2 ^ 64" "ro_current_sqrt_price sd (range_orders st) = Some s" for s sd
    using price_of_differs [OF _ that(1)] that(2) pos by (fastforce simp: ro_current_sqrt_price_def split: if_splits)
  moreover have "fst (pp_index \<lparr>base = (lo_current_sqrt_price QuoteToBase (limit_orders st), x), quote = (lo_current_sqrt_price BaseToQuote (limit_orders st), y)\<rparr>
      (sold_side sd)) = lo_current_sqrt_price sd (limit_orders st)"
    "fst (pp_index \<lparr>base = (map_option price_of (ro_current_sqrt_price QuoteToBase (range_orders st)), x),
        quote = (map_option price_of (ro_current_sqrt_price BaseToQuote (range_orders st)), y)\<rparr> (sold_side sd))
      = map_option price_of (ro_current_sqrt_price sd (range_orders st))"
    for x y :: nat and sd by (cases sd; simp)+
  ultimately show ?thesis unfolding d r' by (intro exI conjI refl allI) auto
qed

text \<open>In the pool with an order of 6 at tick 0 the limit orders report \<open>2 ^ 96\<close> and the range orders \<open>2 ^ 128\<close>.\<close>

theorem limit_order_depth_not_a_price_witness:
  "\<exists>d r. limit_order_depth (0, MAX_TICK) pool_ex1 = Some (Inr d) \<and> range_order_depth (0, MAX_TICK) pool_ex1 = Some (Inr r) \<and>
     fst (base d) = Some (2 ^ 96) \<and> fst (base r) = Some (2 ^ 128) \<and> fst (quote d) = None"
proof -
  have v: "is_tick_valid 0" "is_tick_valid MAX_TICK" "0 \<le> MAX_TICK" by (simp_all add: is_tick_valid_def MIN_TICK_def MAX_TICK_def)
  have lo: "lo_current_sqrt_price QuoteToBase (limit_orders pool_ex1) = Some (2 ^ 96)" "lo_current_sqrt_price BaseToQuote (limit_orders pool_ex1) = None"
    by (simp_all add: lo_current_sqrt_price_def pool_ex1_def lo_ex1_def lo_ex_pool_def bt_first_def bt_last_def)
  have ro: "ro_current_sqrt_price QuoteToBase (range_orders pool_ex1) = Some (2 ^ 96)"
    by (simp add: ro_current_sqrt_price_def pool_ex1_def pool_ex_range_def ro_ex0_def ro_ex_pool_def MIN_TICK_def MAX_TICK_def)
  have "price_of (2 ^ 96) = 2 ^ 128" by (simp add: price_of_def)
  moreover obtain d r where "limit_order_depth (0, MAX_TICK) pool_ex1 = Some (Inr d)" "range_order_depth (0, MAX_TICK) pool_ex1 = Some (Inr r)"
    and "\<And>sd. fst (pp_index d (sold_side sd)) = lo_current_sqrt_price sd (limit_orders pool_ex1)"
      "\<And>sd. fst (pp_index r (sold_side sd)) = map_option price_of (ro_current_sqrt_price sd (range_orders pool_ex1))"
    using limit_order_depth_not_a_price [OF pool_ex_reachable(2) v] by blast
  from this(1,2) this(3) [of QuoteToBase] this(3) [of BaseToQuote] this(4) [of QuoteToBase] lo ro calculation show ?thesis
    by simp
qed

end
