(* ===== verification/CF_Maps.thy ===== *)
theory CF_Maps
  imports CF_Prelude
begin

text \<open>
  Further facts on maps for the pallets: sums of natural numbers over the entries of a
  \<open>BTreeMap\<close>, where an entry is inserted, replaced or removed, and the \<open>log_or_panic!\<close>
  macro (\<open>src/state-chain/runtime-utilities/src/lib.rs\<close>).
\<close>

named_theorems map_sums \<open>how the sum over a map changes when an entry changes\<close>

definition log_or_panic :: "bool \<Rightarrow> unit option" where
  "log_or_panic debug_assertions = (if debug_assertions then None else Some ())"

lemma log_or_panic_simps [simp]:
  "log_or_panic True = None"
  "log_or_panic False = Some ()"
  by (simp_all add: log_or_panic_def)

section \<open>Sums over a map\<close>

lemma bt_sum_insert_nat [map_sums]:
  fixes f :: "'k::linorder \<Rightarrow> 'v \<Rightarrow> nat"
  assumes "bt_wf m"
  shows "bt_sum f (bt_insert k v m) + (case bt_get m k of None \<Rightarrow> 0 | Some w \<Rightarrow> f k w)
    = bt_sum f m + f k v"
proof -
  have "int (bt_sum f (bt_insert k v m)) + (case bt_get m k of None \<Rightarrow> 0 | Some w \<Rightarrow> int (f k w))
    = int (bt_sum f m) + int (f k v)"
    by (simp add: of_nat_bt_sum bt_sum_insert [OF assms])
  then show ?thesis by (cases "bt_get m k") (simp_all flip: of_nat_add)
qed

lemma bt_sum_remove_nat [map_sums]:
  fixes f :: "'k::linorder \<Rightarrow> 'v \<Rightarrow> nat"
  assumes "bt_wf m"
  shows "bt_sum f (bt_remove k m) + (case bt_get m k of None \<Rightarrow> 0 | Some w \<Rightarrow> f k w) = bt_sum f m"
proof -
  have "int (bt_sum f (bt_remove k m)) + (case bt_get m k of None \<Rightarrow> 0 | Some w \<Rightarrow> int (f k w))
    = int (bt_sum f m)"
    by (simp add: of_nat_bt_sum bt_sum_remove [OF assms] split: option.splits)
  then show ?thesis by (cases "bt_get m k") (simp_all flip: of_nat_add)
qed

lemma bt_sum_get_le:
  fixes f :: "'k::linorder \<Rightarrow> 'v \<Rightarrow> nat"
  shows "bt_get m k = Some v \<Longrightarrow> f k v \<le> bt_sum f m"
  by (induction m) (auto split: if_splits)

lemma bt_get_map_value: "bt_get (map (\<lambda>(k, v). (k, f k v)) m) k = map_option (f k) (bt_get m k)"
  by (induction m) auto

lemma bt_wf_map_value: "bt_wf (map (\<lambda>(k, v). (k, f k v)) m) = bt_wf m"
  by (simp add: bt_wf_def comp_def case_prod_beta)

lemma bt_wf_keys: "map fst m' = map fst m \<Longrightarrow> bt_wf m' = bt_wf m"
  by (simp add: bt_wf_def)

lemma bt_keys_same: "map fst m' = map fst m \<Longrightarrow> fst ` set m' = fst ` set m"
  by (metis set_map)

lemma bt_remove_absent: "bt_get m k = None \<Longrightarrow> bt_remove k m = m"
  by (force simp: bt_remove_def bt_get_None_iff filter_id_conv)

end
