(* ===== verification/Boost_Pool.thy ===== *)
theory Boost_Pool
  imports CF_Maps
begin

text \<open>
  The boost pool of the ingress-egress pallet
  (\<open>src/state-chain/pallets/cf-ingress-egress/src/boost_pool.rs\<close>). Boosters lend their
  funds so that a deposit can be used before it is final; when it is final each of them is
  credited with their part of it and of the fee.

  The width of the chain's amounts is the first argument of the operations that return
  one. The code of \<open>sp_runtime\<close> and \<open>nanorand\<close> that the pool calls is collected in a
  record: the product of a \<open>Permill\<close> and an amount, the rounded product with a rational,
  and the random index drawn from a seed. \<open>boost_lib_ok\<close> states what their
  documentation promises.
\<close>

named_theorems boost_defs \<open>definitions of the boost pool\<close>

section \<open>Library code\<close>

datatype rounding = RoundUp | RoundDown

record boost_lib =
  permill_mul :: "nat \<Rightarrow> nat \<Rightarrow> nat"
  mul_rational :: "nat \<Rightarrow> nat \<Rightarrow> nat \<Rightarrow> rounding \<Rightarrow> nat option"
  wyrand_range :: "nat \<Rightarrow> nat \<Rightarrow> nat"

text \<open>
  A \<open>Permill\<close> is a part of at most one, so its product is not above the amount. The
  rational product is exact up to the rounding asked for and is \<open>None\<close> when the
  denominator is zero or the result does not fit 128 bits. An index drawn from a
  non-empty range lies in it.
\<close>

definition boost_lib_ok :: "boost_lib \<Rightarrow> bool" where
  "boost_lib_ok L \<longleftrightarrow>
     (\<forall>parts a. permill_mul L parts a \<le> a) \<and>
     (\<forall>a b c r. mul_rational L a b c r =
        (if c = 0 then None
         else uconv 128 (case r of RoundUp \<Rightarrow> div_ceil (a * b) c | RoundDown \<Rightarrow> a * b div c))) \<and>
     (\<forall>seed n. 0 < n \<longrightarrow> wyrand_range L seed n < n)"

section \<open>Scaled amounts\<close>

definition SCALE_FACTOR :: nat where
  "SCALE_FACTOR = 1000"

definition from_chain_amount :: "nat \<Rightarrow> nat" where
  [boost_defs]: "from_chain_amount amount = usat_mul 128 (min amount (umax 128)) SCALE_FACTOR"

definition into_chain_amount :: "nat \<Rightarrow> nat \<Rightarrow> nat" where
  [boost_defs]: "into_chain_amount w v = min (v div SCALE_FACTOR) (umax w)"

definition scaled_checked_sub :: "nat \<Rightarrow> nat \<Rightarrow> nat option" where
  [boost_defs]: "scaled_checked_sub a b = usub a b"

definition scaled_saturating_sub :: "nat \<Rightarrow> nat \<Rightarrow> nat" where
  [boost_defs]: "scaled_saturating_sub a b = a - b"

definition scaled_saturating_add :: "nat \<Rightarrow> nat \<Rightarrow> nat" where
  [boost_defs]: "scaled_saturating_add a b = usat_add 128 a b"

definition scaled_saturating_accrue :: "nat \<Rightarrow> nat \<Rightarrow> nat" where
  [boost_defs]: "scaled_saturating_accrue self rhs = usat_add 128 self rhs"

definition scaled_saturating_reduce :: "nat \<Rightarrow> nat \<Rightarrow> nat" where
  [boost_defs]: "scaled_saturating_reduce self rhs = self - rhs"

record owed_amount =
  owed_total :: nat
  owed_fee :: nat

section \<open>Fees\<close>

definition BASIS_POINTS_PER_MILLION :: nat where
  "BASIS_POINTS_PER_MILLION = 100"

definition fee_from_boosted_amount :: "boost_lib \<Rightarrow> nat \<Rightarrow> nat \<Rightarrow> nat" where
  "fee_from_boosted_amount L amount_to_boost fee_bps =
     permill_mul L (fee_bps * BASIS_POINTS_PER_MILLION) amount_to_boost"

definition BASIS_POINTS_MAX :: nat where
  "BASIS_POINTS_MAX = 10000"

definition fee_from_provided_amount :: "boost_lib \<Rightarrow> nat \<Rightarrow> nat \<Rightarrow> string + nat" where
  "fee_from_provided_amount L provided_amount fee_bps =
     (let inverse_fee = BASIS_POINTS_MAX - fee_bps in
      case mul_rational L provided_amount BASIS_POINTS_MAX inverse_fee RoundDown of
        None \<Rightarrow> Inl ''invalid fee''
      | Some boosted_amount \<Rightarrow>
          (case usub boosted_amount provided_amount of
             None \<Rightarrow> Inl ''invalid fee''
           | Some fee_amount \<Rightarrow> Inr fee_amount))"

section \<open>The pool\<close>

type_synonym deposit_id = nat

record 'a boost_pool =
  bp_fee_bps :: nat
  bp_available :: nat
  bp_amounts :: "('a, nat) btree_map"
  bp_pending_boosts :: "(deposit_id, ('a, owed_amount) btree_map) btree_map"
  bp_pending_withdrawals :: "('a, deposit_id set) btree_map"

definition bp_new :: "nat \<Rightarrow> 'a boost_pool" where
  "bp_new fee_bps = \<lparr>bp_fee_bps = fee_bps, bp_available = 0, bp_amounts = [],
     bp_pending_boosts = [], bp_pending_withdrawals = []\<rparr>"

definition add_funds_inner :: "'a::linorder \<Rightarrow> nat \<Rightarrow> 'a boost_pool \<Rightarrow> 'a boost_pool" where
  "add_funds_inner booster_id added_amount p =
     p\<lparr>bp_pending_withdrawals := bt_remove booster_id (bp_pending_withdrawals p),
       bp_amounts := bt_insert booster_id
         (scaled_saturating_accrue (case bt_get (bp_amounts p) booster_id of None \<Rightarrow> 0 | Some a \<Rightarrow> a)
            added_amount) (bp_amounts p),
       bp_available := scaled_saturating_accrue (bp_available p) added_amount\<rparr>"

definition add_funds :: "'a::linorder \<Rightarrow> nat \<Rightarrow> 'a boost_pool \<Rightarrow> 'a boost_pool" where
  "add_funds booster_id added_amount p =
     add_funds_inner booster_id (from_chain_amount added_amount) p"

definition get_available_amount :: "nat \<Rightarrow> 'a boost_pool \<Rightarrow> nat" where
  "get_available_amount w p = into_chain_amount w (bp_available p)"

definition get_amounts :: "nat \<Rightarrow> 'a boost_pool \<Rightarrow> ('a, nat) btree_map" where
  "get_amounts w p = map (\<lambda>(account_id, scaled_amount).
     (account_id, into_chain_amount w scaled_amount)) (bp_amounts p)"

definition get_pending_boosts ::
  "nat \<Rightarrow> 'a boost_pool \<Rightarrow> (deposit_id, ('a, owed_amount) btree_map) btree_map" where
  "get_pending_boosts w p = map (\<lambda>(deposit_id, owed_amounts_map).
     (deposit_id, map (\<lambda>(account_id, owed_amount).
        (account_id, \<lparr>owed_total = into_chain_amount w (owed_total owed_amount),
                      owed_fee = into_chain_amount w (owed_fee owed_amount)\<rparr>)) owed_amounts_map))
     (bp_pending_boosts p)"

definition get_pending_withdrawals :: "'a boost_pool \<Rightarrow> ('a, deposit_id set) btree_map" where
  "get_pending_withdrawals p = bp_pending_withdrawals p"

subsection \<open>Boosting\<close>

text \<open>
  The closure of \<open>use_funds_for_boosting\<close> over the boosters: the new amounts, the
  amounts to receive, and the two running totals.
\<close>

fun boost_shares ::
  "boost_lib \<Rightarrow> nat \<Rightarrow> nat \<Rightarrow> nat \<Rightarrow> ('a \<times> nat) list \<Rightarrow> nat \<Rightarrow> nat \<Rightarrow>
   ('a \<times> nat) list \<times> ('a \<times> owed_amount) list \<times> nat \<times> nat" where
  "boost_shares L required_amount amount_to_receive total_available [] total_contributed
     to_receive_recorded = ([], [], total_contributed, to_receive_recorded)"
| "boost_shares L required_amount amount_to_receive total_available ((booster_id, amount) # rest)
     total_contributed to_receive_recorded =
     (let booster_contribution =
            (case mul_rational L required_amount amount total_available RoundUp of
               None \<Rightarrow> 0 | Some v \<Rightarrow> v);
          booster_to_receive =
            (case mul_rational L amount_to_receive amount total_available RoundDown of
               None \<Rightarrow> 0 | Some v \<Rightarrow> v);
          booster_fee = scaled_saturating_sub booster_to_receive booster_contribution;
          amount' = scaled_saturating_reduce amount booster_contribution;
          (amounts', owed, tc, tr) =
            boost_shares L required_amount amount_to_receive total_available rest
              (scaled_saturating_accrue total_contributed booster_contribution)
              (scaled_saturating_accrue to_receive_recorded booster_to_receive)
      in ((booster_id, amount') # amounts',
          (booster_id, \<lparr>owed_total = booster_to_receive, owed_fee = booster_fee\<rparr>) # owed, tc, tr))"

text \<open>The lucky booster receives what rounding left over.\<close>

definition credit_lucky ::
  "nat \<Rightarrow> nat \<Rightarrow> nat \<Rightarrow> ('a::linorder, nat) btree_map \<Rightarrow> ('a, owed_amount) btree_map \<Rightarrow>
   ('a, nat) btree_map \<times> ('a, owed_amount) btree_map" where
  "credit_lucky lucky_index excess_contributed remaining_to_receive amounts boosters_to_receive =
     (if lucky_index < length amounts then
        let (lucky_id, amount) = amounts ! lucky_index in
        (amounts[lucky_index := (lucky_id, scaled_saturating_accrue amount excess_contributed)],
         case bt_get boosters_to_receive lucky_id of
           None \<Rightarrow> boosters_to_receive
         | Some owed \<Rightarrow> bt_insert lucky_id
             \<lparr>owed_total = scaled_saturating_accrue (owed_total owed) remaining_to_receive,
              owed_fee = scaled_saturating_accrue (owed_fee owed) remaining_to_receive\<rparr>
             boosters_to_receive)
      else (amounts, boosters_to_receive))"

definition use_funds_for_boosting ::
  "boost_lib \<Rightarrow> deposit_id \<Rightarrow> nat \<Rightarrow> nat \<Rightarrow> 'a::linorder boost_pool \<Rightarrow> (string + unit) \<times> 'a boost_pool"
where
  "use_funds_for_boosting L deposit_id required_amount boost_fee p =
     (let total_available = bp_available p in
      case scaled_checked_sub total_available required_amount of
        None \<Rightarrow> (Inl ''Not enough available funds'', p)
      | Some available \<Rightarrow>
          let amount_to_receive = scaled_saturating_add required_amount boost_fee;
              (amounts, boosters_to_receive, total_contributed, to_receive_recorded) =
                boost_shares L required_amount amount_to_receive total_available (bp_amounts p) 0 0;
              excess_contributed = scaled_saturating_sub total_contributed required_amount;
              remaining_to_receive = scaled_saturating_sub amount_to_receive to_receive_recorded;
              lucky_index = wyrand_range L deposit_id (length amounts);
              (amounts', boosters_to_receive') =
                credit_lucky lucky_index excess_contributed remaining_to_receive
                  amounts boosters_to_receive;
              p' = p\<lparr>bp_available := available, bp_amounts := amounts'\<rparr>
          in (case bt_get (bp_pending_boosts p') deposit_id of
                Some _ \<Rightarrow> (Inl ''Pending boost id already exists'', p')
              | None \<Rightarrow> (Inr (), p'\<lparr>bp_pending_boosts :=
                  bt_insert deposit_id boosters_to_receive' (bp_pending_boosts p')\<rparr>)))"

definition provide_funds_for_boosting ::
  "boost_lib \<Rightarrow> nat \<Rightarrow> deposit_id \<Rightarrow> nat \<Rightarrow> 'a::linorder boost_pool \<Rightarrow>
   (string + nat \<times> nat) \<times> 'a boost_pool" where
  "provide_funds_for_boosting L w deposit_id amount_to_boost p =
     (let amount_to_boost = from_chain_amount amount_to_boost;
          full_amount_fee = fee_from_boosted_amount L amount_to_boost (bp_fee_bps p);
          required_amount = scaled_saturating_sub amount_to_boost full_amount_fee
      in case (if required_amount \<le> bp_available p then Inr (required_amount, full_amount_fee)
               else case fee_from_provided_amount L (bp_available p) (bp_fee_bps p) of
                      Inl e \<Rightarrow> Inl e
                    | Inr fee \<Rightarrow> Inr (bp_available p, fee)) of
           Inl e \<Rightarrow> (Inl e, p)
         | Inr (provided_amount, fee_amount) \<Rightarrow>
             (case use_funds_for_boosting L deposit_id provided_amount fee_amount p of
                (Inl e, p') \<Rightarrow> (Inl e, p')
              | (Inr _, p') \<Rightarrow>
                  (Inr (into_chain_amount w (scaled_saturating_add provided_amount fee_amount),
                        into_chain_amount w fee_amount), p')))"

subsection \<open>The end of a boost\<close>

text \<open>\<open>pending_deposits.remove\<close>, and the entry dropped once it is empty.\<close>

definition settle_withdrawal ::
  "deposit_id \<Rightarrow> 'a::linorder \<Rightarrow> deposit_id set \<Rightarrow> 'a boost_pool \<Rightarrow> 'a boost_pool" where
  "settle_withdrawal deposit_id booster_id pending_deposits p =
     (let pending_deposits' = pending_deposits - {deposit_id} in
      p\<lparr>bp_pending_withdrawals :=
          (if pending_deposits' = {} then bt_remove booster_id (bp_pending_withdrawals p)
           else bt_insert booster_id pending_deposits' (bp_pending_withdrawals p))\<rparr>)"

fun finalise_boosters ::
  "nat \<Rightarrow> deposit_id \<Rightarrow> ('a::linorder \<times> owed_amount) list \<Rightarrow> 'a boost_pool \<Rightarrow>
   ('a \<times> nat) list \<times> 'a boost_pool" where
  "finalise_boosters w deposit_id [] p = ([], p)"
| "finalise_boosters w deposit_id ((booster_id, amount) # rest) p =
     (case bt_get (bp_pending_withdrawals p) booster_id of
        Some pending_deposits \<Rightarrow>
          (let (unlocked_funds, p') =
                 finalise_boosters w deposit_id rest
                   (settle_withdrawal deposit_id booster_id pending_deposits p)
           in ((booster_id, into_chain_amount w (owed_total amount)) # unlocked_funds, p'))
      | None \<Rightarrow>
          finalise_boosters w deposit_id rest (add_funds_inner booster_id (owed_total amount) p))"

definition process_deposit_as_finalised ::
  "nat \<Rightarrow> deposit_id \<Rightarrow> 'a::linorder boost_pool \<Rightarrow> ('a \<times> nat) list \<times> 'a boost_pool" where
  "process_deposit_as_finalised w deposit_id p =
     (case bt_get (bp_pending_boosts p) deposit_id of
        None \<Rightarrow> ([], p)
      | Some boost_contributions \<Rightarrow>
          finalise_boosters w deposit_id boost_contributions
            (p\<lparr>bp_pending_boosts := bt_remove deposit_id (bp_pending_boosts p)\<rparr>))"

fun lose_boosters ::
  "deposit_id \<Rightarrow> ('a::linorder \<times> owed_amount) list \<Rightarrow> 'a boost_pool \<Rightarrow> 'a boost_pool" where
  "lose_boosters deposit_id [] p = p"
| "lose_boosters deposit_id ((booster_id, _) # rest) p =
     lose_boosters deposit_id rest
       (case bt_get (bp_pending_withdrawals p) booster_id of
          Some pending_deposits \<Rightarrow> settle_withdrawal deposit_id booster_id pending_deposits p
        | None \<Rightarrow> p)"

definition process_deposit_as_lost ::
  "bool \<Rightarrow> deposit_id \<Rightarrow> 'a::linorder boost_pool \<Rightarrow> (nat \<times> 'a boost_pool) option" where
  "process_deposit_as_lost debug_assertions deposit_id p =
     (case bt_get (bp_pending_boosts p) deposit_id of
        None \<Rightarrow> do { log_or_panic debug_assertions; Some (0, p) }
      | Some booster_contributions \<Rightarrow>
          Some (length booster_contributions,
            lose_boosters deposit_id booster_contributions
              (p\<lparr>bp_pending_boosts := bt_remove deposit_id (bp_pending_boosts p)\<rparr>)))"

definition pending_deposits_of ::
  "'a::linorder \<Rightarrow> (deposit_id, ('a, owed_amount) btree_map) btree_map \<Rightarrow> deposit_id set" where
  "pending_deposits_of booster_id pending_boosts =
     set (map fst (filter (\<lambda>(_, owed_amounts). bt_get owed_amounts booster_id \<noteq> None) pending_boosts))"

definition stop_boosting ::
  "nat \<Rightarrow> 'a::linorder \<Rightarrow> 'a boost_pool \<Rightarrow> (string + nat \<times> deposit_id set) \<times> 'a boost_pool" where
  "stop_boosting w booster_id p =
     (case bt_get (bp_amounts p) booster_id of
        None \<Rightarrow> (Inl ''Account not found in boost pool'', p)
      | Some booster_active_amount \<Rightarrow>
          let p' = p\<lparr>bp_amounts := bt_remove booster_id (bp_amounts p),
                     bp_available := scaled_saturating_reduce (bp_available p) booster_active_amount\<rparr>;
              pending_deposits = pending_deposits_of booster_id (bp_pending_boosts p');
              p'' = (if pending_deposits \<noteq> {}
                     then p'\<lparr>bp_pending_withdrawals :=
                       bt_insert booster_id pending_deposits (bp_pending_withdrawals p')\<rparr>
                     else p')
          in (Inr (into_chain_amount w booster_active_amount, pending_deposits), p''))"

section \<open>Shares\<close>

lemma SCALE_FACTOR_pos [simp]: "0 < SCALE_FACTOR"
  by (simp add: SCALE_FACTOR_def)

text \<open>The two rounded shares of a booster in a boost.\<close>

definition contribution_of :: "boost_lib \<Rightarrow> nat \<Rightarrow> nat \<Rightarrow> nat \<Rightarrow> nat" where
  "contribution_of L required tot amount =
     (case mul_rational L required amount tot RoundUp of None \<Rightarrow> 0 | Some v \<Rightarrow> v)"

definition receipt_of :: "boost_lib \<Rightarrow> nat \<Rightarrow> nat \<Rightarrow> nat \<Rightarrow> nat" where
  "receipt_of L to_receive tot amount =
     (case mul_rational L to_receive amount tot RoundDown of None \<Rightarrow> 0 | Some v \<Rightarrow> v)"

lemma boost_lib_okD:
  assumes "boost_lib_ok L"
  shows "permill_mul L parts a \<le> a"
    and "mul_rational L a b c RoundUp = (if c = 0 then None else uconv 128 (div_ceil (a * b) c))"
    and "mul_rational L a b c RoundDown = (if c = 0 then None else uconv 128 (a * b div c))"
    and "0 < n \<Longrightarrow> wyrand_range L seed n < n"
  using assms by (simp_all add: boost_lib_ok_def)

lemma contribution_of_eq:
  assumes "boost_lib_ok L" "required \<le> tot" "amount < 2 ^ 128"
  shows "contribution_of L required tot amount = (if tot = 0 then 0 else div_ceil (required * amount) tot)"
    and "contribution_of L required tot amount \<le> amount"
proof -
  have "div_ceil (required * amount) tot \<le> amount" if "0 < tot"
    using that assms(2) by (simp add: div_ceil_le_iff mult.commute)
  moreover from this have "div_ceil (required * amount) tot < 2 ^ 128" if "0 < tot"
    using that assms(3) by (meson le_less_trans)
  ultimately show "contribution_of L required tot amount = (if tot = 0 then 0 else div_ceil (required * amount) tot)"
    and "contribution_of L required tot amount \<le> amount"
    using boost_lib_okD(2) [OF assms(1)] by (simp_all add: contribution_of_def uconv_def)
qed

lemma receipt_of_eq:
  assumes "boost_lib_ok L" "amount \<le> tot" "to_receive < 2 ^ 128"
  shows "receipt_of L to_receive tot amount = (if tot = 0 then 0 else to_receive * amount div tot)"
    and "receipt_of L to_receive tot amount \<le> to_receive"
proof -
  have "to_receive * amount div tot \<le> to_receive" if "0 < tot"
    using that assms(2) by (metis div_le_mono nonzero_mult_div_cancel_right mult_le_mono2 less_numeral_extra(3))
  moreover from this have "to_receive * amount div tot < 2 ^ 128" if "0 < tot"
    using that assms(3) by (meson le_less_trans)
  ultimately show "receipt_of L to_receive tot amount = (if tot = 0 then 0 else to_receive * amount div tot)"
    and "receipt_of L to_receive tot amount \<le> to_receive"
    using boost_lib_okD(3) [OF assms(1)] by (simp_all add: receipt_of_def uconv_def)
qed

lemma boost_shares_Cons:
  "boost_shares L req rcv tot ((b, a) # rest) tc tr =
     (let (amounts', owed, tc', tr') = boost_shares L req rcv tot rest
            (usat_add 128 tc (contribution_of L req tot a)) (usat_add 128 tr (receipt_of L rcv tot a))
      in ((b, a - contribution_of L req tot a) # amounts',
          (b, \<lparr>owed_total = receipt_of L rcv tot a,
               owed_fee = receipt_of L rcv tot a - contribution_of L req tot a\<rparr>) # owed, tc', tr'))"
  by (simp add: contribution_of_def receipt_of_def boost_defs Let_def)

text \<open>Without saturation, the loop is two maps and two sums.\<close>

abbreviation owed_of :: "boost_lib \<Rightarrow> nat \<Rightarrow> nat \<Rightarrow> nat \<Rightarrow> nat \<Rightarrow> owed_amount" where
  "owed_of L req rcv tot a \<equiv> \<lparr>owed_total = receipt_of L rcv tot a,
     owed_fee = receipt_of L rcv tot a - contribution_of L req tot a\<rparr>"

lemma boost_shares_eq:
  assumes "tc + (\<Sum>(b, a) \<leftarrow> m. contribution_of L req tot a) < 2 ^ 128"
    and "tr + (\<Sum>(b, a) \<leftarrow> m. receipt_of L rcv tot a) < 2 ^ 128"
  shows "boost_shares L req rcv tot m tc tr =
    (map (\<lambda>(b, a). (b, a - contribution_of L req tot a)) m,
     map (\<lambda>(b, a). (b, owed_of L req rcv tot a)) m,
     tc + (\<Sum>(b, a) \<leftarrow> m. contribution_of L req tot a),
     tr + (\<Sum>(b, a) \<leftarrow> m. receipt_of L rcv tot a))"
  using assms
proof (induction m arbitrary: tc tr)
  case (Cons e m)
  obtain b a where e: "e = (b, a)" by (cases e)
  have "usat_add 128 tc (contribution_of L req tot a) = tc + contribution_of L req tot a"
    and "usat_add 128 tr (receipt_of L rcv tot a) = tr + receipt_of L rcv tot a"
    using Cons.prems by (simp_all add: usat_add_exact e)
  then show ?case using Cons.IH [of "tc + contribution_of L req tot a" "tr + receipt_of L rcv tot a"]
      Cons.prems by (simp only: e boost_shares_Cons) (simp add: add.assoc)
qed simp

lemma sum_contributions_le:
  assumes "boost_lib_ok L" "req \<le> tot" "\<forall>(b, a) \<in> set m. a < 2 ^ 128"
  shows "(\<Sum>(b, a) \<leftarrow> m. contribution_of L req tot a) \<le> (\<Sum>(b, a) \<leftarrow> m. a)"
  using assms(3)
  by (induction m) (auto intro!: add_mono contribution_of_eq(2) [OF assms(1,2)])

lemma sum_contributions_ge:
  assumes "boost_lib_ok L" "req \<le> tot" "0 < tot" "\<forall>(b, a) \<in> set m. a < 2 ^ 128"
  shows "req * (\<Sum>(b, a) \<leftarrow> m. a) \<le> (\<Sum>(b, a) \<leftarrow> m. contribution_of L req tot a) * tot"
  using assms(4)
proof (induction m)
  case (Cons e m)
  obtain b a where e: "e = (b, a)" by (cases e)
  have "req * a \<le> contribution_of L req tot a * tot"
    using Cons.prems assms(3) contribution_of_eq(1) [OF assms(1,2)] by (simp add: e div_ceil_mult_ge)
  with Cons show ?case by (simp add: e algebra_simps)
qed simp

lemma sum_receipts_le:
  assumes "boost_lib_ok L" "rcv < 2 ^ 128" "0 < tot" "\<forall>(b, a) \<in> set m. a \<le> tot"
  shows "(\<Sum>(b, a) \<leftarrow> m. receipt_of L rcv tot a) * tot \<le> rcv * (\<Sum>(b, a) \<leftarrow> m. a)"
  using assms(4)
proof (induction m)
  case (Cons e m)
  obtain b a where e: "e = (b, a)" by (cases e)
  have "receipt_of L rcv tot a * tot \<le> rcv * a"
    using Cons.prems assms(3) receipt_of_eq(1) [OF assms(1) _ assms(2)] by (simp add: e)
  with Cons show ?case by (simp add: e algebra_simps)
qed simp

lemma member_le_sum: "\<forall>(b, a) \<in> set m. a \<le> (\<Sum>(b, a) \<leftarrow> m. a :: nat)"
  by (induction m) auto

text \<open>The totals of a boost when the amounts of the boosters add up to the tot.\<close>

lemma shares_totals:
  assumes L: "boost_lib_ok L" and req: "req \<le> tot" and rcv: "rcv < 2 ^ 128"
    and tot: "tot = (\<Sum>(b, a) \<leftarrow> m. a)" "tot < 2 ^ 128"
  shows "(\<Sum>(b, a) \<leftarrow> m. contribution_of L req tot a) \<le> tot"
    and "req \<le> (\<Sum>(b, a) \<leftarrow> m. contribution_of L req tot a)"
    and "(\<Sum>(b, a) \<leftarrow> m. receipt_of L rcv tot a) \<le> rcv"
proof -
  have le: "\<forall>(b, a) \<in> set m. a \<le> tot" using member_le_sum [of m] tot(1) by simp
  then have lt: "\<forall>(b, a) \<in> set m. a < 2 ^ 128" using tot(2) by fastforce
  show "(\<Sum>(b, a) \<leftarrow> m. contribution_of L req tot a) \<le> tot"
    using sum_contributions_le [OF L req lt] tot(1) by simp
  show "req \<le> (\<Sum>(b, a) \<leftarrow> m. contribution_of L req tot a)"
  proof (cases "tot = 0")
    case False
    then have pos: "0 < tot" by simp
    show ?thesis using sum_contributions_ge [OF L req pos lt, folded tot(1)] pos by simp
  qed (use req in simp)
  show "(\<Sum>(b, a) \<leftarrow> m. receipt_of L rcv tot a) \<le> rcv"
  proof (cases "tot = 0")
    case True
    then have "receipt_of L rcv tot a = 0" for a
      using boost_lib_okD(3) [OF L] by (simp add: receipt_of_def)
    then have "(\<Sum>(b, a) \<leftarrow> m. receipt_of L rcv tot a) = 0" by (induction m) auto
    then show ?thesis by linarith
  next
    case False
    then have pos: "0 < tot" by simp
    show ?thesis using sum_receipts_le [OF L rcv pos le, folded tot(1)] pos by simp
  qed
qed


section \<open>The effect of a boost on the pool\<close>

abbreviation amounts_sum :: "('a::linorder, nat) btree_map \<Rightarrow> nat" where
  "amounts_sum m \<equiv> bt_sum (\<lambda>_ a. a) m"

abbreviation owed_sum :: "('a::linorder, owed_amount) btree_map \<Rightarrow> nat" where
  "owed_sum m \<equiv> bt_sum (\<lambda>_ owed. owed_total owed) m"

lemma update_is_insert:
  assumes "bt_wf m" "i < length m" "m ! i = (k, v)"
  shows "m[i := (k, v')] = bt_insert k v' m"
  using assms
proof (induction m arbitrary: i)
  case (Cons e m)
  obtain k0 v0 where e: "e = (k0, v0)" by (cases e)
  show ?case
  proof (cases i)
    case 0
    then show ?thesis using Cons.prems by (simp add: e)
  next
    case (Suc j)
    then have m: "m ! j = (k, v)" "j < length m" using Cons.prems by auto
    then have "k \<in> fst ` set m" by (metis fst_conv image_eqI nth_mem)
    then have "k0 < k" using Cons.prems(1) by (auto simp: e bt_wf_Cons)
    then show ?thesis using Cons.IH [OF _ m(2,1)] Cons.prems(1) Suc by (auto simp: e bt_wf_Cons)
  qed
qed simp

lemma keys_insert_existing:
  assumes "bt_get m k = Some v" "bt_wf m"
  shows "map fst (bt_insert k v' m) = map fst m"
  using assms
proof (induction m)
  case (Cons e m)
  obtain k0 v0 where e: "e = (k0, v0)" by (cases e)
  show ?case
  proof (cases "k = k0")
    case False
    then have g: "bt_get m k = Some v" using Cons.prems(1) by (simp add: e)
    then have "k0 < k" using Cons.prems(2) by (metis bt_get_in_set bt_wf_Cons e fst_conv image_eqI)
    then show ?thesis using Cons.IH [OF g] Cons.prems(2) by (auto simp: e bt_wf_Cons)
  qed (simp add: e)
qed simp

text \<open>What rounding left over goes to one booster: the totals grow by it and nothing shrinks.\<close>

lemma credit_lucky_effect:
  assumes i: "i < length A" and wf: "bt_wf A" and keys: "map fst B = map fst A"
    and fits: "amounts_sum A + x < 2 ^ 128" "owed_sum B + y < 2 ^ 128"
  obtains A' B' where "credit_lucky i x y A B = (A', B')"
    and "map fst A' = map fst A" and "map fst B' = map fst A"
    and "amounts_sum A' = amounts_sum A + x" and "owed_sum B' = owed_sum B + y"
    and "\<forall>b a. bt_get A b = Some a \<longrightarrow> (\<exists>a'. bt_get A' b = Some a' \<and> a \<le> a')"
    and "\<forall>b c. bt_get B b = Some c \<longrightarrow> (\<exists>c'. bt_get B' b = Some c' \<and> owed_total c \<le> owed_total c')"
proof -
  obtain k a where ka: "A ! i = (k, a)" by (cases "A ! i")
  then have A: "bt_get A k = Some a" using i wf by (metis bt_get_mem nth_mem)
  have wfB: "bt_wf B" using bt_wf_keys [OF keys] wf by simp
  have "k \<in> fst ` set B" using A bt_get_in_set bt_keys_same [OF keys] by force
  then obtain c where B: "bt_get B k = Some c" by (metis bt_get_None_iff not_None_eq)
  let ?c = "\<lparr>owed_total = usat_add 128 (owed_total c) y, owed_fee = usat_add 128 (owed_fee c) y\<rparr>"
  let ?A = "bt_insert k (usat_add 128 a x) A" and ?B = "bt_insert k ?c B"
  have eq: "credit_lucky i x y A B = (?A, ?B)"
    using i ka B by (simp add: credit_lucky_def boost_defs update_is_insert [OF wf i ka])
  have sa: "usat_add 128 a x = a + x"
    using bt_sum_get_le [OF A, of "\<lambda>_ a. a"] fits(1) by (simp add: usat_add_exact)
  have sc: "usat_add 128 (owed_total c) y = owed_total c + y"
    using bt_sum_get_le [OF B, of "\<lambda>_. owed_total"] fits(2) by (simp add: usat_add_exact)
  show ?thesis
  proof (rule that [OF eq])
    show "map fst ?A = map fst A" by (rule keys_insert_existing [OF A wf])
    show "map fst ?B = map fst A" using keys_insert_existing [OF B wfB] keys by simp
    show "amounts_sum ?A = amounts_sum A + x"
      using bt_sum_insert_nat [OF wf, of "\<lambda>_ a. a" k "a + x"] by (simp add: A sa)
    show "owed_sum ?B = owed_sum B + y"
      using bt_sum_insert_nat [OF wfB, of "\<lambda>_. owed_total" k ?c] by (simp add: B sc)
  qed (simp_all add: bt_get_insert A B sa sc)
qed

lemma boost_shares_totals:
  assumes L: "boost_lib_ok L" and req: "req \<le> tot" and rcv: "rcv < 2 ^ 128"
    and tot: "tot = amounts_sum m" "tot < 2 ^ 128"
  obtains tc tr where "boost_shares L req rcv tot m 0 0 =
      (map (\<lambda>(b, a). (b, a - contribution_of L req tot a)) m,
       map (\<lambda>(b, a). (b, owed_of L req rcv tot a)) m, tc, tr)"
    and "amounts_sum (map (\<lambda>(b, a). (b, a - contribution_of L req tot a)) m) + tc = tot"
    and "owed_sum (map (\<lambda>(b, a). (b, owed_of L req rcv tot a)) m) = tr"
    and "req \<le> tc" and "tc \<le> tot" and "tr \<le> rcv"
proof -
  let ?tc = "\<Sum>(b, a) \<leftarrow> m. contribution_of L req tot a"
  let ?tr = "\<Sum>(b, a) \<leftarrow> m. receipt_of L rcv tot a"
  have tot': "tot = (\<Sum>(b, a) \<leftarrow> m. a)" using tot(1) by (simp add: bt_sum_def)
  note le = shares_totals [OF L req rcv tot' tot(2)]
  have "boost_shares L req rcv tot m 0 0 =
    (map (\<lambda>(b, a). (b, a - contribution_of L req tot a)) m,
     map (\<lambda>(b, a). (b, owed_of L req rcv tot a)) m, ?tc, ?tr)"
    using boost_shares_eq [of 0 L req tot m 0 rcv] le tot(2) rcv by simp
  moreover have "amounts_sum (map (\<lambda>(b, a). (b, a - contribution_of L req tot a)) m') + (\<Sum>(b, a) \<leftarrow> m'. contribution_of L req tot a)
      = amounts_sum m'" if "set m' \<subseteq> set m" for m'
    using that
  proof (induction m')
    case (Cons e m')
    obtain b a where e: "e = (b, a)" by (cases e)
    then have "a \<le> tot" using Cons.prems member_le_sum [of m] tot' by auto
    then have "contribution_of L req tot a \<le> a"
      using contribution_of_eq(2) [OF L req] tot(2) by simp
    then show ?case using Cons by (simp add: e)
  qed simp
  moreover have "owed_sum (map (\<lambda>(b, a). (b, owed_of L req rcv tot a)) m) = ?tr"
    by (induction m) auto
  ultimately show ?thesis using that le tot(1) by blast
qed

text \<open>
  A boost takes exactly the required amount from the boosters, each at most one unit more
  than their share, and records exactly the amount to receive, each at least their share.
\<close>

lemma use_funds_effect:
  assumes L: "boost_lib_ok L" and wf: "bt_wf (bp_amounts p)"
    and av: "bp_available p = amounts_sum (bp_amounts p)" "bp_available p < 2 ^ 128"
    and req: "req \<le> bp_available p"
    and new: "bt_get (bp_pending_boosts p) d = None"
    and rcv: "rcv = usat_add 128 req fee"
  obtains A B where
    "use_funds_for_boosting L d req fee p =
      (Inr (), p\<lparr>bp_available := bp_available p - req, bp_amounts := A,
                 bp_pending_boosts := bt_insert d B (bp_pending_boosts p)\<rparr>)"
    and "map fst A = map fst (bp_amounts p)" and "map fst B = map fst (bp_amounts p)"
    and "amounts_sum A = bp_available p - req"
    and "owed_sum B = (if bp_amounts p = [] then 0 else rcv)"
    and "\<forall>b a. bt_get (bp_amounts p) b = Some a \<longrightarrow> (\<exists>a' c. bt_get A b = Some a' \<and> bt_get B b = Some c
           \<and> a - contribution_of L req (bp_available p) a \<le> a'
           \<and> receipt_of L rcv (bp_available p) a \<le> owed_total c)"
proof -
  let ?m = "bp_amounts p" and ?tot = "bp_available p"
  let ?A = "map (\<lambda>(b, a). (b, a - contribution_of L req ?tot a)) ?m"
  let ?B = "map (\<lambda>(b, a). (b, owed_of L req rcv ?tot a)) ?m"
  have r: "rcv < 2 ^ 128" using usat_add_less [of 128] rcv by simp
  obtain tc tr where sh: "boost_shares L req rcv ?tot ?m 0 0 = (?A, ?B, tc, tr)"
    and sA: "amounts_sum ?A + tc = ?tot" and sB: "owed_sum ?B = tr"
    and tc: "req \<le> tc" "tc \<le> ?tot" and tr: "tr \<le> rcv"
    by (rule boost_shares_totals [OF L req r av]) blast
  have gA: "bt_get ?A b = map_option (\<lambda>a. a - contribution_of L req ?tot a) (bt_get ?m b)" for b
    by (rule bt_get_map_value)
  have gB: "bt_get ?B b = map_option (\<lambda>a. owed_of L req rcv ?tot a) (bt_get ?m b)" for b
    by (rule bt_get_map_value)
  have kA: "map fst ?A = map fst ?m" and kB: "map fst ?B = map fst ?A"
    by (simp_all add: comp_def case_prod_beta)
  have wfA: "bt_wf ?A" using bt_wf_keys [OF kA] wf by simp
  obtain A B where cl: "credit_lucky (wyrand_range L d (length ?m)) (tc - req) (rcv - tr) ?A ?B = (A, B)"
    and k: "map fst A = map fst ?A" "map fst B = map fst ?A"
    and s: "amounts_sum A = ?tot - req" "owed_sum B = (if ?m = [] then 0 else rcv)"
    and g: "\<forall>b a. bt_get ?A b = Some a \<longrightarrow> (\<exists>a'. bt_get A b = Some a' \<and> a \<le> a')"
      "\<forall>b c. bt_get ?B b = Some c \<longrightarrow> (\<exists>c'. bt_get B b = Some c' \<and> owed_total c \<le> owed_total c')"
  proof (cases "?m = []")
    case True
    then have "req = 0" "?tot = 0" using av(1) req by auto
    then show ?thesis using that [of "[]" "[]"] True by (simp add: credit_lucky_def)
  next
    case False
    then have i: "wyrand_range L d (length ?m) < length ?A" using boost_lib_okD(4) [OF L] by simp
    have f: "amounts_sum ?A + (tc - req) < 2 ^ 128" "owed_sum ?B + (rcv - tr) < 2 ^ 128"
      using sA sB tc tr av(2) r by simp_all
    show ?thesis
      by (rule credit_lucky_effect [OF i wfA kB f])
         (rule that, use sA sB tc tr False in \<open>simp_all\<close>)
  qed
  show ?thesis
  proof (rule that)
    show "use_funds_for_boosting L d req fee p =
      (Inr (), p\<lparr>bp_available := ?tot - req, bp_amounts := A,
                 bp_pending_boosts := bt_insert d B (bp_pending_boosts p)\<rparr>)"
      using req new cl
      by (simp add: use_funds_for_boosting_def boost_defs usub_def Let_def sh flip: rcv)
    show "map fst A = map fst ?m" "map fst B = map fst ?m" using k kA by simp_all
    show "amounts_sum A = ?tot - req" "owed_sum B = (if ?m = [] then 0 else rcv)" using s .
    show "\<forall>b a. bt_get ?m b = Some a \<longrightarrow> (\<exists>a' c. bt_get A b = Some a' \<and> bt_get B b = Some c
           \<and> a - contribution_of L req ?tot a \<le> a' \<and> receipt_of L rcv ?tot a \<le> owed_total c)"
      using g by (fastforce simp: gA gB)
  qed
qed

section \<open>The invariant of the pool\<close>

text \<open>What the boosters are owed by pending boosts, and the whole value of the pool.\<close>

definition bp_owed :: "'a::linorder boost_pool \<Rightarrow> nat" where
  "bp_owed p = bt_sum (\<lambda>_ m. owed_sum m) (bp_pending_boosts p)"

definition bp_value :: "'a::linorder boost_pool \<Rightarrow> nat" where
  "bp_value p = bp_available p + bp_owed p"

text \<open>The pending boosts a booster takes part in.\<close>

definition boosting_in :: "'a::linorder boost_pool \<Rightarrow> 'a \<Rightarrow> deposit_id set" where
  "boosting_in p b = {d. \<exists>m. bt_get (bp_pending_boosts p) d = Some m \<and> b \<in> fst ` set m}"

definition bp_wf :: "'a::linorder boost_pool \<Rightarrow> bool" where
  "bp_wf p \<longleftrightarrow> bt_wf (bp_amounts p) \<and> bt_wf (bp_pending_boosts p) \<and> bt_wf (bp_pending_withdrawals p)
     \<and> (\<forall>d m. bt_get (bp_pending_boosts p) d = Some m \<longrightarrow> bt_wf m)
     \<and> bp_available p = amounts_sum (bp_amounts p)"

text \<open>
  While the boosters of a record are settled one after the other, those still to come
  have the deposit among their pending withdrawals.
\<close>

definition bp_settling :: "deposit_id \<Rightarrow> 'a::linorder set \<Rightarrow> 'a boost_pool \<Rightarrow> bool" where
  "bp_settling d R p \<longleftrightarrow> (\<forall>b S. bt_get (bp_pending_withdrawals p) b = Some S \<longrightarrow>
     b \<notin> fst ` set (bp_amounts p) \<and> S \<noteq> {} \<and>
     S = boosting_in p b \<union> (if b \<in> R then {d} else {})) \<and> (\<forall>b. R \<noteq> {} \<longrightarrow> d \<notin> boosting_in p b)"

definition bp_inv :: "'a::linorder boost_pool \<Rightarrow> bool" where
  "bp_inv p \<longleftrightarrow> bp_wf p \<and> bp_value p < 2 ^ 128 \<and>
     (\<forall>b S. bt_get (bp_pending_withdrawals p) b = Some S \<longrightarrow>
        b \<notin> fst ` set (bp_amounts p) \<and> S = boosting_in p b \<and> S \<noteq> {})"

lemma bp_inv_settling: "bp_inv p \<longleftrightarrow> bp_wf p \<and> bp_value p < 2 ^ 128 \<and> bp_settling d {} p"
  by (auto simp: bp_inv_def bp_settling_def)

lemma bp_fields [simp]:
  "boosting_in (p\<lparr>bp_available := x\<rparr>) = boosting_in p"
  "boosting_in (p\<lparr>bp_amounts := A\<rparr>) = boosting_in p"
  "boosting_in (p\<lparr>bp_pending_withdrawals := W\<rparr>) = boosting_in p"
  "bp_owed (p\<lparr>bp_available := x\<rparr>) = bp_owed p"
  "bp_owed (p\<lparr>bp_amounts := A\<rparr>) = bp_owed p"
  "bp_owed (p\<lparr>bp_pending_withdrawals := W\<rparr>) = bp_owed p"
  by (simp_all add: boosting_in_def bp_owed_def fun_eq_iff)

lemma bp_inv_new: "bp_inv (bp_new fee)"
  by (simp add: bp_inv_def bp_wf_def bp_new_def bp_value_def bp_owed_def)

lemma add_funds_inner_effect:
  assumes wf: "bp_wf p" and fits: "bp_available p + x < 2 ^ 128"
  shows "bp_wf (add_funds_inner b x p)"
    and "bp_available (add_funds_inner b x p) = bp_available p + x"
    and "fst ` set (bp_amounts (add_funds_inner b x p)) = insert b (fst ` set (bp_amounts p))"
    and "bp_pending_boosts (add_funds_inner b x p) = bp_pending_boosts p"
    and "bp_pending_withdrawals (add_funds_inner b x p) = bt_remove b (bp_pending_withdrawals p)"
proof -
  let ?old = "case bt_get (bp_amounts p) b of None \<Rightarrow> 0 | Some a \<Rightarrow> a"
  have sum: "bp_available p = amounts_sum (bp_amounts p)" and A: "bt_wf (bp_amounts p)"
    using wf by (simp_all add: bp_wf_def)
  have "?old \<le> bp_available p"
    using bt_sum_get_le [of "bp_amounts p" b _ "\<lambda>_ a. a"] by (auto simp: sum split: option.split)
  then have sat: "usat_add 128 ?old x = ?old + x" "usat_add 128 (bp_available p) x = bp_available p + x"
    using fits by (simp_all add: usat_add_exact)
  have "amounts_sum (bt_insert b (?old + x) (bp_amounts p)) = bp_available p + x"
    using bt_sum_insert_nat [OF A, of "\<lambda>_ a. a" b "?old + x"] by (simp add: sum)
  then show "bp_wf (add_funds_inner b x p)"
    and "bp_available (add_funds_inner b x p) = bp_available p + x"
    using wf sat by (simp_all add: add_funds_inner_def boost_defs bp_wf_def bt_wf_insert bt_wf_remove)
  show "fst ` set (bp_amounts (add_funds_inner b x p)) = insert b (fst ` set (bp_amounts p))"
    and "bp_pending_boosts (add_funds_inner b x p) = bp_pending_boosts p"
    and "bp_pending_withdrawals (add_funds_inner b x p) = bt_remove b (bp_pending_withdrawals p)"
    by (simp_all add: add_funds_inner_def fst_set_bt_insert)
qed

lemma boosting_in_cong: "bp_pending_boosts p = bp_pending_boosts q \<Longrightarrow> boosting_in p = boosting_in q"
  by (simp add: boosting_in_def fun_eq_iff)

lemma bp_owed_cong: "bp_pending_boosts p = bp_pending_boosts q \<Longrightarrow> bp_owed p = bp_owed q"
  by (simp add: bp_owed_def)

lemma add_funds_inner_settling:
  assumes "bp_wf p" "bp_available p + x < 2 ^ 128" "bp_settling d R p"
  shows "bp_settling d (R - {b}) (add_funds_inner b x p)"
proof -
  note e = add_funds_inner_effect [OF assms(1,2), of b]
  have "boosting_in (add_funds_inner b x p) = boosting_in p" using e(4) by (rule boosting_in_cong)
  then show ?thesis using assms(3) unfolding bp_settling_def e(3,5) bt_get_remove
    by (auto split: if_splits)
qed

lemma settle_withdrawal_effect:
  assumes "bp_wf p" "bt_get (bp_pending_withdrawals p) b = Some S" "bp_settling d R p" "b \<in> R"
  shows "bp_wf (settle_withdrawal d b S p)" and "bp_settling d (R - {b}) (settle_withdrawal d b S p)"
    and "bp_available (settle_withdrawal d b S p) = bp_available p"
    and "bp_pending_boosts (settle_withdrawal d b S p) = bp_pending_boosts p"
proof -
  show "bp_wf (settle_withdrawal d b S p)"
    using assms(1) by (simp add: bp_wf_def settle_withdrawal_def Let_def bt_wf_insert bt_wf_remove)
  show "bp_available (settle_withdrawal d b S p) = bp_available p"
    and "bp_pending_boosts (settle_withdrawal d b S p) = bp_pending_boosts p"
    by (simp_all add: settle_withdrawal_def Let_def)
  have "S = boosting_in p b \<union> {d}" "d \<notin> boosting_in p b"
    using assms(3) [unfolded bp_settling_def, THEN conjunct1, rule_format, OF assms(2)]
      assms(3) [unfolded bp_settling_def, THEN conjunct2] assms(4) by auto
  then have "S - {d} = boosting_in p b" by blast
  then show "bp_settling d (R - {b}) (settle_withdrawal d b S p)"
    using assms(2,3,4) by (auto simp: bp_settling_def settle_withdrawal_def Let_def bt_get_remove
        bt_get_insert split: if_splits)
qed

text \<open>Settling a record: what is not paid out at once goes back to the available funds.\<close>

lemma finalise_boosters_effect:
  assumes "finalise_boosters w d C p = (u, p')" "distinct (map fst C)"
    and "bp_wf p" "bp_available p + owed_sum C < 2 ^ 128" "bp_settling d (fst ` set C) p"
  shows "bp_wf p' \<and> bp_settling d {} p' \<and> bp_pending_boosts p' = bp_pending_boosts p \<and>
    bp_available p \<le> bp_available p' \<and>
    bp_available p' + SCALE_FACTOR * (\<Sum>(b, x) \<leftarrow> u. x) \<le> bp_available p + owed_sum C"
  using assms
proof (induction C arbitrary: p u)
  case Nil
  then show ?case by simp
next
  case (Cons e C)
  obtain b c where e: "e = (b, c)" by (cases e)
  have R: "fst ` set (e # C) - {b} = fst ` set C" using Cons.prems(2) by (auto simp: e)
  have b: "b \<in> fst ` set (e # C)" by (simp add: e)
  show ?case
  proof (cases "bt_get (bp_pending_withdrawals p) b")
    case None
    let ?p = "add_funds_inner b (owed_total c) p"
    have f: "bp_available p + owed_total c < 2 ^ 128" using Cons.prems(4) by (simp add: e)
    note eff = add_funds_inner_effect [OF Cons.prems(3) f, of b]
    have "bp_settling d (fst ` set C) ?p"
      using add_funds_inner_settling [OF Cons.prems(3) f Cons.prems(5), of b] unfolding R .
    then show ?thesis using Cons.IH [of ?p u] Cons.prems eff None by (simp add: e)
  next
    case (Some S)
    let ?p = "settle_withdrawal d b S p"
    obtain u' where u: "finalise_boosters w d C ?p = (u', p')"
        "u = (b, into_chain_amount w (owed_total c)) # u'"
      using Cons.prems(1) Some by (auto simp: e split: prod.splits)
    note eff = settle_withdrawal_effect [OF Cons.prems(3) Some Cons.prems(5) b, unfolded R]
    have "SCALE_FACTOR * into_chain_amount w (owed_total c) \<le> owed_total c"
      by (rule order_trans [OF mult_le_mono2 times_div_less_eq_dividend]) (simp add: into_chain_amount_def)
    then show ?thesis using Cons.IH [OF u(1)] Cons.prems(2,4) eff u(2) by (simp add: e algebra_simps)
  qed
qed

lemma settling_skip:
  assumes "bp_settling d R p" "bt_get (bp_pending_withdrawals p) b = None"
  shows "bp_settling d (R - {b}) p"
  unfolding bp_settling_def
proof (intro conjI allI impI)
  fix b' S assume get: "bt_get (bp_pending_withdrawals p) b' = Some S"
  then have "b' \<noteq> b" using assms(2) by auto
  then show "b' \<notin> fst ` set (bp_amounts p)" "S \<noteq> {}"
    "S = boosting_in p b' \<union> (if b' \<in> R - {b} then {d} else {})"
    using assms(1) [unfolded bp_settling_def, THEN conjunct1, rule_format, OF get] by (auto split: if_splits)
qed (use assms(1) in \<open>auto simp: bp_settling_def\<close>)

lemma lose_boosters_effect:
  assumes "distinct (map fst C)" "bp_wf p" "bp_settling d (fst ` set C) p"
  shows "bp_wf (lose_boosters d C p) \<and> bp_settling d {} (lose_boosters d C p) \<and>
    bp_pending_boosts (lose_boosters d C p) = bp_pending_boosts p \<and>
    bp_available (lose_boosters d C p) = bp_available p"
  using assms
proof (induction C arbitrary: p)
  case Nil
  then show ?case by simp
next
  case (Cons e C)
  obtain b c where e: "e = (b, c)" by (cases e)
  have R: "fst ` set (e # C) - {b} = fst ` set C" using Cons.prems(1) by (auto simp: e)
  have b: "b \<in> fst ` set (e # C)" by (simp add: e)
  show ?case
  proof (cases "bt_get (bp_pending_withdrawals p) b")
    case None
    then have "bp_settling d (fst ` set C) p" using settling_skip [OF Cons.prems(3), of b] unfolding R by blast
    then show ?thesis using Cons.IH [of p] Cons.prems None by (simp add: e)
  next
    case (Some S)
    note eff = settle_withdrawal_effect [OF Cons.prems(2) Some Cons.prems(3) b, unfolded R]
    show ?thesis using Cons.IH [OF _ eff(1,2)] Cons.prems(1) eff Some by (simp add: e)
  qed
qed

section \<open>Every operation keeps the invariant\<close>

lemma bp_invD:
  assumes "bp_inv p"
  shows "bp_wf p" and "bp_value p < 2 ^ 128" and "bp_available p < 2 ^ 128"
    and "bp_available p = amounts_sum (bp_amounts p)" and "bt_wf (bp_amounts p)"
    and "bt_wf (bp_pending_boosts p)" and "bt_wf (bp_pending_withdrawals p)"
  using assms by (simp_all add: bp_inv_def bp_wf_def bp_value_def)

text \<open>The pool with a record taken out, before its boosters are settled.\<close>

lemma remove_record:
  assumes inv: "bp_inv p" and get: "bt_get (bp_pending_boosts p) d = Some C"
  defines "q \<equiv> p\<lparr>bp_pending_boosts := bt_remove d (bp_pending_boosts p)\<rparr>"
  shows "bp_wf q" and "bp_settling d (fst ` set C) q" and "bp_owed q + owed_sum C = bp_owed p"
    and "distinct (map fst C)" and "bp_available q + owed_sum C < 2 ^ 128"
    and "bp_available q = bp_available p"
proof -
  have C: "bt_wf C" using inv get by (auto simp: bp_inv_def bp_wf_def)
  then show "distinct (map fst C)" by (rule bt_wf_distinct)
  show "bp_wf q" using inv by (auto simp: bp_inv_def bp_wf_def q_def bt_wf_remove bt_get_remove split: if_splits)
  have "bt_sum (\<lambda>_. owed_sum) (bt_remove d (bp_pending_boosts p)) + owed_sum C
      = bt_sum (\<lambda>_. owed_sum) (bp_pending_boosts p)"
    using bt_sum_remove_nat [OF bp_invD(6) [OF inv], of "\<lambda>_. owed_sum" d] get by simp
  then show owed: "bp_owed q + owed_sum C = bp_owed p" by (simp add: bp_owed_def q_def)
  then show "bp_available q + owed_sum C < 2 ^ 128"
    using bp_invD(2) [OF inv] by (simp add: bp_value_def q_def)
  show "bp_available q = bp_available p" by (simp add: q_def)
  have "boosting_in q b = boosting_in p b - {d}" for b
    by (auto simp: boosting_in_def q_def bt_get_remove)
  moreover have "d \<in> boosting_in p b \<longleftrightarrow> b \<in> fst ` set C" for b
    using get by (simp add: boosting_in_def)
  ultimately have bi: "boosting_in p b = boosting_in q b \<union> (if b \<in> fst ` set C then {d} else {})"
      "d \<notin> boosting_in q b" for b by auto
  show "bp_settling d (fst ` set C) q"
    unfolding bp_settling_def
  proof (intro conjI allI impI)
    fix b S assume "bt_get (bp_pending_withdrawals q) b = Some S"
    then have "bt_get (bp_pending_withdrawals p) b = Some S" by (simp add: q_def)
    with inv have "b \<notin> fst ` set (bp_amounts p) \<and> S = boosting_in p b \<and> S \<noteq> {}" by (simp add: bp_inv_def)
    then show "b \<notin> fst ` set (bp_amounts q)" "S \<noteq> {}"
      "S = boosting_in q b \<union> (if b \<in> fst ` set C then {d} else {})"
      using bi(1) [of b] by (auto simp: q_def)
  qed (rule bi(2))
qed

lemma finalised_effect:
  assumes inv: "bp_inv p" and run: "process_deposit_as_finalised w d p = (u, p')"
  shows "bp_inv p'" and "bp_available p \<le> bp_available p'"
    and "bp_available p' + SCALE_FACTOR * (\<Sum>(b, x) \<leftarrow> u. x)
           \<le> bp_available p + (case bt_get (bp_pending_boosts p) d of None \<Rightarrow> 0 | Some C \<Rightarrow> owed_sum C)"
    and "bp_pending_boosts p' = bt_remove d (bp_pending_boosts p)"
proof -
  have "bp_inv p' \<and> bp_available p \<le> bp_available p' \<and> bp_available p' + SCALE_FACTOR * (\<Sum>(b, x) \<leftarrow> u. x)
      \<le> bp_available p + (case bt_get (bp_pending_boosts p) d of None \<Rightarrow> 0 | Some C \<Rightarrow> owed_sum C)
    \<and> bp_pending_boosts p' = bt_remove d (bp_pending_boosts p)"
  proof (cases "bt_get (bp_pending_boosts p) d")
    case None
    then show ?thesis using run inv bt_remove_absent [OF None] by (simp add: process_deposit_as_finalised_def)
  next
    case (Some C)
    note q = remove_record [OF inv Some]
    let ?q = "p\<lparr>bp_pending_boosts := bt_remove d (bp_pending_boosts p)\<rparr>"
    have "finalise_boosters w d C ?q = (u, p')"
      using run Some by (simp add: process_deposit_as_finalised_def)
    note eff = finalise_boosters_effect [OF this q(4,1,5,2)]
    then have "bp_owed p' = bp_owed ?q" using bp_owed_cong by blast
    then have "bp_value p' < 2 ^ 128"
      using eff q(3,6) bp_invD(2) [OF inv] by (simp add: bp_value_def)
    then show ?thesis using eff Some by (simp add: bp_inv_settling [of _ d])
  qed
  then show "bp_inv p'" and "bp_available p \<le> bp_available p'"
    and "bp_available p' + SCALE_FACTOR * (\<Sum>(b, x) \<leftarrow> u. x)
           \<le> bp_available p + (case bt_get (bp_pending_boosts p) d of None \<Rightarrow> 0 | Some C \<Rightarrow> owed_sum C)"
    and "bp_pending_boosts p' = bt_remove d (bp_pending_boosts p)"
    by simp_all
qed

lemma lost_effect:
  assumes inv: "bp_inv p" and run: "process_deposit_as_lost dbg d p = Some (n, p')"
  shows "bp_inv p'" and "bp_available p' = bp_available p"
    and "bp_pending_boosts p' = bt_remove d (bp_pending_boosts p)"
proof -
  have "bp_inv p' \<and> bp_available p' = bp_available p \<and>
    bp_pending_boosts p' = bt_remove d (bp_pending_boosts p)"
  proof (cases "bt_get (bp_pending_boosts p) d")
    case None
    then show ?thesis using run inv bt_remove_absent [OF None] by (auto simp: process_deposit_as_lost_def split: bind_splits)
  next
    case (Some C)
    note q = remove_record [OF inv Some]
    let ?q = "p\<lparr>bp_pending_boosts := bt_remove d (bp_pending_boosts p)\<rparr>"
    have p': "p' = lose_boosters d C ?q" using run Some by (simp add: process_deposit_as_lost_def)
    note eff = lose_boosters_effect [OF q(4,1,2), folded p']
    then have "bp_owed p' = bp_owed ?q" using bp_owed_cong by blast
    then have "bp_value p' < 2 ^ 128"
      using eff q(3,6) bp_invD(2) [OF inv] by (simp add: bp_value_def)
    then show ?thesis using eff by (simp add: bp_inv_settling [of _ d])
  qed
  then show "bp_inv p'" and "bp_available p' = bp_available p"
    and "bp_pending_boosts p' = bt_remove d (bp_pending_boosts p)" by simp_all
qed

lemma from_chain_amount_exact: "SCALE_FACTOR * x < 2 ^ 128 \<Longrightarrow> from_chain_amount x = SCALE_FACTOR * x"
  by (simp add: from_chain_amount_def usat_mul_def umax_def SCALE_FACTOR_def)

lemma add_funds_effect:
  assumes inv: "bp_inv p" and fits: "bp_value p + SCALE_FACTOR * x < 2 ^ 128"
  shows "bp_inv (add_funds b x p)" and "bp_available (add_funds b x p) = bp_available p + SCALE_FACTOR * x"
    and "bp_pending_boosts (add_funds b x p) = bp_pending_boosts p"
proof -
  have eq: "add_funds b x p = add_funds_inner b (SCALE_FACTOR * x) p"
    using fits by (simp add: add_funds_def from_chain_amount_exact)
  have f: "bp_available p + SCALE_FACTOR * x < 2 ^ 128" using fits by (simp add: bp_value_def)
  note eff = add_funds_inner_effect [OF bp_invD(1) [OF inv] f, of b, folded eq]
  have "bp_settling d {} p" for d using inv bp_inv_settling [of p d] by simp
  then have s: "bp_settling d {} (add_funds b x p)" for d
    using add_funds_inner_settling [OF bp_invD(1) [OF inv] f, of d "{}" b] by (simp add: eq)
  show "bp_available (add_funds b x p) = bp_available p + SCALE_FACTOR * x"
    and "bp_pending_boosts (add_funds b x p) = bp_pending_boosts p" using eff by simp_all
  then have "bp_value (add_funds b x p) = bp_value p + SCALE_FACTOR * x"
    using bp_owed_cong [OF eff(4)] by (simp add: bp_value_def)
  then show "bp_inv (add_funds b x p)" using s eff(1) fits bp_inv_settling by metis
qed

lemma scaled_chain_le: "SCALE_FACTOR * into_chain_amount w v \<le> v"
  by (rule order_trans [OF mult_le_mono2 times_div_less_eq_dividend]) (simp add: into_chain_amount_def)

lemma pending_deposits_of_eq:
  assumes "bt_wf (bp_pending_boosts p)"
  shows "pending_deposits_of b (bp_pending_boosts p) = boosting_in p b"
proof (rule set_eqI)
  fix d
  have "d \<in> pending_deposits_of b (bp_pending_boosts p) \<longleftrightarrow>
      (\<exists>m. (d, m) \<in> set (bp_pending_boosts p) \<and> bt_get m b \<noteq> None)"
    by (force simp: pending_deposits_of_def)
  then show "d \<in> pending_deposits_of b (bp_pending_boosts p) \<longleftrightarrow> d \<in> boosting_in p b"
    by (simp add: boosting_in_def bt_get_mem [OF assms] bt_get_None_iff del: not_None_eq)
qed

lemma stop_boosting_effect:
  assumes inv: "bp_inv p" and run: "stop_boosting w b p = (Inr (x, D), p')"
  shows "bp_inv p'" and "bp_available p' + SCALE_FACTOR * x \<le> bp_available p"
    and "bp_pending_boosts p' = bp_pending_boosts p" and "D = boosting_in p b"
proof -
  obtain a where a: "bt_get (bp_amounts p) b = Some a"
    using run by (auto simp: stop_boosting_def split: option.splits)
  have D: "pending_deposits_of b (bp_pending_boosts p) = boosting_in p b"
    by (rule pending_deposits_of_eq [OF bp_invD(6) [OF inv]])
  let ?q = "p\<lparr>bp_amounts := bt_remove b (bp_amounts p), bp_available := bp_available p - a\<rparr>"
  have r: "x = into_chain_amount w a" "D = boosting_in p b"
    "p' = (if boosting_in p b \<noteq> {} then ?q\<lparr>bp_pending_withdrawals :=
       bt_insert b (boosting_in p b) (bp_pending_withdrawals p)\<rparr> else ?q)"
    using run a D unfolding stop_boosting_def
    by (simp_all add: Let_def scaled_saturating_reduce_def split: if_splits)
  have sum: "amounts_sum (bt_remove b (bp_amounts p)) + a = bp_available p"
    using bt_sum_remove_nat [OF bp_invD(5) [OF inv], of "\<lambda>_ a. a" b] a bp_invD(4) [OF inv] by simp
  show "D = boosting_in p b" by (fact r)
  show b: "bp_pending_boosts p' = bp_pending_boosts p" by (simp add: r(3))
  have av: "bp_available p' = bp_available p - a" by (simp add: r(3))
  then show "bp_available p' + SCALE_FACTOR * x \<le> bp_available p"
    using sum scaled_chain_le [of w a] by (simp add: r(1))
  have "bp_wf p'" using bp_invD(1) [OF inv] sum
    by (auto simp: bp_wf_def r(3) bt_wf_remove bt_wf_insert)
  moreover have "bp_value p' < 2 ^ 128"
    using bp_invD(2) [OF inv] av bp_owed_cong [OF b] by (simp add: bp_value_def)
  moreover have "fst ` set (bt_remove b (bp_amounts p)) = fst ` set (bp_amounts p) - {b}"
    by (auto simp: set_bt_remove)
  ultimately show "bp_inv p'" using inv unfolding bp_inv_def boosting_in_cong [OF b]
    by (auto simp: r(3) bt_get_insert split: if_splits)
qed

lemma use_funds_duplicate:
  assumes "req \<le> bp_available p" "bt_get (bp_pending_boosts p) d = Some m"
  shows "fst (use_funds_for_boosting L d req fee p) = Inl ''Pending boost id already exists''"
  using assms by (simp add: use_funds_for_boosting_def boost_defs usub_def Let_def split: prod.splits)

text \<open>
  A boost that succeeds, in terms of the amount the pool provides and the fee: either the
  two make up the amount to boost, or all that is available is provided.
\<close>

lemma provide_effect:
  assumes L: "boost_lib_ok L" and inv: "bp_inv p"
    and run: "provide_funds_for_boosting L w d x p = (Inr (boosted, chain_fee), p')"
  obtains prov fee A B where
    "p' = p\<lparr>bp_available := bp_available p - prov, bp_amounts := A,
            bp_pending_boosts := bt_insert d B (bp_pending_boosts p)\<rparr>"
    and "prov \<le> bp_available p" and "bt_get (bp_pending_boosts p) d = None"
    and "boosted = into_chain_amount w (usat_add 128 prov fee)" and "chain_fee = into_chain_amount w fee"
    and "prov + fee = from_chain_amount x \<or> prov = bp_available p \<and> prov < from_chain_amount x"
    and "map fst A = map fst (bp_amounts p)" and "map fst B = map fst (bp_amounts p)"
    and "amounts_sum A = bp_available p - prov"
    and "owed_sum B = (if bp_amounts p = [] then 0 else usat_add 128 prov fee)"
    and "\<forall>b a. bt_get (bp_amounts p) b = Some a \<longrightarrow> (\<exists>a' c. bt_get A b = Some a' \<and> bt_get B b = Some c
           \<and> a - contribution_of L prov (bp_available p) a \<le> a'
           \<and> receipt_of L (usat_add 128 prov fee) (bp_available p) a \<le> owed_total c)"
    and "if from_chain_amount x - fee_from_boosted_amount L (from_chain_amount x) (bp_fee_bps p) \<le> bp_available p
      then prov + fee = from_chain_amount x \<and> fee = fee_from_boosted_amount L (from_chain_amount x) (bp_fee_bps p)
      else prov = bp_available p \<and> fee_from_provided_amount L prov (bp_fee_bps p) = Inr fee"
proof -
  let ?x = "from_chain_amount x"
  let ?full = "fee_from_boosted_amount L ?x (bp_fee_bps p)"
  have full: "?full \<le> ?x" using boost_lib_okD(1) [OF L] by (simp add: fee_from_boosted_amount_def)
  obtain prov fee where pf: "prov \<le> bp_available p"
      "prov + fee = ?x \<or> prov = bp_available p \<and> prov < ?x"
    and use: "use_funds_for_boosting L d prov fee p = (Inr (), p')"
      "boosted = into_chain_amount w (usat_add 128 prov fee)" "chain_fee = into_chain_amount w fee"
      "if ?x - ?full \<le> bp_available p then prov + fee = ?x \<and> fee = ?full
       else prov = bp_available p \<and> fee_from_provided_amount L prov (bp_fee_bps p) = Inr fee"
  proof (cases "?x - ?full \<le> bp_available p")
    case True
    show ?thesis
      using that [of "?x - ?full" ?full] run True full
      by (simp add: provide_funds_for_boosting_def Let_def scaled_saturating_sub_def
            scaled_saturating_add_def split: prod.splits sum.splits)
  next
    case False
    then have lt: "bp_available p < ?x" by linarith
    from False obtain fee where "fee_from_provided_amount L (bp_available p) (bp_fee_bps p) = Inr fee"
      using run by (auto simp: provide_funds_for_boosting_def Let_def scaled_saturating_sub_def split: sum.splits)
    then show ?thesis
      using that [of "bp_available p" fee] run False lt
      by (simp add: provide_funds_for_boosting_def Let_def scaled_saturating_sub_def
            scaled_saturating_add_def split: prod.splits sum.splits)
  qed
  have new: "bt_get (bp_pending_boosts p) d = None"
  proof (rule ccontr)
    assume "bt_get (bp_pending_boosts p) d \<noteq> None"
    then have "fst (use_funds_for_boosting L d prov fee p) = Inl ''Pending boost id already exists''"
      using use_funds_duplicate [OF pf(1)] by blast
    with use(1) show False by simp
  qed
  show ?thesis
    by (rule use_funds_effect [OF L bp_invD(5) [OF inv] bp_invD(4,3) [OF inv] pf(1) new refl, of fee])
       (rule that, use use pf new in simp_all)
qed

lemma owed_insert:
  assumes "bt_wf M" "bt_get M d = None"
  shows "bt_sum (\<lambda>_. owed_sum) (bt_insert d B M) = bt_sum (\<lambda>_. owed_sum) M + owed_sum B"
  using bt_sum_insert_nat [OF assms(1), of "\<lambda>_. owed_sum" d B] assms(2) by simp

lemma provide_inv:
  assumes L: "boost_lib_ok L" and inv: "bp_inv p"
    and run: "provide_funds_for_boosting L w d x p = (Inr r, p')" and fits: "bp_value p' < 2 ^ 128"
  shows "bp_inv p'"
proof -
  obtain boosted cf where r: "r = (boosted, cf)" by (cases r)
  obtain prov A B where p': "p' = p\<lparr>bp_available := bp_available p - prov, bp_amounts := A,
            bp_pending_boosts := bt_insert d B (bp_pending_boosts p)\<rparr>"
    and prov: "prov \<le> bp_available p" and new: "bt_get (bp_pending_boosts p) d = None"
    and keys: "map fst A = map fst (bp_amounts p)" "map fst B = map fst (bp_amounts p)"
    and sums: "amounts_sum A = bp_available p - prov"
    by (rule provide_effect [OF L inv run [unfolded r]]) blast
  have wfB: "bt_wf B" "bt_wf A" using bt_wf_keys [OF keys(2)] bt_wf_keys [OF keys(1)] bp_invD(5) [OF inv] by simp_all
  have bi: "boosting_in p' b = boosting_in p b \<union> (if b \<in> fst ` set (bp_amounts p) then {d} else {})" for b
    using new bt_keys_same [OF keys(2)] by (auto simp: boosting_in_def p' bt_get_insert)
  have "bp_wf p'" using bp_invD(1) [OF inv] wfB sums by (auto simp: bp_wf_def p' bt_wf_insert bt_get_insert)
  moreover have "b \<notin> fst ` set (bp_amounts p') \<and> S = boosting_in p' b \<and> S \<noteq> {}"
    if "bt_get (bp_pending_withdrawals p') b = Some S" for b S
    using that inv bt_keys_same [OF keys(1)] unfolding bi by (auto simp: bp_inv_def p')
  ultimately show ?thesis using fits by (simp add: bp_inv_def)
qed

lemma provide_value:
  assumes L: "boost_lib_ok L" and inv: "bp_inv p"
    and run: "provide_funds_for_boosting L w d x p = (Inr r, p')"
  shows "bt_get (bp_pending_boosts p) d = None" and "bp_available p' \<le> bp_available p"
  by (rule provide_effect [OF L inv, of w d x "fst r" "snd r" p'], use run in simp, simp)+

end
