(* ===== verification/Boost_Ledger.thy ===== *)
theory Boost_Ledger
  imports Boost_Pool
begin

text \<open>
  Runs of a boost pool. A ledger keeps, beside the pool, the assets behind it in
  thousandths of the chain's unit (what boosters put in, less what depositors were given
  ahead of time and what was paid out, plus the deposits that arrived) and the number of
  boosts. A call that returns an error changes nothing: its caller rolls the storage back.
\<close>

record 'a boost_ledger =
  bl_pool :: "'a boost_pool"
  bl_assets :: int
  bl_boosts :: nat

text \<open>Amounts stay within the width of the scaled amounts and of the chain's amounts.\<close>

definition bp_fits :: "nat \<Rightarrow> 'a::linorder boost_pool \<Rightarrow> nat \<Rightarrow> bool" where
  "bp_fits w p x \<longleftrightarrow> bp_value p + x < 2 ^ 128 \<and> (bp_value p + x) div SCALE_FACTOR < 2 ^ w"

definition record_total :: "deposit_id \<Rightarrow> 'a::linorder boost_pool \<Rightarrow> nat" where
  "record_total d p = (case bt_get (bp_pending_boosts p) d of None \<Rightarrow> 0 | Some m \<Rightarrow> owed_sum m)"

inductive bp_step :: "boost_lib \<Rightarrow> nat \<Rightarrow> 'a::linorder boost_ledger \<Rightarrow> 'a boost_ledger \<Rightarrow> bool"
  for L w where
  step_add: "bp_fits w p (SCALE_FACTOR * x) \<Longrightarrow>
    bp_step L w \<lparr>bl_pool = p, bl_assets = c, bl_boosts = k\<rparr>
      \<lparr>bl_pool = add_funds b x p, bl_assets = c + int (SCALE_FACTOR * x), bl_boosts = k\<rparr>"
| step_boost: "provide_funds_for_boosting L w d x p = (Inr (boosted, fee), p') \<Longrightarrow> bp_fits w p' 0 \<Longrightarrow>
    bp_step L w \<lparr>bl_pool = p, bl_assets = c, bl_boosts = k\<rparr>
      \<lparr>bl_pool = p', bl_assets = c - int SCALE_FACTOR * (int boosted - int fee), bl_boosts = Suc k\<rparr>"
| step_finalised: "process_deposit_as_finalised w d p = (u, p') \<Longrightarrow>
    bp_step L w \<lparr>bl_pool = p, bl_assets = c, bl_boosts = k\<rparr>
      \<lparr>bl_pool = p', bl_assets = c + int (SCALE_FACTOR * into_chain_amount w (record_total d p))
         - int (SCALE_FACTOR * (\<Sum>(b, x) \<leftarrow> u. x)), bl_boosts = k\<rparr>"
| step_lost: "process_deposit_as_lost dbg d p = Some (n, p') \<Longrightarrow>
    bp_step L w \<lparr>bl_pool = p, bl_assets = c, bl_boosts = k\<rparr>
      \<lparr>bl_pool = p', bl_assets = c, bl_boosts = k\<rparr>"
| step_stop: "stop_boosting w b p = (Inr (x, D), p') \<Longrightarrow>
    bp_step L w \<lparr>bl_pool = p, bl_assets = c, bl_boosts = k\<rparr>
      \<lparr>bl_pool = p', bl_assets = c - int (SCALE_FACTOR * x), bl_boosts = k\<rparr>"

inductive_cases bp_stepE: "bp_step L w s t"

inductive bp_reachable :: "boost_lib \<Rightarrow> nat \<Rightarrow> 'a::linorder boost_ledger \<Rightarrow> bool" for L w where
  reach_new: "bp_reachable L w \<lparr>bl_pool = bp_new fee_bps, bl_assets = 0, bl_boosts = 0\<rparr>"
| reach_step: "bp_reachable L w s \<Longrightarrow> bp_step L w s t \<Longrightarrow> bp_reachable L w t"

text \<open>
  The dust: the part of each pending record below one unit of the chain, which the deposit
  will not bring.
\<close>

definition bp_dust :: "'a::linorder boost_pool \<Rightarrow> nat" where
  "bp_dust p = bt_sum (\<lambda>_ m. owed_sum m mod SCALE_FACTOR) (bp_pending_boosts p)"

definition bl_inv :: "nat \<Rightarrow> 'a::linorder boost_ledger \<Rightarrow> bool" where
  "bl_inv w s \<longleftrightarrow> bp_inv (bl_pool s) \<and> bp_fits w (bl_pool s) 0 \<and>
     int (bp_available (bl_pool s)) + int (bp_dust (bl_pool s)) \<le> bl_assets s + 999 * int (bl_boosts s)"

lemma bl_invI:
  assumes "bp_inv p" "bp_fits w p 0" "int (bp_available p) + int (bp_dust p) \<le> c + 999 * int k"
  shows "bl_inv w \<lparr>bl_pool = p, bl_assets = c, bl_boosts = k\<rparr>"
  using assms by (simp add: bl_inv_def)

lemma bl_invD:
  assumes "bl_inv w \<lparr>bl_pool = p, bl_assets = c, bl_boosts = k\<rparr>"
  shows "bp_inv p" "bp_fits w p 0" "int (bp_available p) + int (bp_dust p) \<le> c + 999 * int k"
  using assms by (simp_all add: bl_inv_def)

lemma bp_dust_cong: "bp_pending_boosts p = bp_pending_boosts q \<Longrightarrow> bp_dust p = bp_dust q"
  by (simp add: bp_dust_def)

lemma bp_fits_value: "bp_fits w p 0 \<Longrightarrow> bp_value q \<le> bp_value p \<Longrightarrow> bp_fits w q 0"
  unfolding bp_fits_def by (metis add.right_neutral div_le_mono le_less_trans)

lemma bl_inv_new: "bl_inv w \<lparr>bl_pool = bp_new fee, bl_assets = 0, bl_boosts = 0\<rparr>"
  by (rule bl_invI [OF bp_inv_new])
     (simp_all add: bp_fits_def bp_dust_def bp_value_def bp_owed_def bp_new_def)

section \<open>The assets cover the pool up to the rounding of the fees\<close>

lemma inv_add:
  assumes "bl_inv w \<lparr>bl_pool = p, bl_assets = c, bl_boosts = k\<rparr>" "bp_fits w p (SCALE_FACTOR * x)"
  shows "bl_inv w \<lparr>bl_pool = add_funds b x p, bl_assets = c + int (SCALE_FACTOR * x), bl_boosts = k\<rparr>"
proof -
  note inv = bl_invD [OF assms(1)]
  have f: "bp_value p + SCALE_FACTOR * x < 2 ^ 128" using assms(2) by (simp add: bp_fits_def)
  note eff = add_funds_effect [OF inv(1) f, of b]
  have "bp_value (add_funds b x p) = bp_value p + SCALE_FACTOR * x"
    using eff(2) bp_owed_cong [OF eff(3)] by (simp add: bp_value_def)
  then have "bp_fits w (add_funds b x p) 0" using assms(2) by (simp add: bp_fits_def)
  then show ?thesis using inv(3) eff by (intro bl_invI) (simp_all add: bp_dust_cong [OF eff(3)])
qed

text \<open>
  What a boost takes out of the assets: at most what the pool provides, less the dust of
  the new record, and the fee that is lost to rounding.
\<close>

lemma chain_amounts_bound_nat:
  fixes prov fee w
  defines "t \<equiv> usat_add 128 prov fee"
  shows "1000 * into_chain_amount w t + t mod 1000 \<le> prov + 999 + 1000 * into_chain_amount w fee"
proof -
  define q r where "q = t div 1000" and "r = t mod 1000"
  have t: "t \<le> prov + fee" by (simp add: t_def usat_add_le)
  have m: "1000 * q + r = t" "r \<le> 999" by (simp_all add: q_def r_def)
  have it: "into_chain_amount w t \<le> q" by (simp add: into_chain_amount_def SCALE_FACTOR_def q_def)
  show ?thesis
  proof (cases "fee div 1000 \<le> umax w")
    case True
    then have "fee \<le> 1000 * into_chain_amount w fee + 999"
      by (simp add: into_chain_amount_def SCALE_FACTOR_def)
    then show ?thesis using t m it unfolding r_def [symmetric] by linarith
  next
    case False
    then have "into_chain_amount w t \<le> into_chain_amount w fee"
      by (simp add: into_chain_amount_def SCALE_FACTOR_def)
    then show ?thesis using m(2) unfolding r_def [symmetric] by linarith
  qed
qed

lemma chain_amounts_bound:
  "int SCALE_FACTOR * (int (into_chain_amount w (usat_add 128 prov fee)) - int (into_chain_amount w fee))
    \<le> int prov - int (usat_add 128 prov fee mod SCALE_FACTOR) + 999"
proof -
  have aux: "1000 * a + r \<le> q + 999 + 1000 * b \<Longrightarrow> 1000 * (int a - int b) \<le> int q - int r + 999"
    for a b q r :: nat using of_nat_mono [of "1000 * a + r" "q + 999 + 1000 * b", where ?'a = int] by simp
  show ?thesis unfolding SCALE_FACTOR_def of_nat_numeral by (rule aux [OF chain_amounts_bound_nat])
qed

lemma inv_boost:
  assumes L: "boost_lib_ok L" and s: "bl_inv w \<lparr>bl_pool = p, bl_assets = c, bl_boosts = k\<rparr>"
    and run: "provide_funds_for_boosting L w d x p = (Inr (boosted, fee), p')" and fits: "bp_fits w p' 0"
  shows "bl_inv w \<lparr>bl_pool = p', bl_assets = c - int SCALE_FACTOR * (int boosted - int fee),
    bl_boosts = Suc k\<rparr>"
proof (rule bl_invI)
  note inv = bl_invD [OF s]
  show "bp_inv p'" using provide_inv [OF L inv(1) run] fits by (simp add: bp_fits_def)
  show "bp_fits w p' 0" by (rule fits)
  obtain prov cfee A B where p': "p' = p\<lparr>bp_available := bp_available p - prov, bp_amounts := A,
            bp_pending_boosts := bt_insert d B (bp_pending_boosts p)\<rparr>"
    and prov: "prov \<le> bp_available p" and new: "bt_get (bp_pending_boosts p) d = None"
    and out: "boosted = into_chain_amount w (usat_add 128 prov cfee)" "fee = into_chain_amount w cfee"
    and B: "owed_sum B = (if bp_amounts p = [] then 0 else usat_add 128 prov cfee)"
    by (rule provide_effect [OF L inv(1) run]) blast
  let ?t = "usat_add 128 prov cfee"
  have dust: "bp_dust p' = bp_dust p + owed_sum B mod SCALE_FACTOR"
    using bt_sum_insert_nat [OF bp_invD(6) [OF inv(1)], of "\<lambda>_ m. owed_sum m mod SCALE_FACTOR" d B]
    by (simp add: bp_dust_def p' new)
  have "owed_sum B mod SCALE_FACTOR \<le> ?t mod SCALE_FACTOR" by (simp add: B)
  then show "int (bp_available p') + int (bp_dust p')
      \<le> c - int SCALE_FACTOR * (int boosted - int fee) + 999 * int (Suc k)"
    using inv(3) chain_amounts_bound [of w prov cfee] prov unfolding out dust by (simp add: p')
qed

lemma inv_finalised:
  assumes s: "bl_inv w \<lparr>bl_pool = p, bl_assets = c, bl_boosts = k\<rparr>"
    and run: "process_deposit_as_finalised w d p = (u, p')"
  shows "bl_inv w \<lparr>bl_pool = p', bl_assets = c + int (SCALE_FACTOR * into_chain_amount w (record_total d p))
         - int (SCALE_FACTOR * (\<Sum>(b, x) \<leftarrow> u. x)), bl_boosts = k\<rparr>"
proof (rule bl_invI)
  note inv = bl_invD [OF s] and eff = finalised_effect [OF bl_invD(1) [OF s] run, folded record_total_def]
  let ?r = "record_total d p"
  have wf: "bt_wf (bp_pending_boosts p)" by (rule bp_invD [OF inv(1)])
  show "bp_inv p'" by (rule eff)
  have owed: "bp_owed p' + ?r = bp_owed p"
    using bt_sum_remove_nat [OF wf, of "\<lambda>_. owed_sum" d] by (simp add: bp_owed_def eff(4) record_total_def)
  have "bp_dust p' + (case bt_get (bp_pending_boosts p) d of None \<Rightarrow> 0 | Some m \<Rightarrow> owed_sum m mod SCALE_FACTOR)
      = bp_dust p"
    using bt_sum_remove_nat [OF wf, of "\<lambda>_ m. owed_sum m mod SCALE_FACTOR" d] by (simp add: bp_dust_def eff(4))
  then have dust: "bp_dust p' + ?r mod SCALE_FACTOR = bp_dust p"
    by (simp add: record_total_def split: option.splits)
  have val: "bp_value p' \<le> bp_value p" using eff(3) owed by (simp add: bp_value_def)
  then show "bp_fits w p' 0" by (rule bp_fits_value [OF inv(2)])
  have "?r \<le> bp_value p" using owed by (simp add: bp_value_def)
  then have "?r div SCALE_FACTOR < 2 ^ w"
    using inv(2) by (auto simp: bp_fits_def intro: le_less_trans [OF div_le_mono])
  then have "into_chain_amount w ?r = ?r div SCALE_FACTOR" by (simp add: into_chain_amount_def umax_def)
  then have "SCALE_FACTOR * into_chain_amount w ?r + ?r mod SCALE_FACTOR = ?r" by simp
  then show "int (bp_available p') + int (bp_dust p') \<le> c + int (SCALE_FACTOR * into_chain_amount w ?r)
         - int (SCALE_FACTOR * (\<Sum>(b, x) \<leftarrow> u. x)) + 999 * int k"
    using inv(3) eff(3) dust by linarith
qed

lemma inv_lost:
  assumes s: "bl_inv w \<lparr>bl_pool = p, bl_assets = c, bl_boosts = k\<rparr>"
    and run: "process_deposit_as_lost dbg d p = Some (n, p')"
  shows "bl_inv w \<lparr>bl_pool = p', bl_assets = c, bl_boosts = k\<rparr>"
proof (rule bl_invI)
  note inv = bl_invD [OF s] and eff = lost_effect [OF bl_invD(1) [OF s] run]
  have wf: "bt_wf (bp_pending_boosts p)" by (rule bp_invD [OF inv(1)])
  show "bp_inv p'" by (rule eff)
  have b: "bp_pending_boosts p' = bt_remove d (bp_pending_boosts p)" by (rule eff)
  have "bp_owed p' \<le> bp_owed p" "bp_dust p' \<le> bp_dust p"
    using bt_sum_remove_nat [OF wf, of "\<lambda>_. owed_sum" d]
      bt_sum_remove_nat [OF wf, of "\<lambda>_ m. owed_sum m mod SCALE_FACTOR" d]
    by (simp_all add: bp_owed_def bp_dust_def b)
  then show "bp_fits w p' 0" "int (bp_available p') + int (bp_dust p') \<le> c + 999 * int k"
    using inv(3) eff(2) bp_fits_value [OF inv(2), of p'] by (simp_all add: bp_value_def)
qed

lemma inv_stop:
  assumes s: "bl_inv w \<lparr>bl_pool = p, bl_assets = c, bl_boosts = k\<rparr>"
    and run: "stop_boosting w b p = (Inr (x, D), p')"
  shows "bl_inv w \<lparr>bl_pool = p', bl_assets = c - int (SCALE_FACTOR * x), bl_boosts = k\<rparr>"
proof (rule bl_invI)
  note inv = bl_invD [OF s] and eff = stop_boosting_effect [OF bl_invD(1) [OF s] run]
  show "bp_inv p'" by (rule eff)
  show "bp_fits w p' 0"
    using eff(2) bp_owed_cong [OF eff(3)] bp_fits_value [OF inv(2), of p'] by (simp add: bp_value_def)
  show "int (bp_available p') + int (bp_dust p') \<le> c - int (SCALE_FACTOR * x) + 999 * int k"
    using inv(3) eff(2) bp_dust_cong [OF eff(3)] by linarith
qed

lemma bl_inv_step:
  assumes L: "boost_lib_ok L" and "bp_step L w s t" "bl_inv w s"
  shows "bl_inv w t"
  using assms(2,3)
proof induction
  case step_add
  then show ?case by (rule inv_add [rotated])
next
  case step_boost
  show ?case by (rule inv_boost [OF L step_boost(3,1,2)])
next
  case step_finalised
  then show ?case by (rule inv_finalised [rotated])
next
  case step_lost
  then show ?case by (rule inv_lost [rotated])
next
  case step_stop
  then show ?case by (rule inv_stop [rotated])
qed

lemma bl_inv_reachable:
  assumes "boost_lib_ok L" "bp_reachable L w s"
  shows "bl_inv w s"
  using assms(2)
  by induction (auto intro: bl_inv_new bl_inv_step [OF assms(1)])

section \<open>An example\<close>

definition boost_lib_ex :: boost_lib where
  "boost_lib_ex = \<lparr>permill_mul = (\<lambda>parts a. min parts 1000000 * a div 1000000),
     mul_rational = (\<lambda>a b c r. if c = 0 then None
       else uconv 128 (case r of RoundUp \<Rightarrow> div_ceil (a * b) c | RoundDown \<Rightarrow> a * b div c)),
     wyrand_range = (\<lambda>seed n. if seed < n then seed else 0)\<rparr>"

lemma boost_lib_ex_ok: "boost_lib_ok boost_lib_ex"
proof -
  have "min parts 1000000 * a div 1000000 \<le> a" for parts a :: nat
    using div_le_mono [of "min parts 1000000 * a" "1000000 * a" 1000000] by simp
  then show ?thesis by (simp add: boost_lib_ok_def boost_lib_ex_def)
qed

lemmas boost_eval = provide_funds_for_boosting_def use_funds_for_boosting_def add_funds_def
  add_funds_inner_def bp_new_def fee_from_boosted_amount_def fee_from_provided_amount_def
  process_deposit_as_finalised_def stop_boosting_def credit_lucky_def pending_deposits_of_def
  settle_withdrawal_def process_deposit_as_lost_def
  boost_defs SCALE_FACTOR_def BASIS_POINTS_PER_MILLION_def BASIS_POINTS_MAX_def
  usat_add_def usat_mul_def umax_def usub_def uconv_def div_ceil_def bt_remove_def

text \<open>Two boosters add funds and a deposit is boosted.\<close>

definition boost_ex0 :: "nat boost_pool" where
  "boost_ex0 = add_funds 2 5000 (add_funds 1 10000 (bp_new 5))"

definition boost_ex1 :: "nat boost_pool" where
  "boost_ex1 = snd (provide_funds_for_boosting boost_lib_ex 64 1 2000 boost_ex0)"

lemma boost_ex0_eq: "boost_ex0 = \<lparr>bp_fee_bps = 5, bp_available = 15000000,
    bp_amounts = [(1, 10000000), (2, 5000000)], bp_pending_boosts = [], bp_pending_withdrawals = []\<rparr>"
  by (simp add: boost_ex0_def boost_eval)

lemma boost_ex_shares:
  "boost_shares boost_lib_ex 1999000 2000000 15000000 [(1, 10000000), (2, 5000000)] 0 0 =
    ([(1, 8667333), (2, 4333666)], [(1, \<lparr>owed_total = 1333333, owed_fee = 666\<rparr>),
      (2, \<lparr>owed_total = 666666, owed_fee = 332\<rparr>)], 1999001, 1999999)"
  by (simp add: boost_lib_ex_def boost_defs usat_add_def umax_def uconv_def div_ceil_def)

lemma boost_ex_lucky:
  "credit_lucky 1 1 1 [(1, 8667333), (2, 4333666)] [(1, \<lparr>owed_total = 1333333, owed_fee = 666\<rparr>),
      (2::nat, \<lparr>owed_total = 666666, owed_fee = 332\<rparr>)] =
    ([(1, 8667333), (2, 4333667)], [(1, \<lparr>owed_total = 1333333, owed_fee = 666\<rparr>),
      (2, \<lparr>owed_total = 666667, owed_fee = 333\<rparr>)])"
  by (simp add: credit_lucky_def boost_defs usat_add_def umax_def)

lemma boost_ex_use: "use_funds_for_boosting boost_lib_ex 1 1999000 1000 boost_ex0 =
   (Inr (), \<lparr>bp_fee_bps = 5, bp_available = 13001000,
    bp_amounts = [(1, 8667333), (2, 4333667)],
    bp_pending_boosts = [(1, [(1, \<lparr>owed_total = 1333333, owed_fee = 666\<rparr>),
      (2, \<lparr>owed_total = 666667, owed_fee = 333\<rparr>)])], bp_pending_withdrawals = []\<rparr>)"
proof -
  have "wyrand_range boost_lib_ex 1 (length [(1::nat, 8667333::nat), (2, 4333666)]) = 1"
    by (simp add: boost_lib_ex_def)
  moreover have "scaled_checked_sub 15000000 1999000 = Some 13001000"
    "scaled_saturating_add 1999000 1000 = 2000000"
    "scaled_saturating_sub 1999001 1999000 = 1" "scaled_saturating_sub 2000000 1999999 = 1"
    by (simp_all add: boost_defs usub_def usat_add_def umax_def)
  ultimately show ?thesis
    by (simp only: use_funds_for_boosting_def boost_ex0_eq boost_pool.simps Let_def option.case
        boost_ex_shares boost_ex_lucky prod.case bt_get_Nil bt_insert.simps)
qed

lemma boost_ex1_run:
  "provide_funds_for_boosting boost_lib_ex 64 1 2000 boost_ex0 = (Inr (2000, 1), boost_ex1)"
  "boost_ex1 = \<lparr>bp_fee_bps = 5, bp_available = 13001000,
    bp_amounts = [(1, 8667333), (2, 4333667)],
    bp_pending_boosts = [(1, [(1, \<lparr>owed_total = 1333333, owed_fee = 666\<rparr>),
      (2, \<lparr>owed_total = 666667, owed_fee = 333\<rparr>)])], bp_pending_withdrawals = []\<rparr>"
proof -
  have "from_chain_amount 2000 = 2000000" "scaled_saturating_sub 2000000 1000 = 1999000"
    "into_chain_amount 64 (scaled_saturating_add 1999000 1000) = 2000" "into_chain_amount 64 1000 = 1"
    by (simp_all add: boost_eval)
  moreover have "fee_from_boosted_amount boost_lib_ex 2000000 5 = 1000"
    by (simp add: boost_lib_ex_def fee_from_boosted_amount_def BASIS_POINTS_PER_MILLION_def)
  moreover have "bp_fee_bps boost_ex0 = 5" "1999000 \<le> bp_available boost_ex0" by (simp_all add: boost_ex0_eq)
  ultimately have eq: "provide_funds_for_boosting boost_lib_ex 64 1 2000 boost_ex0 = (Inr (2000, 1),
    snd (use_funds_for_boosting boost_lib_ex 1 1999000 1000 boost_ex0))"
    by (simp only: provide_funds_for_boosting_def Let_def boost_ex_use if_True sum.case prod.case snd_conv)
  then show "provide_funds_for_boosting boost_lib_ex 64 1 2000 boost_ex0 = (Inr (2000, 1), boost_ex1)"
    by (simp only: boost_ex1_def snd_conv)
  show "boost_ex1 = \<lparr>bp_fee_bps = 5, bp_available = 13001000,
    bp_amounts = [(1, 8667333), (2, 4333667)],
    bp_pending_boosts = [(1, [(1, \<lparr>owed_total = 1333333, owed_fee = 666\<rparr>),
      (2, \<lparr>owed_total = 666667, owed_fee = 333\<rparr>)])], bp_pending_withdrawals = []\<rparr>"
    by (simp only: boost_ex1_def eq boost_ex_use snd_conv)
qed

lemma boost_ex_reachable:
  "bp_reachable boost_lib_ex 64 \<lparr>bl_pool = boost_ex0, bl_assets = 15000000, bl_boosts = 0\<rparr>"
  "bp_reachable boost_lib_ex 64 \<lparr>bl_pool = boost_ex1, bl_assets = 13001000, bl_boosts = 1\<rparr>"
proof -
  let ?p0 = "bp_new 5 :: nat boost_pool" and ?p1 = "add_funds 1 10000 (bp_new 5 :: nat boost_pool)"
  have p1: "?p1 = \<lparr>bp_fee_bps = 5, bp_available = 10000000, bp_amounts = [(1, 10000000)],
    bp_pending_boosts = [], bp_pending_withdrawals = []\<rparr>" by (simp add: boost_eval)
  have f0: "bp_fits 64 ?p0 (SCALE_FACTOR * 10000)" and f1: "bp_fits 64 ?p1 (SCALE_FACTOR * 5000)"
    unfolding p1 by (simp_all add: bp_fits_def bp_value_def bp_owed_def bp_new_def SCALE_FACTOR_def)
  have "bp_reachable boost_lib_ex 64 \<lparr>bl_pool = boost_ex0,
      bl_assets = 0 + int (SCALE_FACTOR * 10000) + int (SCALE_FACTOR * 5000), bl_boosts = 0\<rparr>"
    unfolding boost_ex0_def
    by (rule reach_step [OF reach_step [OF reach_new step_add [OF f0]] step_add [OF f1]])
  then show r: "bp_reachable boost_lib_ex 64 \<lparr>bl_pool = boost_ex0, bl_assets = 15000000, bl_boosts = 0\<rparr>"
    by (simp add: SCALE_FACTOR_def)
  have f2: "bp_fits 64 boost_ex1 0"
    by (simp add: boost_ex1_run(2) bp_fits_def bp_value_def bp_owed_def SCALE_FACTOR_def)
  show "bp_reachable boost_lib_ex 64 \<lparr>bl_pool = boost_ex1, bl_assets = 13001000, bl_boosts = 1\<rparr>"
    using reach_step [OF r step_boost [OF boost_ex1_run(1) f2]] by (simp add: SCALE_FACTOR_def)
qed

section \<open>A boost that is final\<close>

text \<open>Boosters who are not withdrawing get the amounts they are owed added to their funds.\<close>

lemma finalise_boosters_active:
  assumes "distinct (map fst C)" "bp_wf p" "bp_available p + owed_sum C < 2 ^ 128"
    and "\<And>b. b \<in> fst ` set C \<Longrightarrow> bt_get (bp_pending_withdrawals p) b = None"
  shows "\<exists>p'. finalise_boosters w d C p = ([], p') \<and> bp_available p' = bp_available p + owed_sum C \<and>
    (\<forall>b. bt_get (bp_amounts p') b = (case bt_get C b of None \<Rightarrow> bt_get (bp_amounts p) b
       | Some c \<Rightarrow> Some ((case bt_get (bp_amounts p) b of None \<Rightarrow> 0 | Some a \<Rightarrow> a) + owed_total c)))"
  using assms
proof (induction C arbitrary: p)
  case (Cons e C)
  obtain b c where e: "e = (b, c)" by (cases e)
  let ?q = "add_funds_inner b (owed_total c) p"
  have f: "bp_available p + owed_total c < 2 ^ 128" using Cons.prems(3) by (simp add: e)
  note eff = add_funds_inner_effect [OF Cons.prems(2) f, of b]
  have none: "bt_get (bp_pending_withdrawals p) b = None" using Cons.prems(4) by (simp add: e)
  let ?old = "case bt_get (bp_amounts p) b of None \<Rightarrow> 0 | Some a \<Rightarrow> a"
  have "?old \<le> bp_available p"
    using bt_sum_get_le [of "bp_amounts p" b _ "\<lambda>_ a. a"] Cons.prems(2)
    by (auto simp: bp_wf_def split: option.split)
  then have "usat_add 128 ?old (owed_total c) = ?old + owed_total c"
    using f by (simp add: usat_add_exact)
  then have am: "bt_get (bp_amounts ?q) b' = (if b' = b then Some (?old + owed_total c)
      else bt_get (bp_amounts p) b')" for b'
    by (simp add: add_funds_inner_def scaled_saturating_accrue_def bt_get_insert)
  have "\<exists>p'. finalise_boosters w d C ?q = ([], p') \<and> bp_available p' = bp_available ?q + owed_sum C \<and>
    (\<forall>b. bt_get (bp_amounts p') b = (case bt_get C b of None \<Rightarrow> bt_get (bp_amounts ?q) b
       | Some c \<Rightarrow> Some ((case bt_get (bp_amounts ?q) b of None \<Rightarrow> 0 | Some a \<Rightarrow> a) + owed_total c)))"
    by (rule Cons.IH) (use Cons.prems eff in \<open>auto simp: e bt_get_remove\<close>)
  then obtain p' where run: "finalise_boosters w d C ?q = ([], p')"
    and av: "bp_available p' = bp_available ?q + owed_sum C"
    and get: "\<And>b. bt_get (bp_amounts p') b = (case bt_get C b of None \<Rightarrow> bt_get (bp_amounts ?q) b
       | Some c \<Rightarrow> Some ((case bt_get (bp_amounts ?q) b of None \<Rightarrow> 0 | Some a \<Rightarrow> a) + owed_total c))"
    by blast
  have Cb: "bt_get C b = None" using Cons.prems(1) by (simp add: e bt_get_None_iff)
  have "bt_get (bp_amounts p') b' = (case bt_get (e # C) b' of None \<Rightarrow> bt_get (bp_amounts p) b'
       | Some c \<Rightarrow> Some ((case bt_get (bp_amounts p) b' of None \<Rightarrow> 0 | Some a \<Rightarrow> a) + owed_total c))" for b'
    unfolding get am by (cases "b' = b") (simp_all add: e Cb)
  then show ?case using none eff(2) run av by (simp add: e)
qed simp

text \<open>A pool of one booster, and what boosting 1998 units at five basis points does to it.\<close>

definition one_booster :: "nat \<Rightarrow> nat boost_pool" where
  "one_booster a = \<lparr>bp_fee_bps = 5, bp_available = a, bp_amounts = [(1, a)],
     bp_pending_boosts = [], bp_pending_withdrawals = []\<rparr>"

lemma one_booster_boost:
  assumes L: "boost_lib_ok L" and fee: "permill_mul L 500 1998000 = 999"
    and a: "1998000 \<le> a" "a + 999 < 2 ^ 128"
  obtains p' where "provide_funds_for_boosting L 64 d 1998 (one_booster a) = (Inr (1998, 0), p')"
    and "process_deposit_as_finalised 64 d p' = ([], one_booster (a + 999))"
proof -
  have c: "contribution_of L 1997001 a a = 1997001" "receipt_of L 1998000 a a = 1998000"
    using contribution_of_eq(1) [OF L, of 1997001 a a] receipt_of_eq(1) [OF L, of a a 1998000] a
    by (simp_all add: div_ceil_def)
  have lucky: "wyrand_range L d (Suc 0) = 0" using boost_lib_okD(4) [OF L, of "Suc 0" d] by simp
  let ?p = "\<lparr>bp_fee_bps = 5, bp_available = a - 1997001, bp_amounts = [(1, a - 1997001)],
     bp_pending_boosts = [(d, [(1, \<lparr>owed_total = 1998000, owed_fee = 999\<rparr>)])],
     bp_pending_withdrawals = []\<rparr>"
  have sh: "boost_shares L 1997001 1998000 a [(1::nat, a)] 0 0 = ([(1, a - 1997001)],
      [(1, \<lparr>owed_total = 1998000, owed_fee = 999\<rparr>)], 1997001, 1998000)"
    by (simp only: boost_shares_Cons c) (simp add: usat_add_def umax_def)
  have cr: "credit_lucky 0 0 0 [(1, a - 1997001)] [(1::nat, \<lparr>owed_total = 1998000, owed_fee = 999\<rparr>)]
      = ([(1, a - 1997001)], [(1, \<lparr>owed_total = 1998000, owed_fee = 999\<rparr>)])"
    using a by (simp add: credit_lucky_def boost_defs usat_add_def umax_def)
  have use: "use_funds_for_boosting L d 1997001 999 (one_booster a) = (Inr (), ?p)"
    using a sh cr lucky
    by (simp add: use_funds_for_boosting_def one_booster_def boost_defs usub_def usat_add_def umax_def
        del: boost_shares.simps)
  have "provide_funds_for_boosting L 64 d 1998 (one_booster a) = (Inr (1998, 0), ?p)"
    using a fee use
    by (simp add: provide_funds_for_boosting_def fee_from_boosted_amount_def boost_defs SCALE_FACTOR_def
        BASIS_POINTS_PER_MILLION_def usat_mul_def usat_add_def umax_def one_booster_def)
  moreover have "process_deposit_as_finalised 64 d ?p = ([], one_booster (a + 999))"
    using a by (simp add: process_deposit_as_finalised_def add_funds_inner_def bt_remove_def
        boost_defs usat_add_def umax_def one_booster_def)
  ultimately show ?thesis by (rule that)
qed

lemma bt_remove_insert_absent: "bt_get m k = None \<Longrightarrow> bt_remove k (bt_insert k v m) = m"
  by (induction k v m rule: bt_insert.induct)
     (auto simp: bt_remove_absent [unfolded bt_remove_def] bt_remove_def split: if_splits)

text \<open>What a booster gives is not more than what they are owed and one thousandth of a unit.\<close>

lemma contribution_le_receipt:
  assumes L: "boost_lib_ok L" and inv: "bp_inv p" and prov: "prov \<le> bp_available p"
    and a: "bt_get (bp_amounts p) b = Some a"
  shows "contribution_of L prov (bp_available p) a
    \<le> Suc (receipt_of L (usat_add 128 prov fee) (bp_available p) a)"
proof -
  have le: "a \<le> bp_available p" using bt_sum_get_le [OF a, of "\<lambda>_ a. a"] bp_invD(4) [OF inv] by simp
  then have lt: "a < 2 ^ 128" using bp_invD(3) [OF inv] by simp
  have "prov \<le> usat_add 128 prov fee" using prov bp_invD(3) [OF inv] by (simp add: usat_add_ge)
  then have "prov * a div bp_available p \<le> usat_add 128 prov fee * a div bp_available p"
    by (simp add: div_le_mono mult_le_mono1)
  then show ?thesis
    using contribution_of_eq(1) [OF L prov lt] receipt_of_eq(1) [OF L le usat_add_less]
      div_ceil_le_Suc_div [of "prov * a" "bp_available p"] by simp
qed

section \<open>Properties\<close>

text \<open>
  C4. In every state the calls of a boost pool can reach, the available amount is the sum
  of what the boosters own of it, and a booster who is withdrawing owns nothing of it and
  waits for exactly the pending boosts they take part in (so the warning about a deposit
  that is not in the pending withdrawals never occurs).
\<close>

theorem boost_pool_invariant:
  assumes "boost_lib_ok L" "bp_reachable L w s" "p = bl_pool s"
  shows "bp_available p = bt_sum (\<lambda>_ a. a) (bp_amounts p) \<and>
    (\<forall>b S. bt_get (bp_pending_withdrawals p) b = Some S \<longrightarrow> bt_get (bp_amounts p) b = None \<and> S \<noteq> {} \<and>
      (\<forall>d. d \<in> S \<longleftrightarrow> (\<exists>m c. bt_get (bp_pending_boosts p) d = Some m \<and> bt_get m b = Some c)))"
proof (intro conjI allI impI)
  have inv: "bp_inv p" using bl_inv_reachable [OF assms(1,2)] assms(3) by (simp add: bl_inv_def)
  then show "bp_available p = bt_sum (\<lambda>_ a. a) (bp_amounts p)" by (rule bp_invD)
  fix b S assume "bt_get (bp_pending_withdrawals p) b = Some S"
  then have S: "b \<notin> fst ` set (bp_amounts p)" "S = boosting_in p b" "S \<noteq> {}"
    using inv by (simp_all add: bp_inv_def)
  then show "bt_get (bp_amounts p) b = None" "S \<noteq> {}" by (simp_all add: bt_get_None_iff)
  have mem: "b \<in> fst ` set m \<longleftrightarrow> (\<exists>c. bt_get m b = Some c)" for m :: "('a, owed_amount) btree_map"
    using bt_get_None_iff [of m b] by (cases "bt_get m b") auto
  show "d \<in> S \<longleftrightarrow> (\<exists>m c. bt_get (bp_pending_boosts p) d = Some m \<and> bt_get m b = Some c)" for d
    by (simp add: S(2) boosting_in_def mem)
qed

theorem boost_pool_invariant_witness:
  "bp_available boost_ex1 = bt_sum (\<lambda>_ a. a) (bp_amounts boost_ex1)"
  using boost_pool_invariant [OF boost_lib_ex_ok boost_ex_reachable(2)] by simp

text \<open>
  C3. The funds a boost pool has available are covered by the assets behind it, except for
  less than one unit of the chain for each boost made: what boosters put in, less what was
  paid to depositors and to boosters, plus the deposits that became final.
\<close>

theorem boost_pool_solvent:
  assumes "boost_lib_ok L" "bp_reachable L w s"
  shows "int (bp_available (bl_pool s)) \<le> bl_assets s + 999 * int (bl_boosts s)"
  using bl_inv_reachable [OF assms] by (simp add: bl_inv_def)

theorem boost_pool_solvent_witness: "int (bp_available boost_ex1) \<le> 13001000 + 999 * int 1"
  using boost_pool_solvent [OF boost_lib_ex_ok boost_ex_reachable(2)] by simp

text \<open>
  C32. The allowance of the previous property is needed: at five basis points, two boosts of
  1998 units charge the depositors a fee of 0, each credits the one booster with 999
  thousandths of a unit all the same, and after them the booster, who put in 10000, takes
  out 10001.
\<close>

theorem boost_fee_not_charged:
  assumes L: "boost_lib_ok L" and fee: "permill_mul L 500 1998000 = 999"
  shows "\<exists>p1 p2 p3 p4 p5.
    provide_funds_for_boosting L 64 1 1998 (add_funds (1::nat) 10000 (bp_new 5)) = (Inr (1998, 0), p1) \<and>
    process_deposit_as_finalised 64 1 p1 = ([], p2) \<and>
    provide_funds_for_boosting L 64 2 1998 p2 = (Inr (1998, 0), p3) \<and>
    process_deposit_as_finalised 64 2 p3 = ([], p4) \<and>
    stop_boosting 64 1 p4 = (Inr (10001, {}), p5)"
proof -
  have p0: "add_funds (1::nat) 10000 (bp_new 5) = one_booster 10000000"
    by (simp add: boost_eval one_booster_def)
  obtain p1 where p1: "provide_funds_for_boosting L 64 1 1998 (one_booster 10000000) = (Inr (1998, 0), p1)"
    "process_deposit_as_finalised 64 1 p1 = ([], one_booster 10000999)"
    using one_booster_boost [OF L fee, of 10000000 1] by auto
  obtain p3 where p3: "provide_funds_for_boosting L 64 2 1998 (one_booster 10000999) = (Inr (1998, 0), p3)"
    "process_deposit_as_finalised 64 2 p3 = ([], one_booster 10001998)"
    using one_booster_boost [OF L fee, of 10000999 2] by auto
  have "\<exists>p5. stop_boosting 64 1 (one_booster 10001998) = (Inr (10001, {}), p5)"
    by (simp add: one_booster_def stop_boosting_def pending_deposits_of_def boost_defs SCALE_FACTOR_def umax_def)
  then show ?thesis unfolding p0 using p1 p3 by blast
qed

theorem boost_fee_not_charged_witness:
  "\<exists>p1. provide_funds_for_boosting boost_lib_ex 64 1 1998 (add_funds (1::nat) 10000 (bp_new 5)) = (Inr (1998, 0), p1)"
  using boost_fee_not_charged [of boost_lib_ex, OF boost_lib_ex_ok] by (auto simp: boost_lib_ex_def)

text \<open>
  C30. A boost that succeeds takes exactly the amount the pool provides from the available
  funds and records exactly that amount and the fee as owed. The two make up the deposit,
  or the pool provided all it had. Every booster gives at most their share, rounded up, and
  is owed at least their share, rounded down.
\<close>

theorem boost_provide_exact:
  assumes "boost_lib_ok L" "bp_reachable L w s" "p = bl_pool s" "0 < bp_available p"
    and "SCALE_FACTOR * x < 2 ^ 128"
    and "provide_funds_for_boosting L w d x p = (Inr (boosted, chain_fee), p')"
  shows "\<exists>prov fee m. prov \<le> bp_available p
    \<and> (prov + fee = SCALE_FACTOR * x \<or> prov = bp_available p \<and> prov < SCALE_FACTOR * x)
    \<and> bp_available p' = bp_available p - prov
    \<and> bt_sum (\<lambda>_ a. a) (bp_amounts p') = bp_available p - prov
    \<and> bp_pending_boosts p' = bt_insert d m (bp_pending_boosts p)
    \<and> bt_sum (\<lambda>_ c. owed_total c) m = usat_add 128 prov fee
    \<and> boosted = into_chain_amount w (usat_add 128 prov fee) \<and> chain_fee = into_chain_amount w fee
    \<and> (\<forall>b a. bt_get (bp_amounts p) b = Some a \<longrightarrow> (\<exists>a' c. bt_get (bp_amounts p') b = Some a' \<and> bt_get m b = Some c
        \<and> a - div_ceil (prov * a) (bp_available p) \<le> a'
        \<and> usat_add 128 prov fee * a div bp_available p \<le> owed_total c))"
proof -
  have inv: "bp_inv p" using bl_inv_reachable [OF assms(1,2)] assms(3) by (simp add: bl_inv_def)
  obtain prov fee A B where eff:
    "p' = p\<lparr>bp_available := bp_available p - prov, bp_amounts := A,
            bp_pending_boosts := bt_insert d B (bp_pending_boosts p)\<rparr>"
    "prov \<le> bp_available p" "boosted = into_chain_amount w (usat_add 128 prov fee)"
    "chain_fee = into_chain_amount w fee"
    "prov + fee = from_chain_amount x \<or> prov = bp_available p \<and> prov < from_chain_amount x"
    "amounts_sum A = bp_available p - prov"
    "owed_sum B = (if bp_amounts p = [] then 0 else usat_add 128 prov fee)"
    and sh: "\<forall>b a. bt_get (bp_amounts p) b = Some a \<longrightarrow> (\<exists>a' c. bt_get A b = Some a' \<and> bt_get B b = Some c
           \<and> a - contribution_of L prov (bp_available p) a \<le> a'
           \<and> receipt_of L (usat_add 128 prov fee) (bp_available p) a \<le> owed_total c)"
    by (rule provide_effect [OF assms(1) inv assms(6)]) blast
  have ne: "bp_amounts p \<noteq> []" using assms(4) bp_invD(4) [OF inv] by auto
  have eqs: "contribution_of L prov (bp_available p) a = div_ceil (prov * a) (bp_available p)"
    "receipt_of L (usat_add 128 prov fee) (bp_available p) a = usat_add 128 prov fee * a div bp_available p"
    if "bt_get (bp_amounts p) b = Some a" for a b
  proof -
    have a: "a \<le> bp_available p" using bt_sum_get_le [OF that, of "\<lambda>_ a. a"] bp_invD(4) [OF inv] by simp
    then have "a < 2 ^ 128" using bp_invD(3) [OF inv] by simp
    then show "contribution_of L prov (bp_available p) a = div_ceil (prov * a) (bp_available p)"
      using contribution_of_eq(1) [OF assms(1) eff(2)] assms(4) by simp
    show "receipt_of L (usat_add 128 prov fee) (bp_available p) a = usat_add 128 prov fee * a div bp_available p"
      using receipt_of_eq(1) [OF assms(1) a usat_add_less] assms(4) by simp
  qed
  have x: "from_chain_amount x = SCALE_FACTOR * x" by (rule from_chain_amount_exact [OF assms(5)])
  show ?thesis
  proof (intro exI conjI)
    show "\<forall>b a. bt_get (bp_amounts p) b = Some a \<longrightarrow> (\<exists>a' c. bt_get (bp_amounts p') b = Some a' \<and> bt_get B b = Some c
        \<and> a - div_ceil (prov * a) (bp_available p) \<le> a'
        \<and> usat_add 128 prov fee * a div bp_available p \<le> owed_total c)"
      using sh eqs by (simp add: eff(1))
  qed (use eff ne x in \<open>simp_all\<close>)
qed

theorem boost_provide_exact_witness:
  "\<exists>prov fee m. prov \<le> bp_available boost_ex0
    \<and> (prov + fee = SCALE_FACTOR * 2000 \<or> prov = bp_available boost_ex0 \<and> prov < SCALE_FACTOR * 2000)
    \<and> bp_available boost_ex1 = bp_available boost_ex0 - prov
    \<and> bt_sum (\<lambda>_ a. a) (bp_amounts boost_ex1) = bp_available boost_ex0 - prov
    \<and> bp_pending_boosts boost_ex1 = bt_insert 1 m (bp_pending_boosts boost_ex0)
    \<and> bt_sum (\<lambda>_ c. owed_total c) m = usat_add 128 prov fee
    \<and> 2000 = into_chain_amount 64 (usat_add 128 prov fee) \<and> 1 = into_chain_amount 64 fee
    \<and> (\<forall>b a. bt_get (bp_amounts boost_ex0) b = Some a \<longrightarrow>
        (\<exists>a' c. bt_get (bp_amounts boost_ex1) b = Some a' \<and> bt_get m b = Some c
        \<and> a - div_ceil (prov * a) (bp_available boost_ex0) \<le> a'
        \<and> usat_add 128 prov fee * a div bp_available boost_ex0 \<le> owed_total c))"
proof -
  have "0 < bp_available boost_ex0" "SCALE_FACTOR * 2000 < 2 ^ 128"
    by (simp_all add: boost_ex0_eq SCALE_FACTOR_def)
  then show ?thesis
    by (intro boost_provide_exact [OF boost_lib_ex_ok boost_ex_reachable(1) _ _ _ boost_ex1_run(1)]) simp_all
qed

lemma fee_from_provided:
  assumes "boost_lib_ok L" "fee_from_provided_amount L prov bps = Inr fee"
  shows "prov + fee = prov * 10000 div (10000 - bps)"
  using assms boost_lib_okD(3) [OF assms(1)]
  by (auto simp: fee_from_provided_amount_def BASIS_POINTS_MAX_def Let_def usub_def uconv_def split: option.splits if_splits)

text \<open>
  C31. When a boosted deposit becomes final while none of its boosters withdraws, nothing is
  paid out, the record is gone, the available funds are what they were before the boost
  plus the whole fee, and no booster has lost more than a thousandth of a unit to rounding.
  The fee is the part of the deposit that the fee tier of the pool asks for, where the pool
  can provide the rest of the deposit. Otherwise the pool provides all it has, and the fee is
  such that what is provided is that share of the two together. The boost reports the sum of
  the two and the fee.
\<close>

theorem boost_finalise_roundtrip:
  assumes L: "boost_lib_ok L" and s: "bp_reachable L w s" "p = bl_pool s" "0 < bp_available p"
    and run: "provide_funds_for_boosting L w d x p = (Inr (boosted, chain_fee), p')" and fits: "bp_value p' < 2 ^ 128 - 1"
    and full: "full = permill_mul L (bp_fee_bps p * 100) (from_chain_amount x)"
  shows "\<exists>prov fee p''. process_deposit_as_finalised w d p' = ([], p'')
    \<and> (if from_chain_amount x - full \<le> bp_available p
        then prov + fee = from_chain_amount x \<and> fee = full
        else prov = bp_available p \<and> prov + fee = prov * 10000 div (10000 - bp_fee_bps p))
    \<and> boosted = into_chain_amount w (prov + fee) \<and> chain_fee = into_chain_amount w fee
    \<and> bp_available p' = bp_available p - prov \<and> prov \<le> bp_available p
    \<and> bp_available p'' = bp_available p + fee
    \<and> bp_pending_boosts p'' = bp_pending_boosts p
    \<and> (\<forall>b a. bt_get (bp_amounts p) b = Some a \<longrightarrow> (\<exists>a''. bt_get (bp_amounts p'') b = Some a'' \<and> a \<le> a'' + 1))"
proof -
  have inv: "bp_inv p" using bl_inv_reachable [OF L s(1)] s(2) by (simp add: bl_inv_def)
  obtain prov fee A B where
    p': "p' = p\<lparr>bp_available := bp_available p - prov, bp_amounts := A,
            bp_pending_boosts := bt_insert d B (bp_pending_boosts p)\<rparr>"
    and prov: "prov \<le> bp_available p" and new: "bt_get (bp_pending_boosts p) d = None"
    and keys: "map fst B = map fst (bp_amounts p)"
    and out: "boosted = into_chain_amount w (usat_add 128 prov fee)" "chain_fee = into_chain_amount w fee"
    and B: "owed_sum B = (if bp_amounts p = [] then 0 else usat_add 128 prov fee)"
    and sh: "\<forall>b a. bt_get (bp_amounts p) b = Some a \<longrightarrow> (\<exists>a' c. bt_get A b = Some a' \<and> bt_get B b = Some c
           \<and> a - contribution_of L prov (bp_available p) a \<le> a'
           \<and> receipt_of L (usat_add 128 prov fee) (bp_available p) a \<le> owed_total c)"
    and terms: "if from_chain_amount x - full \<le> bp_available p then prov + fee = from_chain_amount x \<and> fee = full
      else prov = bp_available p \<and> fee_from_provided_amount L prov (bp_fee_bps p) = Inr fee"
    by (rule provide_effect [OF L inv run, unfolded fee_from_boosted_amount_def BASIS_POINTS_PER_MILLION_def full [symmetric]])
  have inv': "bp_inv p'" by (rule provide_inv [OF L inv run]) (use fits in simp)
  have get: "bt_get (bp_pending_boosts p') d = Some B" by (simp add: p' bt_get_insert)
  note q = remove_record [OF inv' get]
  let ?q = "p'\<lparr>bp_pending_boosts := bt_remove d (bp_pending_boosts p')\<rparr>"
  have "bt_get (bp_pending_withdrawals ?q) b = None" if "b \<in> fst ` set B" for b
    using that inv bt_keys_same [OF keys] by (cases "bt_get (bp_pending_withdrawals p) b") (auto simp: bp_inv_def p')
  then obtain p'' where fin: "finalise_boosters w d B ?q = ([], p'')"
    and av: "bp_available p'' = bp_available ?q + owed_sum B"
    and am: "\<forall>b. bt_get (bp_amounts p'') b = (case bt_get B b of None \<Rightarrow> bt_get (bp_amounts ?q) b
       | Some c \<Rightarrow> Some ((case bt_get (bp_amounts ?q) b of None \<Rightarrow> 0 | Some a \<Rightarrow> a) + owed_total c))"
    using finalise_boosters_active [OF q(4,1,5)] by blast
  have run': "process_deposit_as_finalised w d p' = ([], p'')"
    using fin get by (simp add: process_deposit_as_finalised_def)
  have "bp_pending_boosts p'' = bp_pending_boosts p"
    using finalised_effect(4) [OF inv' run'] bt_remove_insert_absent [OF new] by (simp add: p')
  moreover have ne: "bp_amounts p \<noteq> []" using s(3) bp_invD(4) [OF inv] by auto
  moreover have "owed_sum B \<le> bp_value p'" using bt_sum_get_le [OF get, of "\<lambda>_. owed_sum"] by (simp add: bp_value_def bp_owed_def)
  then have sat: "usat_add 128 prov fee = prov + fee" using B ne fits by (simp add: usat_add_def umax_def split: if_splits)
  moreover have "\<exists>a''. bt_get (bp_amounts p'') b = Some a'' \<and> a \<le> a'' + 1"
    if a: "bt_get (bp_amounts p) b = Some a" for b a
  proof -
    obtain a' c where ac: "bt_get A b = Some a'" "bt_get B b = Some c"
      "a - contribution_of L prov (bp_available p) a \<le> a'"
      "receipt_of L (usat_add 128 prov fee) (bp_available p) a \<le> owed_total c" using sh a by blast
    have "contribution_of L prov (bp_available p) a
        \<le> Suc (receipt_of L (usat_add 128 prov fee) (bp_available p) a)"
      by (rule contribution_le_receipt [OF L inv prov a])
    then show ?thesis using am ac by (simp add: p')
  qed
  moreover have "if from_chain_amount x - full \<le> bp_available p then prov + fee = from_chain_amount x \<and> fee = full
      else prov = bp_available p \<and> prov + fee = prov * 10000 div (10000 - bp_fee_bps p)"
    using terms fee_from_provided [OF L, of prov "bp_fee_bps p" fee] by (auto split: if_splits)
  ultimately show ?thesis using run' av B prov q(6) out sat
    by - (rule exI [of _ prov], rule exI [of _ fee], rule exI [of _ p''], simp add: p')
qed

text \<open>A boost of 2000 units at 5 basis points: a fee of one unit, a thousand of the scaled ones.\<close>

theorem boost_finalise_roundtrip_witness:
  "\<exists>p''. process_deposit_as_finalised 64 1 boost_ex1 = ([], p'')
    \<and> bp_available boost_ex1 = bp_available boost_ex0 - 1999000
    \<and> bp_available p'' = bp_available boost_ex0 + 1000
    \<and> bp_pending_boosts p'' = bp_pending_boosts boost_ex0
    \<and> (\<forall>b a. bt_get (bp_amounts boost_ex0) b = Some a \<longrightarrow>
        (\<exists>a''. bt_get (bp_amounts p'') b = Some a'' \<and> a \<le> a'' + 1))"
proof -
  have ex: "0 < bp_available boost_ex0" "bp_value boost_ex1 < 2 ^ 128 - 1" "from_chain_amount 2000 = 2000000"
    "1000 = permill_mul boost_lib_ex (bp_fee_bps boost_ex0 * 100) (from_chain_amount 2000)" "1999000 \<le> bp_available boost_ex0"
    by (simp_all add: boost_ex0_eq boost_ex1_run(2) bp_value_def bp_owed_def boost_lib_ex_def boost_defs SCALE_FACTOR_def usat_mul_def umax_def)
  from boost_finalise_roundtrip [OF boost_lib_ex_ok boost_ex_reachable(1) _ ex(1) boost_ex1_run(1) ex(2,4)] ex(3,5)
  show ?thesis by auto
qed

end
