(* ===== verification/Flip.thy ===== *)
theory Flip
  imports CF_Maps
begin

text \<open>
  The FLIP token (\<open>src/state-chain/pallets/cf-flip/src\<close>: \<open>lib.rs\<close>, \<open>imbalances.rs\<close>,
  \<open>on_charge_transaction.rs\<close>). Funds never move from one place to another in one go: an
  operation first creates an imbalance, a \<open>Surplus\<close> or a \<open>Deficit\<close> that remembers where it
  came from, and then settles it; what is left of it when it goes out of scope is reverted
  to its source. The model threads the storage of the pallet through all of them, the
  destructors included.

  Amounts are the runtime's \<open>u128\<close>. A storage map is a finite map; a map with
  \<open>ValueQuery\<close> reads a default where it has no entry and writes one when it is mutated.
  Events and the \<open>on_account_funded\<close> hook of other pallets do not touch this storage and
  are left out. The enumerations \<open>SignedImbalance\<close> and \<open>SameOrOther\<close> belong to
  \<open>frame_support\<close>; their methods are the record \<open>frame_lib\<close>, and \<open>frame_ok\<close>
  is what their documentation says of them.
\<close>

named_theorems flip_defs \<open>definitions of the FLIP pallet\<close>

section \<open>Storage\<close>

record flip_account =
  fa_balance :: nat
  fa_bond :: nat

definition flip_account_default :: flip_account where
  [flip_defs]: "flip_account_default = \<lparr>fa_balance = 0, fa_bond = 0\<rparr>"

definition account_total :: "flip_account \<Rightarrow> nat" where
  [flip_defs]: "account_total a = fa_balance a"

definition account_liquid :: "flip_account \<Rightarrow> nat" where
  [flip_defs]: "account_liquid a = fa_balance a - fa_bond a"

definition account_bond :: "flip_account \<Rightarrow> nat" where
  [flip_defs]: "account_bond a = fa_bond a"

definition can_be_slashed :: "nat \<Rightarrow> flip_account \<Rightarrow> bool" where
  [flip_defs]: "can_be_slashed slash_amount a \<longleftrightarrow> fa_balance a - slash_amount > fa_bond a div 5"

record ('a, 'r) flip_state =
  fl_accounts :: "('a, flip_account) btree_map"
  fl_reserves :: "('r, nat) btree_map"
  fl_pending_redemptions :: "('a, nat) btree_map"
  fl_total_issuance :: nat
  fl_slashing_rate :: nat
  fl_offchain_funds :: nat

definition flip_genesis :: "nat \<Rightarrow> nat \<Rightarrow> ('a, 'r) flip_state" where
  "flip_genesis total_issuance daily_slashing_rate =
     \<lparr>fl_accounts = [], fl_reserves = [], fl_pending_redemptions = [],
      fl_total_issuance = total_issuance, fl_slashing_rate = daily_slashing_rate,
      fl_offchain_funds = total_issuance\<rparr>"

definition get_account :: "'a::linorder \<Rightarrow> ('a, 'r) flip_state \<Rightarrow> flip_account" where
  [flip_defs]: "get_account k st =
     (case bt_get (fl_accounts st) k of None \<Rightarrow> flip_account_default | Some a \<Rightarrow> a)"

definition put_account :: "'a::linorder \<Rightarrow> flip_account \<Rightarrow> ('a, 'r) flip_state \<Rightarrow> ('a, 'r) flip_state" where
  [flip_defs]: "put_account k a st = st\<lparr>fl_accounts := bt_insert k a (fl_accounts st)\<rparr>"

definition put_balance :: "'a::linorder \<Rightarrow> nat \<Rightarrow> ('a, 'r) flip_state \<Rightarrow> ('a, 'r) flip_state" where
  [flip_defs]: "put_balance k x st = put_account k ((get_account k st)\<lparr>fa_balance := x\<rparr>) st"

definition reserved_balance :: "'r::linorder \<Rightarrow> ('a, 'r) flip_state \<Rightarrow> nat" where
  [flip_defs]: "reserved_balance k st = (case bt_get (fl_reserves st) k of None \<Rightarrow> 0 | Some x \<Rightarrow> x)"

definition put_reserve :: "'r::linorder \<Rightarrow> nat \<Rightarrow> ('a, 'r) flip_state \<Rightarrow> ('a, 'r) flip_state" where
  [flip_defs]: "put_reserve k x st = st\<lparr>fl_reserves := bt_insert k x (fl_reserves st)\<rparr>"

section \<open>Imbalances\<close>

datatype ('a, 'r) internal_source = SAccount 'a | SReserve 'r | SPendingRedemption 'a

datatype ('a, 'r) imbalance_source = SExternal | SInternal "('a, 'r) internal_source" | SEmissions

record ('a, 'r) surplus =
  su_amount :: nat
  su_source :: "('a, 'r) imbalance_source"

record ('a, 'r) deficit =
  de_amount :: nat
  de_source :: "('a, 'r) imbalance_source"

abbreviation new_surplus :: "nat \<Rightarrow> ('a, 'r) imbalance_source \<Rightarrow> ('a, 'r) surplus" where
  "new_surplus x src \<equiv> \<lparr>su_amount = x, su_source = src\<rparr>"

abbreviation new_deficit :: "nat \<Rightarrow> ('a, 'r) imbalance_source \<Rightarrow> ('a, 'r) deficit" where
  "new_deficit x src \<equiv> \<lparr>de_amount = x, de_source = src\<rparr>"

subsection \<open>Creating a surplus\<close>

definition surplus_from_mint ::
  "nat \<Rightarrow> ('a, 'r) flip_state \<Rightarrow> ('a, 'r) surplus \<times> ('a, 'r) flip_state" where
  "surplus_from_mint amount st =
     (if amount = 0 then (new_surplus 0 SEmissions, st)
      else case uadd 128 (fl_total_issuance st) amount of
             Some new_total \<Rightarrow> (new_surplus amount SEmissions, st\<lparr>fl_total_issuance := new_total\<rparr>)
           | None \<Rightarrow> (new_surplus 0 SEmissions, st))"

definition surplus_try_from_acct ::
  "'a::linorder \<Rightarrow> nat \<Rightarrow> bool \<Rightarrow> ('a, 'r) flip_state \<Rightarrow> (('a, 'r) surplus \<times> ('a, 'r) flip_state) option" where
  "surplus_try_from_acct account_id amount check_liquidity st =
     (case bt_get (fl_accounts st) account_id of
        None \<Rightarrow> None
      | Some account \<Rightarrow>
          if check_liquidity \<and> account_liquid account < amount then None
          else if fa_balance account < amount then None
          else Some (new_surplus amount (SInternal (SAccount account_id)),
                     put_account account_id (account\<lparr>fa_balance := fa_balance account - amount\<rparr>) st))"

definition surplus_from_acct ::
  "'a::linorder \<Rightarrow> nat \<Rightarrow> ('a, 'r) flip_state \<Rightarrow> ('a, 'r) surplus \<times> ('a, 'r) flip_state" where
  "surplus_from_acct account_id amount st =
     (let account = get_account account_id st;
          deducted = min (fa_balance account) amount
      in (new_surplus deducted (SInternal (SAccount account_id)),
          put_account account_id (account\<lparr>fa_balance := fa_balance account - deducted\<rparr>) st))"

definition surplus_try_from_reserve ::
  "'r::linorder \<Rightarrow> nat \<Rightarrow> ('a, 'r) flip_state \<Rightarrow> (('a, 'r) surplus \<times> ('a, 'r) flip_state) option" where
  "surplus_try_from_reserve reserve_id amount st =
     (if reserved_balance reserve_id st < amount then None
      else Some (new_surplus amount (SInternal (SReserve reserve_id)),
                 put_reserve reserve_id (reserved_balance reserve_id st - amount) st))"

definition surplus_try_from_pending_redemptions_reserve ::
  "'a::linorder \<Rightarrow> ('a, 'r) flip_state \<Rightarrow> (('a, 'r) surplus \<times> ('a, 'r) flip_state) option" where
  "surplus_try_from_pending_redemptions_reserve account_id st =
     (case bt_get (fl_pending_redemptions st) account_id of
        None \<Rightarrow> None
      | Some amount \<Rightarrow> Some (new_surplus amount (SInternal (SPendingRedemption account_id)),
          st\<lparr>fl_pending_redemptions := bt_remove account_id (fl_pending_redemptions st)\<rparr>))"

definition surplus_from_reserve ::
  "'r::linorder \<Rightarrow> nat \<Rightarrow> ('a, 'r) flip_state \<Rightarrow> ('a, 'r) surplus \<times> ('a, 'r) flip_state" where
  "surplus_from_reserve reserve_id amount st =
     (let balance = reserved_balance reserve_id st;
          deducted = min balance amount
      in (new_surplus deducted (SInternal (SReserve reserve_id)),
          put_reserve reserve_id (balance - deducted) st))"

definition surplus_from_offchain ::
  "nat \<Rightarrow> ('a, 'r) flip_state \<Rightarrow> ('a, 'r) surplus \<times> ('a, 'r) flip_state" where
  "surplus_from_offchain amount st =
     (let deducted = min (fl_offchain_funds st) amount
      in (new_surplus deducted SExternal, st\<lparr>fl_offchain_funds := fl_offchain_funds st - deducted\<rparr>))"

subsection \<open>Creating a deficit\<close>

definition deficit_from_burn ::
  "nat \<Rightarrow> ('a, 'r) flip_state \<Rightarrow> ('a, 'r) deficit \<times> ('a, 'r) flip_state" where
  "deficit_from_burn amount st =
     (if amount = 0 then (new_deficit 0 SEmissions, st)
      else case usub (fl_total_issuance st) amount of
             Some issued \<Rightarrow> (new_deficit amount SEmissions, st\<lparr>fl_total_issuance := issued\<rparr>)
           | None \<Rightarrow> (new_deficit (fl_total_issuance st) SEmissions, st\<lparr>fl_total_issuance := 0\<rparr>))"

definition deficit_from_acct ::
  "'a::linorder \<Rightarrow> nat \<Rightarrow> ('a, 'r) flip_state \<Rightarrow> ('a, 'r) deficit \<times> ('a, 'r) flip_state" where
  "deficit_from_acct account_id amount st =
     (let account = get_account account_id st in
      case uadd 128 (fa_balance account) amount of
        Some result \<Rightarrow> (new_deficit amount (SInternal (SAccount account_id)),
          put_account account_id (account\<lparr>fa_balance := result\<rparr>) st)
      | None \<Rightarrow> (new_deficit 0 (SInternal (SAccount account_id)), put_account account_id account st))"

definition deficit_from_reserve ::
  "'r::linorder \<Rightarrow> nat \<Rightarrow> ('a, 'r) flip_state \<Rightarrow> ('a, 'r) deficit \<times> ('a, 'r) flip_state" where
  "deficit_from_reserve reserve_id amount st =
     (let balance = reserved_balance reserve_id st in
      case uadd 128 balance amount of
        Some result \<Rightarrow> (new_deficit amount (SInternal (SReserve reserve_id)),
          put_reserve reserve_id result st)
      | None \<Rightarrow> (new_deficit 0 (SInternal (SReserve reserve_id)), put_reserve reserve_id balance st))"

definition deficit_from_pending_redemptions_reserve ::
  "'a::linorder \<Rightarrow> nat \<Rightarrow> ('a, 'r) flip_state \<Rightarrow> ('a, 'r) deficit \<times> ('a, 'r) flip_state" where
  "deficit_from_pending_redemptions_reserve account_id amount st =
     (new_deficit amount (SInternal (SPendingRedemption account_id)),
      st\<lparr>fl_pending_redemptions := bt_insert account_id amount (fl_pending_redemptions st)\<rparr>)"

definition deficit_from_offchain ::
  "nat \<Rightarrow> ('a, 'r) flip_state \<Rightarrow> ('a, 'r) deficit \<times> ('a, 'r) flip_state" where
  "deficit_from_offchain amount st =
     (case uadd 128 (fl_offchain_funds st) amount of
        Some result \<Rightarrow> (new_deficit amount SExternal, st\<lparr>fl_offchain_funds := result\<rparr>)
      | None \<Rightarrow> (new_deficit 0 SExternal, st))"

subsection \<open>Reverting, which is also the destructor\<close>

definition surplus_revert :: "('a::linorder, 'r::linorder) surplus \<Rightarrow> ('a, 'r) flip_state \<Rightarrow> ('a, 'r) flip_state" where
  "surplus_revert s st =
     (let amount = su_amount s in
      case su_source s of
        SExternal \<Rightarrow> st\<lparr>fl_offchain_funds := usat_add 128 (fl_offchain_funds st) amount\<rparr>
      | SEmissions \<Rightarrow> st\<lparr>fl_total_issuance := fl_total_issuance st - amount\<rparr>
      | SInternal (SAccount k) \<Rightarrow>
          put_balance k (usat_add 128 (fa_balance (get_account k st)) amount) st
      | SInternal (SReserve k) \<Rightarrow> put_reserve k (usat_add 128 (reserved_balance k st) amount) st
      | SInternal (SPendingRedemption k) \<Rightarrow>
          (if amount \<noteq> 0
           then st\<lparr>fl_pending_redemptions := bt_insert k amount (fl_pending_redemptions st)\<rparr>
           else st))"

definition deficit_revert :: "('a::linorder, 'r::linorder) deficit \<Rightarrow> ('a, 'r) flip_state \<Rightarrow> ('a, 'r) flip_state" where
  "deficit_revert d st =
     (let amount = de_amount d in
      case de_source d of
        SExternal \<Rightarrow> st\<lparr>fl_offchain_funds := fl_offchain_funds st - amount\<rparr>
      | SEmissions \<Rightarrow> st\<lparr>fl_total_issuance := usat_add 128 (fl_total_issuance st) amount\<rparr>
      | SInternal (SAccount k) \<Rightarrow> put_balance k (fa_balance (get_account k st) - amount) st
      | SInternal (SReserve k) \<Rightarrow> put_reserve k (reserved_balance k st - amount) st
      | SInternal (SPendingRedemption k) \<Rightarrow>
          (if amount \<noteq> 0
           then st\<lparr>fl_pending_redemptions := bt_remove k (fl_pending_redemptions st)\<rparr>
           else st))"

subsection \<open>The imbalance trait\<close>

datatype ('s, 'd) same_or_other = SNone | Same 's | Other 'd

definition surplus_zero :: "('a, 'r) surplus" where
  "surplus_zero = new_surplus 0 SEmissions"

definition deficit_zero :: "('a, 'r) deficit" where
  "deficit_zero = new_deficit 0 SEmissions"

definition surplus_drop_zero ::
  "('a::linorder, 'r::linorder) surplus \<Rightarrow> ('a, 'r) flip_state \<Rightarrow> (('a, 'r) surplus + unit) \<times> ('a, 'r) flip_state" where
  "surplus_drop_zero s st = (if su_amount s = 0 then (Inr (), surplus_revert s st) else (Inl s, st))"

definition deficit_drop_zero ::
  "('a::linorder, 'r::linorder) deficit \<Rightarrow> ('a, 'r) flip_state \<Rightarrow> (('a, 'r) deficit + unit) \<times> ('a, 'r) flip_state" where
  "deficit_drop_zero d st = (if de_amount d = 0 then (Inr (), deficit_revert d st) else (Inl d, st))"

definition surplus_split :: "nat \<Rightarrow> ('a, 'r) surplus \<Rightarrow> ('a, 'r) surplus \<times> ('a, 'r) surplus" where
  "surplus_split amount s =
     (let first = min (su_amount s) amount; second = su_amount s - first
      in (new_surplus first (su_source s), new_surplus second (su_source s)))"

definition deficit_split :: "nat \<Rightarrow> ('a, 'r) deficit \<Rightarrow> ('a, 'r) deficit \<times> ('a, 'r) deficit" where
  "deficit_split amount d =
     (let first = min (de_amount d) amount; second = de_amount d - first
      in (new_deficit first (de_source d), new_deficit second (de_source d)))"

definition surplus_subsume ::
  "('a::linorder, 'r::linorder) surplus \<Rightarrow> ('a, 'r) surplus \<Rightarrow> ('a, 'r) flip_state \<Rightarrow> ('a, 'r) surplus \<times> ('a, 'r) flip_state" where
  "surplus_subsume other s st =
     (if su_source s = su_source other
      then (s\<lparr>su_amount := usat_add 128 (su_amount s) (su_amount other)\<rparr>, st)
      else (s, surplus_revert other st))"

definition deficit_subsume ::
  "('a::linorder, 'r::linorder) deficit \<Rightarrow> ('a, 'r) deficit \<Rightarrow> ('a, 'r) flip_state \<Rightarrow> ('a, 'r) deficit \<times> ('a, 'r) flip_state" where
  "deficit_subsume other d st =
     (if de_source d = de_source other
      then (d\<lparr>de_amount := usat_add 128 (de_amount d) (de_amount other)\<rparr>, st)
      else (d, deficit_revert other st))"

definition surplus_merge ::
  "('a::linorder, 'r::linorder) surplus \<Rightarrow> ('a, 'r) surplus \<Rightarrow> ('a, 'r) flip_state \<Rightarrow> ('a, 'r) surplus \<times> ('a, 'r) flip_state" where
  "surplus_merge other s st = surplus_subsume other s st"

definition deficit_merge ::
  "('a::linorder, 'r::linorder) deficit \<Rightarrow> ('a, 'r) deficit \<Rightarrow> ('a, 'r) flip_state \<Rightarrow> ('a, 'r) deficit \<times> ('a, 'r) flip_state" where
  "deficit_merge other d st = deficit_subsume other d st"

definition surplus_offset ::
  "('a, 'r) surplus \<Rightarrow> ('a, 'r) deficit \<Rightarrow> (('a, 'r) surplus, ('a, 'r) deficit) same_or_other" where
  "surplus_offset s d =
     (let a = su_amount s; b = de_amount d in
      if a < b then Other (new_deficit (b - a) (de_source d))
      else if b < a then Same (new_surplus (a - b) (su_source s))
      else SNone)"

definition deficit_offset ::
  "('a, 'r) deficit \<Rightarrow> ('a, 'r) surplus \<Rightarrow> (('a, 'r) deficit, ('a, 'r) surplus) same_or_other" where
  "deficit_offset d s =
     (let a = de_amount d; b = su_amount s in
      if b \<le> a then Same (new_deficit (a - b) (de_source d))
      else Other (new_surplus (b - a) (su_source s)))"

definition surplus_extract :: "nat \<Rightarrow> ('a, 'r) surplus \<Rightarrow> ('a, 'r) surplus \<times> ('a, 'r) surplus" where
  "surplus_extract amount s =
     (let extracted = min (su_amount s) amount
      in (new_surplus extracted (su_source s), s\<lparr>su_amount := su_amount s - extracted\<rparr>))"

definition deficit_extract :: "nat \<Rightarrow> ('a, 'r) deficit \<Rightarrow> ('a, 'r) deficit \<times> ('a, 'r) deficit" where
  "deficit_extract amount d =
     (let extracted = min (de_amount d) amount
      in (new_deficit extracted (de_source d), d\<lparr>de_amount := de_amount d - extracted\<rparr>))"

text \<open>A value of \<open>SameOrOther\<close> that goes out of scope runs the destructor of what it holds.\<close>

definition drop_surplus_offset ::
  "(('a::linorder, 'r::linorder) surplus, ('a, 'r) deficit) same_or_other \<Rightarrow> ('a, 'r) flip_state \<Rightarrow> ('a, 'r) flip_state" where
  "drop_surplus_offset r st =
     (case r of SNone \<Rightarrow> st | Same s \<Rightarrow> surplus_revert s st | Other d \<Rightarrow> deficit_revert d st)"

definition drop_deficit_offset ::
  "(('a::linorder, 'r::linorder) deficit, ('a, 'r) surplus) same_or_other \<Rightarrow> ('a, 'r) flip_state \<Rightarrow> ('a, 'r) flip_state" where
  "drop_deficit_offset r st =
     (case r of SNone \<Rightarrow> st | Same d \<Rightarrow> deficit_revert d st | Other s \<Rightarrow> surplus_revert s st)"

section \<open>The methods of frame\_support\<close>

datatype ('a, 'r) signed_imbalance = Positive "('a, 'r) surplus" | Negative "('a, 'r) deficit"

record ('a, 'r) frame_lib =
  same_surplus :: "(('a, 'r) surplus, ('a, 'r) deficit) same_or_other \<Rightarrow> ('a, 'r) deficit + ('a, 'r) surplus"
  same_deficit :: "(('a, 'r) deficit, ('a, 'r) surplus) same_or_other \<Rightarrow> ('a, 'r) surplus + ('a, 'r) deficit"
  signed_drop_zero :: "('a, 'r) signed_imbalance \<Rightarrow> ('a, 'r) flip_state \<Rightarrow>
    (('a, 'r) signed_imbalance + unit) \<times> ('a, 'r) flip_state"

text \<open>
  \<open>same\<close> returns the value of \<open>Same\<close>, the default for \<open>None\<close> and the value of \<open>Other\<close> as
  the error; \<open>drop_zero\<close> of a signed imbalance is that of the imbalance it holds.
\<close>

definition frame_ok :: "('a::linorder, 'r::linorder) frame_lib \<Rightarrow> bool" where
  "frame_ok F \<longleftrightarrow>
     (\<forall>s. same_surplus F (Same s) = Inr s) \<and> (\<forall>d. same_surplus F (Other d) = Inl d) \<and>
     same_surplus F SNone = Inr surplus_zero \<and>
     (\<forall>d. same_deficit F (Same d) = Inr d) \<and> (\<forall>s. same_deficit F (Other s) = Inl s) \<and>
     same_deficit F SNone = Inr deficit_zero \<and>
     (\<forall>s st. signed_drop_zero F (Positive s) st =
        (case surplus_drop_zero s st of (Inr u, st') \<Rightarrow> (Inr u, st') | (Inl s', st') \<Rightarrow> (Inl (Positive s'), st'))) \<and>
     (\<forall>d st. signed_drop_zero F (Negative d) st =
        (case deficit_drop_zero d st of (Inr u, st') \<Rightarrow> (Inr u, st') | (Inl d', st') \<Rightarrow> (Inl (Negative d'), st')))"

section \<open>The pallet\<close>

datatype flip_error = InsufficientLiquidity | InsufficientReserves | NoPendingRedemptionForThisID

text \<open>The difference is a plain subtraction of \<open>u128\<close>.\<close>

definition onchain_funds :: "('a, 'r) flip_state \<Rightarrow> nat option" where
  "onchain_funds st = usub (fl_total_issuance st) (fl_offchain_funds st)"

definition total_balance_of :: "'a::linorder \<Rightarrow> ('a, 'r) flip_state \<Rightarrow> nat" where
  [flip_defs]: "total_balance_of account_id st = account_total (get_account account_id st)"

definition bond_of :: "'a::linorder \<Rightarrow> ('a, 'r) flip_state \<Rightarrow> nat" where
  [flip_defs]: "bond_of account_id st = account_bond (get_account account_id st)"

definition liquid_funds :: "'a::linorder \<Rightarrow> ('a, 'r) flip_state \<Rightarrow> nat" where
  [flip_defs]: "liquid_funds account_id st = account_liquid (get_account account_id st)"

text \<open>The origin of a call: the account that signed it, the witnesses, or governance.\<close>

datatype 'a origin = Signed 'a | Witnessed | Governance

datatype origin_error = NotGovernance

definition set_slashing_rate ::
  "'a origin \<Rightarrow> nat \<Rightarrow> ('a, 'r) flip_state \<Rightarrow> origin_error + ('a, 'r) flip_state" where
  "set_slashing_rate origin slashing_rate st =
     (if origin \<noteq> Governance then Inl NotGovernance
      else Inr (st\<lparr>fl_slashing_rate := slashing_rate\<rparr>))"

definition flip_debit ::
  "'a::linorder \<Rightarrow> nat \<Rightarrow> ('a, 'r) flip_state \<Rightarrow> ('a, 'r) surplus \<times> ('a, 'r) flip_state" where
  "flip_debit account_id amount st = surplus_from_acct account_id amount st"

definition try_debit ::
  "'a::linorder \<Rightarrow> nat \<Rightarrow> ('a, 'r) flip_state \<Rightarrow> (('a, 'r) surplus \<times> ('a, 'r) flip_state) option" where
  "try_debit account_id amount st = surplus_try_from_acct account_id amount False st"

definition try_debit_from_liquid_funds ::
  "'a::linorder \<Rightarrow> nat \<Rightarrow> ('a, 'r) flip_state \<Rightarrow> (('a, 'r) surplus \<times> ('a, 'r) flip_state) option" where
  "try_debit_from_liquid_funds account_id amount st = surplus_try_from_acct account_id amount True st"

definition flip_credit ::
  "'a::linorder \<Rightarrow> nat \<Rightarrow> ('a, 'r) flip_state \<Rightarrow> ('a, 'r) deficit \<times> ('a, 'r) flip_state" where
  "flip_credit account_id amount st = deficit_from_acct account_id amount st"

definition try_settle ::
  "('a::linorder, 'r::linorder) frame_lib \<Rightarrow> 'a \<Rightarrow> ('a, 'r) signed_imbalance \<Rightarrow> ('a, 'r) flip_state \<Rightarrow>
   (('a, 'r) signed_imbalance + unit) \<times> ('a, 'r) flip_state" where
  "try_settle F account_id imbalance st =
     (case imbalance of
        Positive surplus \<Rightarrow>
          (let (deficit, st1) = flip_credit account_id (su_amount surplus) st;
               rest = (case same_surplus F (surplus_offset surplus deficit) of
                         Inr s \<Rightarrow> Positive s | Inl d \<Rightarrow> Negative d)
           in signed_drop_zero F rest st1)
      | Negative deficit \<Rightarrow>
          (let (surplus, st1) = flip_debit account_id (de_amount deficit) st;
               rest = (case same_deficit F (deficit_offset deficit surplus) of
                         Inr d \<Rightarrow> Negative d | Inl s \<Rightarrow> Positive s)
           in signed_drop_zero F rest st1))"

text \<open>What could not be settled is dropped at the end of the block.\<close>

definition settle ::
  "('a::linorder, 'r::linorder) frame_lib \<Rightarrow> 'a \<Rightarrow> ('a, 'r) signed_imbalance \<Rightarrow> ('a, 'r) flip_state \<Rightarrow>
   ('a, 'r) flip_state" where
  "settle F account_id imbalance st =
     (case try_settle F account_id imbalance st of
        (Inr _, st1) \<Rightarrow> st1
      | (Inl (Positive s), st1) \<Rightarrow> surplus_revert s st1
      | (Inl (Negative d), st1) \<Rightarrow> deficit_revert d st1)"

definition flip_burn :: "nat \<Rightarrow> ('a, 'r) flip_state \<Rightarrow> ('a, 'r) deficit \<times> ('a, 'r) flip_state" where
  "flip_burn amount st = deficit_from_burn amount st"

definition flip_mint :: "nat \<Rightarrow> ('a, 'r) flip_state \<Rightarrow> ('a, 'r) surplus \<times> ('a, 'r) flip_state" where
  "flip_mint amount st = surplus_from_mint amount st"

definition bridge_in :: "nat \<Rightarrow> ('a, 'r) flip_state \<Rightarrow> ('a, 'r) surplus \<times> ('a, 'r) flip_state" where
  "bridge_in amount st = surplus_from_offchain amount st"

definition bridge_out :: "nat \<Rightarrow> ('a, 'r) flip_state \<Rightarrow> ('a, 'r) deficit \<times> ('a, 'r) flip_state" where
  "bridge_out amount st = deficit_from_offchain amount st"

definition withdraw_reserves ::
  "'r::linorder \<Rightarrow> nat \<Rightarrow> ('a, 'r) flip_state \<Rightarrow> ('a, 'r) surplus \<times> ('a, 'r) flip_state" where
  "withdraw_reserves reserve_id amount st = surplus_from_reserve reserve_id amount st"

definition try_withdraw_reserves ::
  "'r::linorder \<Rightarrow> nat \<Rightarrow> ('a, 'r) flip_state \<Rightarrow> flip_error + ('a, 'r) surplus \<times> ('a, 'r) flip_state" where
  "try_withdraw_reserves reserve_id amount st =
     (case surplus_try_from_reserve reserve_id amount st of
        None \<Rightarrow> Inl InsufficientReserves | Some r \<Rightarrow> Inr r)"

definition try_withdraw_pending_redemption ::
  "'a::linorder \<Rightarrow> ('a, 'r) flip_state \<Rightarrow> flip_error + ('a, 'r) surplus \<times> ('a, 'r) flip_state" where
  "try_withdraw_pending_redemption account_id st =
     (case surplus_try_from_pending_redemptions_reserve account_id st of
        None \<Rightarrow> Inl NoPendingRedemptionForThisID | Some r \<Rightarrow> Inr r)"

definition deposit_reserves ::
  "'r::linorder \<Rightarrow> nat \<Rightarrow> ('a, 'r) flip_state \<Rightarrow> ('a, 'r) deficit \<times> ('a, 'r) flip_state" where
  "deposit_reserves reserve_id amount st = deficit_from_reserve reserve_id amount st"

definition deposit_pending_redemption ::
  "'a::linorder \<Rightarrow> nat \<Rightarrow> ('a, 'r) flip_state \<Rightarrow> ('a, 'r) deficit \<times> ('a, 'r) flip_state" where
  "deposit_pending_redemption account_id amount st =
     deficit_from_pending_redemptions_reserve account_id amount st"

subsection \<open>Fees, bonds and issuance\<close>

definition try_burn_fee ::
  "'a::linorder \<Rightarrow> nat \<Rightarrow> ('a, 'r::linorder) flip_state \<Rightarrow> (flip_error + unit) \<times> ('a, 'r) flip_state" where
  "try_burn_fee account_id amount st =
     (case try_debit_from_liquid_funds account_id amount st of
        Some (surplus, st1) \<Rightarrow>
          (let (deficit, st2) = flip_burn amount st1
           in (Inr (), drop_surplus_offset (surplus_offset surplus deficit) st2))
      | None \<Rightarrow> (Inl InsufficientLiquidity, st))"

definition update_bond :: "'a::linorder \<Rightarrow> nat \<Rightarrow> ('a, 'r) flip_state \<Rightarrow> ('a, 'r) flip_state" where
  "update_bond authority bond st =
     (case bt_get (fl_accounts st) authority of
        None \<Rightarrow> st
      | Some account \<Rightarrow> put_account authority (account\<lparr>fa_bond := bond\<rparr>) st)"

definition burn_offchain :: "nat \<Rightarrow> ('a::linorder, 'r::linorder) flip_state \<Rightarrow> ('a, 'r) flip_state" where
  "burn_offchain amount st =
     (let (deficit, st1) = flip_burn amount st;
          (surplus, st2) = bridge_in amount st1
      in drop_deficit_offset (deficit_offset deficit surplus) st2)"

subsection \<open>Funding\<close>

definition credit_funds ::
  "('a::linorder, 'r::linorder) frame_lib \<Rightarrow> 'a \<Rightarrow> nat \<Rightarrow> ('a, 'r) flip_state \<Rightarrow> nat \<times> ('a, 'r) flip_state" where
  "credit_funds F account_id amount st =
     (let (incoming, st1) = bridge_in amount st;
          st2 = settle F account_id (Positive incoming) st1
      in (total_balance_of account_id st2, st2))"

definition try_initiate_redemption ::
  "('a::linorder, 'r::linorder) frame_lib \<Rightarrow> 'a \<Rightarrow> nat \<Rightarrow> ('a, 'r) flip_state \<Rightarrow>
   (flip_error + unit) \<times> ('a, 'r) flip_state" where
  "try_initiate_redemption F account_id amount st =
     (if \<not> amount \<le> liquid_funds account_id st then (Inl InsufficientLiquidity, st)
      else let (deficit, st1) = deposit_pending_redemption account_id amount st
           in (Inr (), settle F account_id (Negative deficit) st1))"

text \<open>
  The debug assertion that nothing is left over is not part of the model; that it holds
  is one of the lemmas.
\<close>

definition finalize_redemption ::
  "'a::linorder \<Rightarrow> ('a, 'r::linorder) flip_state \<Rightarrow> (flip_error + unit) \<times> ('a, 'r) flip_state" where
  "finalize_redemption account_id st =
     (case try_withdraw_pending_redemption account_id st of
        Inl e \<Rightarrow> (Inl e, st)
      | Inr (imbalance, st1) \<Rightarrow>
          (let (deficit, st2) = bridge_out (su_amount imbalance) st1
           in (Inr (), drop_surplus_offset (surplus_offset imbalance deficit) st2)))"

definition revert_redemption ::
  "('a::linorder, 'r::linorder) frame_lib \<Rightarrow> 'a \<Rightarrow> ('a, 'r) flip_state \<Rightarrow> (flip_error + unit) \<times> ('a, 'r) flip_state" where
  "revert_redemption F account_id st =
     (case try_withdraw_pending_redemption account_id st of
        Inl e \<Rightarrow> (Inl e, st)
      | Inr (imbalance, st1) \<Rightarrow> (Inr (), settle F account_id (Positive imbalance) st1))"

definition flip_on_killed_account ::
  "('a::linorder, 'r::linorder) frame_lib \<Rightarrow> 'a \<Rightarrow> ('a, 'r) flip_state \<Rightarrow> ('a, 'r) flip_state" where
  "flip_on_killed_account F account_id st =
     (let dust = total_balance_of account_id st;
          (deficit, st1) = flip_burn dust st;
          st2 = settle F account_id (Negative deficit) st1
      in st2\<lparr>fl_accounts := bt_remove account_id (fl_accounts st2)\<rparr>)"

subsection \<open>Slashing\<close>

definition attempt_slash ::
  "('a::linorder, 'r::linorder) frame_lib \<Rightarrow> 'a \<Rightarrow> flip_account \<Rightarrow> nat \<Rightarrow> ('a, 'r) flip_state \<Rightarrow> ('a, 'r) flip_state" where
  "attempt_slash F account_id account slash_amount st =
     (if slash_amount \<noteq> 0 \<and> can_be_slashed slash_amount account
      then let (deficit, st1) = flip_burn slash_amount st
           in settle F account_id (Negative deficit) st1
      else st)"

text \<open>\<open>permill_mul\<close> is the product of a \<open>Permill\<close>, in parts per million, and an amount.\<close>

definition calculate_slash_amount ::
  "(nat \<Rightarrow> nat \<Rightarrow> nat) \<Rightarrow> nat \<Rightarrow> 'a::linorder \<Rightarrow> nat \<Rightarrow> ('a, 'r) flip_state \<Rightarrow> nat option" where
  "calculate_slash_amount permill_mul blocks_per_day account_id blocks st =
     do { per_block \<leftarrow> udiv (permill_mul (fl_slashing_rate st) (fa_bond (get_account account_id st))) blocks_per_day;
          Some (usat_mul 128 per_block blocks) }"

definition slash ::
  "('a::linorder, 'r::linorder) frame_lib \<Rightarrow> (nat \<Rightarrow> nat \<Rightarrow> nat) \<Rightarrow> nat \<Rightarrow> 'a \<Rightarrow> nat \<Rightarrow> ('a, 'r) flip_state \<Rightarrow>
   ('a, 'r) flip_state option" where
  "slash F permill_mul blocks_per_day account_id blocks st =
     do { let account = get_account account_id st;
          slash_amount \<leftarrow> calculate_slash_amount permill_mul blocks_per_day account_id blocks st;
          Some (attempt_slash F account_id account slash_amount st) }"

definition slash_balance ::
  "('a::linorder, 'r::linorder) frame_lib \<Rightarrow> 'a \<Rightarrow> nat \<Rightarrow> ('a, 'r) flip_state \<Rightarrow> ('a, 'r) flip_state" where
  "slash_balance F account_id slash_amount st =
     (let account = get_account account_id st in attempt_slash F account_id account slash_amount st)"

subsection \<open>Transaction fees\<close>

datatype payment_error = InvalidTransaction_Payment

definition withdraw_fee ::
  "bool \<Rightarrow> 'a::linorder \<Rightarrow> nat \<Rightarrow> ('a, 'r::linorder) flip_state \<Rightarrow>
   (payment_error + ('a, 'r) surplus option) \<times> ('a, 'r) flip_state" where
  "withdraw_fee should_waive_fees who fee st =
     (if should_waive_fees then (Inr None, st)
      else case try_debit who fee st of
             Some (surplus, st1) \<Rightarrow>
               (if su_amount surplus = 0 then (Inr None, surplus_revert surplus st1)
                else (Inr (Some surplus), st1))
           | None \<Rightarrow> (Inl InvalidTransaction_Payment, st))"

definition correct_and_deposit_fee ::
  "bool \<Rightarrow> nat \<Rightarrow> ('a::linorder, 'r::linorder) surplus option \<Rightarrow> ('a, 'r) flip_state \<Rightarrow> ('a, 'r) flip_state" where
  "correct_and_deposit_fee account_exists corrected_fee escrow st =
     (case escrow of
        None \<Rightarrow> st
      | Some surplus \<Rightarrow>
          (let to_burn = (if account_exists then corrected_fee else su_amount surplus);
               (deficit, st1) = flip_burn to_burn st
           in drop_surplus_offset (surplus_offset surplus deficit) st1))"

end
