(* ===== verification/Flip_Ledger.thy ===== *)
theory Flip_Ledger
  imports Flip
begin

text \<open>
  What the operations of the FLIP pallet do, and that they conserve the token: the total
  issuance is always what lies off-chain, in accounts, in reserves and in pending
  redemptions, together with the fees held back for the transaction that runs.
\<close>

section \<open>Runs of a system\<close>

text \<open>A step relation and a predicate that every step keeps.\<close>

locale step_invariant =
  fixes step :: "'s \<Rightarrow> 's \<Rightarrow> bool"
    and inv :: "'s \<Rightarrow> bool"
  assumes step_keeps: "step s t \<Longrightarrow> inv s \<Longrightarrow> inv t"
begin

lemma run_keeps: "step\<^sup>*\<^sup>* s t \<Longrightarrow> inv s \<Longrightarrow> inv t"
  by (induction rule: rtranclp_induct) (auto intro: step_keeps)

lemma run_extend: "step\<^sup>*\<^sup>* s t \<Longrightarrow> step t u \<Longrightarrow> inv s \<Longrightarrow> inv u"
  using run_keeps step_keeps by blast

end

section \<open>Where the tokens are\<close>

definition accounts_total :: "('a::linorder, 'r::linorder) flip_state \<Rightarrow> nat" where
  "accounts_total st = bt_sum (\<lambda>_ a. fa_balance a) (fl_accounts st)"

definition reserves_total :: "('a::linorder, 'r::linorder) flip_state \<Rightarrow> nat" where
  "reserves_total st = bt_sum (\<lambda>_ x. x) (fl_reserves st)"

definition pending_total :: "('a::linorder, 'r::linorder) flip_state \<Rightarrow> nat" where
  "pending_total st = bt_sum (\<lambda>_ x. x) (fl_pending_redemptions st)"

definition holdings :: "('a::linorder, 'r::linorder) flip_state \<Rightarrow> nat" where
  "holdings st = fl_offchain_funds st + accounts_total st + reserves_total st + pending_total st"

lemmas holdings_defs = holdings_def accounts_total_def reserves_total_def pending_total_def

definition flip_wf :: "('a::linorder, 'r::linorder) flip_state \<Rightarrow> bool" where
  "flip_wf st \<longleftrightarrow> bt_wf (fl_accounts st) \<and> bt_wf (fl_reserves st) \<and> bt_wf (fl_pending_redemptions st)"

text \<open>The token is conserved, with \<open>e\<close> units held by an outstanding surplus.\<close>

definition conserved :: "nat \<Rightarrow> ('a::linorder, 'r::linorder) flip_state \<Rightarrow> bool" where
  "conserved e st \<longleftrightarrow> flip_wf st \<and> fl_total_issuance st < 2 ^ 128 \<and> holdings st + e = fl_total_issuance st"

lemma conservedD:
  assumes "conserved e st"
  shows "flip_wf st" "fl_total_issuance st < 2 ^ 128" "holdings st + e = fl_total_issuance st"
    "bt_wf (fl_accounts st)" "bt_wf (fl_reserves st)" "bt_wf (fl_pending_redemptions st)"
  using assms by (simp_all add: conserved_def flip_wf_def)

lemma get_account_put:
  "get_account k (put_account k' a st) = (if k = k' then a else get_account k st)"
  by (simp add: get_account_def put_account_def bt_get_insert)

lemma get_account_put_balance [simp]:
  "get_account k (put_balance k' x st) =
     (if k = k' then (get_account k st)\<lparr>fa_balance := x\<rparr> else get_account k st)"
  by (simp add: put_balance_def get_account_put)

lemma put_balance_fields [simp]:
  "fl_reserves (put_balance k x st) = fl_reserves st"
  "fl_pending_redemptions (put_balance k x st) = fl_pending_redemptions st"
  "fl_total_issuance (put_balance k x st) = fl_total_issuance st"
  "fl_offchain_funds (put_balance k x st) = fl_offchain_funds st"
  "fl_slashing_rate (put_balance k x st) = fl_slashing_rate st"
  by (simp_all add: put_balance_def put_account_def)

lemma get_account_upd [simp]:
  "get_account k (st\<lparr>fl_total_issuance := x\<rparr>) = get_account k st"
  "get_account k (st\<lparr>fl_offchain_funds := x\<rparr>) = get_account k st"
  "get_account k (st\<lparr>fl_pending_redemptions := m\<rparr>) = get_account k st"
  "get_account k (st\<lparr>fl_slashing_rate := x\<rparr>) = get_account k st"
  by (simp_all add: get_account_def)

lemma accounts_total_put_balance:
  assumes "bt_wf (fl_accounts st)"
  shows "accounts_total (put_balance k x st) + fa_balance (get_account k st) = accounts_total st + x"
  using bt_sum_insert_nat [OF assms, of "\<lambda>_ a. fa_balance a" k "(get_account k st)\<lparr>fa_balance := x\<rparr>"]
  by (auto simp: accounts_total_def put_balance_def put_account_def get_account_def
        flip_account_default_def split: option.splits)

lemma holdings_put_balance:
  assumes "bt_wf (fl_accounts st)"
  shows "holdings (put_balance k x st) + fa_balance (get_account k st) = holdings st + x"
  using accounts_total_put_balance [OF assms, of k x]
  by (simp add: holdings_def reserves_total_def pending_total_def)

lemma balance_le_holdings: "fa_balance (get_account k st) \<le> holdings st"
proof -
  have "fa_balance (get_account k st) \<le> accounts_total st"
    using bt_sum_get_le [of "fl_accounts st" k _ "\<lambda>_ a. fa_balance a"]
    by (auto simp: accounts_total_def get_account_def flip_account_default_def split: option.split)
  then show ?thesis by (simp add: holdings_def)
qed

lemma flip_wf_put_balance: "flip_wf st \<Longrightarrow> flip_wf (put_balance k x st)"
  by (simp add: flip_wf_def) (simp add: put_balance_def put_account_def bt_wf_insert)

text \<open>Moving \<open>x\<close> units into or out of an account, against the surplus held outside.\<close>

lemma conserved_credit:
  assumes "conserved (e + x) st"
  shows "conserved e (put_balance k (fa_balance (get_account k st) + x) st)"
  using holdings_put_balance [OF conservedD(4) [OF assms], of k "fa_balance (get_account k st) + x"]
    conservedD [OF assms] by (simp add: conserved_def flip_wf_put_balance)

lemma conserved_debit:
  assumes "conserved e st" "x \<le> fa_balance (get_account k st)"
  shows "conserved (e + x) (put_balance k (fa_balance (get_account k st) - x) st)"
  using holdings_put_balance [OF conservedD(4) [OF assms(1)], of k "fa_balance (get_account k st) - x"]
    conservedD [OF assms(1)] assms(2) by (simp add: conserved_def flip_wf_put_balance)

lemma credit_fits: "conserved (e + x) st \<Longrightarrow> fa_balance (get_account k st) + x < 2 ^ 128"
  using conservedD [of "e + x" st] balance_le_holdings [of k st] by simp

lemma conserved_burn:
  "conserved (e + x) st \<Longrightarrow> conserved e (st\<lparr>fl_total_issuance := fl_total_issuance st - x\<rparr>)"
  by (auto simp: conserved_def flip_wf_def holdings_defs)

lemma conserved_bridge_in:
  "conserved e st \<Longrightarrow> x \<le> fl_offchain_funds st \<Longrightarrow>
   conserved (e + x) (st\<lparr>fl_offchain_funds := fl_offchain_funds st - x\<rparr>)"
  by (auto simp: conserved_def flip_wf_def holdings_defs)

lemma conserved_bridge_out:
  "conserved (e + x) st \<Longrightarrow> conserved e (st\<lparr>fl_offchain_funds := fl_offchain_funds st + x\<rparr>)"
  by (auto simp: conserved_def flip_wf_def holdings_defs)

lemma conserved_take_pending:
  assumes "conserved e st" "bt_get (fl_pending_redemptions st) k = Some x"
  shows "conserved (e + x) (st\<lparr>fl_pending_redemptions := bt_remove k (fl_pending_redemptions st)\<rparr>)"
  using bt_sum_remove_nat [OF conservedD(6) [OF assms(1)], of "\<lambda>_ x. x" k] assms
  by (auto simp: conserved_def flip_wf_def holdings_defs bt_wf_remove)

lemma conserved_put_pending:
  assumes "conserved (e + x) st" "bt_get (fl_pending_redemptions st) k = None"
  shows "conserved e (st\<lparr>fl_pending_redemptions := bt_insert k x (fl_pending_redemptions st)\<rparr>)"
  using bt_sum_insert_nat [OF conservedD(6) [OF assms(1)], of "\<lambda>_ x. x" k x] assms
  by (auto simp: conserved_def flip_wf_def holdings_defs bt_wf_insert)

section \<open>Settling\<close>

lemma frame_okD:
  assumes "frame_ok F"
  shows "same_surplus F SNone = Inr surplus_zero" "same_deficit F (Same d) = Inr d"
    "signed_drop_zero F (Positive s) st =
       (if su_amount s = 0 then (Inr (), surplus_revert s st) else (Inl (Positive s), st))"
    "signed_drop_zero F (Negative d) st =
       (if de_amount d = 0 then (Inr (), deficit_revert d st) else (Inl (Negative d), st))"
  using assms by (simp_all add: frame_ok_def surplus_drop_zero_def deficit_drop_zero_def)

lemma settle_positive:
  assumes "frame_ok F" "fa_balance (get_account k st) + su_amount s < 2 ^ 128"
  shows "settle F k (Positive s) st = put_balance k (fa_balance (get_account k st) + su_amount s) st"
  using assms(2)
  by (simp add: settle_def try_settle_def flip_credit_def deficit_from_acct_def uadd_def Let_def
      surplus_offset_def frame_okD [OF assms(1)] surplus_zero_def surplus_revert_def put_balance_def)

lemma settle_negative:
  assumes "frame_ok F" "de_amount d \<le> fa_balance (get_account k st)"
    and "deficit_revert (new_deficit 0 (de_source d)) (put_balance k (fa_balance (get_account k st) - de_amount d) st)
       = put_balance k (fa_balance (get_account k st) - de_amount d) st"
  shows "settle F k (Negative d) st = put_balance k (fa_balance (get_account k st) - de_amount d) st"
  using assms(2,3)
  by (simp add: settle_def try_settle_def flip_debit_def surplus_from_acct_def Let_def min_absorb2
      deficit_offset_def frame_okD [OF assms(1)] put_balance_def)

lemma revert_zero:
  "fl_total_issuance st < 2 ^ 128 \<Longrightarrow> deficit_revert (new_deficit 0 SEmissions) st = st"
  "deficit_revert (new_deficit 0 (SInternal (SPendingRedemption k))) st = st"
  by (simp_all add: deficit_revert_def usat_add_exact)

section \<open>The effect of the operations\<close>

lemma put_balance_commute:
  "put_balance k x (st\<lparr>fl_total_issuance := y\<rparr>) = (put_balance k x st)\<lparr>fl_total_issuance := y\<rparr>"
  "put_balance k x (st\<lparr>fl_offchain_funds := y\<rparr>) = (put_balance k x st)\<lparr>fl_offchain_funds := y\<rparr>"
  "put_balance k x (st\<lparr>fl_pending_redemptions := m\<rparr>) = (put_balance k x st)\<lparr>fl_pending_redemptions := m\<rparr>"
  by (cases st, simp add: put_balance_def put_account_def get_account_def)+

lemma offchain_le: "conserved e st \<Longrightarrow> fl_offchain_funds st \<le> fl_total_issuance st"
  using conservedD(3) [of e st] by (simp add: holdings_def)

lemma balance_le_issuance: "conserved e st \<Longrightarrow> fa_balance (get_account k st) \<le> fl_total_issuance st"
  using conservedD(3) [of e st] balance_le_holdings [of k st] by simp

lemma flip_burn_eq:
  "x \<le> fl_total_issuance st \<Longrightarrow>
   flip_burn x st = (new_deficit x SEmissions, st\<lparr>fl_total_issuance := fl_total_issuance st - x\<rparr>)"
  by (cases st) (auto simp: flip_burn_def deficit_from_burn_def usub_def)

lemma credit_funds_effect:
  fixes k :: "'a::linorder" and amount :: nat and st :: "('a, 'r::linorder) flip_state"
  assumes F: "frame_ok F" and c: "conserved e st"
  defines "x \<equiv> min (fl_offchain_funds st) amount"
  defines "st' \<equiv> put_balance k (fa_balance (get_account k st) + x)
      (st\<lparr>fl_offchain_funds := fl_offchain_funds st - x\<rparr>)"
  shows "credit_funds F k amount st = (fa_balance (get_account k st) + x, st')" and "conserved e st'"
proof -
  have c1: "conserved (e + x) (st\<lparr>fl_offchain_funds := fl_offchain_funds st - x\<rparr>)"
    by (rule conserved_bridge_in [OF c]) (simp add: x_def)
  show "conserved e st'" using conserved_credit [OF c1, of k] by (simp add: st'_def)
  show "credit_funds F k amount st = (fa_balance (get_account k st) + x, st')"
    using credit_fits [OF c1, of k]
    by (simp add: credit_funds_def bridge_in_def surplus_from_offchain_def settle_positive [OF F]
        flip_defs st'_def flip: x_def)
qed

lemma try_initiate_redemption_effect:
  assumes F: "frame_ok F" and c: "conserved e st"
    and new: "bt_get (fl_pending_redemptions st) k = None" and le: "x \<le> liquid_funds k st"
  defines "st' \<equiv> put_balance k (fa_balance (get_account k st) - x)
      (st\<lparr>fl_pending_redemptions := bt_insert k x (fl_pending_redemptions st)\<rparr>)"
  shows "try_initiate_redemption F k x st = (Inr (), st')" and "conserved e st'"
proof -
  have le': "x \<le> fa_balance (get_account k st)" using le by (simp add: liquid_funds_def account_liquid_def)
  show "try_initiate_redemption F k x st = (Inr (), st')"
    using le le'
    by (simp add: try_initiate_redemption_def deposit_pending_redemption_def st'_def
        deficit_from_pending_redemptions_reserve_def settle_negative [OF F] revert_zero)
  have "conserved (e + x) (put_balance k (fa_balance (get_account k st) - x) st)"
    by (rule conserved_debit [OF c le'])
  from conserved_put_pending [OF this, of k] show "conserved e st'"
    using new by (simp add: st'_def put_balance_commute)
qed

lemma finalize_redemption_effect:
  assumes c: "conserved e st" and x: "bt_get (fl_pending_redemptions st) k = Some x"
  defines "st' \<equiv> st\<lparr>fl_pending_redemptions := bt_remove k (fl_pending_redemptions st),
      fl_offchain_funds := fl_offchain_funds st + x\<rparr>"
  shows "finalize_redemption k st = (Inr (), st')" and "conserved e st'"
proof -
  let ?st = "st\<lparr>fl_pending_redemptions := bt_remove k (fl_pending_redemptions st)\<rparr>"
  have c1: "conserved (e + x) ?st" by (rule conserved_take_pending [OF c x])
  then show "conserved e st'" using conserved_bridge_out [OF c1] by (simp add: st'_def)
  have "fl_offchain_funds st + x < 2 ^ 128" using conservedD(2,3) [OF c1] by (simp add: holdings_def)
  then show "finalize_redemption k st = (Inr (), st')"
    by (simp add: finalize_redemption_def try_withdraw_pending_redemption_def x st'_def bridge_out_def
        surplus_try_from_pending_redemptions_reserve_def deficit_from_offchain_def uadd_def
        surplus_offset_def drop_surplus_offset_def)
qed

lemma revert_redemption_effect:
  assumes F: "frame_ok F" and c: "conserved e st" and x: "bt_get (fl_pending_redemptions st) k = Some x"
  defines "st' \<equiv> put_balance k (fa_balance (get_account k st) + x)
      (st\<lparr>fl_pending_redemptions := bt_remove k (fl_pending_redemptions st)\<rparr>)"
  shows "revert_redemption F k st = (Inr (), st')" and "conserved e st'"
proof -
  let ?st = "st\<lparr>fl_pending_redemptions := bt_remove k (fl_pending_redemptions st)\<rparr>"
  have c1: "conserved (e + x) ?st" by (rule conserved_take_pending [OF c x])
  then show "conserved e st'" using conserved_credit [OF c1, of k] by (simp add: st'_def)
  show "revert_redemption F k st = (Inr (), st')"
    using credit_fits [OF c1, of k]
    by (simp add: revert_redemption_def try_withdraw_pending_redemption_def x st'_def
        surplus_try_from_pending_redemptions_reserve_def settle_positive [OF F])
qed

lemma redemption_errors:
  assumes "bt_get (fl_pending_redemptions st) k = None"
  shows "finalize_redemption k st = (Inl NoPendingRedemptionForThisID, st)"
    and "revert_redemption F k st = (Inl NoPendingRedemptionForThisID, st)"
  using assms by (simp_all add: finalize_redemption_def revert_redemption_def
      try_withdraw_pending_redemption_def surplus_try_from_pending_redemptions_reserve_def)

text \<open>Debiting an account that exists and burning what was taken.\<close>

lemma conserved_debit_burn:
  assumes c: "conserved e st" and x: "x \<le> fa_balance (get_account k st)"
  shows "conserved e (put_balance k (fa_balance (get_account k st) - x)
    (st\<lparr>fl_total_issuance := fl_total_issuance st - x\<rparr>))"
  using conserved_burn [OF conserved_debit [OF c x]]
  by (simp add: put_balance_commute)

lemma try_burn_fee_effect:
  assumes c: "conserved e st"
  shows "try_burn_fee k x st =
    (if bt_get (fl_accounts st) k \<noteq> None \<and> x \<le> liquid_funds k st
     then (Inr (), put_balance k (fa_balance (get_account k st) - x)
             (st\<lparr>fl_total_issuance := fl_total_issuance st - x\<rparr>))
     else (Inl InsufficientLiquidity, st))"
proof (cases "bt_get (fl_accounts st) k")
  case (Some a)
  then have a: "get_account k st = a" by (simp add: get_account_def)
  have "fa_balance a \<le> fl_total_issuance st" using balance_le_issuance [OF c, of k] by (simp add: a)
  moreover have "fa_balance a - fa_bond a \<le> fa_balance a" by simp
  ultimately show ?thesis
    using Some a by (auto simp: try_burn_fee_def try_debit_from_liquid_funds_def surplus_try_from_acct_def
        liquid_funds_def account_liquid_def flip_burn_eq put_account_def put_balance_def get_account_def
        surplus_offset_def drop_surplus_offset_def)
qed (simp add: try_burn_fee_def try_debit_from_liquid_funds_def surplus_try_from_acct_def)

lemma settle_burn:
  assumes F: "frame_ok F" and c: "conserved e st" and x: "x \<le> fa_balance (get_account k st)"
  shows "settle F k (Negative (new_deficit x SEmissions)) (st\<lparr>fl_total_issuance := fl_total_issuance st - x\<rparr>)
    = put_balance k (fa_balance (get_account k st) - x) (st\<lparr>fl_total_issuance := fl_total_issuance st - x\<rparr>)"
  using x conservedD(2) [OF c] by (simp add: settle_negative [OF F] revert_zero)

lemma attempt_slash_effect:
  assumes F: "frame_ok F" and c: "conserved e st" and a: "a = get_account k st"
  shows "attempt_slash F k a x st =
    (if x \<noteq> 0 \<and> fa_balance a - x > fa_bond a div 5
     then put_balance k (fa_balance a - x) (st\<lparr>fl_total_issuance := fl_total_issuance st - x\<rparr>) else st)"
    and "conserved e (attempt_slash F k a x st)"
proof -
  have le: "x \<le> fa_balance a" if "fa_balance a - x > fa_bond a div 5" using that by linarith
  have "fa_balance a \<le> fl_total_issuance st" using balance_le_issuance [OF c, of k] by (simp add: a)
  then show eq: "attempt_slash F k a x st =
    (if x \<noteq> 0 \<and> fa_balance a - x > fa_bond a div 5
     then put_balance k (fa_balance a - x) (st\<lparr>fl_total_issuance := fl_total_issuance st - x\<rparr>) else st)"
    using le settle_burn [OF F c, of x k]
    by (auto simp: attempt_slash_def can_be_slashed_def flip_burn_eq a)
  show "conserved e (attempt_slash F k a x st)"
    unfolding eq using le conserved_debit_burn [OF c, of x k] c by (auto simp: a)
qed

lemma burn_offchain_effect:
  fixes x :: nat and st :: "('a::linorder, 'r::linorder) flip_state"
  assumes c: "conserved e st"
  defines "y \<equiv> min (fl_offchain_funds st) x"
  shows "burn_offchain x st = st\<lparr>fl_total_issuance := fl_total_issuance st - y,
      fl_offchain_funds := fl_offchain_funds st - y\<rparr>" and "conserved e (burn_offchain x st)"
proof -
  let ?b = "min (fl_total_issuance st) x"
  have y: "y \<le> ?b" "y \<le> fl_offchain_funds st" using offchain_le [OF c] by (simp_all add: y_def)
  have burn: "flip_burn x st = (new_deficit ?b SEmissions, st\<lparr>fl_total_issuance := fl_total_issuance st - ?b\<rparr>)"
    by (cases st) (auto simp: flip_burn_def deficit_from_burn_def usub_def)
  have "usat_add 128 (fl_total_issuance st - ?b) (?b - y) = fl_total_issuance st - y"
    using y conservedD(2) [OF c] by (simp add: usat_add_exact)
  then show eq: "burn_offchain x st = st\<lparr>fl_total_issuance := fl_total_issuance st - y,
      fl_offchain_funds := fl_offchain_funds st - y\<rparr>"
    using y by (simp add: burn_offchain_def burn bridge_in_def surplus_from_offchain_def deficit_offset_def
        drop_deficit_offset_def deficit_revert_def flip: y_def)
  show "conserved e (burn_offchain x st)"
    unfolding eq using conserved_burn [OF conserved_bridge_in [OF c y(2)]] by (cases st) simp
qed

lemma on_killed_effect:
  assumes F: "frame_ok F" and c: "conserved e st"
  shows "flip_on_killed_account F k st = st\<lparr>fl_accounts := bt_remove k (fl_accounts st),
      fl_total_issuance := fl_total_issuance st - fa_balance (get_account k st)\<rparr>"
    and "conserved e (flip_on_killed_account F k st)"
proof -
  let ?x = "fa_balance (get_account k st)"
  have x: "?x \<le> fl_total_issuance st" by (rule balance_le_issuance [OF c])
  have "bt_remove k (bt_insert k a m) = bt_remove k m" for a and m :: "('a, flip_account) btree_map"
    by (induction k a m rule: bt_insert.induct) (auto simp: bt_remove_def)
  then show eq: "flip_on_killed_account F k st = st\<lparr>fl_accounts := bt_remove k (fl_accounts st),
      fl_total_issuance := fl_total_issuance st - ?x\<rparr>"
    using settle_burn [OF F c order.refl, of k] x
    by (simp add: flip_on_killed_account_def total_balance_of_def account_total_def flip_burn_eq
        put_balance_def put_account_def)
  have "accounts_total (st\<lparr>fl_accounts := bt_remove k (fl_accounts st)\<rparr>) + ?x = accounts_total st"
    using bt_sum_remove_nat [OF conservedD(4) [OF c], of "\<lambda>_ a. fa_balance a" k]
    by (auto simp: accounts_total_def get_account_def flip_account_default_def split: option.splits)
  then show "conserved e (flip_on_killed_account F k st)"
    unfolding eq using c by (auto simp: conserved_def flip_wf_def holdings_def bt_wf_remove
        accounts_total_def reserves_total_def pending_total_def)
qed

lemma update_bond_effect:
  assumes "conserved e st"
  shows "conserved e (update_bond k b st)"
proof (cases "bt_get (fl_accounts st) k")
  case (Some a)
  then have "accounts_total (put_account k (a\<lparr>fa_bond := b\<rparr>) st) = accounts_total st"
    using bt_sum_insert_nat [OF conservedD(4) [OF assms], of "\<lambda>_ a. fa_balance a" k "a\<lparr>fa_bond := b\<rparr>"]
    by (simp add: accounts_total_def put_account_def)
  then show ?thesis using assms Some
    by (simp add: update_bond_def conserved_def flip_wf_def holdings_def reserves_total_def pending_total_def
        put_account_def bt_wf_insert)
qed (simp add: update_bond_def assms)

lemma mint_settle_effect:
  assumes F: "frame_ok F" and c: "conserved e st" and m: "flip_mint x st = (s, st1)"
  shows "conserved e (settle F k (Positive s) st1)"
proof -
  have "conserved (e + su_amount s) st1"
    using m c by (auto simp: flip_mint_def surplus_from_mint_def uadd_def conserved_def flip_wf_def
        holdings_defs split: if_splits)
  then show ?thesis using conserved_credit [of e "su_amount s" st1 k] credit_fits [of e "su_amount s" st1 k]
    by (simp add: settle_positive [OF F])
qed

section \<open>Reserves\<close>

lemma put_reserve_effect:
  assumes "flip_wf st"
  shows "holdings (put_reserve r x st) + reserved_balance r st = holdings st + x"
    and "flip_wf (put_reserve r x st)" and "reserved_balance r st \<le> holdings st"
proof -
  have wf: "bt_wf (fl_reserves st)" using assms by (simp add: flip_wf_def)
  have "reserves_total (put_reserve r x st) + reserved_balance r st = reserves_total st + x"
    using bt_sum_insert_nat [OF wf, of "\<lambda>_ x. x" r x]
    by (auto simp: reserves_total_def put_reserve_def reserved_balance_def split: option.splits)
  then show "holdings (put_reserve r x st) + reserved_balance r st = holdings st + x"
    by (simp add: holdings_def accounts_total_def pending_total_def put_reserve_def)
  show "flip_wf (put_reserve r x st)" using assms by (simp add: flip_wf_def put_reserve_def bt_wf_insert)
  have "reserved_balance r st \<le> reserves_total st"
    using bt_sum_get_le [of "fl_reserves st" r _ "\<lambda>_ x. x"]
    by (auto simp: reserves_total_def reserved_balance_def split: option.split)
  then show "reserved_balance r st \<le> holdings st" by (simp add: holdings_def)
qed

text \<open>Paying an account out of a reserve.\<close>

lemma reserve_settle_effect:
  assumes F: "frame_ok F" and c: "conserved e st" and w: "withdraw_reserves r x st = (s, st1)"
  shows "conserved e (settle F k (Positive s) st1)"
proof -
  have "conserved (e + su_amount s) st1"
    using w put_reserve_effect(1,2) [OF conservedD(1) [OF c], of r "reserved_balance r st - min (reserved_balance r st) x"] c
    by (auto simp: withdraw_reserves_def surplus_from_reserve_def Let_def conserved_def put_reserve_def)
  then show ?thesis using conserved_credit [of e "su_amount s" st1 k] credit_fits [of e "su_amount s" st1 k]
    by (simp add: settle_positive [OF F])
qed

text \<open>Filling a reserve from an account: what the account does not have is taken back.\<close>

lemma settle_negative_partial:
  assumes "frame_ok F" "m = min (fa_balance (get_account k st)) (de_amount d)"
  shows "settle F k (Negative d) st =
    deficit_revert (new_deficit (de_amount d - m) (de_source d)) (put_balance k (fa_balance (get_account k st) - m) st)"
  using assms(2)
  by (simp add: settle_def try_settle_def flip_debit_def surplus_from_acct_def Let_def
      deficit_offset_def frame_okD [OF assms(1)] put_balance_def)

lemma deposit_reserve_settle_effect:
  assumes F: "frame_ok F" and c: "conserved e st" and w: "deposit_reserves r x st = (d, st1)"
  shows "conserved e (settle F k (Negative d) st1)"
proof -
  note wf = conservedD(1) [OF c]
  let ?y = "de_amount d" and ?b = "fa_balance (get_account k st)" and ?r = "reserved_balance r st"
  have d: "de_source d = SInternal (SReserve r)" "st1 = put_reserve r (?r + ?y) st"
    using w by (auto simp: deposit_reserves_def deficit_from_reserve_def Let_def split: option.splits)
  define m where "m = min ?b ?y"
  have same: "get_account k st1 = get_account k st" "reserved_balance r (put_balance k z st1) = ?r + ?y" for z
    by (simp_all add: d(2) put_reserve_def get_account_def reserved_balance_def bt_get_insert)
  have run: "settle F k (Negative d) st1 = put_reserve r (?r + ?y - (?y - m)) (put_balance k (?b - m) st1)"
    using settle_negative_partial [OF F, of m k st1 d] by (simp add: same d(1) m_def deficit_revert_def)
  have "put_reserve r (?r + ?y - (?y - m)) (put_balance k (?b - m) st1)
      = put_reserve r (?r + m) (put_balance k (?b - m) st)"
  proof -
    have "bt_insert r v (bt_insert r u q) = bt_insert r v q" for u v and q :: "('b, nat) btree_map"
      by (induction r u q rule: bt_insert.induct) auto
    then show ?thesis by (cases st) (simp add: d(2) m_def put_reserve_def put_balance_def put_account_def get_account_def)
  qed
  moreover have c': "conserved (e + m) (put_balance k (?b - m) st)" by (rule conserved_debit [OF c]) (simp add: m_def)
  moreover have "reserved_balance r (put_balance k (?b - m) st) = ?r" by (simp add: reserved_balance_def)
  ultimately show ?thesis unfolding run
    using put_reserve_effect(1,2) [OF conservedD(1) [OF c'], of r "?r + m"] conservedD(2,3) [OF c']
    by (simp add: conserved_def) (simp add: put_reserve_def)
qed

section \<open>Transaction fees\<close>

abbreviation escrow_amount :: "('a, 'r) surplus option \<Rightarrow> nat" where
  "escrow_amount escrow \<equiv> (case escrow of None \<Rightarrow> 0 | Some s \<Rightarrow> su_amount s)"

lemma put_balance_same:
  assumes "bt_get (fl_accounts st) k = Some a"
  shows "put_balance k (fa_balance a) (put_account k (a\<lparr>fa_balance := x\<rparr>) st) =
    put_account k a st"
proof -
  have "bt_insert k v (bt_insert k u m) = bt_insert k v m" for u v and m :: "('a, flip_account) btree_map"
    by (induction k u m rule: bt_insert.induct) auto
  then show ?thesis by (simp add: put_balance_def put_account_def get_account_def bt_get_insert)
qed

lemma withdraw_fee_effect:
  assumes c: "conserved 0 st" and run: "withdraw_fee waived k fee st = (Inr escrow, st')"
  shows "conserved (escrow_amount escrow) st'"
    and "escrow = None \<or> (\<exists>s. escrow = Some s \<and> su_amount s = fee \<and> su_source s = SInternal (SAccount k)
      \<and> st' = put_balance k (fa_balance (get_account k st) - fee) st \<and> fee \<le> fa_balance (get_account k st))"
proof -
  have "conserved (escrow_amount escrow) st' \<and> (escrow = None \<or> (\<exists>s. escrow = Some s \<and> su_amount s = fee
      \<and> su_source s = SInternal (SAccount k)
      \<and> st' = put_balance k (fa_balance (get_account k st) - fee) st \<and> fee \<le> fa_balance (get_account k st)))"
  proof (cases waived)
    case False
    then obtain a where a: "bt_get (fl_accounts st) k = Some a" and le: "fee \<le> fa_balance a"
      using run by (auto simp: withdraw_fee_def try_debit_def surplus_try_from_acct_def split: option.splits if_splits)
    then have g: "get_account k st = a" by (simp add: get_account_def)
    have debit: "try_debit k fee st = Some (new_surplus fee (SInternal (SAccount k)),
        put_balance k (fa_balance a - fee) st)"
      using a le g by (simp add: try_debit_def surplus_try_from_acct_def put_balance_def)
    have c1: "conserved fee (put_balance k (fa_balance a - fee) st)"
      using conserved_debit [OF c, of fee k] le g by simp
    show ?thesis
    proof (cases "fee = 0")
      case True
      have "conserved 0 (surplus_revert (new_surplus 0 (SInternal (SAccount k))) (put_balance k (fa_balance a) st))"
        using conserved_credit [of 0 0 "put_balance k (fa_balance a) st" k] c1 True
          credit_fits [of 0 0 "put_balance k (fa_balance a) st" k]
        by (simp add: surplus_revert_def usat_add_exact g)
      then show ?thesis using run debit True False by (auto simp: withdraw_fee_def)
    next
      case nz: False
      then show ?thesis using run debit c1 False g le by (auto simp: withdraw_fee_def)
    qed
  qed (use run c in \<open>simp add: withdraw_fee_def\<close>)
  then show "conserved (escrow_amount escrow) st'"
    and "escrow = None \<or> (\<exists>s. escrow = Some s \<and> su_amount s = fee \<and> su_source s = SInternal (SAccount k)
      \<and> st' = put_balance k (fa_balance (get_account k st) - fee) st \<and> fee \<le> fa_balance (get_account k st))"
    by simp_all
qed

lemma correct_fee_effect:
  fixes st :: "('a::linorder, 'r::linorder) flip_state" and corrected :: nat and exst :: bool
  assumes c: "conserved (su_amount s) st" and src: "su_source s = SInternal (SAccount k)"
  defines "y \<equiv> min (su_amount s) (if exst then corrected else su_amount s)"
  defines "st1 \<equiv> st\<lparr>fl_total_issuance := fl_total_issuance st - y\<rparr>"
  shows "correct_and_deposit_fee exst corrected (Some s) st =
      (if y < su_amount s then put_balance k (fa_balance (get_account k st) + (su_amount s - y)) st1 else st1)"
    and "conserved 0 (correct_and_deposit_fee exst corrected (Some s) st)"
proof -
  define a tb where "a = su_amount s" and "tb = (if exst then corrected else su_amount s)"
  let ?b = "min (fl_total_issuance st) tb"
  have y: "y = min a tb" by (simp add: y_def a_def tb_def)
  have a: "a \<le> fl_total_issuance st" using conservedD(3) [OF c] by (simp add: a_def)
  have burn: "flip_burn tb st = (new_deficit ?b SEmissions, st\<lparr>fl_total_issuance := fl_total_issuance st - ?b\<rparr>)"
    by (cases st) (auto simp: flip_burn_def deficit_from_burn_def usub_def)
  have c1: "conserved (a - y) st1"
    using conserved_burn [of "a - y" y st] c y by (simp add: st1_def a_def)
  have fits: "fa_balance (get_account k st) + (a - y) < 2 ^ 128"
    using credit_fits [of 0 "a - y" st1 k] c1 by (simp add: st1_def)
  have run: "correct_and_deposit_fee exst corrected (Some s) st =
      drop_surplus_offset (surplus_offset s (new_deficit ?b SEmissions)) (st\<lparr>fl_total_issuance := fl_total_issuance st - ?b\<rparr>)"
    by (simp add: correct_and_deposit_fee_def burn flip: tb_def)
  show eq: "correct_and_deposit_fee exst corrected (Some s) st =
      (if y < su_amount s then put_balance k (fa_balance (get_account k st) + (su_amount s - y)) st1 else st1)"
  proof (cases "a < ?b")
    case True
    then have "y = a" "usat_add 128 (fl_total_issuance st - ?b) (?b - a) = fl_total_issuance st - a"
      using y conservedD(2) [OF c] by (simp_all add: usat_add_exact)
    then show ?thesis using True unfolding run
      by (simp add: surplus_offset_def drop_surplus_offset_def deficit_revert_def st1_def flip: a_def)
  next
    case False
    show ?thesis
    proof (cases "?b < a")
      case True
      then have b: "?b = tb" "y = tb" using y a by auto
      show ?thesis using True b fits unfolding run
        by (simp add: surplus_offset_def drop_surplus_offset_def surplus_revert_def src st1_def
            usat_add_exact flip: a_def)
    next
      case nlt: False
      with False have ab: "?b = a" by (meson linorder_neqE_nat)
      then have "y = a" using y by simp
      then show ?thesis unfolding run ab
        by (simp add: surplus_offset_def drop_surplus_offset_def st1_def flip: a_def)
    qed
  qed
  have "conserved 0 (put_balance k (fa_balance (get_account k st1) + (a - y)) st1)"
    using conserved_credit [of 0 "a - y" st1 k] c1 by simp
  moreover have "y = a" if "\<not> y < a" using that y by simp
  ultimately show "conserved 0 (correct_and_deposit_fee exst corrected (Some s) st)"
    unfolding eq a_def [symmetric] using c1 by (cases "y < a") (simp_all add: st1_def)
qed

section \<open>Runs\<close>

text \<open>
  The calls other pallets and the transaction layer make. The second component is the fee
  held back for the transaction that runs. A redemption is only started where none is
  pending, which the funding pallet checks.
\<close>

inductive flip_step ::
  "('a::linorder, 'r::linorder) frame_lib \<Rightarrow> (nat \<Rightarrow> nat \<Rightarrow> nat) \<Rightarrow> nat \<Rightarrow>
   ('a, 'r) flip_state \<times> ('a, 'r) surplus option \<Rightarrow> ('a, 'r) flip_state \<times> ('a, 'r) surplus option \<Rightarrow> bool"
  for F permill_mul blocks_per_day where
  step_credit: "credit_funds F k x st = (tot, st') \<Longrightarrow> flip_step F permill_mul blocks_per_day (st, e) (st', e)"
| step_initiate: "bt_get (fl_pending_redemptions st) k = None \<Longrightarrow>
    try_initiate_redemption F k x st = (r, st') \<Longrightarrow> flip_step F permill_mul blocks_per_day (st, e) (st', e)"
| step_finalize: "finalize_redemption k st = (r, st') \<Longrightarrow> flip_step F permill_mul blocks_per_day (st, e) (st', e)"
| step_revert: "revert_redemption F k st = (r, st') \<Longrightarrow> flip_step F permill_mul blocks_per_day (st, e) (st', e)"
| step_burn_fee: "try_burn_fee k x st = (r, st') \<Longrightarrow> flip_step F permill_mul blocks_per_day (st, e) (st', e)"
| step_bond: "flip_step F permill_mul blocks_per_day (st, e) (update_bond k x st, e)"
| step_burn_offchain: "flip_step F permill_mul blocks_per_day (st, e) (burn_offchain x st, e)"
| step_killed: "flip_step F permill_mul blocks_per_day (st, e) (flip_on_killed_account F k st, e)"
| step_slash: "slash F permill_mul blocks_per_day k n st = Some st' \<Longrightarrow>
    flip_step F permill_mul blocks_per_day (st, e) (st', e)"
| step_slash_balance: "flip_step F permill_mul blocks_per_day (st, e) (slash_balance F k x st, e)"
| step_rate: "set_slashing_rate origin x st = Inr st' \<Longrightarrow> flip_step F permill_mul blocks_per_day (st, e) (st', e)"
| step_mint: "flip_mint x st = (s, st1) \<Longrightarrow>
    flip_step F permill_mul blocks_per_day (st, e) (settle F k (Positive s) st1, e)"
| step_reserve: "withdraw_reserves r x st = (s, st1) \<Longrightarrow>
    flip_step F permill_mul blocks_per_day (st, e) (settle F k (Positive s) st1, e)"
| step_deposit_reserve: "deposit_reserves r x st = (d, st1) \<Longrightarrow>
    flip_step F permill_mul blocks_per_day (st, e) (settle F k (Negative d) st1, e)"
| step_withdraw_fee: "withdraw_fee waived k x st = (Inr e, st') \<Longrightarrow>
    flip_step F permill_mul blocks_per_day (st, None) (st', e)"
| step_deposit_fee: "flip_step F permill_mul blocks_per_day (st, e) (correct_and_deposit_fee exst x e st, None)"

definition flip_inv :: "('a::linorder, 'r::linorder) flip_state \<times> ('a, 'r) surplus option \<Rightarrow> bool" where
  "flip_inv = (\<lambda>(st, e). conserved (escrow_amount e) st \<and>
     (\<forall>s. e = Some s \<longrightarrow> (\<exists>k. su_source s = SInternal (SAccount k))))"

lemma flip_inv_keeps:
  "flip_inv (st, e) \<Longrightarrow> (\<And>c. conserved c st \<Longrightarrow> conserved c st') \<Longrightarrow> flip_inv (st', e)"
  by (auto simp: flip_inv_def)

lemma conserved_try_initiate:
  assumes "frame_ok F" "conserved c st" "bt_get (fl_pending_redemptions st) k = None"
    "try_initiate_redemption F k x st = (r, st')"
  shows "conserved c st'"
  using try_initiate_redemption_effect [OF assms(1-3), of x] assms(2,4)
  by (cases "x \<le> liquid_funds k st") (auto simp: try_initiate_redemption_def)

lemma conserved_finalize: "conserved c st \<Longrightarrow> finalize_redemption k st = (r, st') \<Longrightarrow> conserved c st'"
  using finalize_redemption_effect [of c st k] redemption_errors(1) [of st k]
  by (cases "bt_get (fl_pending_redemptions st) k") auto

lemma conserved_revert:
  "frame_ok F \<Longrightarrow> conserved c st \<Longrightarrow> revert_redemption F k st = (r, st') \<Longrightarrow> conserved c st'"
  using revert_redemption_effect [of F c st k] redemption_errors(2) [of st k F]
  by (cases "bt_get (fl_pending_redemptions st) k") auto

lemma conserved_burn_fee: "conserved c st \<Longrightarrow> try_burn_fee k x st = (r, st') \<Longrightarrow> conserved c st'"
  using try_burn_fee_effect [of c st k x] conserved_debit_burn [of c st x k]
  by (auto simp: liquid_funds_def account_liquid_def split: if_splits)

lemma conserved_slash:
  "frame_ok F \<Longrightarrow> conserved c st \<Longrightarrow> slash F pm bpd k n st = Some st' \<Longrightarrow> conserved c st'"
  using attempt_slash_effect(2) [OF _ _ refl] by (auto simp: slash_def Let_def split: bind_splits)

lemma flip_inv_step:
  assumes F: "frame_ok F" and "flip_step F pm bpd s t" "flip_inv s"
  shows "flip_inv t"
  using assms(2,3)
proof induction
  case (step_credit k x st tot st' e)
  have "conserved c st'" if "conserved c st" for c
    using credit_funds_effect [OF F that, of k x] step_credit(1) by simp
  then show ?case by (rule flip_inv_keeps [OF step_credit(2)])
next
  case (step_initiate st k x r st' e)
  show ?case by (rule flip_inv_keeps [OF step_initiate(3)]) (erule conserved_try_initiate [OF F _ step_initiate(1,2)])
next
  case (step_finalize k st r st' e)
  show ?case by (rule flip_inv_keeps [OF step_finalize(2)]) (erule conserved_finalize [OF _ step_finalize(1)])
next
  case (step_revert k st r st' e)
  show ?case by (rule flip_inv_keeps [OF step_revert(2)]) (erule conserved_revert [OF F _ step_revert(1)])
next
  case (step_burn_fee k x st r st' e)
  show ?case by (rule flip_inv_keeps [OF step_burn_fee(2)]) (erule conserved_burn_fee [OF _ step_burn_fee(1)])
next
  case (step_bond st e k x)
  show ?case by (rule flip_inv_keeps [OF step_bond]) (erule update_bond_effect)
next
  case (step_burn_offchain st e x)
  show ?case by (rule flip_inv_keeps [OF step_burn_offchain]) (erule burn_offchain_effect)
next
  case (step_killed st e k)
  show ?case by (rule flip_inv_keeps [OF step_killed]) (erule on_killed_effect [OF F])
next
  case (step_slash k n st st' e)
  show ?case by (rule flip_inv_keeps [OF step_slash(2)]) (erule conserved_slash [OF F _ step_slash(1)])
next
  case (step_slash_balance st e k x)
  show ?case unfolding slash_balance_def Let_def
    by (rule flip_inv_keeps [OF step_slash_balance]) (erule attempt_slash_effect [OF F _ refl])
next
  case (step_rate origin x st st' e)
  then show ?case
    by (auto simp: flip_inv_def set_slashing_rate_def conserved_def flip_wf_def holdings_defs split: if_splits)
next
  case (step_mint x st s st1 e k)
  show ?case by (rule flip_inv_keeps [OF step_mint(2)]) (erule mint_settle_effect [OF F _ step_mint(1)])
next
  case (step_reserve r x st s st1 e k)
  show ?case by (rule flip_inv_keeps [OF step_reserve(2)]) (erule reserve_settle_effect [OF F _ step_reserve(1)])
next
  case (step_deposit_reserve r x st d st1 e k)
  show ?case
    by (rule flip_inv_keeps [OF step_deposit_reserve(2)]) (erule deposit_reserve_settle_effect [OF F _ step_deposit_reserve(1)])
next
  case (step_withdraw_fee waived k x st e st')
  then show ?case using withdraw_fee_effect [of st waived k x e st'] by (auto simp: flip_inv_def)
next
  case (step_deposit_fee st e exst x)
  then show ?case using correct_fee_effect(2) [of _ st _ exst x]
    by (cases e) (auto simp: flip_inv_def correct_and_deposit_fee_def)
qed

end
