(* ===== verification/Funding.thy ===== *)
theory Funding
  imports Flip_Ledger
begin

text \<open>
  The funding pallet (\<open>src/state-chain/pallets/cf-funding/src/lib.rs\<close>) on top of the FLIP
  pallet: funds arrive from Ethereum, and are redeemed to an Ethereum address in two steps,
  a request that moves them into a pending redemption and a witness that it was executed or
  has expired.

  The storage of the FLIP pallet is a component of the state. What the pallet asks of the
  rest of the runtime is the record \<open>funding_env\<close>: the safe mode switch, whether the
  validator pallet lets the account redeem, whether the account has no role, the time, and
  whether \<open>frame_system\<close> reaps an account that lost its last provider. An extrinsic
  that returns an error leaves the storage as it was, so only a success carries a state;
  the result of \<open>redeem\<close> is the call that is handed to the broadcaster. \<open>None\<close> is a panic,
  by an \<open>expect\<close> or an overflow. Events are left out.
\<close>

section \<open>Storage\<close>

record 'e pending_redemption_info =
  pr_total :: nat
  pr_restricted :: nat
  pr_redeem_address :: 'e

datatype redemption_amount = MaxAmount | ExactAmount nat

datatype funding_error =
    NoPendingRedemption | PendingRedemption | BelowMinimumFunding | InsufficientUnrestrictedFunds
  | InvalidMinimumFundingUpdate | InvalidRedemptionTaxUpdate | InsufficientBalance | AccountAlreadyBound
  | AccountBindingRestrictionViolated | RedeemDisabled | ExecutorBindingRestrictionViolated
  | ExecutorAddressAlreadyBound | AccountMustBeUnregistered
  | BadOrigin | CannotRedeem | FlipError flip_error

record ('a, 'r, 'e) funding_state =
  fu_flip :: "('a, 'r) flip_state"
  fu_pending_redemptions :: "('a, 'e pending_redemption_info) btree_map"
  fu_minimum_funding :: nat
  fu_redemption_ttl_seconds :: nat
  fu_bound_executor_address :: "('a, 'e) btree_map"
  fu_restricted_addresses :: "('e, unit) btree_map"
  fu_restricted_balances :: "('a, ('e, nat) btree_map) btree_map"
  fu_bound_redeem_address :: "('a, 'e) btree_map"
  fu_redemption_tax :: nat

record 'a funding_env =
  env_redeem_enabled :: bool
  env_can_redeem :: "'a \<Rightarrow> bool"
  env_is_unregistered :: "'a \<Rightarrow> bool"
  env_now :: nat
  env_reaped :: "'a \<Rightarrow> bool"

record ('a, 'e) redemption_call =
  rc_account :: 'a
  rc_amount :: nat
  rc_address :: 'e
  rc_expiry :: nat
  rc_executor :: "'e option"

definition restricted_balances_of ::
  "'a::linorder \<Rightarrow> ('a, 'r, 'e) funding_state \<Rightarrow> ('e, nat) btree_map" where
  "restricted_balances_of account_id st =
     (case bt_get (fu_restricted_balances st) account_id of None \<Rightarrow> [] | Some m \<Rightarrow> m)"

text \<open>\<open>values().copied().sum()\<close> on \<open>u128\<close>.\<close>

definition sum_values :: "('e, nat) btree_map \<Rightarrow> nat option" where
  "sum_values m = foldM (\<lambda>(_, x) total. uadd 128 total x) m 0"

text \<open>\<open>entry(k).and_modify(|balance| *balance += x).or_insert(x)\<close>.\<close>

definition add_restricted :: "'e::linorder \<Rightarrow> nat \<Rightarrow> ('e, nat) btree_map \<Rightarrow> ('e, nat) btree_map option" where
  "add_restricted address x m =
     (case bt_get m address of
        None \<Rightarrow> Some (bt_insert address x m)
      | Some balance \<Rightarrow> do { y \<leftarrow> uadd 128 balance x; Some (bt_insert address y m) })"

section \<open>Extrinsics\<close>

definition add_funds_to_account ::
  "('a::linorder, 'r::linorder) frame_lib \<Rightarrow> 'a \<Rightarrow> nat \<Rightarrow> ('a, 'r, 'e) funding_state \<Rightarrow> nat \<times> ('a, 'r, 'e) funding_state" where
  "add_funds_to_account F account_id amount st =
     (let (total_balance, fl) = credit_funds F account_id amount (fu_flip st)
      in (total_balance, st\<lparr>fu_flip := fl\<rparr>))"

definition funded ::
  "('a::linorder, 'r::linorder) frame_lib \<Rightarrow> 'a origin \<Rightarrow> 'a \<Rightarrow> nat \<Rightarrow> 'e::linorder \<Rightarrow>
   ('a, 'r, 'e) funding_state \<Rightarrow> (funding_error + ('a, 'r, 'e) funding_state) option" where
  "funded F origin account_id amount funder st =
     (if origin \<noteq> Witnessed then Some (Inl BadOrigin)
      else let (_, st1) = add_funds_to_account F account_id amount st in
           if bt_get (fu_restricted_addresses st1) funder \<noteq> None
           then do { m \<leftarrow> add_restricted funder amount (restricted_balances_of account_id st1);
                     Some (Inr (st1\<lparr>fu_restricted_balances :=
                       bt_insert account_id m (fu_restricted_balances st1)\<rparr>)) }
           else Some (Inr st1))"

text \<open>The guards of \<open>redeem\<close> before any storage is touched.\<close>

definition redeem_guards ::
  "'a funding_env \<Rightarrow> 'a::linorder \<Rightarrow> 'e::linorder \<Rightarrow> 'e option \<Rightarrow> ('e, nat) btree_map \<Rightarrow>
   ('a, 'r, 'e) funding_state \<Rightarrow> funding_error option" where
  "redeem_guards env account_id address executor restricted_balances st =
     (if \<not> env_redeem_enabled env then Some RedeemDisabled
      else if \<not> env_can_redeem env account_id then Some CannotRedeem
      else if bt_get (fu_pending_redemptions st) account_id \<noteq> None then Some PendingRedemption
      else if bt_get restricted_balances address = None \<and>
              (case bt_get (fu_bound_executor_address st) account_id of
                 None \<Rightarrow> False | Some bound_executor \<Rightarrow> executor \<noteq> Some bound_executor)
           then Some ExecutorBindingRestrictionViolated
      else if (case bt_get (fu_bound_redeem_address st) account_id of
                 None \<Rightarrow> False
               | Some bound_address \<Rightarrow>
                   \<not> (bound_address = address \<or> bt_get restricted_balances address \<noteq> None))
           then Some AccountBindingRestrictionViolated
      else None)"

text \<open>
  The available funds: the balance less the bond or less the restricted funds that must
  stay, whichever is larger. The first result is the part of the restricted funds that the
  balance does not cover.
\<close>

definition redeem_liquid ::
  "'a::linorder \<Rightarrow> 'e::linorder \<Rightarrow> ('e, nat) btree_map \<Rightarrow> ('a, 'r, 'e) funding_state \<Rightarrow> (nat \<times> nat) option" where
  "redeem_liquid account_id address restricted_balances st =
     do { total_restricted \<leftarrow> sum_values restricted_balances;
          let balance = total_balance_of account_id (fu_flip st);
          let restricted_deficit = total_restricted - balance;
          exempt \<leftarrow> uadd 128 restricted_deficit
            (case bt_get restricted_balances address of None \<Rightarrow> 0 | Some x \<Rightarrow> x);
          Some (restricted_deficit,
                balance - max (bond_of account_id (fu_flip st)) (total_restricted - exempt)) }"

text \<open>The restricted balances after the debit.\<close>

definition redeem_restrictions ::
  "'e::linorder \<Rightarrow> nat \<Rightarrow> ('e, nat) btree_map \<Rightarrow> ('e, nat) btree_map" where
  "redeem_restrictions address debit_amount restricted_balances =
     (case bt_get restricted_balances address of
        None \<Rightarrow> restricted_balances
      | Some restricted_balance \<Rightarrow>
          (let x = restricted_balance - debit_amount in
           if x = 0 then bt_remove address restricted_balances
           else bt_insert address x restricted_balances))"

definition redeem_amounts :: "redemption_amount \<Rightarrow> nat \<Rightarrow> nat \<Rightarrow> nat \<times> nat" where
  "redeem_amounts amount liquid_balance redemption_fee =
     (case amount of
        MaxAmount \<Rightarrow> (liquid_balance, liquid_balance - redemption_fee)
      | ExactAmount amount \<Rightarrow> (usat_add 128 amount redemption_fee, amount))"

text \<open>The last part of \<open>redeem\<close>: the funds are moved and the call is sent.\<close>

definition redeem_send ::
  "('a::linorder, 'r::linorder) frame_lib \<Rightarrow> 'a funding_env \<Rightarrow> 'a \<Rightarrow> nat \<Rightarrow> nat \<Rightarrow> 'e::linorder \<Rightarrow> 'e option \<Rightarrow>
   ('a, 'r, 'e) funding_state \<Rightarrow>
   (funding_error + ('a, 'e) redemption_call option \<times> ('a, 'r, 'e) funding_state) option" where
  "redeem_send F env account_id redeem_amount total_restricted_balance address executor st =
     (if 0 < redeem_amount then
        (case try_initiate_redemption F account_id redeem_amount (fu_flip st) of
           (Inl e, _) \<Rightarrow> Some (Inl (FlipError e))
         | (Inr _, fl) \<Rightarrow>
             (if total_balance_of account_id fl = 0 \<and> \<not> env_is_unregistered env account_id
              then Some (Inl AccountMustBeUnregistered)
              else do {
                contract_expiry \<leftarrow> uadd 64 (env_now env) (fu_redemption_ttl_seconds st);
                Some (Inr (Some \<lparr>rc_account = account_id, rc_amount = redeem_amount, rc_address = address,
                             rc_expiry = contract_expiry, rc_executor = executor\<rparr>,
                  st\<lparr>fu_flip := fl,
                     fu_pending_redemptions := bt_insert account_id
                       \<lparr>pr_total = redeem_amount,
                        pr_restricted = min (total_restricted_balance - fu_redemption_tax st) redeem_amount,
                        pr_redeem_address = address\<rparr> (fu_pending_redemptions st)\<rparr>)) }))
      else Some (Inr (None, st)))"

definition redeem ::
  "('a::linorder, 'r::linorder) frame_lib \<Rightarrow> 'a funding_env \<Rightarrow> 'a origin \<Rightarrow> redemption_amount \<Rightarrow> 'e::linorder \<Rightarrow>
   'e option \<Rightarrow> ('a, 'r, 'e) funding_state \<Rightarrow>
   (funding_error + ('a, 'e) redemption_call option \<times> ('a, 'r, 'e) funding_state) option" where
  "redeem F env origin amount address executor st =
     (case origin of
        Signed account_id \<Rightarrow>
          (let restricted_balances = restricted_balances_of account_id st in
           case redeem_guards env account_id address executor restricted_balances st of
             Some e \<Rightarrow> Some (Inl e)
           | None \<Rightarrow>
               do { let redemption_fee = fu_redemption_tax st;
                    (restricted_deficit, liquid_balance) \<leftarrow>
                      redeem_liquid account_id address restricted_balances st;
                    let (debit_amount, redeem_amount) = redeem_amounts amount liquid_balance redemption_fee;
                    (case try_burn_fee account_id redemption_fee (fu_flip st) of
                       (Inl _, _) \<Rightarrow> Some (Inl InsufficientBalance)
                     | (Inr _, fl) \<Rightarrow>
                         (let total_restricted_balance =
                                (case bt_get restricted_balances address of None \<Rightarrow> 0 | Some x \<Rightarrow> x);
                              restricted_balances' = redeem_restrictions address debit_amount restricted_balances;
                              st1 = st\<lparr>fu_flip := fl,
                                      fu_restricted_balances :=
                                        (if bt_get restricted_balances address = None
                                         then fu_restricted_balances st
                                         else bt_insert account_id restricted_balances' (fu_restricted_balances st))\<rparr>
                          in case usub (total_balance_of account_id fl) redeem_amount of
                               None \<Rightarrow> Some (Inl InsufficientBalance)
                             | Some remaining_balance \<Rightarrow>
                                 (if \<not> (remaining_balance = 0 \<or> fu_minimum_funding st1 \<le> remaining_balance)
                                  then Some (Inl BelowMinimumFunding)
                                  else do {
                                    total_restricted \<leftarrow> sum_values restricted_balances';
                                    must_remain \<leftarrow> usub total_restricted restricted_deficit;
                                    (if \<not> must_remain \<le> remaining_balance
                                     then Some (Inl InsufficientUnrestrictedFunds)
                                     else redeem_send F env account_id redeem_amount total_restricted_balance
                                            address executor st1) }))) })
      | _ \<Rightarrow> Some (Inl BadOrigin))"

definition funding_on_killed_account ::
  "'a::linorder \<Rightarrow> ('a, 'r, 'e) funding_state \<Rightarrow> ('a, 'r, 'e) funding_state" where
  "funding_on_killed_account account_id st =
     st\<lparr>fu_restricted_balances := bt_remove account_id (fu_restricted_balances st),
        fu_bound_executor_address := bt_remove account_id (fu_bound_executor_address st),
        fu_bound_redeem_address := bt_remove account_id (fu_bound_redeem_address st)\<rparr>"

text \<open>Reaping an account runs the hooks of both pallets.\<close>

definition reap_account ::
  "('a::linorder, 'r::linorder) frame_lib \<Rightarrow> 'a \<Rightarrow> ('a, 'r, 'e) funding_state \<Rightarrow> ('a, 'r, 'e) funding_state" where
  "reap_account F account_id st =
     funding_on_killed_account account_id
       (st\<lparr>fu_flip := flip_on_killed_account F account_id (fu_flip st)\<rparr>)"

definition redeemed ::
  "('a::linorder, 'r::linorder) frame_lib \<Rightarrow> 'a funding_env \<Rightarrow> 'a origin \<Rightarrow> 'a \<Rightarrow>
   ('a, 'r, 'e) funding_state \<Rightarrow> (funding_error + ('a, 'r, 'e) funding_state) option" where
  "redeemed F env origin account_id st =
     (if origin \<noteq> Witnessed then Some (Inl BadOrigin)
      else case bt_get (fu_pending_redemptions st) account_id of
        None \<Rightarrow> Some (Inl NoPendingRedemption)
      | Some _ \<Rightarrow>
          (let st1 = st\<lparr>fu_pending_redemptions := bt_remove account_id (fu_pending_redemptions st)\<rparr> in
           case finalize_redemption account_id (fu_flip st1) of
             (Inl _, _) \<Rightarrow> None
           | (Inr _, fl) \<Rightarrow>
               (let st2 = st1\<lparr>fu_flip := fl\<rparr> in
                Some (Inr (if total_balance_of account_id fl = 0 \<and> env_reaped env account_id
                           then reap_account F account_id st2 else st2)))))"

definition redemption_expired ::
  "('a::linorder, 'r::linorder) frame_lib \<Rightarrow> 'a origin \<Rightarrow> 'a \<Rightarrow> ('a, 'r, 'e::linorder) funding_state \<Rightarrow>
   (funding_error + ('a, 'r, 'e) funding_state) option" where
  "redemption_expired F origin account_id st =
     (if origin \<noteq> Witnessed then Some (Inl BadOrigin)
      else case bt_get (fu_pending_redemptions st) account_id of
        None \<Rightarrow> Some (Inl NoPendingRedemption)
      | Some pending_redemption \<Rightarrow>
          (let st1 = st\<lparr>fu_pending_redemptions := bt_remove account_id (fu_pending_redemptions st)\<rparr> in
           case revert_redemption F account_id (fu_flip st1) of
             (Inl _, _) \<Rightarrow> None
           | (Inr _, fl) \<Rightarrow>
               (let st2 = st1\<lparr>fu_flip := fl\<rparr> in
                if bt_get (fu_restricted_addresses st2) (pr_redeem_address pending_redemption) \<noteq> None
                then do { m \<leftarrow> add_restricted (pr_redeem_address pending_redemption)
                                (pr_restricted pending_redemption) (restricted_balances_of account_id st2);
                          Some (Inr (st2\<lparr>fu_restricted_balances :=
                            bt_insert account_id m (fu_restricted_balances st2)\<rparr>)) }
                else Some (Inr st2))))"

definition update_minimum_funding ::
  "'a origin \<Rightarrow> nat \<Rightarrow> ('a, 'r, 'e) funding_state \<Rightarrow> funding_error + ('a, 'r, 'e) funding_state" where
  "update_minimum_funding origin minimum_funding st =
     (if origin \<noteq> Governance then Inl BadOrigin
      else if \<not> fu_redemption_tax st < minimum_funding then Inl InvalidMinimumFundingUpdate
      else Inr (st\<lparr>fu_minimum_funding := minimum_funding\<rparr>))"

text \<open>Removing an address visits the restricted balances of every account.\<close>

definition remove_restricted_address ::
  "'e::linorder \<Rightarrow> ('a, 'r, 'e) funding_state \<Rightarrow> ('a, 'r, 'e) funding_state" where
  "remove_restricted_address address st =
     st\<lparr>fu_restricted_addresses := bt_remove address (fu_restricted_addresses st),
        fu_restricted_balances := map (\<lambda>(account_id, balances). (account_id,
          if bt_get balances address \<noteq> None then bt_remove address balances else balances))
          (fu_restricted_balances st)\<rparr>"

definition update_restricted_addresses ::
  "'a origin \<Rightarrow> 'e::linorder list \<Rightarrow> 'e list \<Rightarrow> ('a, 'r, 'e) funding_state \<Rightarrow> funding_error + ('a, 'r, 'e) funding_state" where
  "update_restricted_addresses origin addresses_to_add addresses_to_remove st =
     (if origin \<noteq> Governance then Inl BadOrigin
      else let st1 = fold (\<lambda>address st. st\<lparr>fu_restricted_addresses :=
                       bt_insert address () (fu_restricted_addresses st)\<rparr>) addresses_to_add st
           in Inr (fold remove_restricted_address addresses_to_remove st1))"

definition bind_redeem_address ::
  "'a::linorder origin \<Rightarrow> 'e \<Rightarrow> ('a, 'r, 'e) funding_state \<Rightarrow> funding_error + ('a, 'r, 'e) funding_state" where
  "bind_redeem_address origin address st =
     (case origin of
        Signed account_id \<Rightarrow>
          (if bt_get (fu_bound_redeem_address st) account_id \<noteq> None then Inl AccountAlreadyBound
           else Inr (st\<lparr>fu_bound_redeem_address := bt_insert account_id address (fu_bound_redeem_address st)\<rparr>))
      | _ \<Rightarrow> Inl BadOrigin)"

definition update_redemption_tax ::
  "'a origin \<Rightarrow> nat \<Rightarrow> ('a, 'r, 'e) funding_state \<Rightarrow> funding_error + ('a, 'r, 'e) funding_state" where
  "update_redemption_tax origin amount st =
     (if origin \<noteq> Governance then Inl BadOrigin
      else if \<not> amount < fu_minimum_funding st then Inl InvalidRedemptionTaxUpdate
      else Inr (st\<lparr>fu_redemption_tax := amount\<rparr>))"

definition bind_executor_address ::
  "'a::linorder origin \<Rightarrow> 'e \<Rightarrow> ('a, 'r, 'e) funding_state \<Rightarrow> funding_error + ('a, 'r, 'e) funding_state" where
  "bind_executor_address origin executor_address st =
     (case origin of
        Signed account_id \<Rightarrow>
          (if bt_get (fu_bound_executor_address st) account_id \<noteq> None then Inl ExecutorAddressAlreadyBound
           else Inr (st\<lparr>fu_bound_executor_address :=
             bt_insert account_id executor_address (fu_bound_executor_address st)\<rparr>))
      | _ \<Rightarrow> Inl BadOrigin)"

definition funding_genesis ::
  "('a::linorder, 'r::linorder) frame_lib \<Rightarrow> ('a \<times> nat) list \<Rightarrow> nat \<Rightarrow> nat \<Rightarrow> nat \<Rightarrow> ('a, 'r) flip_state \<Rightarrow>
   ('a, 'r, 'e) funding_state option" where
  "funding_genesis F genesis_accounts redemption_tax minimum_funding redemption_ttl fl =
     do { assert_that (redemption_tax < minimum_funding);
          Some (fold (\<lambda>(account_id, amount) st. snd (add_funds_to_account F account_id amount st)) genesis_accounts
            \<lparr>fu_flip = fl, fu_pending_redemptions = [], fu_minimum_funding = minimum_funding,
             fu_redemption_ttl_seconds = redemption_ttl, fu_bound_executor_address = [],
             fu_restricted_addresses = [], fu_restricted_balances = [], fu_bound_redeem_address = [],
             fu_redemption_tax = redemption_tax\<rparr>) }"

end
