(* ===== verification/Funding_Ledger.thy ===== *)
theory Funding_Ledger
  imports Funding
begin

text \<open>
  Funding and the FLIP token together: the pending redemptions of the two pallets agree, so
  that the \<open>expect\<close>s of the funding pallet hold and no redemption overwrites another, and
  what a redemption does to the account, its bond and its restricted funds.
\<close>

section \<open>The invariant\<close>

definition pendings_agree :: "('a::linorder, 'r, 'e) funding_state \<Rightarrow> bool" where
  "pendings_agree st \<longleftrightarrow> (\<forall>k. bt_get (fl_pending_redemptions (fu_flip st)) k =
     map_option pr_total (bt_get (fu_pending_redemptions st) k))"

definition restrictions_wf :: "('a::linorder, 'r, 'e::linorder) funding_state \<Rightarrow> bool" where
  "restrictions_wf st \<longleftrightarrow> (\<forall>k. bt_wf (restricted_balances_of k st))"

definition funding_inv ::
  "('a::linorder, 'r::linorder, 'e::linorder) funding_state \<times> ('a, 'r) surplus option \<Rightarrow> bool" where
  "funding_inv = (\<lambda>(st, e). flip_inv (fu_flip st, e) \<and> pendings_agree st \<and> restrictions_wf st \<and>
     fu_redemption_tax st < fu_minimum_funding st)"

lemma funding_invD:
  assumes "funding_inv (st, e)"
  shows "flip_inv (fu_flip st, e)" "conserved (escrow_amount e) (fu_flip st)" "pendings_agree st"
    "restrictions_wf st" "fu_redemption_tax st < fu_minimum_funding st"
  using assms by (simp_all add: funding_inv_def flip_inv_def)

section \<open>What the FLIP pallet does to pending redemptions\<close>

lemma put_account_pending [simp]: "fl_pending_redemptions (put_account k a st) = fl_pending_redemptions st"
  by (simp add: put_account_def)

lemma credit_funds_pending:
  assumes "frame_ok F" "conserved e fl" "credit_funds F k x fl = (t, fl')"
  shows "fl_pending_redemptions fl' = fl_pending_redemptions fl" "conserved e fl'"
  using credit_funds_effect [OF assms(1,2), of k x] assms(3) by auto

lemma on_killed_pending:
  assumes "frame_ok F" "conserved e fl"
  shows "fl_pending_redemptions (flip_on_killed_account F k fl) = fl_pending_redemptions fl"
  by (simp add: on_killed_effect(1) [OF assms])

section \<open>Sums of restricted balances\<close>

lemma sum_values_aux:
  "t + bt_sum (\<lambda>_ x. x) m < 2 ^ 128 \<Longrightarrow> foldM (\<lambda>(_, x) t. uadd 128 t x) m t = Some (t + bt_sum (\<lambda>_ x. x) m)"
  by (induction m arbitrary: t) (auto simp: uadd_def)

lemma sum_values_eq: "bt_sum (\<lambda>_ x. x) m < 2 ^ 128 \<Longrightarrow> sum_values m = Some (bt_sum (\<lambda>_ x. x) m)"
  using sum_values_aux [of 0 m] by (simp add: sum_values_def)

abbreviation restricted_for :: "'e::linorder \<Rightarrow> ('e, nat) btree_map \<Rightarrow> nat" where
  "restricted_for address m \<equiv> (case bt_get m address of None \<Rightarrow> 0 | Some x \<Rightarrow> x)"

lemma restricted_for_le: "restricted_for a m \<le> bt_sum (\<lambda>_ x. x) m"
  using bt_sum_get_le [of m a _ "\<lambda>_ x. x"] by (auto split: option.split)

lemma redeem_restrictions_sum:
  assumes "bt_wf m"
  shows "bt_sum (\<lambda>_ x. x) (redeem_restrictions a d m) + min d (restricted_for a m) = bt_sum (\<lambda>_ x. x) m"
    and "bt_wf (redeem_restrictions a d m)"
    and "restricted_for a (redeem_restrictions a d m) = restricted_for a m - d"
proof -
  show "bt_sum (\<lambda>_ x. x) (redeem_restrictions a d m) + min d (restricted_for a m) = bt_sum (\<lambda>_ x. x) m"
  proof (cases "bt_get m a")
    case (Some r)
    show ?thesis
      using bt_sum_insert_nat [OF assms, of "\<lambda>_ x. x" a "r - d"] bt_sum_remove_nat [OF assms, of "\<lambda>_ x. x" a] Some
      by (auto simp: redeem_restrictions_def Let_def)
  qed (simp add: redeem_restrictions_def)
  show "bt_wf (redeem_restrictions a d m)"
    using assms by (simp add: redeem_restrictions_def Let_def bt_wf_insert bt_wf_remove split: option.split)
  show "restricted_for a (redeem_restrictions a d m) = restricted_for a m - d"
    by (auto simp: redeem_restrictions_def Let_def bt_get_insert bt_get_remove split: option.split)
qed

section \<open>A redemption\<close>

text \<open>What \<open>redeem_send\<close> does when it succeeds.\<close>

lemma redeem_send_Some:
  assumes F: "frame_ok F" and c: "conserved e (fu_flip st)"
    and new: "bt_get (fl_pending_redemptions (fu_flip st)) k = None" and x: "0 < x"
    and run: "redeem_send F env k x tr address executor st = Some (Inr (call, st'))"
  obtains fl' expiry where "x \<le> liquid_funds k (fu_flip st)"
    and "fl' = put_balance k (fa_balance (get_account k (fu_flip st)) - x)
      ((fu_flip st)\<lparr>fl_pending_redemptions := bt_insert k x (fl_pending_redemptions (fu_flip st))\<rparr>)"
    and "conserved e fl'"
    and "st' = st\<lparr>fu_flip := fl', fu_pending_redemptions := bt_insert k
           \<lparr>pr_total = x, pr_restricted = min (tr - fu_redemption_tax st) x, pr_redeem_address = address\<rparr>
           (fu_pending_redemptions st)\<rparr>"
    and "call = Some \<lparr>rc_account = k, rc_amount = x, rc_address = address, rc_expiry = expiry, rc_executor = executor\<rparr>"
    and "total_balance_of k fl' = 0 \<longrightarrow> env_is_unregistered env k"
proof -
  have le: "x \<le> liquid_funds k (fu_flip st)"
    using run x by (auto simp: redeem_send_def try_initiate_redemption_def split: if_splits)
  note eff = try_initiate_redemption_effect [OF F c new le]
  show ?thesis
    by (rule that [OF le refl eff(2)])
       (use run x eff(1) in \<open>auto simp: redeem_send_def split: if_splits bind_splits\<close>)
qed

text \<open>A successful \<open>redeem\<close>, from its guards to the amounts.\<close>

lemma redeem_Some:
  assumes c: "conserved e (fu_flip st)"
    and run: "redeem F env (Signed k) amount address executor st = Some (Inr (call, st'))"
  obtains deficit liquid debit x fl m where
    "redeem_guards env k address executor (restricted_balances_of k st) st = None"
    and "redeem_liquid k address (restricted_balances_of k st) st = Some (deficit, liquid)"
    and "(debit, x) = redeem_amounts amount liquid (fu_redemption_tax st)"
    and "bt_get (fl_accounts (fu_flip st)) k \<noteq> None"
    and "fu_redemption_tax st \<le> liquid_funds k (fu_flip st)"
    and "fl = put_balance k (fa_balance (get_account k (fu_flip st)) - fu_redemption_tax st)
      ((fu_flip st)\<lparr>fl_total_issuance := fl_total_issuance (fu_flip st) - fu_redemption_tax st\<rparr>)"
    and "conserved e fl"
    and "m = redeem_restrictions address debit (restricted_balances_of k st)"
    and "x \<le> total_balance_of k fl"
    and "total_balance_of k fl - x = 0 \<or> fu_minimum_funding st \<le> total_balance_of k fl - x"
    and "\<exists>t. sum_values m = Some t \<and> deficit \<le> t \<and> t - deficit \<le> total_balance_of k fl - x"
    and "redeem_send F env k x (restricted_for address (restricted_balances_of k st)) address executor
      (st\<lparr>fu_flip := fl, fu_restricted_balances :=
        (if bt_get (restricted_balances_of k st) address = None then fu_restricted_balances st
         else bt_insert k m (fu_restricted_balances st))\<rparr>) = Some (Inr (call, st'))"
proof -
  let ?m = "restricted_balances_of k st"
  have g: "redeem_guards env k address executor ?m st = None"
    using run by (auto simp: redeem_def Let_def split: option.splits)
  obtain deficit liquid where l: "redeem_liquid k address ?m st = Some (deficit, liquid)"
    using run g by (auto simp: redeem_def Let_def split: bind_splits)
  obtain debit x where am: "redeem_amounts amount liquid (fu_redemption_tax st) = (debit, x)" by fastforce
  note fee = try_burn_fee_effect [OF c, of k "fu_redemption_tax st"]
  have ok: "bt_get (fl_accounts (fu_flip st)) k \<noteq> None \<and> fu_redemption_tax st \<le> liquid_funds k (fu_flip st)"
  proof (rule ccontr)
    assume "\<not> ?thesis"
    then have "try_burn_fee k (fu_redemption_tax st) (fu_flip st) = (Inl InsufficientLiquidity, fu_flip st)"
      using fee by (simp only: if_False)
    then show False using run g l am by (simp add: redeem_def)
  qed
  let ?fl = "put_balance k (fa_balance (get_account k (fu_flip st)) - fu_redemption_tax st)
      ((fu_flip st)\<lparr>fl_total_issuance := fl_total_issuance (fu_flip st) - fu_redemption_tax st\<rparr>)"
  have burn: "try_burn_fee k (fu_redemption_tax st) (fu_flip st) = (Inr (), ?fl)" using fee ok by simp
  have cfl: "conserved e ?fl" by (rule conserved_burn_fee [OF c burn])
  show ?thesis
    by (rule that [OF g l am [symmetric] _ _ refl cfl refl])
       (use run g l am burn ok in \<open>auto simp: redeem_def usub_def Let_def split: if_splits bind_splits\<close>)
qed

section \<open>Every extrinsic keeps the invariant\<close>

lemma restricted_of_insert:
  "restricted_balances_of k (st\<lparr>fu_restricted_balances := bt_insert k' m M\<rparr>) =
     (if k = k' then m else case bt_get M k of None \<Rightarrow> [] | Some m \<Rightarrow> m)"
  by (simp add: restricted_balances_of_def bt_get_insert)

lemma restrictions_wf_insert:
  assumes "restrictions_wf st" "bt_wf m"
  shows "restrictions_wf (st\<lparr>fu_flip := fl, fu_restricted_balances := bt_insert k m (fu_restricted_balances st)\<rparr>)"
    and "restrictions_wf (st\<lparr>fu_restricted_balances := bt_insert k m (fu_restricted_balances st)\<rparr>)"
  using assms by (auto simp: restrictions_wf_def restricted_balances_of_def bt_get_insert)

lemma restrictions_wf_upd [simp]:
  "restrictions_wf (st\<lparr>fu_flip := fl\<rparr>) = restrictions_wf st"
  "restrictions_wf (st\<lparr>fu_pending_redemptions := P\<rparr>) = restrictions_wf st"
  by (simp_all add: restrictions_wf_def restricted_balances_of_def)

lemma restricted_of_upd [simp]:
  "restricted_balances_of k (st\<lparr>fu_flip := fl\<rparr>) = restricted_balances_of k st"
  "restricted_balances_of k (st\<lparr>fu_pending_redemptions := P\<rparr>) = restricted_balances_of k st"
  by (simp_all add: restricted_balances_of_def)

lemma add_restricted_wf: "add_restricted a x m = Some m' \<Longrightarrow> bt_wf m \<Longrightarrow> bt_wf m'"
  by (auto simp: add_restricted_def bt_wf_insert split: option.splits bind_splits)

lemma flip_inv_conserved: "flip_inv (fl, e) \<Longrightarrow> conserved (escrow_amount e) fl' \<Longrightarrow> flip_inv (fl', e)"
  by (simp add: flip_inv_def)

lemma inv_funded:
  assumes F: "frame_ok F" and inv: "funding_inv (st, e)"
    and run: "funded F origin k x a st = Some (Inr st')"
  shows "funding_inv (st', e)"
proof -
  note i = funding_invD [OF inv]
  obtain t fl where cr: "credit_funds F k x (fu_flip st) = (t, fl)" by fastforce
  note fl = credit_funds_pending [OF F i(2) cr]
  have i1: "funding_inv (st\<lparr>fu_flip := fl\<rparr>, e)"
    using i fl flip_inv_conserved [OF i(1) fl(2)] by (simp add: funding_inv_def pendings_agree_def)
  show ?thesis
  proof (cases "bt_get (fu_restricted_addresses st) a")
    case None
    then show ?thesis using run cr i1 by (auto simp: funded_def add_funds_to_account_def split: if_splits)
  next
    case (Some u)
    obtain m where m: "add_restricted a x (restricted_balances_of k st) = Some m"
      and st': "st' = st\<lparr>fu_flip := fl, fu_restricted_balances := bt_insert k m (fu_restricted_balances st)\<rparr>"
      using run cr Some by (auto simp: funded_def add_funds_to_account_def split: if_splits bind_splits)
    have "bt_wf m" using add_restricted_wf [OF m] i(4) by (simp add: restrictions_wf_def)
    then show ?thesis using i1 restrictions_wf_insert(1) [OF i(4)]
      by (simp add: st' funding_inv_def pendings_agree_def)
  qed
qed

lemma inv_redeem:
  assumes F: "frame_ok F" and inv: "funding_inv (st, e)"
    and run: "redeem F env (Signed k) amount address executor st = Some (Inr (call, st'))"
  shows "funding_inv (st', e)"
proof -
  note i = funding_invD [OF inv]
  let ?M = "restricted_balances_of k st"
  obtain debit x fl m where g: "redeem_guards env k address executor ?M st = None"
    and fl: "fl = put_balance k (fa_balance (get_account k (fu_flip st)) - fu_redemption_tax st)
      ((fu_flip st)\<lparr>fl_total_issuance := fl_total_issuance (fu_flip st) - fu_redemption_tax st\<rparr>)"
    and cfl: "conserved (escrow_amount e) fl" and m: "m = redeem_restrictions address debit ?M"
    and send: "redeem_send F env k x (restricted_for address ?M) address executor
      (st\<lparr>fu_flip := fl, fu_restricted_balances :=
        (if bt_get ?M address = None then fu_restricted_balances st
         else bt_insert k m (fu_restricted_balances st))\<rparr>) = Some (Inr (call, st'))"
      (is "redeem_send F env k x _ address executor ?st1 = _")
    by (rule redeem_Some [OF i(2) run]) blast
  have "bt_wf ?M" using i(4) by (simp add: restrictions_wf_def)
  then have wfm: "bt_wf m" unfolding m by (rule redeem_restrictions_sum)
  have w1: "restrictions_wf ?st1"
    using i(4) restrictions_wf_insert(1) [OF i(4) wfm] by simp
  have p1: "fl_pending_redemptions fl = fl_pending_redemptions (fu_flip st)" by (simp add: fl)
  have none: "bt_get (fu_pending_redemptions st) k = None"
    using g by (auto simp: redeem_guards_def split: if_splits)
  then have new: "bt_get (fl_pending_redemptions (fu_flip ?st1)) k = None"
    using i(3) p1 by (simp add: pendings_agree_def)
  show ?thesis
  proof (cases "0 < x")
    case False
    then have "st' = ?st1" using send by (simp add: redeem_send_def)
    then show ?thesis using i w1 p1 flip_inv_conserved [OF i(1) cfl]
      by (simp add: funding_inv_def pendings_agree_def)
  next
    case True
    have c1: "conserved (escrow_amount e) (fu_flip ?st1)" using cfl by simp
    obtain fl' where fl': "fl' = put_balance k (fa_balance (get_account k (fu_flip ?st1)) - x)
      ((fu_flip ?st1)\<lparr>fl_pending_redemptions := bt_insert k x (fl_pending_redemptions (fu_flip ?st1))\<rparr>)"
      and cfl': "conserved (escrow_amount e) fl'"
      and st': "st' = ?st1\<lparr>fu_flip := fl', fu_pending_redemptions := bt_insert k
           \<lparr>pr_total = x, pr_restricted = min (restricted_for address ?M - fu_redemption_tax ?st1) x,
            pr_redeem_address = address\<rparr> (fu_pending_redemptions ?st1)\<rparr>"
      by (rule redeem_send_Some [OF F c1 new True send]) blast
    have "restrictions_wf st'" unfolding st' using w1 by (simp add: restrictions_wf_def restricted_balances_of_def)
    moreover have "pendings_agree st'"
      using i(3) p1 by (simp add: st' pendings_agree_def fl' bt_get_insert)
    moreover have "flip_inv (fu_flip st', e)" using flip_inv_conserved [OF i(1) cfl'] by (simp add: st')
    ultimately show ?thesis using i(5) by (simp add: funding_inv_def) (simp add: st')
  qed
qed

lemma inv_reap:
  assumes F: "frame_ok F" and inv: "funding_inv (st, e)"
  shows "funding_inv (reap_account F k st, e)"
proof -
  note i = funding_invD [OF inv]
  have "restrictions_wf (reap_account F k st)"
    using i(4) by (simp add: restrictions_wf_def restricted_balances_of_def reap_account_def
        funding_on_killed_account_def bt_get_remove)
  then show ?thesis
    using i on_killed_pending [OF F i(2), of k] flip_inv_conserved [OF i(1) on_killed_effect(2) [OF F i(2), of k]]
    by (simp add: funding_inv_def pendings_agree_def) (simp add: reap_account_def funding_on_killed_account_def)
qed

lemma pendings_agree_get:
  "pendings_agree st \<Longrightarrow> bt_get (fu_pending_redemptions st) k = Some i \<Longrightarrow>
   bt_get (fl_pending_redemptions (fu_flip st)) k = Some (pr_total i)"
  by (simp add: pendings_agree_def)

text \<open>The two witnesses of the end of a redemption; the \<open>expect\<close> never fails.\<close>

lemma redeemed_Some:
  assumes F: "frame_ok F" and inv: "funding_inv (st, e)"
    and get: "bt_get (fu_pending_redemptions st) k = Some i"
  obtains fl st1 where "fl = (fu_flip st)\<lparr>fl_pending_redemptions := bt_remove k (fl_pending_redemptions (fu_flip st)),
      fl_offchain_funds := fl_offchain_funds (fu_flip st) + pr_total i\<rparr>"
    and "st1 = st\<lparr>fu_flip := fl, fu_pending_redemptions := bt_remove k (fu_pending_redemptions st)\<rparr>"
    and "funding_inv (st1, e)"
    and "redeemed F env Witnessed k st = Some (Inr (if total_balance_of k fl = 0 \<and> env_reaped env k
           then reap_account F k st1 else st1))"
proof -
  note v = funding_invD [OF inv]
  note eff = finalize_redemption_effect [OF v(2) pendings_agree_get [OF v(3) get]]
  let ?fl = "(fu_flip st)\<lparr>fl_pending_redemptions := bt_remove k (fl_pending_redemptions (fu_flip st)),
      fl_offchain_funds := fl_offchain_funds (fu_flip st) + pr_total i\<rparr>"
  let ?st1 = "st\<lparr>fu_flip := ?fl, fu_pending_redemptions := bt_remove k (fu_pending_redemptions st)\<rparr>"
  have "funding_inv (?st1, e)"
    using v flip_inv_conserved [OF v(1) eff(2)]
    by (simp add: funding_inv_def pendings_agree_def bt_get_remove)
  then show ?thesis
    by (rule that [OF refl refl])
       (use get eff(1) in \<open>simp add: redeemed_def Let_def, cases st, simp\<close>)
qed

lemma expired_Some:
  assumes F: "frame_ok F" and inv: "funding_inv (st, e)"
    and get: "bt_get (fu_pending_redemptions st) k = Some i"
  obtains fl st1 where "fl = put_balance k (fa_balance (get_account k (fu_flip st)) + pr_total i)
      ((fu_flip st)\<lparr>fl_pending_redemptions := bt_remove k (fl_pending_redemptions (fu_flip st))\<rparr>)"
    and "st1 = st\<lparr>fu_flip := fl, fu_pending_redemptions := bt_remove k (fu_pending_redemptions st)\<rparr>"
    and "funding_inv (st1, e)"
    and "redemption_expired F Witnessed k st =
      (if bt_get (fu_restricted_addresses st) (pr_redeem_address i) = None then Some (Inr st1)
       else do { m \<leftarrow> add_restricted (pr_redeem_address i) (pr_restricted i) (restricted_balances_of k st);
                 Some (Inr (st1\<lparr>fu_restricted_balances := bt_insert k m (fu_restricted_balances st)\<rparr>)) })"
proof -
  note v = funding_invD [OF inv]
  note eff = revert_redemption_effect [OF F v(2) pendings_agree_get [OF v(3) get]]
  let ?fl = "put_balance k (fa_balance (get_account k (fu_flip st)) + pr_total i)
      ((fu_flip st)\<lparr>fl_pending_redemptions := bt_remove k (fl_pending_redemptions (fu_flip st))\<rparr>)"
  let ?st1 = "st\<lparr>fu_flip := ?fl, fu_pending_redemptions := bt_remove k (fu_pending_redemptions st)\<rparr>"
  have "funding_inv (?st1, e)"
    using v flip_inv_conserved [OF v(1) eff(2)]
    by (simp add: funding_inv_def pendings_agree_def bt_get_remove)
  then show ?thesis
    by (rule that [OF refl refl])
       (use get eff(1) in \<open>simp add: redemption_expired_def Let_def, cases st, simp\<close>)
qed

section \<open>Runs\<close>

text \<open>
  The extrinsics of the funding pallet, an account that is reaped, and any call another
  pallet makes to the FLIP pallet, none of which touches the pending redemptions.
\<close>

inductive funding_step ::
  "('a::linorder, 'r::linorder) frame_lib \<Rightarrow> (nat \<Rightarrow> nat \<Rightarrow> nat) \<Rightarrow> nat \<Rightarrow>
   ('a, 'r, 'e::linorder) funding_state \<times> ('a, 'r) surplus option \<Rightarrow>
   ('a, 'r, 'e) funding_state \<times> ('a, 'r) surplus option \<Rightarrow> bool"
  for F permill_mul blocks_per_day where
  fs_funded: "funded F org k x a st = Some (Inr st') \<Longrightarrow> funding_step F permill_mul blocks_per_day (st, e) (st', e)"
| fs_redeem: "redeem F env org amount a ex st = Some (Inr (call, st')) \<Longrightarrow>
    funding_step F permill_mul blocks_per_day (st, e) (st', e)"
| fs_redeemed: "redeemed F env org k st = Some (Inr st') \<Longrightarrow> funding_step F permill_mul blocks_per_day (st, e) (st', e)"
| fs_expired: "redemption_expired F org k st = Some (Inr st') \<Longrightarrow>
    funding_step F permill_mul blocks_per_day (st, e) (st', e)"
| fs_minimum: "update_minimum_funding org x st = Inr st' \<Longrightarrow> funding_step F permill_mul blocks_per_day (st, e) (st', e)"
| fs_restricted: "update_restricted_addresses org as bs st = Inr st' \<Longrightarrow>
    funding_step F permill_mul blocks_per_day (st, e) (st', e)"
| fs_bind: "bind_redeem_address org a st = Inr st' \<Longrightarrow> funding_step F permill_mul blocks_per_day (st, e) (st', e)"
| fs_tax: "update_redemption_tax org x st = Inr st' \<Longrightarrow> funding_step F permill_mul blocks_per_day (st, e) (st', e)"
| fs_executor: "bind_executor_address org a st = Inr st' \<Longrightarrow> funding_step F permill_mul blocks_per_day (st, e) (st', e)"
| fs_reap: "funding_step F permill_mul blocks_per_day (st, e) (reap_account F k st, e)"
| fs_flip: "flip_step F permill_mul blocks_per_day (fu_flip st, e) (fl, e') \<Longrightarrow>
    fl_pending_redemptions fl = fl_pending_redemptions (fu_flip st) \<Longrightarrow>
    funding_step F permill_mul blocks_per_day (st, e) (st\<lparr>fu_flip := fl\<rparr>, e')"

lemma inv_redeemed:
  assumes F: "frame_ok F" and inv: "funding_inv (st, e)" and run: "redeemed F env org k st = Some (Inr st')"
  shows "funding_inv (st', e)"
proof -
  have org: "org = Witnessed" using run by (auto simp: redeemed_def split: if_splits)
  then obtain i where get: "bt_get (fu_pending_redemptions st) k = Some i"
    using run by (auto simp: redeemed_def split: option.splits)
  show ?thesis
    by (rule redeemed_Some [OF F inv get, of env]) (use run org inv_reap [OF F] in \<open>auto split: if_splits\<close>)
qed

lemma inv_expired:
  assumes F: "frame_ok F" and inv: "funding_inv (st, e)" and run: "redemption_expired F org k st = Some (Inr st')"
  shows "funding_inv (st', e)"
proof -
  have org: "org = Witnessed" using run by (auto simp: redemption_expired_def split: if_splits)
  then obtain i where get: "bt_get (fu_pending_redemptions st) k = Some i"
    using run by (auto simp: redemption_expired_def split: option.splits)
  obtain st1 where st1: "funding_inv (st1, e)" "fu_restricted_balances st1 = fu_restricted_balances st"
    and ex: "redemption_expired F Witnessed k st =
      (if bt_get (fu_restricted_addresses st) (pr_redeem_address i) = None then Some (Inr st1)
       else do { m \<leftarrow> add_restricted (pr_redeem_address i) (pr_restricted i) (restricted_balances_of k st);
                 Some (Inr (st1\<lparr>fu_restricted_balances := bt_insert k m (fu_restricted_balances st)\<rparr>)) })"
    by (rule expired_Some [OF F inv get]) auto
  have "funding_inv (st1\<lparr>fu_restricted_balances := bt_insert k m (fu_restricted_balances st1)\<rparr>, e)"
    if "add_restricted (pr_redeem_address i) (pr_restricted i) (restricted_balances_of k st) = Some m" for m
  proof -
    have "bt_wf m" using add_restricted_wf [OF that] funding_invD(4) [OF inv] by (simp add: restrictions_wf_def)
    then show ?thesis
      using st1(1) restrictions_wf_insert(2) [of st1 m k] by (simp add: funding_inv_def pendings_agree_def)
  qed
  then show ?thesis using run ex st1 org by (auto split: if_splits bind_splits)
qed

lemma inv_restricted:
  assumes "funding_inv (st, e)" "update_restricted_addresses org as bs st = Inr st'"
  shows "funding_inv (st', e)"
proof -
  have add: "funding_inv (st\<lparr>fu_restricted_addresses := bt_insert a () (fu_restricted_addresses st)\<rparr>, e)"
    if "funding_inv (st, e)" for a st
    using that by (simp add: funding_inv_def pendings_agree_def restrictions_wf_def restricted_balances_of_def)
  have adds: "funding_inv (fold (\<lambda>address st. st\<lparr>fu_restricted_addresses :=
      bt_insert address () (fu_restricted_addresses st)\<rparr>) as st, e)" if "funding_inv (st, e)" for as st
    using that by (induction as arbitrary: st) (auto intro: add)
  have rem: "funding_inv (remove_restricted_address a st, e)" if "funding_inv (st, e)" for a st
  proof -
    let ?f = "\<lambda>k m. if bt_get m a \<noteq> None then bt_remove a m else m"
    have "restrictions_wf (remove_restricted_address a st)"
      using that bt_get_map_value [of ?f "fu_restricted_balances st"]
      by (auto simp: funding_inv_def restrictions_wf_def restricted_balances_of_def
          remove_restricted_address_def bt_wf_remove split: option.splits)
    then show ?thesis using that
      by (simp add: funding_inv_def pendings_agree_def) (simp add: remove_restricted_address_def)
  qed
  have rems: "funding_inv (fold remove_restricted_address bs st, e)" if "funding_inv (st, e)" for bs st
    using that by (induction bs arbitrary: st) (auto intro: rem)
  show ?thesis using assms rems adds by (auto simp: update_restricted_addresses_def split: if_splits)
qed

lemma inv_settings:
  assumes "funding_inv (st, e)"
  shows "update_minimum_funding org x st = Inr st' \<Longrightarrow> funding_inv (st', e)"
    and "bind_redeem_address org a st = Inr st' \<Longrightarrow> funding_inv (st', e)"
    and "update_redemption_tax org x st = Inr st' \<Longrightarrow> funding_inv (st', e)"
    and "bind_executor_address org a st = Inr st' \<Longrightarrow> funding_inv (st', e)"
  using assms
  by (auto simp: funding_inv_def pendings_agree_def restrictions_wf_def restricted_balances_of_def
      update_minimum_funding_def bind_redeem_address_def update_redemption_tax_def
      bind_executor_address_def split: if_splits origin.splits)

lemma redeem_signed:
  "redeem F env org amount a ex st = Some (Inr r) \<Longrightarrow> \<exists>k. org = Signed k"
  by (cases org) (auto simp: redeem_def)

lemma funding_inv_step:
  assumes F: "frame_ok F" and "funding_step F pm bpd s t" "funding_inv s"
  shows "funding_inv t"
  using assms(2,3)
proof induction
  case (fs_funded org k x a st st' e)
  show ?case by (rule inv_funded [OF F fs_funded(2,1)])
next
  case (fs_redeem env org amount a ex st call st' e)
  then show ?case using redeem_signed [OF fs_redeem(1)] inv_redeem [OF F] by blast
next
  case (fs_redeemed env org k st st' e)
  show ?case by (rule inv_redeemed [OF F fs_redeemed(2,1)])
next
  case (fs_expired org k st st' e)
  show ?case by (rule inv_expired [OF F fs_expired(2,1)])
next
  case (fs_restricted org as bs st st' e)
  show ?case by (rule inv_restricted [OF fs_restricted(2,1)])
next
  case (fs_reap st e k)
  show ?case by (rule inv_reap [OF F fs_reap])
next
  case (fs_flip st e fl e')
  then have "flip_inv (fl, e')" using flip_inv_step [OF F] funding_invD(1) by blast
  then show ?case using fs_flip by (simp add: funding_inv_def pendings_agree_def)
qed (erule inv_settings, assumption)+

lemma funding_inv_genesis:
  fixes st :: "('a::linorder, 'b::linorder, 'c::linorder) funding_state"
  assumes F: "frame_ok F" and t: "tot < 2 ^ 128"
    and run: "funding_genesis F accs tax minimum ttl (flip_genesis tot rate) = Some st"
  shows "funding_inv (st, None)"
proof -
  have add: "funding_inv (snd (add_funds_to_account F k x st), None)" if "funding_inv (st, None)" for k x st
    using inv_funded [OF F that, of Witnessed k x undefined]
      credit_funds_pending [OF F funding_invD(2) [OF that], of k x] that
    by (auto simp: add_funds_to_account_def funding_inv_def pendings_agree_def flip_inv_def split: prod.splits)
  have adds: "funding_inv (fold (\<lambda>(k, x) st. snd (add_funds_to_account F k x st)) accs st, None)"
    if "funding_inv (st, None)" for st
    using that by (induction accs arbitrary: st) (auto intro: add)
  let ?st = "\<lparr>fu_flip = flip_genesis tot rate, fu_pending_redemptions = [], fu_minimum_funding = minimum,
     fu_redemption_ttl_seconds = ttl, fu_bound_executor_address = [],
     fu_restricted_addresses = [], fu_restricted_balances = [], fu_bound_redeem_address = [],
     fu_redemption_tax = tax\<rparr> :: ('a, 'b, 'c) funding_state"
  have st: "tax < minimum" "st = fold (\<lambda>(k, x) st. snd (add_funds_to_account F k x st)) accs ?st"
    using run by (auto simp: funding_genesis_def split: bind_splits)
  have "funding_inv (?st, None)" using t st(1)
    by (simp add: funding_inv_def flip_inv_def conserved_def flip_wf_def holdings_defs
        flip_genesis_def pendings_agree_def restrictions_wf_def restricted_balances_of_def)
  then show ?thesis unfolding st(2) by (rule adds)
qed

interpretation flip_run: step_invariant "flip_step F pm bpd" "\<lambda>s. frame_ok F \<longrightarrow> flip_inv s" for F pm bpd
  by unfold_locales (auto intro: flip_inv_step)

interpretation funding_run: step_invariant "funding_step F pm bpd" "\<lambda>s. frame_ok F \<longrightarrow> funding_inv s" for F pm bpd
  by unfold_locales (auto intro: funding_inv_step)

text \<open>The states of the two pallets that a run from genesis reaches.\<close>

definition funding_reachable ::
  "('a::linorder, 'r::linorder) frame_lib \<Rightarrow> (nat \<Rightarrow> nat \<Rightarrow> nat) \<Rightarrow> nat \<Rightarrow>
   ('a, 'r, 'e::linorder) funding_state \<times> ('a, 'r) surplus option \<Rightarrow> bool" where
  "funding_reachable F permill_mul blocks_per_day s \<longleftrightarrow>
     (\<exists>tot rate accs tax minimum ttl st0. tot < 2 ^ 128 \<and>
        funding_genesis F accs tax minimum ttl (flip_genesis tot rate) = Some st0 \<and>
        (funding_step F permill_mul blocks_per_day)\<^sup>*\<^sup>* (st0, None) s)"

lemma funding_reachable_inv:
  assumes "frame_ok F" "funding_reachable F pm bpd s"
  shows "funding_inv s"
proof -
  obtain tot rate accs tax minimum ttl st0 where "tot < 2 ^ 128"
    "funding_genesis F accs tax minimum ttl (flip_genesis tot rate) = Some st0"
    and run: "(funding_step F pm bpd)\<^sup>*\<^sup>* (st0, None) s"
    using assms(2) unfolding funding_reachable_def by blast
  then have "funding_inv (st0, None)" using funding_inv_genesis [OF assms(1)] by blast
  then show ?thesis using funding_run.run_keeps [OF run] assms(1) by blast
qed

lemma funding_reachable_step:
  assumes "funding_reachable F pm bpd s" "funding_step F pm bpd s t"
  shows "funding_reachable F pm bpd t"
proof -
  obtain tot rate accs tax minimum ttl st0 where g: "tot < 2 ^ 128"
    "funding_genesis F accs tax minimum ttl (flip_genesis tot rate) = Some st0"
    and run: "(funding_step F pm bpd)\<^sup>*\<^sup>* (st0, None) s"
    using assms(1) unfolding funding_reachable_def by blast
  have "(funding_step F pm bpd)\<^sup>*\<^sup>* (st0, None) t" using run assms(2) by (rule rtranclp.rtrancl_into_rtrancl)
  with g show ?thesis unfolding funding_reachable_def by blast
qed

section \<open>The amounts of a redemption\<close>

lemma total_balance_put [simp]: "total_balance_of k (put_balance k x fl) = x"
  by (simp add: total_balance_of_def account_total_def)

text \<open>The debit is the redeemed amount and the fee, and the account can pay both.\<close>

lemma redeem_debit:
  assumes x: "(debit, x) = redeem_amounts amount liquid fee"
    and liq: "liquid \<le> b" and fee: "fee \<le> b" and le: "x \<le> b - fee" and b: "b < 2 ^ 128"
  shows "debit \<le> b" and "0 < x \<Longrightarrow> debit = x + fee"
  using assms by (auto simp: redeem_amounts_def usat_add_exact split: redemption_amount.splits)

lemma redeem_liquid_Some:
  assumes "2 * bt_sum (\<lambda>_ x. x) m < 2 ^ 128"
  shows "\<exists>liquid. redeem_liquid k a m st =
      Some (bt_sum (\<lambda>_ x. x) m - total_balance_of k (fu_flip st), liquid)"
proof -
  let ?S = "bt_sum (\<lambda>_ x. x) m"
  have S: "?S < 2 ^ 128" and fits: "(?S - total_balance_of k (fu_flip st)) + restricted_for a m < 2 ^ 128"
    using assms restricted_for_le [of m a] by linarith+
  show ?thesis using fits by (simp add: redeem_liquid_def sum_values_eq [OF S] uadd_def Let_def)
qed

lemma redeem_liquid_le: "redeem_liquid k a m st = Some (d, liquid) \<Longrightarrow> liquid \<le> total_balance_of k (fu_flip st)"
  by (auto simp: redeem_liquid_def Let_def split: bind_splits)

section \<open>Example\<close>

definition frame_ex :: "('a::linorder, 'r::linorder) frame_lib" where
  "frame_ex = \<lparr>same_surplus = (\<lambda>r. case r of SNone \<Rightarrow> Inr surplus_zero | Same s \<Rightarrow> Inr s | Other d \<Rightarrow> Inl d),
     same_deficit = (\<lambda>r. case r of SNone \<Rightarrow> Inr deficit_zero | Same d \<Rightarrow> Inr d | Other s \<Rightarrow> Inl s),
     signed_drop_zero = (\<lambda>i st. case i of
        Positive s \<Rightarrow> (if su_amount s = 0 then (Inr (), surplus_revert s st) else (Inl (Positive s), st))
      | Negative d \<Rightarrow> (if de_amount d = 0 then (Inr (), deficit_revert d st) else (Inl (Negative d), st)))\<rparr>"

lemma frame_ex_ok: "frame_ok frame_ex"
  by (simp add: frame_ok_def frame_ex_def surplus_drop_zero_def deficit_drop_zero_def)

definition fund_env :: "nat funding_env" where
  "fund_env = \<lparr>env_redeem_enabled = True, env_can_redeem = (\<lambda>_. True), env_is_unregistered = (\<lambda>_. True),
     env_now = 0, env_reaped = (\<lambda>_. True)\<rparr>"

text \<open>
  One account with 1000 units and the executor 7; the address 42 is restricted. Then the
  account requests a redemption of 100 units to 42, and lets it expire.
\<close>

definition fund_ex :: "nat \<Rightarrow> (nat, nat) btree_map \<Rightarrow> (nat, nat pending_redemption_info) btree_map \<Rightarrow>
  nat \<Rightarrow> (nat, (nat, nat) btree_map) btree_map \<Rightarrow> (nat, nat, nat) funding_state" where
  "fund_ex balance pend pinfo issued restricted =
     \<lparr>fu_flip = \<lparr>fl_accounts = [(1, \<lparr>fa_balance = balance, fa_bond = 0\<rparr>)], fl_reserves = [],
        fl_pending_redemptions = pend, fl_total_issuance = issued, fl_slashing_rate = 0, fl_offchain_funds = 9000\<rparr>,
      fu_pending_redemptions = pinfo, fu_minimum_funding = 10, fu_redemption_ttl_seconds = 60,
      fu_bound_executor_address = [(1, 7)], fu_restricted_addresses = [(42, ())],
      fu_restricted_balances = restricted, fu_bound_redeem_address = [], fu_redemption_tax = 5\<rparr>"

definition fund_ex0 :: "(nat, nat, nat) funding_state" where
  "fund_ex0 = fund_ex 1000 [] [] 10000 []"

definition fund_ex1 :: "(nat, nat, nat) funding_state" where
  "fund_ex1 = fund_ex 895 [(1, 100)] [(1, \<lparr>pr_total = 100, pr_restricted = 0, pr_redeem_address = 42\<rparr>)] 9995 []"

definition fund_ex2 :: "(nat, nat, nat) funding_state" where
  "fund_ex2 = fund_ex 995 [] [] 9995 [(1, [(42, 0)])]"

lemmas fund_ex_defs = fund_ex_def fund_ex0_def fund_ex1_def fund_ex2_def

lemmas flip_eval = settle_def try_settle_def flip_credit_def flip_debit_def deficit_from_acct_def
  surplus_from_acct_def surplus_offset_def deficit_offset_def surplus_zero_def deficit_zero_def
  surplus_revert_def deficit_revert_def drop_surplus_offset_def flip_burn_def deficit_from_burn_def
  deficit_from_pending_redemptions_reserve_def deposit_pending_redemption_def try_debit_from_liquid_funds_def
  surplus_try_from_acct_def try_withdraw_pending_redemption_def surplus_try_from_pending_redemptions_reserve_def
  try_initiate_redemption_def revert_redemption_def try_burn_fee_def flip_defs
  uadd_def usub_def usat_add_def umax_def

lemma fund_ex_genesis:
  "\<exists>st. funding_genesis frame_ex [(1, 1000)] 5 10 60 (flip_genesis 10000 0) = Some st
    \<and> bind_executor_address (Signed 1) 7 st = Inr (fund_ex0\<lparr>fu_restricted_addresses := []\<rparr>)"
  by (simp add: funding_genesis_def flip_genesis_def add_funds_to_account_def credit_funds_def bridge_in_def
      surplus_from_offchain_def flip_eval frame_ex_def bind_executor_address_def fund_ex_defs Let_def)

lemma fund_ex_runs:
  "update_restricted_addresses Governance [42] [] (fund_ex0\<lparr>fu_restricted_addresses := []\<rparr>) = Inr fund_ex0"
  "redeem frame_ex fund_env (Signed 1) (ExactAmount 100) 42 (Some 7) fund_ex0 =
     Some (Inr (Some \<lparr>rc_account = 1, rc_amount = 100, rc_address = 42, rc_expiry = 60, rc_executor = Some 7\<rparr>, fund_ex1))"
  "redemption_expired frame_ex Witnessed 1 fund_ex1 = Some (Inr fund_ex2)"
  by (simp_all add: update_restricted_addresses_def redeem_def redeem_guards_def redeem_liquid_def redeem_amounts_def
      redeem_restrictions_def redeem_send_def redemption_expired_def restricted_balances_of_def sum_values_def
      add_restricted_def bt_remove_def fund_ex_defs flip_eval frame_ex_def fund_env_def Let_def)

lemma funding_reachable_genesis:
  "tot < 2 ^ 128 \<Longrightarrow> funding_genesis F accs tax minimum ttl (flip_genesis tot rate) = Some st \<Longrightarrow>
   funding_reachable F pm bpd (st, None)"
  unfolding funding_reachable_def by blast

lemma fund_ex_reachable:
  "funding_reachable frame_ex (\<lambda>_ _. 0) 1 (fund_ex0, None)"
  "funding_reachable frame_ex (\<lambda>_ _. 0) 1 (fund_ex1, None)"
proof -
  obtain st where g: "funding_genesis frame_ex [(1, 1000)] 5 10 60 (flip_genesis 10000 0) = Some st"
    and b: "bind_executor_address (Signed 1) 7 st = Inr (fund_ex0\<lparr>fu_restricted_addresses := []\<rparr>)"
    using fund_ex_genesis by blast
  have "funding_reachable frame_ex (\<lambda>_ _. 0) 1 (st, None)"
    by (rule funding_reachable_genesis [OF _ g]) simp
  from funding_reachable_step [OF funding_reachable_step [OF this fs_executor [OF b]] fs_restricted [OF fund_ex_runs(1)]]
  show r: "funding_reachable frame_ex (\<lambda>_ _. 0) 1 (fund_ex0, None)" .
  show "funding_reachable frame_ex (\<lambda>_ _. 0) 1 (fund_ex1, None)"
    by (rule funding_reachable_step [OF r fs_redeem [OF fund_ex_runs(2)]])
qed

section \<open>Properties\<close>

text \<open>
  C5. The FLIP token is conserved: in every state that the calls of the FLIP and the
  funding pallet reach from genesis, the total issuance is the sum of what is off-chain, in
  accounts, in reserves and in pending redemptions and of the fee held back for the running
  transaction; so the on-chain funds can be computed without an underflow.
\<close>

theorem flip_token_conserved:
  assumes "frame_ok F" "funding_reachable F pm bpd (st, e)" "fl = fu_flip st"
  shows "fl_total_issuance fl = fl_offchain_funds fl + bt_sum (\<lambda>_ a. fa_balance a) (fl_accounts fl)
      + bt_sum (\<lambda>_ x. x) (fl_reserves fl) + bt_sum (\<lambda>_ x. x) (fl_pending_redemptions fl)
      + (case e of None \<Rightarrow> 0 | Some s \<Rightarrow> su_amount s)
    \<and> onchain_funds fl = Some (fl_total_issuance fl - fl_offchain_funds fl)"
proof -
  have "conserved (escrow_amount e) fl" using funding_invD(2) funding_reachable_inv [OF assms(1,2)] assms(3) by blast
  then show ?thesis by (auto simp: conserved_def holdings_defs onchain_funds_def)
qed

theorem flip_token_conserved_witness:
  "fl_total_issuance (fu_flip fund_ex1) = fl_offchain_funds (fu_flip fund_ex1)
      + bt_sum (\<lambda>_ a. fa_balance a) (fl_accounts (fu_flip fund_ex1)) + bt_sum (\<lambda>_ x. x) (fl_reserves (fu_flip fund_ex1))
      + bt_sum (\<lambda>_ x. x) (fl_pending_redemptions (fu_flip fund_ex1))"
  using flip_token_conserved [OF frame_ex_ok fund_ex_reachable(2) refl] by simp

text \<open>
  C33. The pending redemptions of the funding pallet are those of the FLIP pallet, with the
  same amounts, so the witness of an executed redemption never panics: it succeeds exactly
  where a redemption is pending. The redemption tax stays below the minimum funding.
\<close>

theorem funding_redemptions_agree:
  assumes "frame_ok F" "funding_reachable F pm bpd (st, e)"
  shows "bt_get (fl_pending_redemptions (fu_flip st)) k = map_option pr_total (bt_get (fu_pending_redemptions st) k)
    \<and> (if bt_get (fu_pending_redemptions st) k = None
       then redeemed F env Witnessed k st = Some (Inl NoPendingRedemption)
       else \<exists>st'. redeemed F env Witnessed k st = Some (Inr st'))
    \<and> fu_redemption_tax st < fu_minimum_funding st"
proof -
  have inv: "funding_inv (st, e)" by (rule funding_reachable_inv [OF assms])
  have "if bt_get (fu_pending_redemptions st) k = None
       then redeemed F env Witnessed k st = Some (Inl NoPendingRedemption)
       else \<exists>st'. redeemed F env Witnessed k st = Some (Inr st')"
  proof (cases "bt_get (fu_pending_redemptions st) k")
    case (Some i)
    show ?thesis by (rule redeemed_Some [OF assms(1) inv Some, of env]) (simp add: Some)
  qed (simp add: redeemed_def)
  then show ?thesis using funding_invD(3,5) [OF inv] by (simp add: pendings_agree_def)
qed

theorem funding_redemptions_agree_witness:
  "bt_get (fl_pending_redemptions (fu_flip fund_ex1)) 1 = Some 100
    \<and> (\<exists>st'. redeemed frame_ex fund_env Witnessed 1 fund_ex1 = Some (Inr st'))"
  using funding_redemptions_agree [OF frame_ex_ok fund_ex_reachable(2), of 1 fund_env]
  by (simp add: fund_ex_defs)

text \<open>
  C6. A redemption request that is sent takes exactly the amount and the tax from the
  account, burns the tax, leaves at least the bond and either nothing or the minimum funding,
  and records the amount as pending where nothing was pending before. Other accounts are
  not touched.
\<close>

theorem redeem_exact:
  assumes F: "frame_ok F" and r: "funding_reachable F pm bpd (st, e)"
    and run: "redeem F env (Signed k) amount address executor st = Some (Inr (Some call, st'))"
    and "fl = fu_flip st" "fl' = fu_flip st'" "fee = fu_redemption_tax st" "x = rc_amount call"
  shows "0 < x \<and> total_balance_of k fl = total_balance_of k fl' + x + fee
    \<and> bond_of k fl' = bond_of k fl \<and> bond_of k fl \<le> total_balance_of k fl'
    \<and> (total_balance_of k fl' = 0 \<or> fu_minimum_funding st \<le> total_balance_of k fl')
    \<and> fl_total_issuance fl = fl_total_issuance fl' + fee
    \<and> bt_get (fl_pending_redemptions fl) k = None \<and> bt_get (fl_pending_redemptions fl') k = Some x
    \<and> (\<forall>k'. k' \<noteq> k \<longrightarrow> get_account k' fl' = get_account k' fl)"
proof -
  have inv: "funding_inv (st, e)" by (rule funding_reachable_inv [OF F r])
  note i = funding_invD [OF inv]
  let ?M = "restricted_balances_of k st" and ?b = "fa_balance (get_account k fl)"
  obtain x0 fl0 R where g: "redeem_guards env k address executor ?M st = None"
    and fee: "fu_redemption_tax st \<le> liquid_funds k (fu_flip st)"
    and fl0: "fl0 = put_balance k (?b - fee) (fl\<lparr>fl_total_issuance := fl_total_issuance fl - fee\<rparr>)"
    and c0: "conserved (escrow_amount e) fl0"
    and rem: "total_balance_of k fl0 - x0 = 0 \<or> fu_minimum_funding st \<le> total_balance_of k fl0 - x0"
    and send: "redeem_send F env k x0 (restricted_for address ?M) address executor
      (st\<lparr>fu_flip := fl0, fu_restricted_balances := R\<rparr>) = Some (Inr (Some call, st'))"
    unfolding assms(4,6) by (rule redeem_Some [OF i(2) run]) blast
  let ?st = "st\<lparr>fu_flip := fl0, fu_restricted_balances := R\<rparr>"
  have "bt_get (fu_pending_redemptions st) k = None"
    using g by (auto simp: redeem_guards_def split: if_splits)
  then have none: "bt_get (fl_pending_redemptions fl) k = None"
    using i(3) assms(4) by (simp add: pendings_agree_def)
  then have new: "bt_get (fl_pending_redemptions (fu_flip ?st)) k = None" by (simp add: fl0)
  have pos: "0 < x0" using send by (auto simp: redeem_send_def split: if_splits)
  have c1: "conserved (escrow_amount e) (fu_flip ?st)" using c0 by simp
  obtain expiry where le: "x0 \<le> liquid_funds k fl0"
    and fl': "fu_flip st' = put_balance k (?b - fee - x0)
      (fl0\<lparr>fl_pending_redemptions := bt_insert k x0 (fl_pending_redemptions fl0)\<rparr>)"
    and call: "call = \<lparr>rc_account = k, rc_amount = x0, rc_address = address, rc_expiry = expiry, rc_executor = executor\<rparr>"
    by (rule redeem_send_Some [OF F c1 new pos send]) (auto simp: fl0)
  have fee': "fee \<le> ?b" using fee assms(4,6) by (simp add: liquid_funds_def account_liquid_def)
  have le': "x0 \<le> ?b - fee - fa_bond (get_account k fl)"
    using le by (simp add: fl0 liquid_funds_def account_liquid_def)
  have issue: "?b \<le> fl_total_issuance fl" using balance_le_issuance [OF i(2), of k] assms(4) by simp
  have others: "get_account k' fl' = get_account k' fl" if "k' \<noteq> k" for k'
    using that by (simp add: assms(5) fl' fl0)
  have "total_balance_of k fl' = ?b - fee - x0" "bond_of k fl' = bond_of k fl"
    "bond_of k fl = fa_bond (get_account k fl)" "total_balance_of k fl = ?b"
    by (simp_all add: assms(5) fl' fl0 bond_of_def account_bond_def total_balance_of_def account_total_def)
  moreover have "fl_total_issuance fl' = fl_total_issuance fl - fee"
    "bt_get (fl_pending_redemptions fl') k = Some x0"
    by (simp_all add: assms(5) fl' fl0 bt_get_insert)
  moreover have "total_balance_of k fl0 = ?b - fee" by (simp add: fl0)
  ultimately show ?thesis
    using pos fee' le' issue none others rem call assms(7) by auto
qed

theorem redeem_exact_witness:
  "0 < (100::nat) \<and> total_balance_of 1 (fu_flip fund_ex0) = total_balance_of 1 (fu_flip fund_ex1) + 100 + 5
    \<and> bond_of 1 (fu_flip fund_ex1) = bond_of 1 (fu_flip fund_ex0)
    \<and> bond_of 1 (fu_flip fund_ex0) \<le> total_balance_of 1 (fu_flip fund_ex1)
    \<and> fl_total_issuance (fu_flip fund_ex0) = fl_total_issuance (fu_flip fund_ex1) + 5"
  using redeem_exact [OF frame_ex_ok fund_ex_reachable(1) fund_ex_runs(2) refl refl refl refl]
  by (simp add: fund_ex0_def fund_ex_def)


text \<open>
  C34. \<open>redeem\<close> does not panic, for any origin, amount, address and executor: none of its
  additions of restricted funds and none of its subtractions leaves the range of \<open>u128\<close>
  when the restricted funds of every account add up to less than half of it and the expiry
  fits the clock.
\<close>

theorem redeem_never_panics:
  assumes F: "frame_ok F" and r: "funding_reachable F pm bpd (st, e)"
    and S: "\<And>k. 2 * bt_sum (\<lambda>_ x. x) (restricted_balances_of k st) < 2 ^ 128"
    and t: "env_now env + fu_redemption_ttl_seconds st < 2 ^ 64"
  shows "redeem F env org amount address executor st \<noteq> None"
proof (cases org)
  case (Signed k)
  have inv: "funding_inv (st, e)" by (rule funding_reachable_inv [OF F r])
  note i = funding_invD [OF inv]
  let ?M = "restricted_balances_of k st" and ?S = "bt_sum (\<lambda>_ x. x) (restricted_balances_of k st)"
  let ?b = "fa_balance (get_account k (fu_flip st))" and ?fee = "fu_redemption_tax st"
  have wf: "bt_wf ?M" using i(4) by (simp add: restrictions_wf_def)
  have bal: "total_balance_of k (fu_flip st) = ?b" by (simp add: total_balance_of_def account_total_def)
  obtain liquid where l: "redeem_liquid k address ?M st = Some (?S - ?b, liquid)"
    using redeem_liquid_Some [OF S [of k], of k address st] bal by auto
  obtain debit x where am: "redeem_amounts amount liquid ?fee = (debit, x)" by fastforce
  have send: "redeem_send F env k x tr address executor s \<noteq> None"
    if "fu_redemption_ttl_seconds s = fu_redemption_ttl_seconds st" for tr s
    using t that by (auto simp: redeem_send_def uadd_def split: sum.splits prod.splits)
  show ?thesis
  proof (cases "try_burn_fee k ?fee (fu_flip st)")
    case (Pair res fl)
    have mustremain: "\<exists>u. sum_values (redeem_restrictions address debit ?M) = Some u \<and> ?S - ?b \<le> u"
      if ok: "res = Inr ()" and x: "x \<le> total_balance_of k fl"
    proof -
      have fee: "?fee \<le> ?b" and tb: "total_balance_of k fl = ?b - ?fee"
        using try_burn_fee_effect [OF i(2), of k ?fee] Pair ok
        by (auto simp: liquid_funds_def account_liquid_def split: if_splits)
      have b: "?b < 2 ^ 128" using balance_le_issuance [OF i(2), of k] conservedD(2) [OF i(2)] by linarith
      have "liquid \<le> ?b" using redeem_liquid_le [OF l] bal by simp
      then have "debit \<le> ?b" using redeem_debit(1) [OF am [symmetric] _ fee _ b] x tb by simp
      moreover note redeem_restrictions_sum(1) [OF wf, of address debit]
      moreover have "bt_sum (\<lambda>_ x. x) (redeem_restrictions address debit ?M) < 2 ^ 128"
        using redeem_restrictions_sum(1) [OF wf, of address debit] S [of k] by linarith
      ultimately show ?thesis using sum_values_eq by (intro exI conjI) (assumption | linarith)+
    qed
    show ?thesis using mustremain send
      by (auto simp: redeem_def Signed l am Pair Let_def usub_def split: option.splits sum.splits)
  qed
qed (simp_all add: redeem_def)

theorem redeem_never_panics_witness:
  "redeem frame_ex fund_env (Signed 1) (ExactAmount 100) 42 None fund_ex0 \<noteq> None"
  by (rule redeem_never_panics [OF frame_ex_ok fund_ex_reachable(1)])
     (simp_all add: fund_ex_defs fund_env_def restricted_balances_of_def)

text \<open>
  C39. A redemption to a restricted address from an account that holds no funds restricted to
  it, when it expires, leaves a restricted balance of zero for that address. From then on
  neither the bound executor nor the bound redeem address of the account is checked for a
  redemption to it.
\<close>

theorem expired_redemption_lifts_bindings:
  assumes F: "frame_ok F" and r: "funding_reachable F pm bpd (st, e)"
    and none: "bt_get (restricted_balances_of k st) address = None"
    and res: "bt_get (fu_restricted_addresses st) address \<noteq> None"
    and run: "redeem F env (Signed k) amount address executor st = Some (Inr (Some call, st1))"
    and ex: "redemption_expired F Witnessed k st1 = Some (Inr st2)"
  shows "bt_get (restricted_balances_of k st2) address = Some 0 \<and>
    redeem_guards env' k address executor' (restricted_balances_of k st2) st2 \<notin>
      {Some ExecutorBindingRestrictionViolated, Some AccountBindingRestrictionViolated}"
proof -
  have inv: "funding_inv (st, e)" by (rule funding_reachable_inv [OF F r])
  note i = funding_invD [OF inv]
  let ?M = "restricted_balances_of k st"
  obtain x0 fl0 where g: "redeem_guards env k address executor ?M st = None"
    and c0: "conserved (escrow_amount e) fl0"
    and p0: "fl_pending_redemptions fl0 = fl_pending_redemptions (fu_flip st)"
    and send: "redeem_send F env k x0 0 address executor (st\<lparr>fu_flip := fl0\<rparr>) = Some (Inr (Some call, st1))"
    by (rule redeem_Some [OF i(2) run]) (simp add: none)
  have "bt_get (fu_pending_redemptions st) k = None"
    using g by (auto simp: redeem_guards_def split: if_splits)
  then have new: "bt_get (fl_pending_redemptions (fu_flip (st\<lparr>fu_flip := fl0\<rparr>))) k = None"
    using i(3) p0 by (simp add: pendings_agree_def)
  have pos: "0 < x0" using send by (auto simp: redeem_send_def split: if_splits)
  have c1: "conserved (escrow_amount e) (fu_flip (st\<lparr>fu_flip := fl0\<rparr>))" using c0 by simp
  obtain fl1 where st1: "st1 = st\<lparr>fu_flip := fl1, fu_pending_redemptions := bt_insert k
      \<lparr>pr_total = x0, pr_restricted = 0, pr_redeem_address = address\<rparr> (fu_pending_redemptions st)\<rparr>"
    by (rule redeem_send_Some [OF F c1 new pos send]) simp
  have inv1: "funding_inv (st1, e)" by (rule inv_redeem [OF F inv run])
  let ?i = "\<lparr>pr_total = x0, pr_restricted = 0, pr_redeem_address = address\<rparr>"
  have get1: "bt_get (fu_pending_redemptions st1) k = Some ?i"
    by (simp add: st1 bt_get_insert)
  have M1: "restricted_balances_of k st1 = ?M" "fu_restricted_addresses st1 = fu_restricted_addresses st"
    by (simp_all add: st1 restricted_balances_of_def)
  have "add_restricted address 0 ?M = Some (bt_insert address 0 ?M)" using none by (simp add: add_restricted_def)
  moreover obtain s where "redemption_expired F Witnessed k st1 =
      (if bt_get (fu_restricted_addresses st1) (pr_redeem_address ?i) = None then Some (Inr s)
       else do { m \<leftarrow> add_restricted (pr_redeem_address ?i) (pr_restricted ?i) (restricted_balances_of k st1);
                 Some (Inr (s\<lparr>fu_restricted_balances := bt_insert k m (fu_restricted_balances st1)\<rparr>)) })"
    by (rule expired_Some [OF F inv1 get1]) blast
  ultimately have "st2 = s\<lparr>fu_restricted_balances := bt_insert k (bt_insert address 0 ?M) (fu_restricted_balances st1)\<rparr>"
    using ex M1 res by simp
  then have M2: "restricted_balances_of k st2 = bt_insert address 0 ?M"
    by (simp add: restricted_of_insert)
  then have zero: "bt_get (restricted_balances_of k st2) address = Some 0" by (simp add: bt_get_insert)
  then show ?thesis by (auto simp: redeem_guards_def split: option.splits)
qed

theorem expired_redemption_lifts_bindings_witness:
  "bt_get (restricted_balances_of 1 fund_ex2) 42 = Some 0
    \<and> redeem_guards fund_env 1 42 None (restricted_balances_of 1 fund_ex2) fund_ex2 \<noteq> Some ExecutorBindingRestrictionViolated
    \<and> redeem_guards fund_env 1 42 None (restricted_balances_of 1 fund_ex0) fund_ex0 = Some ExecutorBindingRestrictionViolated"
proof -
  have "bt_get (restricted_balances_of 1 fund_ex0) 42 = None" "bt_get (fu_restricted_addresses fund_ex0) 42 \<noteq> None"
    by (simp_all add: fund_ex_defs restricted_balances_of_def)
  from expired_redemption_lifts_bindings [OF frame_ex_ok fund_ex_reachable(1) this fund_ex_runs(2,3), of fund_env None]
  show ?thesis by (simp add: redeem_guards_def fund_env_def fund_ex_defs restricted_balances_of_def)
qed

text \<open>
  C35. A slash happens exactly where the amount is positive and the account would keep more
  than a fifth of its bond. Then exactly the amount is taken from the account and burned;
  the bond and the other accounts stay as they are. Otherwise nothing changes.
\<close>

theorem slash_exact_or_nothing:
  assumes "frame_ok F" "funding_reachable F pm bpd (st, e)" "fl = fu_flip st"
    "fl' = slash_balance F k x fl"
  shows "if 0 < x \<and> bond_of k fl div 5 < total_balance_of k fl - x
    then total_balance_of k fl = total_balance_of k fl' + x \<and> bond_of k fl' = bond_of k fl
      \<and> fl_total_issuance fl = fl_total_issuance fl' + x
      \<and> (\<forall>k'. k' \<noteq> k \<longrightarrow> get_account k' fl' = get_account k' fl)
    else fl' = fl"
proof -
  have c: "conserved (escrow_amount e) fl" using funding_invD(2) funding_reachable_inv [OF assms(1,2)] assms(3) by blast
  let ?a = "get_account k fl"
  have eq: "fl' = (if x \<noteq> 0 \<and> fa_balance ?a - x > fa_bond ?a div 5
     then put_balance k (fa_balance ?a - x) (fl\<lparr>fl_total_issuance := fl_total_issuance fl - x\<rparr>) else fl)"
    using attempt_slash_effect(1) [OF assms(1) c refl, of k x] assms(4) by (simp add: slash_balance_def)
  have "x \<le> fl_total_issuance fl" if "fa_balance ?a - x > fa_bond ?a div 5"
    using that balance_le_issuance [OF c, of k] by linarith
  then show ?thesis
    by (auto simp: eq total_balance_of_def bond_of_def account_total_def account_bond_def)
qed

theorem slash_exact_or_nothing_witness:
  "total_balance_of 1 (fu_flip fund_ex0) = total_balance_of 1 (slash_balance frame_ex 1 10 (fu_flip fund_ex0)) + 10
    \<and> fl_total_issuance (fu_flip fund_ex0) = fl_total_issuance (slash_balance frame_ex 1 10 (fu_flip fund_ex0)) + 10
    \<and> slash_balance frame_ex 1 1000 (fu_flip fund_ex0) = fu_flip fund_ex0"
proof -
  have "bond_of 1 (fu_flip fund_ex0) = 0" "total_balance_of 1 (fu_flip fund_ex0) = 1000"
    by (simp_all add: fund_ex_defs flip_defs)
  then show ?thesis
    using slash_exact_or_nothing [OF frame_ex_ok fund_ex_reachable(1) refl refl, where k = 1 and x = 10]
      slash_exact_or_nothing [OF frame_ex_ok fund_ex_reachable(1) refl refl, where k = 1 and x = 1000] by simp
qed

text \<open>
  C36. A transaction fee that is withdrawn before a transaction and corrected after it is
  charged once: the account pays the corrected fee but not more than was withdrawn, exactly
  that is burned, and nothing is left in escrow. If the account is gone, all that was
  withdrawn is burned.
\<close>

theorem transaction_fee_exact:
  assumes "frame_ok F" "funding_reachable F pm bpd (st, None)" "fl = fu_flip st"
    and run: "withdraw_fee False k fee fl = (Inr (Some escrow), fl1)"
    and "y = min fee (if exst then corrected else fee)"
    and "fl2 = correct_and_deposit_fee exst corrected (Some escrow) fl1"
  shows "total_balance_of k fl = total_balance_of k fl2 + y \<and> fl_total_issuance fl = fl_total_issuance fl2 + y
    \<and> holdings fl2 = fl_total_issuance fl2"
proof -
  have c: "conserved 0 fl" using funding_invD(2) [OF funding_reachable_inv [OF assms(1,2)]] assms(3) by simp
  have w: "conserved (su_amount escrow) fl1" "su_amount escrow = fee" "su_source escrow = SInternal (SAccount k)"
    "fl1 = put_balance k (fa_balance (get_account k fl) - fee) fl" "fee \<le> fa_balance (get_account k fl)"
    using withdraw_fee_effect [OF c run] by auto
  note eff = correct_fee_effect [OF w(1,3), of exst corrected]
  have le: "fee \<le> fl_total_issuance fl" using w(5) balance_le_issuance [OF c, of k] by linarith
  have y: "y \<le> fee" using assms(5) by simp
  have "fl2 = (if y < fee then put_balance k (fa_balance (get_account k fl1) + (fee - y))
        (fl1\<lparr>fl_total_issuance := fl_total_issuance fl1 - y\<rparr>)
      else fl1\<lparr>fl_total_issuance := fl_total_issuance fl1 - y\<rparr>)"
    using eff(1) assms(5,6) w(2) by simp
  then have "total_balance_of k fl = total_balance_of k fl2 + y \<and> fl_total_issuance fl = fl_total_issuance fl2 + y"
    using y le w(4,5) by (auto simp: total_balance_of_def account_total_def)
  moreover have "holdings fl2 = fl_total_issuance fl2" using conservedD(3) [OF eff(2)] assms(6) by simp
  ultimately show ?thesis by simp
qed

theorem transaction_fee_exact_witness:
  "\<exists>escrow fl1. withdraw_fee False 1 20 (fu_flip fund_ex0) = (Inr (Some escrow), fl1)
    \<and> total_balance_of 1 (fu_flip fund_ex0)
        = total_balance_of 1 (correct_and_deposit_fee True 12 (Some escrow) fl1) + 12"
proof -
  obtain escrow fl1 where run: "withdraw_fee False 1 20 (fu_flip fund_ex0) = (Inr (Some escrow), fl1)"
    by (simp add: withdraw_fee_def try_debit_def surplus_try_from_acct_def fund_ex_defs)
  from transaction_fee_exact [OF frame_ex_ok fund_ex_reachable(1) refl this refl refl, of True 12] run
  show ?thesis by auto
qed

text \<open>
  C37. Every amount the FLIP pallet stores keeps the type it has in the code: in every
  reachable state the issuance, the funds off-chain, every balance, every reserve and every
  pending redemption fit \<open>u128\<close>, and so does the sum of any of the last four with the fee
  in escrow, so a reverted fee never saturates what it is added to.
\<close>

theorem flip_amounts_fit_u128:
  assumes "frame_ok F" "funding_reachable F pm bpd (st, e)" "fl = fu_flip st" "x = (case e of None \<Rightarrow> 0 | Some s \<Rightarrow> su_amount s)"
  shows "fl_total_issuance fl < 2 ^ 128 \<and> fl_offchain_funds fl + x < 2 ^ 128
    \<and> (\<forall>k. total_balance_of k fl + x < 2 ^ 128) \<and> (\<forall>r. reserved_balance r fl + x < 2 ^ 128)
    \<and> (\<forall>k y. bt_get (fl_pending_redemptions fl) k = Some y \<longrightarrow> y + x < 2 ^ 128)"
proof -
  have "x = escrow_amount e" using assms(4) by (cases e) simp_all
  then have c: "conserved x fl" using funding_invD(2) funding_reachable_inv [OF assms(1,2)] assms(3) by blast
  note i = conservedD(2) [OF c] and h = conservedD(3) [OF c]
  have le: "y + x < 2 ^ 128" if "y \<le> holdings fl" for y using that i h by linarith
  have "fl_offchain_funds fl \<le> holdings fl" by (simp add: holdings_def)
  moreover have "total_balance_of k fl \<le> holdings fl" for k
    using balance_le_holdings [of k fl] by (simp add: total_balance_of_def account_total_def)
  moreover have "reserved_balance r fl \<le> holdings fl" for r
  proof (cases "bt_get (fl_reserves fl) r")
    case (Some y)
    then show ?thesis using bt_sum_get_le [OF Some, of "\<lambda>_ x. x"] by (simp add: reserved_balance_def holdings_defs)
  qed (simp add: reserved_balance_def)
  moreover have "y \<le> holdings fl" if "bt_get (fl_pending_redemptions fl) k = Some y" for k y
    using bt_sum_get_le [OF that, of "\<lambda>_ x. x"] by (simp add: holdings_defs)
  ultimately show ?thesis using i by (intro conjI allI impI le) blast+
qed

theorem flip_amounts_fit_u128_witness:
  "fl_total_issuance (fu_flip fund_ex1) < 2 ^ 128 \<and> (\<forall>k. total_balance_of k (fu_flip fund_ex1) < 2 ^ 128)"
  using flip_amounts_fit_u128 [OF frame_ex_ok fund_ex_reachable(2) refl refl] by simp

end
