(* ===== verification/Bitcoin_Utxo.thy ===== *)
theory Bitcoin_Utxo
  imports CF_Prelude
begin

text \<open>
  The Bitcoin vault: fees (\<open>src/state-chain/chains/src/btc.rs\<close>), the selection of the
  outputs to spend (\<open>chains/src/btc/utxo_selection.rs\<close>), the list of unspent outputs that
  the environment pallet keeps (\<open>pallets/cf-environment/src/lib.rs\<close>) and the two calls that
  are built from a selection (\<open>chains/src/btc/api.rs\<close>).

  Amounts are \<open>u64\<close>. Hashes, keys, tapscript paths and scripts are type parameters: the
  code modelled here only compares keys and asks whether there is a script path. What
  \<open>DepositAddress::new\<close> and \<open>script_pubkey\<close> derive from a key is cryptography and a
  parameter. A value of type \<open>option\<close> is \<open>None\<close> where the code panics.
\<close>

named_theorems btc_defs \<open>definitions of the Bitcoin fees\<close>

section \<open>Outputs and fees\<close>

definition CHANGE_ADDRESS_SALT :: nat where "CHANGE_ADDRESS_SALT = 0"

definition BITCOIN_DUST_LIMIT :: nat where "BITCOIN_DUST_LIMIT = 600"

definition BYTES_PER_BTC_KILOBYTE :: nat where [btc_defs]: "BYTES_PER_BTC_KILOBYTE = 1000"

definition DEFAULT_FEE_SATS_PER_KILOBYTE :: nat where "DEFAULT_FEE_SATS_PER_KILOBYTE = 100000"

definition INPUT_UTXO_SIZE_IN_BYTES :: nat where [btc_defs]: "INPUT_UTXO_SIZE_IN_BYTES = 78"

definition VAULT_UTXO_SIZE_IN_BYTES :: nat where [btc_defs]: "VAULT_UTXO_SIZE_IN_BYTES = 58"

definition OUTPUT_UTXO_SIZE_IN_BYTES :: nat where [btc_defs]: "OUTPUT_UTXO_SIZE_IN_BYTES = 51"

definition MINIMUM_BTC_TX_SIZE_IN_BYTES :: nat where [btc_defs]: "MINIMUM_BTC_TX_SIZE_IN_BYTES = 16"

record 'k agg_key =
  ak_previous :: "'k option"
  ak_current :: 'k

record ('k, 'p) deposit_address =
  da_pubkey_x :: 'k
  da_script_path :: "'p option"

record 'h utxo_id =
  ui_tx_id :: 'h
  ui_vout :: nat

record ('h, 'k, 'p) utxo =
  ux_id :: "'h utxo_id"
  ux_amount :: nat
  ux_deposit_address :: "('k, 'p) deposit_address"

record bitcoin_fee_info =
  fi_sats_per_kilobyte :: nat

definition deposit_address_new :: "('k \<Rightarrow> nat \<Rightarrow> 'p) \<Rightarrow> 'k \<Rightarrow> nat \<Rightarrow> ('k, 'p) deposit_address" where
  "deposit_address_new tapscript_path pubkey_x salt =
     (if salt = CHANGE_ADDRESS_SALT then \<lparr>da_pubkey_x = pubkey_x, da_script_path = None\<rparr>
      else \<lparr>da_pubkey_x = pubkey_x, da_script_path = Some (tapscript_path pubkey_x salt)\<rparr>)"

definition fee_info_default :: bitcoin_fee_info where
  "fee_info_default = \<lparr>fi_sats_per_kilobyte = DEFAULT_FEE_SATS_PER_KILOBYTE\<rparr>"

definition fee_info_new :: "nat \<Rightarrow> bitcoin_fee_info" where
  "fee_info_new sats_per_kilobyte =
     \<lparr>fi_sats_per_kilobyte = max sats_per_kilobyte BYTES_PER_BTC_KILOBYTE\<rparr>"

definition fee_per_input_utxo :: "bitcoin_fee_info \<Rightarrow> nat" where
  [btc_defs]: "fee_per_input_utxo fi =
     usat_mul 64 (fi_sats_per_kilobyte fi) INPUT_UTXO_SIZE_IN_BYTES div BYTES_PER_BTC_KILOBYTE"

definition fee_per_vault_utxo :: "bitcoin_fee_info \<Rightarrow> nat" where
  [btc_defs]: "fee_per_vault_utxo fi =
     usat_mul 64 (fi_sats_per_kilobyte fi) VAULT_UTXO_SIZE_IN_BYTES div BYTES_PER_BTC_KILOBYTE"

definition fee_per_output_utxo :: "bitcoin_fee_info \<Rightarrow> nat" where
  [btc_defs]: "fee_per_output_utxo fi =
     usat_mul 64 (fi_sats_per_kilobyte fi) OUTPUT_UTXO_SIZE_IN_BYTES div BYTES_PER_BTC_KILOBYTE"

definition min_fee_required_per_tx :: "bitcoin_fee_info \<Rightarrow> nat" where
  [btc_defs]: "min_fee_required_per_tx fi =
     usat_mul 64 (fi_sats_per_kilobyte fi) MINIMUM_BTC_TX_SIZE_IN_BYTES div BYTES_PER_BTC_KILOBYTE"

definition fee_for_utxo :: "bitcoin_fee_info \<Rightarrow> ('h, 'k, 'p) utxo \<Rightarrow> nat" where
  "fee_for_utxo fi utxo =
     (if da_script_path (ux_deposit_address utxo) = None then fee_per_vault_utxo fi
      else fee_per_input_utxo fi)"

definition net_value :: "bitcoin_fee_info \<Rightarrow> ('h, 'k, 'p) utxo \<Rightarrow> nat" where
  "net_value fi utxo = ux_amount utxo - fee_for_utxo fi utxo"

definition estimate_ingress_fee :: "bitcoin_fee_info \<Rightarrow> nat" where
  "estimate_ingress_fee fi = fee_per_input_utxo fi"

definition estimate_egress_fee :: "bitcoin_fee_info \<Rightarrow> nat" where
  "estimate_egress_fee fi =
     usat_add 64 (usat_add 64 (usat_add 64 (min_fee_required_per_tx fi) (fee_per_vault_utxo fi))
       (fee_per_output_utxo fi)) (fee_per_output_utxo fi)"

section \<open>Selection\<close>

datatype utxo_selection_error = NoUtxoAvailableAfterFeeReduction | InsufficientFundsInAvailableUtxos

record consolidation_parameters =
  cp_threshold :: nat
  cp_size :: nat

definition are_valid :: "consolidation_parameters \<Rightarrow> bool" where
  "are_valid cp \<longleftrightarrow> cp_size cp \<le> cp_threshold cp \<and> 1 < cp_size cp"

text \<open>\<open>iter().position\<close> and an index into a vector.\<close>

fun position_of :: "('x \<Rightarrow> bool) \<Rightarrow> 'x list \<Rightarrow> nat option" where
  "position_of P [] = None"
| "position_of P (x # xs) = (if P x then Some 0 else map_option Suc (position_of P xs))"

definition index_vec :: "'x list \<Rightarrow> nat \<Rightarrow> 'x option" where
  "index_vec xs i = (if i < length xs then Some (xs ! i) else None)"

text \<open>
  The loop of \<open>select_utxos_from_pool\<close>: a window of outputs from \<open>first\<close> to \<open>last\<close> moves up
  the list until it holds enough.
\<close>

function select_window ::
  "('x \<Rightarrow> nat) \<Rightarrow> nat \<Rightarrow> nat \<Rightarrow> 'x list \<Rightarrow> nat \<Rightarrow> nat \<Rightarrow> nat \<Rightarrow> (nat \<times> nat \<times> nat) option" where
  "select_window value_of selection_limit amount_to_be_spent utxos first lst cumulative_amount =
     (if lst < length utxos then
        do { added \<leftarrow> index_vec utxos lst;
             cumulative_amount \<leftarrow> uadd 64 cumulative_amount (value_of added);
             selected \<leftarrow> usub lst first;
             (cumulative_amount, first) \<leftarrow>
               (if selection_limit \<le> selected
                then do { removed \<leftarrow> index_vec utxos first;
                          cumulative_amount \<leftarrow> usub cumulative_amount (value_of removed);
                          Some (cumulative_amount, first + 1) }
                else Some (cumulative_amount, first));
             (if amount_to_be_spent \<le> cumulative_amount then Some (first, lst, cumulative_amount)
              else select_window value_of selection_limit amount_to_be_spent utxos first (lst + 1)
                     cumulative_amount) }
      else Some (first, lst, cumulative_amount))"
  by pat_completeness auto
termination
  by (relation "measure (\<lambda>(_, _, _, utxos, _, lst, _). length utxos - lst)") auto

declare select_window.simps [simp del]

text \<open>\<open>splice(first..=last, [])\<close> returns the range and leaves the rest.\<close>

definition splice_range :: "nat \<Rightarrow> nat \<Rightarrow> 'x list \<Rightarrow> ('x list \<times> 'x list) option" where
  "splice_range first lst xs =
     (if first \<le> lst + 1 \<and> lst + 1 \<le> length xs
      then Some (take (lst + 1 - first) (drop first xs), take first xs @ drop (lst + 1) xs)
      else None)"

text \<open>
  One more output is added where the limit and the list allow it. The list is returned with
  the result: it is changed in place, also in the case of an error.
\<close>

definition select_utxos_from_pool ::
  "('h, 'k, 'p) utxo list \<Rightarrow> bitcoin_fee_info \<Rightarrow> nat \<Rightarrow> nat option \<Rightarrow>
   ((utxo_selection_error + ('h, 'k, 'p) utxo list \<times> nat) \<times> ('h, 'k, 'p) utxo list) option" where
  "select_utxos_from_pool available_utxos fi amount_to_be_spent maybe_limit =
     (let selection_limit = (case maybe_limit of Some limit \<Rightarrow> limit | None \<Rightarrow> length available_utxos);
          utxos = sort_key (net_value fi) available_utxos
      in case position_of (\<lambda>utxo. 0 < net_value fi utxo) utxos of
           None \<Rightarrow> Some (Inl NoUtxoAvailableAfterFeeReduction, utxos)
         | Some start \<Rightarrow>
             do { (first, lst, cumulative_amount) \<leftarrow>
                    select_window (net_value fi) selection_limit amount_to_be_spent utxos start start 0;
                  (if cumulative_amount < amount_to_be_spent
                   then Some (Inl InsufficientFundsInAvailableUtxos, utxos)
                   else do {
                     last_index \<leftarrow> usub (length utxos) 1;
                     add_one \<leftarrow> (if lst < last_index
                                  then do { selected \<leftarrow> usub lst first; Some (selected + 1 < selection_limit) }
                                  else Some False);
                     (lst, cumulative_amount) \<leftarrow>
                       (if add_one
                        then do { added \<leftarrow> index_vec utxos (lst + 1);
                                  cumulative_amount \<leftarrow> uadd 64 cumulative_amount (net_value fi added);
                                  Some (lst + 1, cumulative_amount) }
                        else Some (lst, cumulative_amount));
                     (selected_utxos, remaining) \<leftarrow> splice_range first lst utxos;
                     Some (Inr (selected_utxos, cumulative_amount), remaining) }) })"

text \<open>\<open>extract_if(P).take(n)\<close>: the first \<open>n\<close> elements with \<open>P\<close>, and the others in their order.\<close>

fun extract_some :: "('x \<Rightarrow> bool) \<Rightarrow> nat \<Rightarrow> 'x list \<Rightarrow> 'x list \<times> 'x list" where
  "extract_some P n [] = ([], [])"
| "extract_some P n (x # xs) =
     (if 0 < n \<and> P x then (let (taken, kept) = extract_some P (n - 1) xs in (x # taken, kept))
      else (let (taken, kept) = extract_some P n xs in (taken, x # kept)))"

text \<open>The result is the selection and the list of available outputs after it.\<close>

definition select_utxos_for_consolidation ::
  "'k option \<Rightarrow> ('h, 'k, 'p) utxo list \<Rightarrow> bitcoin_fee_info \<Rightarrow> consolidation_parameters \<Rightarrow>
   (('h, 'k, 'p) utxo list \<times> ('h, 'k, 'p) utxo list) option" where
  "select_utxos_for_consolidation previous_key available_utxos fi cp =
     (let (spendable, dust) = partition (\<lambda>utxo. 0 < net_value fi utxo) available_utxos in
      if cp_threshold cp \<le> length spendable
      then do { assert_that (cp_size cp \<le> length spendable);
                Some (take (cp_size cp) spendable, drop (cp_size cp) spendable @ dust) }
      else let (prev_key_utxos, spendable) =
             (case previous_key of
                None \<Rightarrow> ([], spendable)
              | Some prev_key \<Rightarrow>
                  extract_some (\<lambda>utxo. da_pubkey_x (ux_deposit_address utxo) = prev_key) (cp_size cp) spendable)
           in Some (prev_key_utxos, spendable @ dust))"

section \<open>The environment pallet\<close>

record ('h, 'k, 'p) environment_state =
  en_available_utxos :: "('h, 'k, 'p) utxo list"
  en_consolidation_parameters :: consolidation_parameters

datatype utxo_selection_type = SelectForConsolidation | SelectSome nat nat

datatype environment_error = EnvironmentBadOrigin | InvalidParameters_Other

definition INITIAL_CONSOLIDATION_PARAMETERS :: consolidation_parameters where
  "INITIAL_CONSOLIDATION_PARAMETERS = \<lparr>cp_threshold = 200, cp_size = 100\<rparr>"

definition environment_genesis :: "('h, 'k, 'p) environment_state" where
  "environment_genesis =
     \<lparr>en_available_utxos = [], en_consolidation_parameters = INITIAL_CONSOLIDATION_PARAMETERS\<rparr>"

definition update_consolidation_parameters ::
  "bool \<Rightarrow> consolidation_parameters \<Rightarrow> ('h, 'k, 'p) environment_state \<Rightarrow>
   environment_error + ('h, 'k, 'p) environment_state" where
  "update_consolidation_parameters is_governance params st =
     (if \<not> is_governance then Inl EnvironmentBadOrigin
      else if \<not> are_valid params then Inl InvalidParameters_Other
      else Inr (st\<lparr>en_consolidation_parameters := params\<rparr>))"

definition add_bitcoin_utxo_to_list ::
  "nat \<Rightarrow> 'h utxo_id \<Rightarrow> ('k, 'p) deposit_address \<Rightarrow> ('h, 'k, 'p) environment_state \<Rightarrow>
   ('h, 'k, 'p) environment_state" where
  "add_bitcoin_utxo_to_list amount utxo_id deposit_address st =
     st\<lparr>en_available_utxos := en_available_utxos st @
        [\<lparr>ux_id = utxo_id, ux_amount = amount, ux_deposit_address = deposit_address\<rparr>]\<rparr>"

definition add_bitcoin_change_utxo ::
  "('k \<Rightarrow> nat \<Rightarrow> 'p) \<Rightarrow> nat \<Rightarrow> 'h utxo_id \<Rightarrow> 'k \<Rightarrow> ('h, 'k, 'p) environment_state \<Rightarrow>
   ('h, 'k, 'p) environment_state" where
  "add_bitcoin_change_utxo tapscript_path amount utxo_id pubkey_x st =
     st\<lparr>en_available_utxos := en_available_utxos st @
        [\<lparr>ux_id = utxo_id, ux_amount = amount,
          ux_deposit_address = deposit_address_new tapscript_path pubkey_x CHANGE_ADDRESS_SALT\<rparr>]\<rparr>"

text \<open>The outer \<open>option\<close> is a panic, the inner one the \<open>Option\<close> of the code.\<close>

definition consolidation_transaction_change_amount ::
  "('h, 'k, 'p) utxo list \<Rightarrow> bitcoin_fee_info \<Rightarrow> nat option option" where
  "consolidation_transaction_change_amount spendable_utxos fi =
     (if spendable_utxos = [] then Some None
      else do { total \<leftarrow> foldM (\<lambda>utxo total. uadd 64 total (ux_amount utxo)) spendable_utxos 0;
                inputs_fee \<leftarrow> umul 64 (fee_per_input_utxo fi) (length spendable_utxos);
                fees \<leftarrow> uadd 64 inputs_fee (min_fee_required_per_tx fi);
                fees \<leftarrow> uadd 64 fees (fee_per_output_utxo fi);
                Some (usub total fees) })"

text \<open>The branch of \<open>select_and_take_bitcoin_utxos\<close> for a consolidation. \<open>key\<close> is the key of the epoch.\<close>

definition take_utxos_for_consolidation ::
  "bitcoin_fee_info \<Rightarrow> 'k agg_key option \<Rightarrow> ('h, 'k, 'p) environment_state \<Rightarrow>
   ((('h, 'k, 'p) utxo list \<times> nat) option \<times> ('h, 'k, 'p) environment_state) option" where
  "take_utxos_for_consolidation fi key st =
     (case key of
        None \<Rightarrow> Some (None, st)
      | Some key \<Rightarrow>
          (let available_utxos =
             (case ak_previous key of
                None \<Rightarrow> en_available_utxos st
              | Some prev_key \<Rightarrow>
                  filter (\<lambda>utxo. \<not> (da_pubkey_x (ux_deposit_address utxo) \<noteq> ak_current key \<and>
                    da_pubkey_x (ux_deposit_address utxo) \<noteq> prev_key)) (en_available_utxos st))
           in do { (selected_utxo, available_utxos) \<leftarrow>
                     select_utxos_for_consolidation (ak_previous key) available_utxos fi
                       (en_consolidation_parameters st);
                   change_amount \<leftarrow> consolidation_transaction_change_amount selected_utxo fi;
                   Some (map_option (\<lambda>change_amount. (selected_utxo, change_amount)) change_amount,
                     st\<lparr>en_available_utxos := available_utxos\<rparr>) }))"

text \<open>The branch for a payment: \<open>try_mutate\<close> stores the list only where the selection succeeds.\<close>

definition take_utxos_for_payment ::
  "bitcoin_fee_info \<Rightarrow> nat \<Rightarrow> nat \<Rightarrow> ('h, 'k, 'p) environment_state \<Rightarrow>
   ((('h, 'k, 'p) utxo list \<times> nat) option \<times> ('h, 'k, 'p) environment_state) option" where
  "take_utxos_for_payment fi output_amount number_of_outputs st =
     do { outputs_fee \<leftarrow> umul 64 number_of_outputs (fee_per_output_utxo fi);
          amount \<leftarrow> uadd 64 output_amount outputs_fee;
          amount \<leftarrow> uadd 64 amount (min_fee_required_per_tx fi);
          (res, available_utxos) \<leftarrow> select_utxos_from_pool (en_available_utxos st) fi amount
            (Some (cp_threshold (en_consolidation_parameters st)));
          (case res of
             Inl _ \<Rightarrow> Some (None, st)
           | Inr (selected_utxos, total_input_spendable_amount) \<Rightarrow>
               do { change \<leftarrow> usub total_input_spendable_amount output_amount;
                    change \<leftarrow> usub change outputs_fee;
                    change \<leftarrow> usub change (min_fee_required_per_tx fi);
                    Some (Some (selected_utxos, change), st\<lparr>en_available_utxos := available_utxos\<rparr>) }) }"

definition select_and_take_bitcoin_utxos ::
  "bitcoin_fee_info \<Rightarrow> 'k agg_key option \<Rightarrow> utxo_selection_type \<Rightarrow> ('h, 'k, 'p) environment_state \<Rightarrow>
   ((('h, 'k, 'p) utxo list \<times> nat) option \<times> ('h, 'k, 'p) environment_state) option" where
  "select_and_take_bitcoin_utxos fi key utxo_selection_type st =
     (case utxo_selection_type of
        SelectForConsolidation \<Rightarrow> take_utxos_for_consolidation fi key st
      | SelectSome output_amount number_of_outputs \<Rightarrow>
          take_utxos_for_payment fi output_amount number_of_outputs st)"

section \<open>Calls\<close>

record 's bitcoin_output =
  bo_amount :: nat
  bo_script_pubkey :: 's

record ('h, 'k, 'p, 's) batch_transfer =
  bx_agg_key :: "'k agg_key"
  bx_inputs :: "('h, 'k, 'p) utxo list"
  bx_outputs :: "'s bitcoin_output list"

datatype consolidation_error = ConsolidationNotRequired | ConsolidationOther

text \<open>The errors of \<open>AllBatchError\<close> that Bitcoin returns; the others belong to other chains.\<close>

datatype all_batch_error = AllBatchAggKeyNotSet | AllBatchNotRequired | AllBatchUtxoSelectionFailed

text \<open>\<open>script_of\<close> is the script of the change address of a key.\<close>

definition consolidate_utxos ::
  "('k \<Rightarrow> 's) \<Rightarrow> bitcoin_fee_info \<Rightarrow> 'k agg_key option \<Rightarrow> ('h, 'k, 'p) environment_state \<Rightarrow>
   ((consolidation_error + ('h, 'k, 'p, 's) batch_transfer) \<times> ('h, 'k, 'p) environment_state) option" where
  "consolidate_utxos script_of fi key st =
     (case key of
        None \<Rightarrow> Some (Inl ConsolidationOther, st)
      | Some agg_key \<Rightarrow>
          do { (res, st) \<leftarrow> select_and_take_bitcoin_utxos fi key SelectForConsolidation st;
               Some ((case res of
                 None \<Rightarrow> Inl ConsolidationNotRequired
               | Some (selected_input_utxos, change_amount) \<Rightarrow>
                   Inr \<lparr>bx_agg_key = agg_key, bx_inputs = selected_input_utxos,
                        bx_outputs = [\<lparr>bo_amount = change_amount,
                          bo_script_pubkey = script_of (ak_current agg_key)\<rparr>]\<rparr>), st) })"

text \<open>A transfer is an amount and the script it goes to.\<close>

definition all_batch_new_unsigned ::
  "('k \<Rightarrow> 's) \<Rightarrow> bitcoin_fee_info \<Rightarrow> 'k agg_key option \<Rightarrow> (nat \<times> 's) list \<Rightarrow>
   ('h, 'k, 'p) environment_state \<Rightarrow>
   ((all_batch_error + ('h, 'k, 'p, 's) batch_transfer) \<times> ('h, 'k, 'p) environment_state) option" where
  "all_batch_new_unsigned script_of fi key transfer_params st =
     (case key of
        None \<Rightarrow> Some (Inl AllBatchAggKeyNotSet, st)
      | Some agg_key \<Rightarrow>
          do { (btc_outputs, total_output_amount) \<leftarrow>
                 foldM (\<lambda>(amount, to) (outputs, total).
                     if BITCOIN_DUST_LIMIT \<le> amount
                     then do { total \<leftarrow> uadd 64 total amount;
                               Some (outputs @ [\<lparr>bo_amount = amount, bo_script_pubkey = to\<rparr>], total) }
                     else Some (outputs, total)) transfer_params ([], 0);
               (if total_output_amount = 0 then Some (Inl AllBatchNotRequired, st)
                else do {
                  (res, st) \<leftarrow> select_and_take_bitcoin_utxos fi key
                    (SelectSome total_output_amount (length btc_outputs + 1)) st;
                  Some ((case res of
                    None \<Rightarrow> Inl AllBatchUtxoSelectionFailed
                  | Some (selected_input_utxos, change_amount) \<Rightarrow>
                      Inr \<lparr>bx_agg_key = agg_key, bx_inputs = selected_input_utxos,
                           bx_outputs =
                             (if BITCOIN_DUST_LIMIT \<le> change_amount
                              then btc_outputs @ [\<lparr>bo_amount = change_amount,
                                bo_script_pubkey = script_of (ak_current agg_key)\<rparr>]
                              else btc_outputs)\<rparr>), st) }) })"

end
