(* ===== verification/Bitcoin_Ledger.thy ===== *)
theory Bitcoin_Ledger
  imports Bitcoin_Utxo "HOL-Library.Multiset"
begin

text \<open>
  What the Bitcoin vault does with its unspent outputs: the selection finds enough funds
  exactly where the most valuable outputs within the limit are enough, a payment accounts
  for every satoshi, and a consolidation can drop outputs. The loop of the selection is
  compared with sums over index ranges of the sorted list, the windows.
\<close>

section \<open>The window\<close>

definition window_sum :: "('x \<Rightarrow> nat) \<Rightarrow> 'x list \<Rightarrow> nat \<Rightarrow> nat \<Rightarrow> nat" where
  "window_sum v xs a b = (\<Sum>i = a..<b. v (xs ! i))"

lemma window_sum_last: "a \<le> b \<Longrightarrow> window_sum v xs a (Suc b) = window_sum v xs a b + v (xs ! b)"
  by (simp add: window_sum_def)

lemma window_sum_first: "a < b \<Longrightarrow> window_sum v xs a b = v (xs ! a) + window_sum v xs (Suc a) b"
  by (simp add: window_sum_def sum.atLeast_Suc_lessThan)

lemma window_sum_mono: "a \<le> a' \<Longrightarrow> b' \<le> b \<Longrightarrow> window_sum v xs a' b' \<le> window_sum v xs a b"
  unfolding window_sum_def by (rule sum_mono2) auto

lemma window_sum_list: "b \<le> length xs \<Longrightarrow> window_sum v xs a b = sum_list (map v (take (b - a) (drop a xs)))"
proof (induction "b - a" arbitrary: a)
  case 0
  then show ?case by (simp add: window_sum_def)
next
  case (Suc k)
  then have a: "a < b" "a < length xs" and k: "k = b - Suc a" by auto
  have "take (b - a) (drop a xs) = xs ! a # take (b - Suc a) (drop (Suc a) xs)"
    using a by (simp add: Cons_nth_drop_Suc [symmetric] take_Cons' )
  then show ?case using Suc.hyps(1) [OF k Suc.prems] a by (simp add: window_sum_first)
qed

lemma window_sum_all: "window_sum v xs 0 (length xs) = sum_list (map v xs)"
  by (simp add: window_sum_list)

text \<open>The start of the window that ends before \<open>b\<close>, and the sum of the window that ends with \<open>l\<close>.\<close>

definition window_start :: "nat \<Rightarrow> nat \<Rightarrow> nat \<Rightarrow> nat" where
  "window_start n p b = max p (b - n)"

lemma window_start_le: "0 < n \<Longrightarrow> p \<le> l \<Longrightarrow> window_start n p (Suc l) \<le> l"
  by (simp add: window_start_def)

lemma window_start_bounds: "p \<le> b \<Longrightarrow> p \<le> window_start n p b \<and> window_start n p b \<le> b"
  by (simp add: window_start_def)

lemma window_start_Suc:
  assumes "0 < n" "p \<le> l"
  shows "window_start n p (Suc l) = (if n \<le> l - window_start n p l then Suc (window_start n p l) else window_start n p l)"
  using assms by (auto simp: window_start_def max_def)

lemma select_window_step:
  assumes n: "0 < n" and p: "p \<le> l" "l < length xs" and S: "window_sum v xs p (length xs) < 2 ^ 64"
  shows "select_window v n amount xs (window_start n p l) l (window_sum v xs (window_start n p l) l) =
    (let a = window_start n p (Suc l); s = window_sum v xs a (Suc l) in
     if amount \<le> s then Some (a, l, s) else select_window v n amount xs a (Suc l) s)"
proof -
  let ?a = "window_start n p l"
  have a: "p \<le> ?a" "?a \<le> l" using window_start_bounds [OF p(1)] by auto
  have add: "window_sum v xs ?a l + v (xs ! l) = window_sum v xs ?a (Suc l)" using a by (simp add: window_sum_last)
  have lt: "window_sum v xs ?a (Suc l) < 2 ^ 64"
    using window_sum_mono [of p ?a "Suc l" "length xs" v xs] a p S by linarith
  have first: "window_sum v xs ?a (Suc l) = v (xs ! ?a) + window_sum v xs (Suc ?a) (Suc l)"
    using a by (simp add: window_sum_first)
  show ?thesis using p a lt first window_start_Suc [OF n p(1)]
    by (subst select_window.simps) (auto simp: index_vec_def uadd_def usub_def add Let_def)
qed

lemma select_window_result:
  assumes n: "0 < n" and S: "window_sum v xs p (length xs) < 2 ^ 64" and "p \<le> l" "l \<le> length xs"
  shows "(\<exists>m. l \<le> m \<and> m < length xs \<and> amount \<le> window_sum v xs (window_start n p (Suc m)) (Suc m) \<and>
      select_window v n amount xs (window_start n p l) l (window_sum v xs (window_start n p l) l)
        = Some (window_start n p (Suc m), m, window_sum v xs (window_start n p (Suc m)) (Suc m))) \<or>
    ((\<forall>m. l \<le> m \<and> m < length xs \<longrightarrow> window_sum v xs (window_start n p (Suc m)) (Suc m) < amount) \<and>
      select_window v n amount xs (window_start n p l) l (window_sum v xs (window_start n p l) l)
        = Some (window_start n p (length xs), length xs, window_sum v xs (window_start n p (length xs)) (length xs)))"
  using assms(3,4)
proof (induction "length xs - l" arbitrary: l)
  case 0
  then show ?case by (auto simp: select_window.simps [of _ _ _ _ _ "length xs"])
next
  case (Suc k)
  then have l: "l < length xs" and k: "k = length xs - Suc l" "p \<le> Suc l" "Suc l \<le> length xs" by auto
  note step = select_window_step [OF n Suc.prems(1) l S, of amount]
  show ?case
  proof (cases "amount \<le> window_sum v xs (window_start n p (Suc l)) (Suc l)")
    case True
    then show ?thesis using step l by (auto simp: Let_def)
  next
    case False
    then have eq: "select_window v n amount xs (window_start n p l) l (window_sum v xs (window_start n p l) l)
      = select_window v n amount xs (window_start n p (Suc l)) (Suc l) (window_sum v xs (window_start n p (Suc l)) (Suc l))"
      using step by (simp add: Let_def)
    have "window_sum v xs (window_start n p (Suc m)) (Suc m) < amount" if "m = l" for m using False that by simp
    then show ?thesis unfolding eq using Suc.hyps(1) [OF k]
      by (metis Suc_leD Suc_leI le_neq_implies_less)
  qed
qed

section \<open>The window over a sorted list\<close>

lemma position_of_None: "position_of P xs = None \<longleftrightarrow> (\<forall>x \<in> set xs. \<not> P x)"
  by (induction xs) auto

lemma position_of_Some:
  "position_of P xs = Some i \<Longrightarrow> i < length xs \<and> P (xs ! i) \<and> (\<forall>j < i. \<not> P (xs ! j))"
  by (induction xs arbitrary: i) (auto split: if_splits simp: less_Suc_eq_0_disj)

lemma window_grows:
  assumes "sorted (map v xs)" "0 < n" "p \<le> l" "Suc l < length xs"
  shows "window_sum v xs (window_start n p (Suc l)) (Suc l) \<le> window_sum v xs (window_start n p (Suc (Suc l))) (Suc (Suc l))"
proof -
  let ?a = "window_start n p (Suc l)"
  have a: "?a \<le> l" by (rule window_start_le [OF assms(2,3)])
  have "v (xs ! ?a) \<le> v (xs ! Suc l)" using sorted_nth_mono [OF assms(1), of ?a "Suc l"] a assms(4) by simp
  moreover have "window_sum v xs ?a (Suc (Suc l)) = window_sum v xs ?a (Suc l) + v (xs ! Suc l)"
    using a by (simp add: window_sum_last)
  moreover have "window_sum v xs ?a (Suc (Suc l)) = v (xs ! ?a) + window_sum v xs (Suc ?a) (Suc (Suc l))"
    using a by (simp add: window_sum_first)
  ultimately show ?thesis using window_start_Suc [OF assms(2), of p "Suc l"] assms(3) by auto
qed

lemma window_greatest:
  assumes "sorted (map v xs)" "0 < n" "p \<le> l" "l < length xs"
  shows "window_sum v xs (window_start n p (Suc l)) (Suc l) \<le> window_sum v xs (window_start n p (length xs)) (length xs)"
  using assms(3,4)
proof (induction "length xs - Suc l" arbitrary: l)
  case 0
  then have "Suc l = length xs" by simp
  then show ?case by simp
next
  case (Suc k)
  then show ?case using window_grows [OF assms(1,2), of p l] Suc.hyps(1) [of "Suc l"] by fastforce
qed

lemma top_sum:
  assumes "\<forall>j < p. v (xs ! j) = 0" "p \<le> length xs"
  shows "sum_list (take n (rev (map v xs))) = window_sum v xs (window_start n p (length xs)) (length xs)"
proof -
  let ?b = "length xs - n"
  have "take n (rev (map v xs)) = rev (map v (drop ?b xs))"
    by (simp add: take_rev drop_map flip: rev_map)
  then have "sum_list (take n (rev (map v xs))) = window_sum v xs ?b (length xs)"
    by (simp add: window_sum_list sum_list_rev)
  also have "\<dots> = window_sum v xs (window_start n p (length xs)) (length xs)"
    unfolding window_sum_def window_start_def using assms by (intro sum.mono_neutral_right) auto
  finally show ?thesis .
qed

lemma sort_map_sort_key: "sort (map f xs) = map f (sort_key f xs)"
  by (rule properties_for_sort) simp_all

section \<open>Selection\<close>

text \<open>The sum of the \<open>n\<close> greatest net values.\<close>

definition top_value :: "bitcoin_fee_info \<Rightarrow> nat \<Rightarrow> ('h, 'k, 'p) utxo list \<Rightarrow> nat" where
  "top_value fi n pool = sum_list (take n (rev (sort (map (net_value fi) pool))))"

lemma splice_range_partition:
  assumes "a \<le> b" "b < length xs"
  obtains sel rest where "splice_range a b xs = Some (sel, rest)" "mset sel + mset rest = mset xs"
    "length sel = Suc b - a" "set sel \<subseteq> {xs ! i |i. a \<le> i \<and> i \<le> b}" "sum_list (map v sel) = window_sum v xs a (Suc b)"
proof -
  let ?sel = "take (Suc b - a) (drop a xs)" and ?rest = "take a xs @ drop (Suc b) xs"
  have "take a xs @ ?sel @ drop (Suc b) xs = xs"
    using assms by (metis Suc_diff_le append_assoc append_take_drop_id drop_drop le_SucI le_add_diff_inverse2)
  then have "mset (take a xs @ ?sel @ drop (Suc b) xs) = mset xs" by simp
  then have ms: "mset ?sel + mset ?rest = mset xs" by (simp add: ac_simps)
  have "set ?sel \<subseteq> {xs ! i |i. a \<le> i \<and> i \<le> b}"
  proof
    fix u assume "u \<in> set ?sel"
    then obtain i where "i < Suc b - a" "u = xs ! (a + i)" using assms by (auto simp: in_set_conv_nth)
    then show "u \<in> {xs ! i |i. a \<le> i \<and> i \<le> b}" by (intro CollectI exI [of _ "a + i"]) auto
  qed
  then show ?thesis
    using that [of ?sel ?rest] assms ms window_sum_list [of "Suc b" xs v a] by (simp add: splice_range_def)
qed

text \<open>What follows the loop.\<close>

definition finish_selection ::
  "('x \<Rightarrow> nat) \<Rightarrow> nat \<Rightarrow> nat \<Rightarrow> 'x list \<Rightarrow> nat \<times> nat \<times> nat \<Rightarrow>
   ((utxo_selection_error + 'x list \<times> nat) \<times> 'x list) option" where
  "finish_selection v n amount xs = (\<lambda>(first, lst, c).
     if c < amount then Some (Inl InsufficientFundsInAvailableUtxos, xs)
     else do { last_index \<leftarrow> usub (length xs) 1;
               add_one \<leftarrow> (if lst < last_index then do { s \<leftarrow> usub lst first; Some (s + 1 < n) } else Some False);
               (lst, c) \<leftarrow> (if add_one then do { u \<leftarrow> index_vec xs (lst + 1); c \<leftarrow> uadd 64 c (v u); Some (lst + 1, c) }
                           else Some (lst, c));
               (sel, rest) \<leftarrow> splice_range first lst xs;
               Some (Inr (sel, c), rest) })"

lemma select_utxos_unfold:
  assumes "n = (case maybe_limit of Some limit \<Rightarrow> limit | None \<Rightarrow> length pool)" "xs = sort_key (net_value fi) pool"
  shows "select_utxos_from_pool pool fi amount maybe_limit =
    (case position_of (\<lambda>u. 0 < net_value fi u) xs of
       None \<Rightarrow> Some (Inl NoUtxoAvailableAfterFeeReduction, xs)
     | Some p \<Rightarrow> select_window (net_value fi) n amount xs p p 0 \<bind> finish_selection (net_value fi) n amount xs)"
  unfolding select_utxos_from_pool_def Let_def finish_selection_def assms(1) [symmetric] assms(2) [symmetric]
  by (rule refl)

lemma finish_selection_found:
  fixes m :: nat
  assumes n: "0 < n" and m: "p \<le> m" "m < length xs" and S: "window_sum v xs p (length xs) < 2 ^ 64"
    and a: "a = window_start n p (Suc m)" and amount: "amount \<le> window_sum v xs a (Suc m)"
    and pos: "\<And>i. p \<le> i \<Longrightarrow> i < length xs \<Longrightarrow> 0 < v (xs ! i)"
  shows "\<exists>sel tot rest. finish_selection v n amount xs (a, m, window_sum v xs a (Suc m)) = Some (Inr (sel, tot), rest)
    \<and> mset sel + mset rest = mset xs \<and> sel \<noteq> [] \<and> length sel \<le> n \<and> (\<forall>u \<in> set sel. 0 < v u)
    \<and> tot = sum_list (map v sel) \<and> amount \<le> tot"
proof -
  define b where "b = (if m < length xs - 1 \<and> Suc (m - a) < n then Suc m else m)"
  have a': "a \<le> m" "p \<le> a" using window_start_le [OF n m(1)] a by (auto simp: window_start_def)
  have b: "a \<le> b" "b < length xs" "m \<le> b" "Suc b - a \<le> n"
    using a' m(2) n a by (auto simp: b_def window_start_def)
  have lt: "window_sum v xs a (Suc b) < 2 ^ 64"
    using window_sum_mono [of p a "Suc b" "length xs" v xs] a' b S by simp
  have add: "window_sum v xs a (Suc m) + v (xs ! Suc m) = window_sum v xs a (Suc (Suc m))"
    using a' by (simp add: window_sum_last)
  obtain sel rest where s: "splice_range a b xs = Some (sel, rest)" "mset sel + mset rest = mset xs"
    "length sel = Suc b - a" "set sel \<subseteq> {xs ! i |i. a \<le> i \<and> i \<le> b}" "sum_list (map v sel) = window_sum v xs a (Suc b)"
    by (rule splice_range_partition [OF b(1,2), of v])
  have "finish_selection v n amount xs (a, m, window_sum v xs a (Suc m)) = Some (Inr (sel, window_sum v xs a (Suc b)), rest)"
    using amount a'(1) lt s(1) m(2) add
    by (auto simp: finish_selection_def b_def usub_def uadd_def index_vec_def split: if_splits)
  moreover have "\<forall>u \<in> set sel. 0 < v u" using s(4) pos a' b by fastforce
  moreover have "amount \<le> window_sum v xs a (Suc b)"
    using amount window_sum_mono [of a a "Suc m" "Suc b" v xs] b(3) by simp
  ultimately show ?thesis using s b by auto
qed

text \<open>
  What a selection of at most \<open>n\<close> outputs for \<open>amount\<close> promises: an error exactly where
  there are no funds or the most valuable \<open>n\<close> outputs are not enough, and otherwise a part
  of the pool that is worth its fees and covers the amount.
\<close>

definition selection_spec ::
  "bitcoin_fee_info \<Rightarrow> nat \<Rightarrow> nat \<Rightarrow> ('h, 'k, 'p) utxo list \<Rightarrow>
   utxo_selection_error + ('h, 'k, 'p) utxo list \<times> nat \<Rightarrow> ('h, 'k, 'p) utxo list \<Rightarrow> bool" where
  "selection_spec fi n amount pool res pool' \<longleftrightarrow>
     (case res of
        Inl NoUtxoAvailableAfterFeeReduction \<Rightarrow> \<forall>u \<in> set pool. net_value fi u = 0
      | Inl InsufficientFundsInAvailableUtxos \<Rightarrow>
          (\<exists>u \<in> set pool. 0 < net_value fi u) \<and> top_value fi n pool < amount
      | Inr (sel, tot) \<Rightarrow>
          mset sel + mset pool' = mset pool \<and> (n \<noteq> 0 \<longrightarrow> sel \<noteq> []) \<and> length sel \<le> n \<and> (\<forall>u \<in> set sel. 0 < net_value fi u)
          \<and> tot = sum_list (map (net_value fi) sel) \<and> amount \<le> tot \<and> amount \<le> top_value fi n pool)"

lemma select_utxos_result:
  fixes pool :: "('h, 'k, 'p) utxo list"
  assumes S: "sum_list (map (net_value fi) pool) < 2 ^ 64"
    and n: "n = (case maybe_limit of Some limit \<Rightarrow> limit | None \<Rightarrow> length pool)" "0 < n"
  shows "\<exists>res pool'. select_utxos_from_pool pool fi amount maybe_limit = Some (res, pool')
    \<and> selection_spec fi n amount pool res pool'"
proof -
  let ?v = "net_value fi"
  define xs where "xs = sort_key ?v pool"
  have xs: "sorted (map ?v xs)" "mset xs = mset pool" "set xs = set pool" by (simp_all add: xs_def)
  have Sxs: "sum_list (map ?v xs) < 2 ^ 64" using S xs(2) by (metis mset_map sum_mset_sum_list)
  note unfold = select_utxos_unfold [OF n(1) xs_def, of amount]
  show ?thesis
  proof (cases "position_of (\<lambda>u. 0 < ?v u) xs")
    case None
    then have "\<forall>u \<in> set pool. ?v u = 0" using xs(3) by (simp add: position_of_None)
    then show ?thesis using unfold None by (simp add: selection_spec_def)
  next
    case (Some p)
    have p: "p < length xs" "0 < ?v (xs ! p)" "\<forall>j < p. ?v (xs ! j) = 0" using position_of_Some [OF Some] by auto
    have pos: "0 < ?v (xs ! i)" if "p \<le> i" "i < length xs" for i
      using sorted_nth_mono [OF xs(1), of p i] that p(2) by simp
    have T: "top_value fi n pool = window_sum ?v xs (window_start n p (length xs)) (length xs)"
      using top_sum [OF p(3), of n] p(1) by (simp add: top_value_def sort_map_sort_key xs_def)
    have Sp: "window_sum ?v xs p (length xs) < 2 ^ 64"
      using window_sum_mono [of 0 p "length xs" "length xs" ?v xs] Sxs window_sum_all [of ?v xs] by simp
    have start: "window_start n p p = p" "window_sum ?v xs p p = 0" by (simp_all add: window_start_def window_sum_def)
    have ex: "\<exists>u \<in> set pool. 0 < ?v u" using p(1,2) xs(3) nth_mem by metis
    consider (found) m where "p \<le> m" "m < length xs" "amount \<le> window_sum ?v xs (window_start n p (Suc m)) (Suc m)"
        "select_window ?v n amount xs p p 0 = Some (window_start n p (Suc m), m, window_sum ?v xs (window_start n p (Suc m)) (Suc m))"
      | (not_found) "\<forall>m. p \<le> m \<and> m < length xs \<longrightarrow> window_sum ?v xs (window_start n p (Suc m)) (Suc m) < amount"
        "select_window ?v n amount xs p p 0 = Some (window_start n p (length xs), length xs, top_value fi n pool)"
      using select_window_result [OF n(2) Sp, of p amount] p(1) start T by force
    then show ?thesis
    proof cases
      case not_found
      have "Suc (length xs - 1) = length xs" using p(1) by simp
      then have "top_value fi n pool < amount" using not_found(1) [rule_format, of "length xs - 1"] p(1) T by simp
      then show ?thesis using unfold Some not_found(2) ex by (simp add: finish_selection_def selection_spec_def)
    next
      case found
      have "amount \<le> top_value fi n pool" using found(3) window_greatest [OF xs(1) n(2) found(1,2)] T by simp
      then show ?thesis using finish_selection_found [OF n(2) found(1,2) Sp refl found(3) pos] unfold Some found(4) xs(2)
        by (auto simp: xs_def selection_spec_def)
    qed
  qed
qed

text \<open>
  With a limit of zero the window is empty after each step. Where nothing is to be spent the
  loop ends with its first output, and the test for one more output subtracts one too many.
\<close>

lemma select_window_zero:
  assumes "\<forall>x \<in> set xs. v x < 2 ^ 64" "l \<le> length xs"
  shows "select_window v 0 amount xs l l 0 =
    (if l < length xs \<and> amount = 0 then Some (Suc l, l, 0) else Some (length xs, length xs, 0))"
  using assms(2)
proof (induction "length xs - l" arbitrary: l)
  case 0
  then show ?case by (simp add: select_window.simps)
next
  case (Suc k)
  then have "l < length xs" "k = length xs - Suc l" "Suc l \<le> length xs" by auto
  then show ?case using Suc.hyps(1) [of "Suc l"] assms(1)
    by (subst select_window.simps) (auto simp: index_vec_def uadd_def usub_def)
qed

lemma filter_positive:
  assumes "sorted (map v xs)" "position_of (\<lambda>x. 0 < v x) xs = Some p"
  shows "length (filter (\<lambda>x. (0 :: nat) < v x) xs) = length xs - p"
  using assms
proof (induction xs arbitrary: p)
  case (Cons x xs)
  show ?case
  proof (cases "0 < v x")
    case True
    then have "filter (\<lambda>x. 0 < v x) xs = xs" using Cons.prems(1) by (fastforce intro: filter_True)
    then show ?thesis using True Cons.prems(2) by simp
  qed (use Cons in auto)
qed simp

lemma select_utxos_zero_limit:
  fixes pool :: "('h, 'k, 'p) utxo list"
  assumes S: "sum_list (map (net_value fi) pool) < 2 ^ 64"
    and n: "0 = (case maybe_limit of Some limit \<Rightarrow> limit | None \<Rightarrow> length pool)"
  shows "if amount = 0 \<and> 2 \<le> length (filter (\<lambda>u. 0 < net_value fi u) pool)
    then select_utxos_from_pool pool fi amount maybe_limit = None
    else \<exists>res pool'. select_utxos_from_pool pool fi amount maybe_limit = Some (res, pool')
      \<and> selection_spec fi 0 amount pool res pool'"
proof -
  let ?v = "net_value fi" and ?P = "\<lambda>u :: ('h, 'k, 'p) utxo. 0 < net_value fi u"
  define xs where "xs = sort_key ?v pool"
  have xs: "sorted (map ?v xs)" "mset xs = mset pool" "set xs = set pool" by (simp_all add: xs_def)
  have small: "\<forall>u \<in> set xs. ?v u < 2 ^ 64"
  proof
    fix u assume "u \<in> set xs"
    then have "?v u \<le> sum_list (map ?v pool)" using xs(3) by (intro member_le_sum_list) auto
    then show "?v u < 2 ^ 64" using S by (rule le_less_trans)
  qed
  have len: "length (filter ?P pool) = length (filter ?P xs)"
    using xs(2) by (metis mset_filter size_mset)
  note unfold = select_utxos_unfold [OF n xs_def, of amount]
  show ?thesis
  proof (cases "position_of ?P xs")
    case None
    then have "filter ?P pool = []" "\<forall>u \<in> set pool. ?v u = 0"
      using xs(3) by (auto simp: position_of_None filter_empty_conv)
    then show ?thesis using unfold None by (simp add: selection_spec_def)
  next
    case (Some p)
    have p: "p < length xs" "?P (xs ! p)" using position_of_Some [OF Some] by auto
    then have ex: "\<exists>u \<in> set pool. ?P u" using xs(3) nth_mem by metis
    have cnt: "length (filter ?P pool) = length xs - p" using len filter_positive [OF xs(1) Some] by simp
    have run: "select_utxos_from_pool pool fi amount maybe_limit = finish_selection ?v 0 amount xs
        (if amount = 0 then (Suc p, p, 0) else (length xs, length xs, 0))"
      using unfold Some select_window_zero [OF small, of p amount] p(1) by simp
    show ?thesis
    proof (cases "amount = 0")
      case True
      have "finish_selection ?v 0 0 xs (Suc p, p, 0) =
          (if p < length xs - 1 then None else Some (Inr ([], 0), xs))"
        using p(1) by (auto simp: finish_selection_def usub_def splice_range_def)
      then show ?thesis using run True cnt p(1) xs(2) by (auto simp: selection_spec_def)
    next
      case False
      then show ?thesis using run ex by (simp add: finish_selection_def selection_spec_def top_value_def)
    qed
  qed
qed

section \<open>Reachable states\<close>

inductive environment_reachable :: "('h, 'k, 'p) environment_state \<Rightarrow> bool" where
  genesis: "environment_reachable environment_genesis"
| update: "environment_reachable st \<Longrightarrow> update_consolidation_parameters gov params st = Inr st' \<Longrightarrow>
    environment_reachable st'"
| add: "environment_reachable st \<Longrightarrow> environment_reachable (add_bitcoin_utxo_to_list amount k address st)"
| change: "environment_reachable st \<Longrightarrow> environment_reachable (add_bitcoin_change_utxo tapscript_path amount k pubkey_x st)"
| taken: "environment_reachable st \<Longrightarrow> select_and_take_bitcoin_utxos fi key t st = Some (res, st') \<Longrightarrow>
    environment_reachable st'"

lemma select_and_take_keeps_parameters:
  "select_and_take_bitcoin_utxos fi key t st = Some (res, st') \<Longrightarrow>
    en_consolidation_parameters st' = en_consolidation_parameters st"
  by (auto simp: select_and_take_bitcoin_utxos_def take_utxos_for_consolidation_def take_utxos_for_payment_def Let_def
    split: utxo_selection_type.splits option.splits bind_splits sum.splits prod.splits)

lemma reachable_parameters_valid: "environment_reachable st \<Longrightarrow> are_valid (en_consolidation_parameters st)"
  by (induction rule: environment_reachable.induct)
     (auto simp: environment_genesis_def INITIAL_CONSOLIDATION_PARAMETERS_def are_valid_def
       update_consolidation_parameters_def add_bitcoin_utxo_to_list_def add_bitcoin_change_utxo_def
       select_and_take_keeps_parameters split: if_splits)

abbreviation pool_amount :: "('h, 'k, 'p) utxo list \<Rightarrow> nat" where
  "pool_amount pool \<equiv> sum_list (map ux_amount pool)"

lemma net_value_le: "sum_list (map (net_value fi) pool) \<le> pool_amount pool"
  by (rule sum_list_mono) (simp add: net_value_def)

lemma amounts_of_positive:
  "\<forall>u \<in> set sel. 0 < net_value fi u \<Longrightarrow>
    pool_amount sel = sum_list (map (net_value fi) sel) + sum_list (map (fee_for_utxo fi) sel)"
  by (induction sel) (auto simp: net_value_def)

lemma pool_amount_mset: "mset sel + mset rest = mset pool \<Longrightarrow> pool_amount sel + pool_amount rest = pool_amount pool"
  by (metis mset_append mset_map map_append sum_mset_sum_list sum_list_append)

section \<open>Payments\<close>

text \<open>What a payment of \<open>amount\<close> in \<open>n - 1\<close> outputs and the change costs besides the inputs.\<close>

definition payment_amount :: "bitcoin_fee_info \<Rightarrow> nat \<Rightarrow> nat \<Rightarrow> nat" where
  "payment_amount fi amount n = amount + n * fee_per_output_utxo fi + min_fee_required_per_tx fi"

lemma usub_three:
  "a + g + m \<le> t \<Longrightarrow> do { c \<leftarrow> usub t a; c \<leftarrow> usub c g; c \<leftarrow> usub c m; f c } = f (t - (a + g + m))"
proof -
  assume "a + g + m \<le> t"
  then have "a \<le> t" "g \<le> t - a" "m \<le> t - a - g" by auto
  then show ?thesis by (simp add: usub_def)
qed

text \<open>
  The outputs cannot cover \<open>amount\<close>: none is worth more than its fee, or the most valuable
  ones that one transaction may spend are worth less.
\<close>

definition cannot_pay :: "bitcoin_fee_info \<Rightarrow> nat \<Rightarrow> ('h, 'k, 'p) environment_state \<Rightarrow> bool" where
  "cannot_pay fi amount st \<longleftrightarrow> (\<forall>u \<in> set (en_available_utxos st). net_value fi u = 0) \<or>
     top_value fi (cp_threshold (en_consolidation_parameters st)) (en_available_utxos st) < amount"

lemma payment_result:
  assumes v: "are_valid (en_consolidation_parameters st)"
    and S: "pool_amount (en_available_utxos st) < 2 ^ 64" and A: "payment_amount fi amount n < 2 ^ 64"
  shows "\<exists>res st'. take_utxos_for_payment fi amount n st = Some (res, st') \<and>
    (case res of
       None \<Rightarrow> st' = st \<and> cannot_pay fi (payment_amount fi amount n) st
     | Some (sel, change) \<Rightarrow>
         \<not> cannot_pay fi (payment_amount fi amount n) st
         \<and> mset sel + mset (en_available_utxos st') = mset (en_available_utxos st)
         \<and> length sel \<le> cp_threshold (en_consolidation_parameters st)
         \<and> pool_amount sel = payment_amount fi amount n + sum_list (map (fee_for_utxo fi) sel) + change)"
proof -
  let ?n = "cp_threshold (en_consolidation_parameters st)" and ?A = "payment_amount fi amount n"
  have n: "0 < ?n" using v by (simp add: are_valid_def)
  have S': "sum_list (map (net_value fi) (en_available_utxos st)) < 2 ^ 64"
    using net_value_le S by (rule le_less_trans)
  have run: "take_utxos_for_payment fi amount n st = do {
      (res, pool) \<leftarrow> select_utxos_from_pool (en_available_utxos st) fi ?A (Some ?n);
      (case res of
         Inl _ \<Rightarrow> Some (None, st)
       | Inr (sel, tot) \<Rightarrow>
           do { c \<leftarrow> usub tot amount; c \<leftarrow> usub c (n * fee_per_output_utxo fi);
                c \<leftarrow> usub c (min_fee_required_per_tx fi);
                Some (Some (sel, c), st\<lparr>en_available_utxos := pool\<rparr>) }) }"
    using A by (simp add: take_utxos_for_payment_def umul_def uadd_def payment_amount_def)
  have "?n = (case Some ?n of Some limit \<Rightarrow> limit | None \<Rightarrow> length (en_available_utxos st))" by simp
  from select_utxos_result [OF S' this n, of ?A] obtain res pool
    where sel: "select_utxos_from_pool (en_available_utxos st) fi ?A (Some ?n) = Some (res, pool)"
      and res: "selection_spec fi ?n ?A (en_available_utxos st) res pool" by blast
  show ?thesis
  proof (cases res)
    case (Inl e)
    then have "cannot_pay fi ?A st" using res by (cases e) (auto simp: selection_spec_def cannot_pay_def)
    then show ?thesis using run sel Inl by simp
  next
    case (Inr r)
    obtain s tot where r: "r = (s, tot)" by (cases r)
    have s: "mset s + mset pool = mset (en_available_utxos st)" "length s \<le> ?n" "tot = sum_list (map (net_value fi) s)"
      "?A \<le> tot" "pool_amount s = tot + sum_list (map (fee_for_utxo fi) s)"
      using res Inr r amounts_of_positive [of s fi] by (auto simp: selection_spec_def)
    have "s \<noteq> []" "\<forall>u \<in> set s. 0 < net_value fi u" "?A \<le> top_value fi ?n (en_available_utxos st)"
      using res Inr r n by (auto simp: selection_spec_def)
    moreover from this(1,2) have "\<exists>u \<in> set (en_available_utxos st). 0 < net_value fi u"
      using arg_cong [OF s(1), of set_mset] by (cases s) auto
    ultimately have can: "\<not> cannot_pay fi ?A st" by (auto simp: cannot_pay_def)
    have "take_utxos_for_payment fi amount n st = Some (Some (s, tot - ?A), st\<lparr>en_available_utxos := pool\<rparr>)"
      using run sel Inr r usub_three [OF s(4) [unfolded payment_amount_def]] by (simp add: payment_amount_def)
    then show ?thesis using s can by auto
  qed
qed

section \<open>Calls\<close>

text \<open>The outputs of a batch: the transfers that are not dust.\<close>

definition payments :: "(nat \<times> 's) list \<Rightarrow> (nat \<times> 's) list" where
  "payments = filter (\<lambda>(amount, _). BITCOIN_DUST_LIMIT \<le> amount)"

lemma payments_total: "sum_list (map fst (payments transfers)) = 0 \<longleftrightarrow> payments transfers = []"
  by (induction transfers) (auto simp: payments_def BITCOIN_DUST_LIMIT_def)

definition output_of :: "nat \<times> 's \<Rightarrow> 's bitcoin_output" where
  "output_of = (\<lambda>(amount, to). \<lparr>bo_amount = amount, bo_script_pubkey = to\<rparr>)"

lemma batch_outputs:
  assumes "tot + sum_list (map fst (payments transfers)) < 2 ^ 64"
  shows "foldM (\<lambda>(amount, to) (outputs, tot).
      if BITCOIN_DUST_LIMIT \<le> amount
      then do { tot \<leftarrow> uadd 64 tot amount; Some (outputs @ [\<lparr>bo_amount = amount, bo_script_pubkey = to\<rparr>], tot) }
      else Some (outputs, tot)) transfers (outs, tot)
    = Some (outs @ map output_of (payments transfers), tot + sum_list (map fst (payments transfers)))"
  using assms
  by (induction transfers arbitrary: outs tot) (auto simp: payments_def output_of_def uadd_def ac_simps)

section \<open>Consolidation\<close>

lemma extract_some_spec:
  "extract_some P n xs = (taken, kept) \<Longrightarrow> mset taken + mset kept = mset xs \<and> length taken \<le> n"
  by (induction P n xs arbitrary: taken kept rule: extract_some.induct)
     (fastforce split: if_splits prod.splits)+

lemma consolidation_selection:
  fixes pool :: "('h, 'k, 'p) utxo list"
  assumes "are_valid cp"
  obtains sel rest where "select_utxos_for_consolidation prev pool fi cp = Some (sel, rest)"
    "mset sel + mset rest = mset pool" "length sel \<le> cp_size cp"
proof -
  define P where "P = (\<lambda>u :: ('h, 'k, 'p) utxo. 0 < net_value fi u)"
  let ?s = "filter P pool" and ?d = "filter (Not \<circ> P) pool"
  have part: "partition P pool = (?s, ?d)" by (simp add: comp_def)
  have ms: "mset ?s + mset ?d = mset pool" by (induction pool) auto
  show ?thesis
  proof (cases "cp_threshold cp \<le> length ?s")
    case True
    have "mset (take (cp_size cp) ?s) + mset (drop (cp_size cp) ?s) = mset ?s"
      by (metis append_take_drop_id mset_append)
    then show ?thesis
      using that [of "take (cp_size cp) ?s" "drop (cp_size cp) ?s @ ?d"] True assms part ms
      by (auto simp: select_utxos_for_consolidation_def P_def [symmetric] are_valid_def ac_simps)
  next
    case False
    obtain sel kept where e: "(case prev of None \<Rightarrow> ([], ?s)
      | Some k \<Rightarrow> extract_some (\<lambda>u. da_pubkey_x (ux_deposit_address u) = k) (cp_size cp) ?s) = (sel, kept)"
      by fastforce
    then have sel: "mset sel + mset kept = mset ?s" "length sel \<le> cp_size cp"
      by (auto dest: extract_some_spec split: option.splits)
    have "mset sel + mset (kept @ ?d) = mset pool"
      by (simp only: mset_append sel(1) ms flip: add.assoc)
    then show ?thesis using that [of sel "kept @ ?d"] False e part sel(2)
      by (auto simp: select_utxos_for_consolidation_def P_def [symmetric])
  qed
qed

text \<open>The fee of a consolidation of \<open>n\<close> outputs, as it is charged.\<close>

definition consolidation_fee :: "bitcoin_fee_info \<Rightarrow> nat \<Rightarrow> nat" where
  "consolidation_fee fi n = fee_per_input_utxo fi * n + min_fee_required_per_tx fi + fee_per_output_utxo fi"

lemma consolidation_fee_mono: "m \<le> n \<Longrightarrow> consolidation_fee fi m \<le> consolidation_fee fi n"
  by (simp add: consolidation_fee_def)

lemma foldM_amounts:
  "tot + pool_amount pool < 2 ^ 64 \<Longrightarrow>
    foldM (\<lambda>u tot. uadd 64 tot (ux_amount u)) pool tot = Some (tot + pool_amount pool)"
  by (induction pool arbitrary: tot) (auto simp: uadd_def ac_simps)

lemma change_amount_result:
  assumes "pool_amount sel < 2 ^ 64" "consolidation_fee fi (length sel) < 2 ^ 64"
  shows "consolidation_transaction_change_amount sel fi =
    Some (if sel = [] then None else usub (pool_amount sel) (consolidation_fee fi (length sel)))"
  using assms foldM_amounts [of 0 sel]
  by (simp add: consolidation_transaction_change_amount_def consolidation_fee_def uadd_def umul_def)

text \<open>The outputs that are not discarded as stale.\<close>

definition fresh_utxos :: "'k agg_key \<Rightarrow> ('h, 'k, 'p) utxo list \<Rightarrow> ('h, 'k, 'p) utxo list" where
  "fresh_utxos key pool = (case ak_previous key of None \<Rightarrow> pool | Some prev_key \<Rightarrow>
     filter (\<lambda>u. \<not> (da_pubkey_x (ux_deposit_address u) \<noteq> ak_current key \<and> da_pubkey_x (ux_deposit_address u) \<noteq> prev_key)) pool)"

lemma fresh_amount_le: "pool_amount (fresh_utxos key pool) \<le> pool_amount pool"
  by (auto simp: fresh_utxos_def split: option.splits intro: sum_list_filter_le_nat)


section \<open>Properties\<close>

text \<open>
  C7. What the selection of unspent outputs for a payment does, where the net values in the
  pool add up to a \<open>u64\<close>. It panics exactly where both the limit and the amount are zero and
  two outputs are worth more than the fee of spending them. Otherwise it fails with
  \<open>NoUtxoAvailableAfterFeeReduction\<close> exactly where no output is worth more than its fee,
  whatever the amount, and with \<open>InsufficientFundsInAvailableUtxos\<close> exactly where there
  are such outputs but the most valuable ones within the limit are worth less than the
  amount. Otherwise it takes outputs from the pool, not more than the limit and each worth
  more than its fee, whose net value is at least the amount, and returns that value.
\<close>

theorem utxo_selection_exact:
  assumes "sum_list (map (net_value fi) pool) < 2 ^ 64"
    and "n = (case maybe_limit of Some limit \<Rightarrow> limit | None \<Rightarrow> length pool)"
  shows "if n = 0 \<and> amount = 0 \<and> 2 \<le> length (filter (\<lambda>u. 0 < net_value fi u) pool)
    then select_utxos_from_pool pool fi amount maybe_limit = None
    else \<exists>res pool'. select_utxos_from_pool pool fi amount maybe_limit = Some (res, pool')
      \<and> selection_spec fi n amount pool res pool'"
proof (cases "n = 0")
  case True
  then have "0 = (case maybe_limit of Some limit \<Rightarrow> limit | None \<Rightarrow> length pool)" using assms(2) by simp
  from select_utxos_zero_limit [OF assms(1) this] show ?thesis unfolding True simp_thms .
next
  case False
  then show ?thesis using select_utxos_result [OF assms] by simp
qed

definition utxo_ex :: "nat \<Rightarrow> nat \<Rightarrow> (nat, nat, nat) utxo" where
  "utxo_ex key amount = \<lparr>ux_id = \<lparr>ui_tx_id = 0, ui_vout = 0\<rparr>, ux_amount = amount,
     ux_deposit_address = \<lparr>da_pubkey_x = key, da_script_path = None\<rparr>\<rparr>"

definition fee_ex :: bitcoin_fee_info where
  "fee_ex = fee_info_new 1000"

lemma fee_ex_eval:
  "net_value fee_ex (utxo_ex k x) = x - 58" "fee_per_input_utxo fee_ex = 78" "fee_per_output_utxo fee_ex = 51"
  "min_fee_required_per_tx fee_ex = 16" "ux_amount (utxo_ex k x) = x"
  "da_pubkey_x (ux_deposit_address (utxo_ex k x)) = k"
  by (simp_all add: net_value_def fee_for_utxo_def fee_ex_def fee_info_new_def btc_defs usat_mul_def umax_def utxo_ex_def)

theorem utxo_selection_exact_witness:
  "(\<exists>res pool'. select_utxos_from_pool [utxo_ex 1 900, utxo_ex 1 300] fee_ex 1000 (Some 2) = Some (res, pool')
      \<and> selection_spec fee_ex 2 1000 [utxo_ex 1 900, utxo_ex 1 300] res pool')
    \<and> select_utxos_from_pool [utxo_ex 1 900, utxo_ex 1 900] fee_ex 0 (Some 0) = None"
  using utxo_selection_exact [of fee_ex "[utxo_ex 1 900, utxo_ex 1 300]" 2 "Some 2" 1000]
    utxo_selection_exact [of fee_ex "[utxo_ex 1 900, utxo_ex 1 900]" 0 "Some 0" 0]
  by (simp add: fee_ex_eval)

text \<open>
  C8. A batch of Bitcoin transfers is built without a panic and accounts for every satoshi.
  It fails, and leaves the pool as it was, exactly where no transfer is of at least
  \<open>BITCOIN_DUST_LIMIT\<close> or where the most valuable outputs that one transaction may spend
  cannot cover the transfers and the fees. Otherwise its outputs are the transfers of at
  least \<open>BITCOIN_DUST_LIMIT\<close>, in their order, and the change where it is at least that. What the inputs hold is what these transfers ask for, the fee of every
  input, of every output and of the transaction, and the change. The inputs leave the pool,
  and no other output does.
\<close>

theorem bitcoin_batch_exact:
  assumes "environment_reachable st" "pool_amount (en_available_utxos st) < 2 ^ 64"
    and "amount = sum_list (map fst (payments transfers))" "k = Suc (length (payments transfers))"
    and "payment_amount fi amount k < 2 ^ 64"
  shows "\<exists>res st'. all_batch_new_unsigned script_of fi (Some key) transfers st = Some (res, st') \<and>
    (case res of
       Inl e \<Rightarrow> st' = st \<and> (if payments transfers = [] then e = AllBatchNotRequired
         else e = AllBatchUtxoSelectionFailed \<and> cannot_pay fi (payment_amount fi amount k) st)
     | Inr call \<Rightarrow> payments transfers \<noteq> [] \<and> \<not> cannot_pay fi (payment_amount fi amount k) st \<and> (\<exists>change.
         mset (bx_inputs call) + mset (en_available_utxos st') = mset (en_available_utxos st)
         \<and> length (bx_inputs call) \<le> cp_threshold (en_consolidation_parameters st)
         \<and> bx_outputs call = map output_of (payments transfers) @
             (if BITCOIN_DUST_LIMIT \<le> change then [output_of (change, script_of (ak_current key))] else [])
         \<and> pool_amount (bx_inputs call)
             = payment_amount fi amount k + sum_list (map (fee_for_utxo fi) (bx_inputs call)) + change))"
proof -
  have amount: "0 + sum_list (map fst (payments transfers)) < 2 ^ 64" using assms(3,5) by (simp add: payment_amount_def)
  obtain res st' where pay: "take_utxos_for_payment fi amount k st = Some (res, st')"
    and res: "case res of None \<Rightarrow> st' = st \<and> cannot_pay fi (payment_amount fi amount k) st
    | Some (sel, change) \<Rightarrow> \<not> cannot_pay fi (payment_amount fi amount k) st
      \<and> mset sel + mset (en_available_utxos st') = mset (en_available_utxos st)
      \<and> length sel \<le> cp_threshold (en_consolidation_parameters st)
      \<and> pool_amount sel = payment_amount fi amount k + sum_list (map (fee_for_utxo fi) sel) + change"
    using payment_result [OF reachable_parameters_valid [OF assms(1)] assms(2,5)] by blast
  have outs: "all_batch_new_unsigned script_of fi (Some key) transfers st =
      (if payments transfers = [] then Some (Inl AllBatchNotRequired, st)
       else Some (case res of None \<Rightarrow> Inl AllBatchUtxoSelectionFailed | Some (sel, change) \<Rightarrow>
         Inr \<lparr>bx_agg_key = key, bx_inputs = sel, bx_outputs = map output_of (payments transfers) @
           (if BITCOIN_DUST_LIMIT \<le> change then [output_of (change, script_of (ak_current key))] else [])\<rparr>, st'))"
    using batch_outputs [OF amount, where outs = "[]"] pay payments_total [of transfers] assms(3,4)
    by (auto simp: all_batch_new_unsigned_def select_and_take_bitcoin_utxos_def output_of_def split: option.splits)
  show ?thesis using res unfolding outs by (auto split: option.splits)
qed

definition env_ex :: "nat \<Rightarrow> (nat, nat, nat) environment_state" where
  "env_ex x = \<lparr>en_available_utxos = [utxo_ex 1 x, utxo_ex 1 x],
     en_consolidation_parameters = \<lparr>cp_threshold = 2, cp_size = 2\<rparr>\<rparr>"

lemma env_ex_reachable: "environment_reachable (env_ex x)"
proof -
  let ?cp = "\<lparr>cp_threshold = 2, cp_size = 2\<rparr>"
  have "environment_reachable (environment_genesis\<lparr>en_consolidation_parameters := ?cp\<rparr> :: (nat, nat, nat) environment_state)"
    by (rule environment_reachable.update [OF genesis, of True ?cp])
       (simp add: update_consolidation_parameters_def are_valid_def)
  from environment_reachable.add [OF environment_reachable.add [OF this,
      of x "\<lparr>ui_tx_id = 0, ui_vout = 0\<rparr>" "\<lparr>da_pubkey_x = 1, da_script_path = None\<rparr>"],
      of x "\<lparr>ui_tx_id = 0, ui_vout = 0\<rparr>" "\<lparr>da_pubkey_x = 1, da_script_path = None\<rparr>"]
  show ?thesis by (simp add: add_bitcoin_utxo_to_list_def environment_genesis_def env_ex_def utxo_ex_def)
qed

definition key_ex :: "nat agg_key" where
  "key_ex = \<lparr>ak_previous = None, ak_current = 1\<rparr>"

lemma env_ex_can_pay: "\<not> cannot_pay fee_ex (payment_amount fee_ex 600 2) (env_ex 900)"
  by (simp add: cannot_pay_def env_ex_def fee_ex_eval payment_amount_def top_value_def)

text \<open>A transfer of exactly the dust limit and one below it: only the first is an output, and the batch succeeds.\<close>

theorem bitcoin_batch_exact_witness:
  "\<exists>call st' change. all_batch_new_unsigned id fee_ex (Some key_ex) [(600, 5), (599, 6)] (env_ex 900) = Some (Inr call, st')
    \<and> mset (bx_inputs call) + mset (en_available_utxos st') = mset [utxo_ex 1 900, utxo_ex 1 900]
    \<and> bx_outputs call = \<lparr>bo_amount = BITCOIN_DUST_LIMIT, bo_script_pubkey = 5\<rparr> #
        (if BITCOIN_DUST_LIMIT \<le> change then [output_of (change, 1)] else [])
    \<and> pool_amount (bx_inputs call) = 718 + sum_list (map (fee_for_utxo fee_ex) (bx_inputs call)) + change"
proof -
  have p: "payments [(600, 5), (599, 6)] = [(600 :: nat, 5 :: nat)]" by (simp add: payments_def BITCOIN_DUST_LIMIT_def)
  have a: "payment_amount fee_ex 600 2 = 718" by (simp add: payment_amount_def fee_ex_eval)
  have e: "pool_amount (en_available_utxos (env_ex 900)) < 2 ^ 64" "ak_current key_ex = 1"
    "en_available_utxos (env_ex 900) = [utxo_ex 1 900, utxo_ex 1 900]" by (simp_all add: env_ex_def fee_ex_eval key_ex_def)
  obtain res st' where run: "all_batch_new_unsigned id fee_ex (Some key_ex) [(600, 5), (599, 6)] (env_ex 900) = Some (res, st')"
    and res: "case res of
       Inl e \<Rightarrow> st' = env_ex 900 \<and> (if payments [(600, 5 :: nat), (599, 6)] = [] then e = AllBatchNotRequired
         else e = AllBatchUtxoSelectionFailed \<and> cannot_pay fee_ex (payment_amount fee_ex 600 2) (env_ex 900))
     | Inr call \<Rightarrow> payments [(600, 5 :: nat), (599, 6)] \<noteq> [] \<and> \<not> cannot_pay fee_ex (payment_amount fee_ex 600 2) (env_ex 900) \<and> (\<exists>change.
         mset (bx_inputs call) + mset (en_available_utxos st') = mset (en_available_utxos (env_ex 900))
         \<and> length (bx_inputs call) \<le> cp_threshold (en_consolidation_parameters (env_ex 900))
         \<and> bx_outputs call = map output_of (payments [(600, 5), (599, 6)]) @
             (if BITCOIN_DUST_LIMIT \<le> change then [output_of (change, id (ak_current key_ex))] else [])
         \<and> pool_amount (bx_inputs call) = payment_amount fee_ex 600 2
             + sum_list (map (fee_for_utxo fee_ex) (bx_inputs call)) + change)"
    using bitcoin_batch_exact [OF env_ex_reachable e(1), of 600 "[(600, 5), (599, 6)]" 2 fee_ex id key_ex] p a by auto
  obtain call where call: "res = Inr call" using res env_ex_can_pay p by (cases res) auto
  have o: "map output_of [(600, 5 :: nat)] = [\<lparr>bo_amount = BITCOIN_DUST_LIMIT, bo_script_pubkey = 5\<rparr>]"
    by (simp add: output_of_def BITCOIN_DUST_LIMIT_def)
  show ?thesis using run res unfolding call sum.case p a e o id_apply append_Cons append_Nil by blast
qed

text \<open>
  C38. A consolidation can lose outputs. It returns without a panic; the selection splits
  the outputs that are not stale into at most the configured number of outputs to spend and
  the rest, and the rest is the new pool in every case. Where the selected outputs are worth
  the fee of the consolidation, they are the inputs of the call, which pays all of them less
  the fee to the vault. Where there are some but they are not worth the fee, the result is
  \<open>NotRequired\<close>: they are in no transaction and not in the pool any more.
\<close>

theorem consolidation_loses_utxos:
  assumes "environment_reachable st" "pool_amount (en_available_utxos st) < 2 ^ 64"
    and "consolidation_fee fi (cp_size (en_consolidation_parameters st)) < 2 ^ 64"
  shows "\<exists>sel rest. select_utxos_for_consolidation (ak_previous key) (fresh_utxos key (en_available_utxos st)) fi
        (en_consolidation_parameters st) = Some (sel, rest)
    \<and> mset sel + mset rest = mset (fresh_utxos key (en_available_utxos st))
    \<and> length sel \<le> cp_size (en_consolidation_parameters st)
    \<and> consolidate_utxos script_of fi (Some key) st = Some
        (if sel = [] \<or> pool_amount sel < consolidation_fee fi (length sel) then Inl ConsolidationNotRequired
         else Inr \<lparr>bx_agg_key = key, bx_inputs = sel, bx_outputs =
           [output_of (pool_amount sel - consolidation_fee fi (length sel), script_of (ak_current key))]\<rparr>,
         st\<lparr>en_available_utxos := rest\<rparr>)"
proof -
  let ?cp = "en_consolidation_parameters st" and ?pool = "fresh_utxos key (en_available_utxos st)"
  obtain sel rest where s: "select_utxos_for_consolidation (ak_previous key) ?pool fi ?cp = Some (sel, rest)"
    "mset sel + mset rest = mset ?pool" "length sel \<le> cp_size ?cp"
    by (rule consolidation_selection [OF reachable_parameters_valid [OF assms(1)]])
  have "pool_amount sel < 2 ^ 64"
    using pool_amount_mset [OF s(2)] fresh_amount_le [of key "en_available_utxos st"] assms(2) by linarith
  moreover have "consolidation_fee fi (length sel) < 2 ^ 64"
    using consolidation_fee_mono [OF s(3), of fi] assms(3) by linarith
  ultimately have c: "consolidation_transaction_change_amount sel fi =
      Some (if sel = [] then None else usub (pool_amount sel) (consolidation_fee fi (length sel)))"
    by (rule change_amount_result)
  have "take_utxos_for_consolidation fi (Some key) st = Some (map_option (Pair sel)
      (if sel = [] then None else usub (pool_amount sel) (consolidation_fee fi (length sel))), st\<lparr>en_available_utxos := rest\<rparr>)"
    using s(1) c by (simp add: take_utxos_for_consolidation_def fresh_utxos_def Let_def)
  then have "consolidate_utxos script_of fi (Some key) st =
    Some (if sel = [] \<or> pool_amount sel < consolidation_fee fi (length sel) then Inl ConsolidationNotRequired
        else Inr \<lparr>bx_agg_key = key, bx_inputs = sel, bx_outputs =
          [output_of (pool_amount sel - consolidation_fee fi (length sel), script_of (ak_current key))]\<rparr>,
      st\<lparr>en_available_utxos := rest\<rparr>)"
    by (auto simp: consolidate_utxos_def select_and_take_bitcoin_utxos_def usub_def output_of_def)
  then show ?thesis using s by blast
qed

text \<open>Two outputs of 100 satoshi with a fee of 58 each are spendable; their consolidation loses both.\<close>

lemma consolidation_ex_selection:
  "select_utxos_for_consolidation (ak_previous key_ex) (fresh_utxos key_ex (en_available_utxos (env_ex 100))) fee_ex
     (en_consolidation_parameters (env_ex 100)) = Some ([utxo_ex 1 100, utxo_ex 1 100], [])"
  by (simp add: select_utxos_for_consolidation_def fresh_utxos_def env_ex_def key_ex_def fee_ex_eval)

theorem consolidation_loses_utxos_witness:
  "consolidate_utxos id fee_ex (Some key_ex) (env_ex 100)
      = Some (Inl ConsolidationNotRequired, (env_ex 100)\<lparr>en_available_utxos := []\<rparr>)
    \<and> en_available_utxos (env_ex 100) = [utxo_ex 1 100, utxo_ex 1 100]"
  using consolidation_loses_utxos [OF env_ex_reachable, of 100 fee_ex key_ex id] consolidation_ex_selection
  by (simp add: env_ex_def fee_ex_eval consolidation_fee_def)

end
