(* ===== verification/Auction.thy ===== *)
theory Auction
  imports CF_Prelude "HOL-Library.Multiset"
begin

text \<open>
  The auction that selects the authorities of the next epoch
  (\<open>src/state-chain/pallets/cf-validator/src/auction_resolver.rs\<close>). Sizes are \<open>u32\<close>. The
  order of equal bids after \<open>sort_unstable_by_key\<close> is not specified, so the sort is a
  parameter of which only \<open>unstable_sort\<close> is known, and so is the product of a \<open>Percent\<close>
  and an amount.
\<close>

record ('i, 'n) bid =
  bid_bidder_id :: 'i
  bid_amount :: 'n

record set_size_parameters =
  sp_min_size :: nat
  sp_max_size :: nat
  sp_max_expansion :: nat

record auction_resolver =
  ar_current_size :: nat
  ar_parameters :: set_size_parameters

datatype auction_error = InvalidParameters | InconsistentRanges | NotEnoughBidders

record ('i, 'n) auction_outcome =
  ao_winners :: "'i list"
  ao_losers :: "'i list"
  ao_bond :: 'n

definition resolver_try_new :: "nat \<Rightarrow> set_size_parameters \<Rightarrow> auction_error + auction_resolver" where
  "resolver_try_new current_size parameters =
     (if \<not> (0 < sp_min_size parameters \<and> sp_min_size parameters \<le> sp_max_size parameters \<and>
         sp_min_size parameters \<le> usat_add 32 current_size (sp_max_expansion parameters))
      then Inl InvalidParameters
      else Inr \<lparr>ar_current_size = current_size, ar_parameters = parameters\<rparr>)"

text \<open>\<open>sort_unstable_by_key(Reverse(amount))\<close>.\<close>

definition unstable_sort :: "(('i, 'n::linorder) bid list \<Rightarrow> ('i, 'n) bid list) \<Rightarrow> bool" where
  "unstable_sort sort_desc \<longleftrightarrow>
     (\<forall>bids. mset (sort_desc bids) = mset bids \<and> sorted (rev (map bid_amount (sort_desc bids))))"

text \<open>\<open>as u32\<close> keeps the low 32 bits; \<open>expect\<close> panics where there is no winner.\<close>

definition resolve_auction ::
  "(('i, 'n::linorder) bid list \<Rightarrow> ('i, 'n) bid list) \<Rightarrow> (nat \<Rightarrow> 'n \<Rightarrow> 'n) \<Rightarrow> auction_resolver \<Rightarrow>
   ('i, 'n) bid list \<Rightarrow> nat \<Rightarrow> (auction_error + ('i, 'n) auction_outcome) option" where
  "resolve_auction sort_desc percent_mul resolver auction_candidates auction_bid_cutoff_percentage =
     (if \<not> sp_min_size (ar_parameters resolver) \<le> length auction_candidates mod 2 ^ 32
      then Some (Inl NotEnoughBidders)
      else let target_size = min (sp_max_size (ar_parameters resolver))
                 (usat_add 32 (ar_current_size resolver) (sp_max_expansion (ar_parameters resolver)));
               auction_candidates = sort_desc auction_candidates;
               split_at = min target_size (length auction_candidates);
               losers = drop split_at auction_candidates;
               auction_candidates = take split_at auction_candidates
           in if auction_candidates = [] then None
              else let bond = bid_amount (last auction_candidates);
                       winners = map bid_bidder_id auction_candidates;
                       cutoff_bid = percent_mul auction_bid_cutoff_percentage bond;
                       losers = map bid_bidder_id (takeWhile (\<lambda>b. cutoff_bid \<le> bid_amount b) losers)
                   in Some (Inr \<lparr>ao_winners = winners, ao_losers = losers, ao_bond = bond\<rparr>))"

section \<open>The outcome\<close>

lemma sorted_rev_nth: "sorted (rev xs) \<Longrightarrow> i \<le> j \<Longrightarrow> j < length xs \<Longrightarrow> xs ! j \<le> xs ! i"
  by (simp add: sorted_rev_iff_nth_mono)

lemma takeWhile_sorted_desc:
  "sorted (rev (map f xs)) \<Longrightarrow> takeWhile (\<lambda>x. c \<le> f x) xs = filter (\<lambda>x. c \<le> (f x :: 'n::linorder)) xs"
proof (induction xs)
  case (Cons x xs)
  show ?case
  proof (cases "c \<le> f x")
    case False
    have "\<forall>y \<in> set xs. f y \<le> f x" using Cons.prems by (simp add: sorted_append)
    then have "filter (\<lambda>y. c \<le> f y) xs = []" using False by (auto simp: filter_empty_conv)
    then show ?thesis using False by simp
  qed (use Cons in \<open>simp add: sorted_append\<close>)
qed simp

lemma last_take_least:
  assumes "sorted (rev (map f xs))" "0 < n" "n \<le> length xs"
  shows "\<forall>x \<in> set (take n xs). f (last (take n xs)) \<le> (f x :: 'n::linorder)"
    and "\<forall>x \<in> set (drop n xs). f x \<le> f (last (take n xs))"
proof -
  have l: "last (take n xs) = xs ! (n - 1)" using assms(2,3) by (subst last_conv_nth) auto
  have mono: "f (xs ! j) \<le> f (xs ! i)" if "i \<le> j" "j < length xs" for i j
    using sorted_rev_nth [OF assms(1) that(1)] that by simp
  show "\<forall>x \<in> set (take n xs). f (last (take n xs)) \<le> f x"
    unfolding l using mono assms(2,3) by (auto simp: in_set_conv_nth)
  show "\<forall>x \<in> set (drop n xs). f x \<le> f (last (take n xs))"
    unfolding l using mono assms(2,3) by (auto simp: in_set_conv_nth)
qed

section \<open>Properties\<close>

text \<open>
  C9. An auction of a resolver that \<open>try_new\<close> accepts never panics. It fails exactly where
  there are fewer candidates than the minimum size. Otherwise the candidates are split into
  winners and others such that no other candidate bid more than a winner, the bond is the
  lowest bid of a winner, the number of winners is the largest that the maximum size and
  the expansion allow, hence at least the minimum, and the losers are exactly the others
  whose bid reaches the cutoff, by descending bid.
\<close>

theorem auction_outcome_exact:
  fixes bids :: "('i, 'n::linorder) bid list"
  assumes "unstable_sort sort_desc" and "resolver_try_new current_size params = Inr resolver"
    and "length bids < 2 ^ 32"
    and "target = min (sp_max_size params) (usat_add 32 current_size (sp_max_expansion params))"
  shows "if length bids < sp_min_size params
    then resolve_auction sort_desc percent_mul resolver bids cutoff = Some (Inl NotEnoughBidders)
    else \<exists>won rest out. resolve_auction sort_desc percent_mul resolver bids cutoff = Some (Inr out)
      \<and> mset won + mset rest = mset bids \<and> length won = min target (length bids)
      \<and> sp_min_size params \<le> length won \<and> ao_winners out = map bid_bidder_id won
      \<and> ao_bond out \<in> bid_amount ` set won \<and> (\<forall>b \<in> set won. ao_bond out \<le> bid_amount b)
      \<and> (\<forall>b \<in> set rest. bid_amount b \<le> ao_bond out) \<and> sorted (rev (map bid_amount rest))
      \<and> ao_losers out = map bid_bidder_id (filter (\<lambda>b. percent_mul cutoff (ao_bond out) \<le> bid_amount b) rest)"
proof (cases "length bids < sp_min_size params")
  case True
  have "ar_parameters resolver = params" using assms(2) by (auto simp: resolver_try_new_def split: if_splits)
  then show ?thesis using True assms(3) by (simp add: resolve_auction_def)
next
  case False
  have r: "resolver = \<lparr>ar_current_size = current_size, ar_parameters = params\<rparr>"
    "0 < sp_min_size params" "sp_min_size params \<le> target"
    using assms(2,4) by (auto simp: resolver_try_new_def split: if_splits)
  define xs where "xs = sort_desc bids"
  have xs: "mset xs = mset bids" "sorted (rev (map bid_amount xs))" using assms(1) by (simp_all add: unstable_sort_def xs_def)
  have len: "length xs = length bids" by (rule mset_eq_length [OF xs(1)])
  define n where "n = min target (length xs)"
  have n: "0 < n" "n \<le> length xs" "sp_min_size params \<le> n" using r(2,3) False len by (auto simp: n_def)
  have ne: "take n xs \<noteq> []" using n by auto
  have drop: "sorted (rev (map bid_amount (drop n xs)))"
    using xs(2) by (metis append_take_drop_id map_append rev_append sorted_append)
  let ?bond = "bid_amount (last (take n xs))"
  have n_eq: "min (min (sp_max_size params) (usat_add 32 current_size (sp_max_expansion params))) (length xs) = n"
    using assms(4) by (simp add: n_def)
  have "\<not> \<not> sp_min_size params \<le> length bids mod 2 ^ 32" using False assms(3) by simp
  then have run: "resolve_auction sort_desc percent_mul resolver bids cutoff = Some (Inr
      \<lparr>ao_winners = map bid_bidder_id (take n xs),
       ao_losers = map bid_bidder_id (takeWhile (\<lambda>b. percent_mul cutoff ?bond \<le> bid_amount b) (drop n xs)),
       ao_bond = ?bond\<rparr>)"
    unfolding resolve_auction_def r(1) Let_def auction_resolver.simps xs_def [symmetric] n_eq using ne by simp
  have "mset (take n xs) + mset (drop n xs) = mset bids"
    by (metis append_take_drop_id mset_append xs(1))
  moreover have "?bond \<in> bid_amount ` set (take n xs)" using ne by simp
  moreover have "length (take n xs) = min target (length bids)" using len by (simp add: n_def)
  moreover note last_take_least [OF xs(2) n(1,2)] takeWhile_sorted_desc [OF drop] drop n(3)
  ultimately show ?thesis
    unfolding run using False n(2)
    by (simp only: if_False) (intro exI [of _ "take n xs"] exI [of _ "drop n xs"], simp)
qed

definition bids_ex :: "(nat, nat) bid list" where
  "bids_ex = map (\<lambda>(k, x). \<lparr>bid_bidder_id = k, bid_amount = x\<rparr>) [(1, 50), (2, 80), (3, 70), (4, 30)]"

definition params_ex :: set_size_parameters where
  "params_ex = \<lparr>sp_min_size = 1, sp_max_size = 2, sp_max_expansion = 5\<rparr>"

theorem auction_outcome_exact_witness:
  "\<exists>out. resolve_auction (\<lambda>bids. rev (sort_key bid_amount bids)) (\<lambda>p x. p * x div 100)
      \<lparr>ar_current_size = 0, ar_parameters = params_ex\<rparr> bids_ex 60 = Some (Inr out) \<and> length (ao_winners out) = 2"
proof -
  let ?sort = "\<lambda>bids :: (nat, nat) bid list. rev (sort_key bid_amount bids)"
  have srt: "unstable_sort ?sort" by (simp add: unstable_sort_def rev_map [symmetric])
  have new: "resolver_try_new 0 params_ex = Inr \<lparr>ar_current_size = 0, ar_parameters = params_ex\<rparr>"
    by (simp add: resolver_try_new_def params_ex_def usat_add_def umax_def)
  have len: "length bids_ex = 4" by (simp add: bids_ex_def)
  have target: "2 = min (sp_max_size params_ex) (usat_add 32 0 (sp_max_expansion params_ex))"
    by (simp add: params_ex_def usat_add_def umax_def)
  have small: "length bids_ex < 2 ^ 32" and "\<not> length bids_ex < sp_min_size params_ex" by (simp_all add: len params_ex_def)
  with auction_outcome_exact [OF srt new small target, of "\<lambda>p x. p * x div 100" 60]
  have "\<exists>won rest out. resolve_auction ?sort (\<lambda>p x. p * x div 100)
      \<lparr>ar_current_size = 0, ar_parameters = params_ex\<rparr> bids_ex 60 = Some (Inr out)
      \<and> mset won + mset rest = mset bids_ex \<and> length won = min 2 (length bids_ex)
      \<and> sp_min_size params_ex \<le> length won \<and> ao_winners out = map bid_bidder_id won"
    unfolding if_not_P [OF \<open>\<not> length bids_ex < sp_min_size params_ex\<close>] by blast
  then show ?thesis using len by (elim exE conjE) simp
qed

end
