(* ===== verification/Spec2Isabelle.thy ===== *)
theory Spec2Isabelle
  imports Pool_Ledger Boost_Ledger Funding_Ledger Bitcoin_Ledger Auction
begin

text \<open>
  A verification of parts of the Chainflip backend. Chainflip is a cross-chain exchange: a
  blockchain of its own, the state chain, keeps the accounts, runs the automated market
  maker and decides what is paid out on the external chains. The parts verified here are
  those that hold or move value.

  \<^bold>\<open>The program.\<close> Paths are relative to \<open>src/state-chain\<close>.

  \<^item> \<open>amm\<close>: the market maker. A pool (\<open>lib.rs\<close>) combines limit orders (\<open>limit_orders.rs\<close>)
    and range orders (\<open>range_orders.rs\<close>) of one pair of assets, and a swap takes the better
    of the two round by round. Both use the prices and ticks of \<open>common.rs\<close>.
  \<^item> \<open>pallets/cf-ingress-egress/src/boost_pool.rs\<close>: pools of funds that advance deposits
    before they are final, for a fee that is shared among the boosters.
  \<^item> \<open>pallets/cf-flip\<close>: the FLIP token. Funds move by imbalances (\<open>imbalances.rs\<close>) that are
    settled or reverted; \<open>on_charge_transaction.rs\<close> takes the transaction fees.
  \<^item> \<open>pallets/cf-funding\<close>: accounts are funded from Ethereum and redeem their funds to it.
    It calls the FLIP pallet and keeps the list of pending redemptions in step with it.
  \<^item> \<open>chains/src/btc.rs\<close>, \<open>chains/src/btc\<close> and \<open>pallets/cf-environment\<close>: the Bitcoin vault.
    The environment pallet keeps the unspent outputs, a selection takes some of them, and
    \<open>api.rs\<close> builds the transaction.
  \<^item> \<open>pallets/cf-validator/src/auction_resolver.rs\<close>: the auction for the authority set.

  \<^bold>\<open>Conventions.\<close> A function that can panic returns an \<open>option\<close>, and \<open>None\<close> is the panic;
  a \<open>Result\<close> of the code is a sum, with the error on the left. Unsigned integers are
  natural numbers whose operations write out the width: \<open>uadd\<close>, \<open>usub\<close>, \<open>umul\<close> and \<open>uconv\<close>
  panic out of range, \<open>usat_add\<close> and \<open>usat_mul\<close> saturate. For \<open>U256\<close> and \<open>U512\<close> this is what
  the library does. For the primitive types it is what a build with overflow checks does;
  the release profile of \<open>src/Cargo.toml\<close> does not ask for them, and there the operation
  would wrap. The model agrees with both builds as long as it returns, so a theorem that a
  function returns also says that nothing overflows. A \<open>BTreeMap\<close> or a
  storage map is a sorted association list. Structures are records, enumerations are
  datatypes. A call that returns an error leaves the storage as it was, since FRAME rolls
  calls back, except where the code runs outside of a call and the model says so. Events,
  logging and weights are left out.

  \<^bold>\<open>The theories.\<close>

  \<^item> \<open>CF_Prelude\<close> holds the checked operations, rounded divisions and maps with their
    interface \<open>ordered_map\<close>; \<open>CF_Maps\<close> adds sums over maps.
  \<^item> \<open>Amm_Common\<close> models \<open>common.rs\<close>. \<open>Amm_Tick_Math\<close> proves that
    \<open>tick_at_sqrt_price\<close> returns the greatest tick whose price is not above the given one.
  \<^item> \<open>Limit_Float\<close> models the float of \<open>limit_orders.rs\<close> and proves its products exact up to
    the stated rounding. \<open>Limit_Orders\<close> models the rest of the file, \<open>Limit_Solvency\<close>
    proves the effect of every operation, over the pricing interface \<open>limit_pricing\<close>, and
    \<open>Limit_Ledger\<close> has the transition system \<open>lo_step\<close>: solvency, no panics outside of
    \<open>swap\<close>, what a swap returns and when it panics, and the price that is paid.
  \<^item> \<open>Range_Orders\<close> models \<open>range_orders.rs\<close>. \<open>Range_Math\<close> compares its rounded amounts with
    exact ones, \<open>Range_Solvency\<close> has the invariant and the contract of \<open>swap\<close>,
    \<open>Range_Positions\<close> the operations on positions, and \<open>Range_Ledger\<close> the transition
    system \<open>ro_step\<close>: solvency, invariant, that a swap returns, and exactly when a mint
    panics.
  \<^item> \<open>Amm_Pool\<close> models \<open>lib.rs\<close>, and \<open>Pool_Ledger\<close> shows that a run of the pool is a run of
    its two halves, from which its solvency follows, that a swap ends and only the limit
    orders can make it panic, and that the reported depths of the halves use different units.
  \<^item> \<open>Boost_Pool\<close> models the boost pool, and \<open>Boost_Ledger\<close> proves its invariant and what it
    owes: the boosters are covered up to less than one unit for each boost, since the fee
    charged is rounded down, and the bound is needed.
  \<^item> \<open>Flip\<close> models the FLIP pallet, and \<open>Flip_Ledger\<close> proves for each operation that the
    tokens are conserved; its locale \<open>step_invariant\<close> carries an invariant along the runs
    of a transition system and is interpreted for both pallets. \<open>Funding\<close> models the
    funding pallet. \<open>Funding_Ledger\<close> has the transition system of both pallets together:
    conservation, agreement of the pending redemptions, exact redemptions, slashes and
    fees, and that an expired redemption lifts the bindings of an account.
  \<^item> \<open>Bitcoin_Utxo\<close> models the Bitcoin vault. \<open>Bitcoin_Ledger\<close> proves exactly where
    the selection fails or panics, that a batch fails only where it must and accounts for
    every satoshi, and that a consolidation can lose outputs.
  \<^item> \<open>Auction\<close> models and proves correct the auction.

  \<^bold>\<open>Loops.\<close> No model uses fuel. Loops over a collection are folds. The loops of the swaps
  and of the output selection are functions with a termination proof: a limit order swap
  consumes a pool in each round that leaves input, a range order swap crosses a tick, a
  round of the combined swap ends one of the two offers, and the selection moves up the
  list. So a theorem that such a loop returns says that it does not panic.

  \<^bold>\<open>Parameters.\<close> Code of other packages is a parameter with what its documentation says:
  \<open>boost_lib\<close> with \<open>boost_lib_ok\<close> for the rational products of \<open>sp_runtime\<close> and the random
  generator, \<open>frame_lib\<close> with \<open>frame_ok\<close> for the imbalances of \<open>frame_support\<close>,
  \<open>unstable_sort\<close> for the unstable sort, and the products with \<open>Permill\<close> and \<open>Percent\<close>, of
  which nothing is assumed where they stand alone. Each theorem with such a hypothesis has
  a witness with a concrete instance. \<open>funding_env\<close> is what the funding pallet reads from
  other pallets: safe mode, the checks for redemptions and roles, the clock, and whether
  an account is reaped.

  \<^bold>\<open>Not modelled.\<close> The pallets for deposits and egress, liquidity providers, swapping,
  rotation of authorities, threshold signatures, broadcasts, witnessing, emissions,
  governance and reputation: they work through each other's traits, so a faithful model
  needs most of them at once. Of the environment pallet the addresses and chain ids, the
  safe mode and the Polkadot nonce are left out. The engine, the node, the remote procedure
  calls and the command line tools are input and output and cryptography, and so are the
  encodings of transactions and addresses of the external chains. Tests, benchmarks, weights
  and migrations of storage are left out. That the \<open>u64\<close> and \<open>u128\<close> sums of amounts that
  come from other chains do not overflow is a hypothesis of the theorems on the Bitcoin
  vault and on restricted funds.
\<close>

end
